(* ===== verification/Hacspec_Prelude.thy ===== *)
theory Hacspec_Prelude
  imports Main "HOL-Library.Word" "HOL-Library.Monad_Syntax"
begin

text \<open>
  The vocabulary shared by every component of the development.

  \<^item> A Rust computation that may panic is a value of \<open>'a option\<close>: \<open>None\<close> is the panic, whatever
    its message. The library is modelled in the debug profile: \<open>debug_assert!\<close> is checked and
    arithmetic on machine integers panics on overflow.
  \<^item> \<open>usize\<close> is a natural number below \<open>2 ^ 64\<close> (a 64-bit target); \<open>usize_add\<close>, \<open>usize_sub\<close>,
    \<open>usize_mul\<close> and \<open>usize_div\<close> are its checked operations.
  \<^item> A Rust \<open>for\<close> loop over a range is \<open>for_range\<close>, a fold in the option monad; \<open>for_range_rule\<close>
    is its total-correctness rule.
  \<^item> \<open>le_split\<close> and \<open>le_join\<close> are the little-endian bytes of a word and their inverse; they are
    the reference against which the byte conversions of the code are proved.
\<close>

unbundle bit_operations_syntax

named_theorems usize_defs \<open>definitions of the checked operations on usize\<close>
named_theorems vec_defs \<open>definitions of the indexed reads and writes of a Rust vector\<close>

section \<open>Names of the model's types\<close>

type_synonym u8 = "8 word"
type_synonym u16 = "16 word"
type_synonym u32 = "32 word"
type_synonym u64 = "64 word"
type_synonym u128 = "128 word"
type_synonym usize = nat

section \<open>Checked arithmetic on usize\<close>

definition usize_fits :: "nat \<Rightarrow> bool" where
  "usize_fits n \<longleftrightarrow> n < 2 ^ 64"

definition usize_add :: "usize \<Rightarrow> usize \<Rightarrow> usize option" where
  [usize_defs]: "usize_add a b = (if usize_fits (a + b) then Some (a + b) else None)"

definition usize_sub :: "usize \<Rightarrow> usize \<Rightarrow> usize option" where
  [usize_defs]: "usize_sub a b = (if b \<le> a then Some (a - b) else None)"

definition usize_mul :: "usize \<Rightarrow> usize \<Rightarrow> usize option" where
  [usize_defs]: "usize_mul a b = (if usize_fits (a * b) then Some (a * b) else None)"

definition usize_div :: "usize \<Rightarrow> usize \<Rightarrow> usize option" where
  [usize_defs]: "usize_div a b = (if b = 0 then None else Some (a div b))"

lemma usize_fits_mono: "usize_fits n \<Longrightarrow> m \<le> n \<Longrightarrow> usize_fits m"
  by (simp add: usize_fits_def)

lemma usize_add_Some_iff [simp]: "usize_add a b = Some c \<longleftrightarrow> usize_fits (a + b) \<and> c = a + b"
  by (auto simp: usize_add_def)

lemma usize_sub_Some_iff [simp]: "usize_sub a b = Some c \<longleftrightarrow> b \<le> a \<and> c = a - b"
  by (auto simp: usize_sub_def)

lemma usize_add_fits [simp]: "usize_fits (a + b) \<Longrightarrow> usize_add a b = Some (a + b)"
  by simp

lemma usize_sub_le [simp]: "b \<le> a \<Longrightarrow> usize_sub a b = Some (a - b)"
  by simp

lemma usize_sub_gt [simp]: "a < b \<Longrightarrow> usize_sub a b = None"
  by (simp add: usize_sub_def)

lemma usize_mul_fits [simp]: "usize_fits (a * b) \<Longrightarrow> usize_mul a b = Some (a * b)"
  by (simp add: usize_mul_def)

section \<open>Assertions and loops\<close>

definition rust_assert :: "bool \<Rightarrow> unit option" where
  "rust_assert P = (if P then Some () else None)"

lemma rust_assert_simps [simp]:
  "rust_assert True = Some ()" "rust_assert False = None"
  "rust_assert P = Some u \<longleftrightarrow> P" "rust_assert P = None \<longleftrightarrow> \<not> P"
  by (simp_all add: rust_assert_def)

lemma bind_rust_assert [simp]: "rust_assert P \<bind> f = (if P then f () else None)"
  by (simp add: rust_assert_def)

lemma if_bind_None: "(if c then x else None) \<bind> f = (if c then x \<bind> f else None)"
  by simp

fun foldM :: "('x \<Rightarrow> 's \<Rightarrow> 's option) \<Rightarrow> 'x list \<Rightarrow> 's \<Rightarrow> 's option" where
  "foldM f [] s = Some s"
| "foldM f (x # xs) s = f x s \<bind> foldM f xs"

definition for_range :: "nat \<Rightarrow> nat \<Rightarrow> (nat \<Rightarrow> 's \<Rightarrow> 's option) \<Rightarrow> 's \<Rightarrow> 's option" where
  "for_range lo hi f s = foldM f [lo..<hi] s"

lemma foldM_append: "foldM f (xs @ ys) s = foldM f xs s \<bind> foldM f ys"
  by (induction xs arbitrary: s) (auto split: bind_splits)

lemma for_range_empty [simp]: "hi \<le> lo \<Longrightarrow> for_range lo hi f s = Some s"
  by (simp add: for_range_def)

lemma for_range_Suc: "lo \<le> hi \<Longrightarrow> for_range lo (Suc hi) f s = for_range lo hi f s \<bind> f hi"
  by (auto simp: for_range_def foldM_append split: bind_splits)

lemma for_range_rule:
  assumes "lo \<le> hi" and "P lo s"
    and step: "\<And>i s. lo \<le> i \<Longrightarrow> i < hi \<Longrightarrow> P i s \<Longrightarrow> \<exists>s'. f i s = Some s' \<and> P (Suc i) s'"
  shows "\<exists>s'. for_range lo hi f s = Some s' \<and> P hi s'"
  using assms
proof (induction hi)
  case 0
  then show ?case by simp
next
  case (Suc hi)
  show ?case
  proof (cases "lo \<le> hi")
    case True
    with Suc obtain s' where s': "for_range lo hi f s = Some s'" "P hi s'"
      by (metis less_Suc_eq)
    with Suc.prems(3) [of hi s'] True show ?thesis
      by (auto simp: for_range_Suc)
  next
    case False
    with Suc.prems show ?thesis by (simp add: le_Suc_eq)
  qed
qed

lemma for_range_cong:
  assumes "\<And>i s. lo \<le> i \<Longrightarrow> i < hi \<Longrightarrow> f i s = g i s"
  shows "for_range lo hi f s = for_range lo hi g s"
  using assms
proof (induction hi)
  case (Suc hi)
  then show ?case
    by (cases "lo \<le> hi") (auto simp: for_range_Suc split: bind_splits)
qed simp

lemma for_range_None:
  assumes "lo \<le> hi" and "for_range lo hi f s = None"
  shows "for_range lo (Suc hi) f s = None"
  using assms by (simp add: for_range_Suc)

text \<open>An invariant that the body keeps whenever it does not panic holds of the loop's result.\<close>

lemma for_range_inv:
  assumes "for_range lo hi f s = Some t" and "P s"
    and "\<And>i s t. lo \<le> i \<Longrightarrow> i < hi \<Longrightarrow> f i s = Some t \<Longrightarrow> P s \<Longrightarrow> P t"
  shows "P t"
  using assms
proof (induction hi arbitrary: t)
  case 0
  then show ?case by simp
next
  case (Suc hi)
  show ?case
  proof (cases "lo \<le> hi")
    case True
    with Suc.prems(1) obtain u where u: "for_range lo hi f s = Some u" "f hi u = Some t"
      by (auto simp: for_range_Suc bind_eq_Some_conv)
    with Suc have "P u" by (metis less_SucI)
    with u Suc.prems(3) True show ?thesis by blast
  next
    case False
    with Suc.prems show ?thesis by simp
  qed
qed

text \<open>The rule for a loop that counts down, \<open>for i in (0..n).rev()\<close>.\<close>

lemma foldM_rev_rule:
  assumes "P n s"
    and step: "\<And>i s. i < n \<Longrightarrow> P (Suc i) s \<Longrightarrow> \<exists>s'. f i s = Some s' \<and> P i s'"
  shows "\<exists>s'. foldM f (rev [0..<n]) s = Some s' \<and> P 0 s'"
  using assms
proof (induction n arbitrary: s)
  case 0
  then show ?case by simp
next
  case (Suc n)
  from Suc.prems(1) Suc.prems(2) [of n s] obtain s' where s': "f n s = Some s'" "P n s'"
    by auto
  from Suc.IH [OF s'(2)] Suc.prems(2) have "\<exists>t. foldM f (rev [0..<n]) s' = Some t \<and> P 0 t"
    by simp
  with s'(1) show ?case by simp
qed

section \<open>Indexed access to a Rust vector\<close>

definition vec_get :: "'a list \<Rightarrow> usize \<Rightarrow> 'a option" where
  [vec_defs]: "vec_get xs i = (if i < length xs then Some (xs ! i) else None)"

definition vec_set :: "'a list \<Rightarrow> usize \<Rightarrow> 'a \<Rightarrow> 'a list option" where
  [vec_defs]: "vec_set xs i v = (if i < length xs then Some (xs[i := v]) else None)"

lemma vec_get_lt [simp]: "i < length xs \<Longrightarrow> vec_get xs i = Some (xs ! i)"
  by (simp add: vec_get_def)

lemma vec_set_lt [simp]: "i < length xs \<Longrightarrow> vec_set xs i v = Some (xs[i := v])"
  by (simp add: vec_set_def)

lemma vec_get_eq_Some [simp]: "vec_get xs i = Some x \<longleftrightarrow> i < length xs \<and> x = xs ! i"
  by (auto simp: vec_get_def)

lemma vec_set_eq_Some [simp]: "vec_set xs i v = Some ys \<longleftrightarrow> i < length xs \<and> ys = xs[i := v]"
  by (auto simp: vec_set_def)

lemma vec_get_eq_None [simp]: "vec_get xs i = None \<longleftrightarrow> length xs \<le> i"
  by (auto simp: vec_get_def)

lemma vec_set_eq_None [simp]: "vec_set xs i v = None \<longleftrightarrow> length xs \<le> i"
  by (auto simp: vec_set_def)

text \<open>A loop over the indices of a vector that reads each element is a loop over the elements.\<close>

lemma for_range_elements:
  "for_range 0 (length xs) (\<lambda>i s. do { x \<leftarrow> vec_get xs i; f x s }) s = foldM f xs s"
proof (induction xs rule: rev_induct)
  case (snoc x xs)
  have "for_range 0 (length xs) (\<lambda>i s. do { x \<leftarrow> vec_get (xs @ [x]) i; f x s }) s
      = for_range 0 (length xs) (\<lambda>i s. do { x \<leftarrow> vec_get xs i; f x s }) s"
    by (rule for_range_cong) (simp add: nth_append)
  moreover have "foldM f [] = Some" by (rule ext) simp
  ultimately show ?case using snoc by (cases "foldM f xs s") (simp_all add: for_range_Suc foldM_append)
qed simp

text \<open>A loop that fills a vector pointwise computes \<open>map\<close>.\<close>

lemma for_range_pointwise:
  assumes "length t = length xs"
  shows "for_range 0 (length xs) (\<lambda>i tmp. do { v \<leftarrow> vec_get xs i; vec_set tmp i (f v) }) t
    = Some (map f xs)"
proof -
  let ?g = "\<lambda>i tmp. do { v \<leftarrow> vec_get xs i; vec_set tmp i (f v) }"
  have "\<exists>s. for_range 0 (length xs) ?g t = Some s
      \<and> s = map f (take (length xs) xs) @ drop (length xs) t"
  proof (rule for_range_rule)
    fix i s assume i: "i < length xs" and s: "s = map f (take i xs) @ drop i t"
    have "drop i t = t ! i # drop (Suc i) t" using i assms by (simp add: Cons_nth_drop_Suc)
    with i s assms show "\<exists>s'. ?g i s = Some s' \<and> s' = map f (take (Suc i) xs) @ drop (Suc i) t"
      by (simp add: list_update_append take_Suc_conv_app_nth)
  qed simp_all
  then show ?thesis using assms by simp
qed

text \<open>Rust's \<open>slice::chunks\<close>, used with a positive constant size only.\<close>

function chunks :: "nat \<Rightarrow> 'a list \<Rightarrow> 'a list list" where
  "chunks n xs = (if n = 0 \<or> xs = [] then [] else take n xs # chunks n (drop n xs))"
  by pat_completeness auto
termination
  by (relation "measure (length \<circ> snd)") auto

declare chunks.simps [simp del]

lemma chunks_Nil [simp]: "chunks n [] = []"
  by (simp add: chunks.simps)

lemma chunks_append:
  assumes "length xs = n" and "0 < n"
  shows "chunks n (xs @ ys) = xs # chunks n ys"
  using assms by (subst chunks.simps) auto

lemma chunks_append_multiple:
  assumes "0 < n" "length xs = n * k"
  shows "chunks n (xs @ ys) = chunks n xs @ chunks n ys"
  using assms(2)
proof (induction k arbitrary: xs)
  case (Suc k)
  have xs: "xs = take n xs @ drop n xs" "length (take n xs) = n" using Suc.prems by simp_all
  have "chunks n ((take n xs @ drop n xs) @ ys) = take n xs # chunks n (drop n xs @ ys)"
    using chunks_append [OF xs(2) assms(1), of "drop n xs @ ys"] by (simp only: append.assoc)
  moreover have "chunks n (take n xs @ drop n xs) = take n xs # chunks n (drop n xs)" by (rule chunks_append [OF xs(2) assms(1)])
  moreover have "chunks n (drop n xs @ ys) = chunks n (drop n xs) @ chunks n ys" by (rule Suc.IH) (use Suc.prems in simp)
  ultimately show ?case unfolding xs(1) [symmetric] by simp
qed simp

lemma chunks_concat:
  "0 < n \<Longrightarrow> \<forall>xs \<in> set xss. length xs = n \<Longrightarrow> chunks n (concat xss) = xss"
  by (induction xss) (auto simp: chunks_append)

lemma concat_chunks: "0 < n \<Longrightarrow> concat (chunks n xs) = xs"
  by (induction n xs rule: chunks.induct) (subst chunks.simps, auto)

lemma length_chunk:
  "n dvd length xs \<Longrightarrow> c \<in> set (chunks n xs) \<Longrightarrow> length c = n"
proof (induction n xs rule: chunks.induct)
  case (1 n xs)
  show ?case
  proof (cases "n = 0 \<or> xs = []")
    case True
    with 1(3) show ?thesis by (subst (asm) chunks.simps) simp
  next
    case False
    with 1(2) have "n \<le> length xs" by (simp add: dvd_imp_le)
    moreover from 1(2) have "n dvd length (drop n xs)" by (simp add: dvd_diff_nat)
    ultimately show ?thesis
      using False 1 by (subst (asm) (2) chunks.simps) auto
  qed
qed

lemma div_round_up_step: "0 < c \<Longrightarrow> 0 < n \<Longrightarrow> (n + c - 1) div c = Suc ((n - c + c - 1) div (c::nat))"
proof (cases "n \<le> c")
  case True
  assume "0 < c" "0 < n"
  then have "n + c - 1 = (n - 1) + c" by simp
  also have "\<dots> div c = (n - 1) div c + 1" using \<open>0 < c\<close> by (intro div_add_self2) simp
  finally show ?thesis using True \<open>0 < c\<close> \<open>0 < n\<close> by simp
next
  case False
  assume "0 < c" "0 < n"
  from False have "n + c - 1 = (n - c + c - 1) + c" by simp
  also have "\<dots> div c = (n - c + c - 1) div c + 1" using \<open>0 < c\<close> by (intro div_add_self2) simp
  finally show ?thesis by simp
qed

lemma div_round_up: "0 < c \<Longrightarrow> (n + c - 1) div c = n div c + (if n mod c = 0 then 0 else 1)" for c :: nat
proof -
  assume c: "0 < c"
  have "n + c - 1 = (n mod c + c - 1) + c * (n div c)" using c by (simp add: algebra_simps)
  then have "(n + c - 1) div c = n div c + (n mod c + c - 1) div c"
    using c by (metis div_mult_self2 less_numeral_extra(3))
  moreover have "(n mod c + c - 1) div c = (if n mod c = 0 then 0 else 1)"
    using c div_round_up_step [of c "n mod c"] by (auto simp: less_imp_le)
  ultimately show ?thesis by simp
qed

lemma length_chunks: "0 < c \<Longrightarrow> length (chunks c xs) = (length xs + c - 1) div c"
proof (induction c xs rule: chunks.induct)
  case (1 c xs)
  show ?case
  proof (cases "xs = []")
    case False
    have "length (chunks c xs) = Suc (length (chunks c (drop c xs)))"
      using False 1(2) by (subst chunks.simps) simp
    then show ?thesis
      using 1 False div_round_up_step [of c "length xs"] by simp
  qed (use 1(2) in simp)
qed

lemma nth_chunks: "i < length (chunks c xs) \<Longrightarrow> chunks c xs ! i = take c (drop (c * i) xs)"
proof (induction c xs arbitrary: i rule: chunks.induct)
  case (1 c xs)
  have ne: "\<not> (c = 0 \<or> xs = [])" using 1(2) by (metis chunks.simps less_nat_zero_code list.size(3))
  then have eq: "chunks c xs = take c xs # chunks c (drop c xs)" by (subst chunks.simps) simp
  show ?case
    using 1 ne eq by (cases i) (simp_all add: add.commute)
qed

lemma nth_chunks_bound: "i < length (chunks c xs) \<Longrightarrow> c * i < length xs"
proof (induction c xs arbitrary: i rule: chunks.induct)
  case (1 c xs)
  have ne: "\<not> (c = 0 \<or> xs = [])" using 1(2) by (metis chunks.simps less_nat_zero_code list.size(3))
  then have eq: "chunks c xs = take c xs # chunks c (drop c xs)" by (subst chunks.simps) simp
  show ?case
  proof (cases i)
    case (Suc j)
    with 1(1) [OF ne, of j] 1(2) eq show ?thesis by simp
  qed (use ne in simp)
qed

lemma map_chunks:
  assumes "\<And>i. i < length (chunks c xs) \<Longrightarrow> f i = g (take c (drop (c * i) xs))"
  shows "map f [0..<length (chunks c xs)] = map g (chunks c xs)"
  using assms by (intro nth_equalityI) (simp_all add: nth_chunks)

lemma concat_exact_chunks:
  "concat (map (\<lambda>i. take c (drop (c * i) xs)) [0..<n]) = take (c * n) xs"
  by (induction n) (simp_all add: take_add [symmetric] add.commute)

lemma chunk_disjoint:
  fixes i j c :: nat
  assumes "j \<noteq> i"
  shows "c * j + c \<le> c * i \<or> c * i + c \<le> c * j"
proof -
  from assms have "Suc j \<le> i \<or> Suc i \<le> j" by auto
  then have "c * Suc j \<le> c * i \<or> c * Suc i \<le> c * j" by (metis mult_le_mono2)
  then show ?thesis by (simp add: add.commute)
qed

lemma nth_replace_slice:
  assumes "n < a \<or> a + length v \<le> n" and "a \<le> length xs" and "n < length xs"
  shows "(take a xs @ v @ drop (a + length v) xs) ! n = xs ! n"
  using assms by (auto simp: nth_append)

section \<open>Little-endian bytes of a word\<close>

definition le_split :: "'a::len word \<Rightarrow> u8 list" where
  "le_split w = map (\<lambda>i. ucast (drop_bit (8 * i) w)) [0..<LENGTH('a) div 8]"

fun le_join :: "u8 list \<Rightarrow> 'a::len word" where
  "le_join [] = 0"
| "le_join (b # bs) = ucast b OR push_bit 8 (le_join bs)"

lemma length_le_split [simp]: "length (le_split (w :: 'a::len word)) = LENGTH('a) div 8"
  by (simp add: le_split_def)

lemma bit_le_join:
  "bit (le_join bs :: 'a::len word) n \<longleftrightarrow>
     n < LENGTH('a) \<and> n div 8 < length bs \<and> bit (bs ! (n div 8)) (n mod 8)"
proof (induction bs arbitrary: n)
  case Nil
  then show ?case by simp
next
  case (Cons b bs)
  show ?case
  proof (cases "n < 8")
    case True
    then show ?thesis by (auto simp: bit_simps)
  next
    case False
    then have "n div 8 = Suc ((n - 8) div 8)" and "n mod 8 = (n - 8) mod 8"
      by (simp_all add: le_div_geq le_mod_geq)
    moreover have "\<not> bit b n"
      using False bit_imp_le_length [of b n] by auto
    ultimately show ?thesis
      using False Cons.IH [of "n - 8"] by (auto simp: bit_simps)
  qed
qed

lemma bit_le_split:
  "i < LENGTH('a) div 8 \<Longrightarrow>
     bit (le_split (w :: 'a::len word) ! i) n \<longleftrightarrow> n < 8 \<and> bit w (8 * i + n)"
  by (simp add: le_split_def bit_simps)

theorem le_join_split:
  assumes "8 dvd LENGTH('a::len)"
  shows "le_join (le_split (w :: 'a word)) = w"
proof (rule bit_word_eqI)
  fix n assume n: "n < LENGTH('a)"
  with assms have "n div 8 < LENGTH('a) div 8" by (auto simp: less_mult_imp_div_less)
  with n show "bit (le_join (le_split w) :: 'a word) n = bit w n"
    by (simp add: bit_le_join bit_le_split)
qed

theorem le_split_join:
  assumes "8 dvd LENGTH('a::len)" and "length bs = LENGTH('a) div 8"
  shows "le_split (le_join bs :: 'a word) = bs"
proof (rule nth_equalityI)
  show "length (le_split (le_join bs :: 'a word)) = length bs" using assms by simp
next
  fix i assume "i < length (le_split (le_join bs :: 'a word))"
  then have i: "i < LENGTH('a) div 8" by simp
  show "le_split (le_join bs :: 'a word) ! i = bs ! i"
  proof (rule bit_word_eqI)
    fix n assume "n < LENGTH(8)"
    then have n: "n < 8" by simp
    with i assms(1) have "8 * i + n < LENGTH('a)" by auto
    with n i assms(2) show "bit (le_split (le_join bs :: 'a word) ! i) n = bit (bs ! i) n"
      by (simp add: bit_le_split bit_le_join)
  qed
qed

section \<open>The most significant bit\<close>

lemma unat_less_power: "unat (w :: 'a::len word) < 2 ^ LENGTH('a)"
  by (rule unsigned_less)

lemma unat_two_power: "i < LENGTH('a) \<Longrightarrow> unat (2 ^ i :: 'a::len word) = 2 ^ i"
proof -
  assume "i < LENGTH('a)"
  then have "unat (word_of_nat (2 ^ i) :: 'a word) = 2 ^ i" by (simp only: unat_of_nat) simp
  then show ?thesis by simp
qed

lemma two_power_pred: "(2::nat) ^ LENGTH('a::len) = 2 * 2 ^ (LENGTH('a) - 1)"
  by (metis One_nat_def Suc_pred len_gt_0 power_Suc)

lemma top_bit_iff: "bit (w :: 'a::len word) (LENGTH('a) - 1) \<longleftrightarrow> 2 ^ (LENGTH('a) - 1) \<le> unat w"
proof -
  let ?h = "2 ^ (LENGTH('a) - 1) :: nat"
  from unat_less_power [of w] have "unat w < 2 * ?h" unfolding two_power_pred .
  then have lt: "unat w div ?h < 2" by (rule less_mult_imp_div_less)
  have "bit w (LENGTH('a) - 1) \<longleftrightarrow> bit (unat w) (LENGTH('a) - 1)"
    by (simp add: bit_unsigned_iff)
  also have "\<dots> \<longleftrightarrow> odd (unat w div ?h)"
    by (simp add: bit_iff_odd)
  also have "\<dots> \<longleftrightarrow> 0 < unat w div ?h"
    using lt by (cases "unat w div ?h") auto
  also have "\<dots> \<longleftrightarrow> ?h \<le> unat w"
    by (simp add: div_greater_zero_iff)
  finally show ?thesis .
qed

lemma drop_bit_top: "drop_bit (LENGTH('a) - 1) (w :: 'a::len word) = of_bool (bit w (LENGTH('a) - 1))"
proof (rule bit_word_eqI)
  fix n
  have "\<not> bit w (LENGTH('a) - 1 + n)" if "0 < n"
    using that bit_imp_le_length [of w "LENGTH('a) - 1 + n"] by auto
  then show "bit (drop_bit (LENGTH('a) - 1) w) n
      = bit (of_bool (bit w (LENGTH('a) - 1)) :: 'a word) n"
    by (cases "n = 0") (auto simp: bit_simps)
qed

end
