(* ===== verification/Secret_Integers.thy ===== *)
theory Secret_Integers
  imports Hacspec_Prelude
begin

text \<open>
  The crate \<open>utils/secret-integers\<close>: wrappers around the machine integers that only offer
  constant-time operations. The macros \<open>define_secret_integer!\<close>,
  \<open>define_secret_unsigned_integer!\<close> and \<open>define_secret_signed_integer!\<close> are instantiated at the
  widths 8, 16, 32, 64 and 128; each of their functions is one definition that is polymorphic in
  the width \<open>'a::len\<close>. The struct \<open>$name(pub $repr)\<close> has the machine integer as its only field, so a
  secret integer is the word itself, unsigned or in two's complement.

  The group of lemmas shows that the branch-free comparison operators compute the masks they
  promise, for both signednesses, and that the byte conversions are inverse to each other and do
  not depend on the byte order of the host.
\<close>

named_theorems secret_defs \<open>definitions of the secret integer operations\<close>

type_synonym 'a secret = "'a word"

section \<open>Classification, constants\<close>

definition classify :: "'a::len word \<Rightarrow> 'a secret" where
  [secret_defs]: "classify x = x"

definition declassify :: "'a::len secret \<Rightarrow> 'a word" where
  [secret_defs]: "declassify x = x"

definition secret_zero :: "'a::len secret" where
  [secret_defs]: "secret_zero = 0"

definition secret_one :: "'a::len secret" where
  [secret_defs]: "secret_one = 1"

section \<open>Arithmetic, shifts and bitwise operations\<close>

text \<open>\<open>define_wrapping_op!\<close>: the operators wrap, the \<open>checked_\<close> methods panic on overflow.\<close>

definition secret_add :: "'a::len secret \<Rightarrow> 'a secret \<Rightarrow> 'a secret" where
  [secret_defs]: "secret_add i1 i2 = i1 + i2"

definition secret_sub :: "'a::len secret \<Rightarrow> 'a secret \<Rightarrow> 'a secret" where
  [secret_defs]: "secret_sub i1 i2 = i1 - i2"

definition secret_mul :: "'a::len secret \<Rightarrow> 'a secret \<Rightarrow> 'a secret" where
  [secret_defs]: "secret_mul i1 i2 = i1 * i2"

definition checked_add :: "'a::len secret \<Rightarrow> 'a secret \<Rightarrow> 'a secret option" where
  "checked_add i1 i2 = (if unat i1 + unat i2 < 2 ^ LENGTH('a) then Some (i1 + i2) else None)"

definition checked_sub :: "'a::len secret \<Rightarrow> 'a secret \<Rightarrow> 'a secret option" where
  "checked_sub i1 i2 = (if unat i2 \<le> unat i1 then Some (i1 - i2) else None)"

definition checked_mul :: "'a::len secret \<Rightarrow> 'a secret \<Rightarrow> 'a secret option" where
  "checked_mul i1 i2 = (if unat i1 * unat i2 < 2 ^ LENGTH('a) then Some (i1 * i2) else None)"

text \<open>
  \<open>define_shift!\<close>: \<open>i1.wrapping_shl(rhs as u32)\<close>; the cast truncates the amount to 32 bits and the
  wrapping shift takes it modulo the width. The right shift is logical on unsigned and arithmetic
  on signed integers.
\<close>

definition shift_amount :: "nat \<Rightarrow> usize \<Rightarrow> nat" where
  "shift_amount bits rhs = (rhs mod 2 ^ 32) mod bits"

definition secret_shl :: "'a::len secret \<Rightarrow> usize \<Rightarrow> 'a secret" where
  [secret_defs]: "secret_shl i1 rhs = push_bit (shift_amount LENGTH('a) rhs) i1"

definition secret_shr :: "'a::len secret \<Rightarrow> usize \<Rightarrow> 'a secret" where
  [secret_defs]: "secret_shr i1 rhs = drop_bit (shift_amount LENGTH('a) rhs) i1"

definition secret_shr_signed :: "'a::len secret \<Rightarrow> usize \<Rightarrow> 'a secret" where
  [secret_defs]: "secret_shr_signed i1 rhs = signed_drop_bit (shift_amount LENGTH('a) rhs) i1"

definition secret_rotate_left :: "'a::len secret \<Rightarrow> usize \<Rightarrow> 'a secret" where
  [secret_defs]: "secret_rotate_left i rotval = word_rotl (rotval mod 2 ^ 32) i"

definition secret_rotate_right :: "'a::len secret \<Rightarrow> usize \<Rightarrow> 'a secret" where
  [secret_defs]: "secret_rotate_right i rotval = word_rotr (rotval mod 2 ^ 32) i"

definition secret_and :: "'a::len secret \<Rightarrow> 'a secret \<Rightarrow> 'a secret" where
  [secret_defs]: "secret_and i1 i2 = i1 AND i2"

definition secret_or :: "'a::len secret \<Rightarrow> 'a secret \<Rightarrow> 'a secret" where
  [secret_defs]: "secret_or i1 i2 = i1 OR i2"

definition secret_xor :: "'a::len secret \<Rightarrow> 'a secret \<Rightarrow> 'a secret" where
  [secret_defs]: "secret_xor i1 i2 = i1 XOR i2"

definition secret_not :: "'a::len secret \<Rightarrow> 'a secret" where
  [secret_defs]: "secret_not i1 = NOT i1"

definition secret_ones :: "'a::len secret" where
  [secret_defs]: "secret_ones = secret_not secret_zero"

text \<open>Negation: complement and increment on unsigned integers, checked \<open>-i1\<close> on signed ones.\<close>

definition secret_neg :: "'a::len secret \<Rightarrow> 'a secret" where
  [secret_defs]: "secret_neg i1 = NOT i1 + 1"

definition secret_neg_signed :: "'a::len secret \<Rightarrow> 'a secret option" where
  "secret_neg_signed i1 = (if sint i1 = - (2 ^ (LENGTH('a) - 1)) then None else Some (- i1))"

section \<open>Constant-time comparison of unsigned integers\<close>

definition comp_eq :: "'a::len secret \<Rightarrow> 'a secret \<Rightarrow> 'a secret" where
  "comp_eq self rhs =
     (let a = self; b = rhs;
          x = secret_xor a b;
          minus_x = secret_neg x;
          x_or_minus_x = secret_or x minus_x;
          xnx = secret_shr x_or_minus_x (LENGTH('a) - 1);
          c = secret_sub xnx secret_one
      in c)"

definition comp_ne :: "'a::len secret \<Rightarrow> 'a secret \<Rightarrow> 'a secret" where
  "comp_ne self rhs = secret_not (comp_eq self rhs)"

definition comp_gte :: "'a::len secret \<Rightarrow> 'a secret \<Rightarrow> 'a secret" where
  "comp_gte self rhs =
     (let x = self; y = rhs;
          x_xor_y = secret_xor x y;
          x_sub_y = secret_sub x y;
          x_sub_y_xor_y = secret_xor x_sub_y y;
          q = secret_or x_xor_y x_sub_y_xor_y;
          x_xor_q = secret_xor x q;
          x_xor_q' = secret_shr x_xor_q (LENGTH('a) - 1);
          c = secret_sub x_xor_q' secret_one
      in c)"

definition comp_gt :: "'a::len secret \<Rightarrow> 'a secret \<Rightarrow> 'a secret" where
  "comp_gt self rhs = secret_xor (comp_gte self rhs) (comp_eq self rhs)"

definition comp_lte :: "'a::len secret \<Rightarrow> 'a secret \<Rightarrow> 'a secret" where
  "comp_lte self rhs = secret_not (comp_gt self rhs)"

definition comp_lt :: "'a::len secret \<Rightarrow> 'a secret \<Rightarrow> 'a secret" where
  "comp_lt self rhs = secret_not (comp_gte self rhs)"

section \<open>Constant-time comparison of signed integers\<close>

definition scomp_ne :: "'a::len secret \<Rightarrow> 'a secret \<Rightarrow> 'a secret" where
  "scomp_ne self rhs =
     (let x = secret_or (secret_sub self rhs) (secret_sub rhs self)
      in secret_shr_signed x (LENGTH('a) - 1))"

definition scomp_eq :: "'a::len secret \<Rightarrow> 'a secret \<Rightarrow> 'a secret" where
  "scomp_eq self rhs = secret_not (scomp_ne self rhs)"

definition scomp_lt :: "'a::len secret \<Rightarrow> 'a secret \<Rightarrow> 'a secret" where
  "scomp_lt self rhs =
     (let d = secret_sub self rhs;
          x = secret_xor self (secret_and (secret_xor self d) (secret_xor rhs d))
      in secret_shr_signed x (LENGTH('a) - 1))"

definition scomp_gt :: "'a::len secret \<Rightarrow> 'a secret \<Rightarrow> 'a secret" where
  "scomp_gt self rhs =
     secret_and (secret_not (scomp_lt self rhs)) (secret_not (scomp_eq self rhs))"

definition scomp_gte :: "'a::len secret \<Rightarrow> 'a secret \<Rightarrow> 'a secret" where
  "scomp_gte self rhs = secret_or (scomp_gt self rhs) (scomp_eq self rhs)"

definition scomp_lte :: "'a::len secret \<Rightarrow> 'a secret \<Rightarrow> 'a secret" where
  "scomp_lte self rhs = secret_or (scomp_lt self rhs) (scomp_eq self rhs)"

section \<open>Byte conversions\<close>

text \<open>
  The code converts through \<open>core::mem::transmute\<close>, which exposes the byte order of the host, and
  corrects it with \<open>to_le\<close> and \<open>to_be\<close>. The byte order is a parameter of the model.
\<close>

datatype host = LittleEndian | BigEndian

definition transmute_to_bytes :: "host \<Rightarrow> 'a::len word \<Rightarrow> u8 list" where
  "transmute_to_bytes h w = (case h of LittleEndian \<Rightarrow> le_split w | BigEndian \<Rightarrow> rev (le_split w))"

definition transmute_from_bytes :: "host \<Rightarrow> u8 list \<Rightarrow> 'a::len word" where
  "transmute_from_bytes h bs = (case h of LittleEndian \<Rightarrow> le_join bs | BigEndian \<Rightarrow> le_join (rev bs))"

definition swap_bytes :: "'a::len word \<Rightarrow> 'a word" where
  "swap_bytes w = le_join (rev (le_split w))"

definition to_le :: "host \<Rightarrow> 'a::len word \<Rightarrow> 'a word" where
  "to_le h w = (case h of LittleEndian \<Rightarrow> w | BigEndian \<Rightarrow> swap_bytes w)"

definition to_be :: "host \<Rightarrow> 'a::len word \<Rightarrow> 'a word" where
  "to_be h w = (case h of LittleEndian \<Rightarrow> swap_bytes w | BigEndian \<Rightarrow> w)"

definition secret_to_le_bytes :: "host \<Rightarrow> 'a::len secret list \<Rightarrow> 8 secret list" where
  "secret_to_le_bytes h ints =
     concat (map (\<lambda>int. map classify (transmute_to_bytes h (to_le h (declassify int)))) ints)"

definition secret_to_be_bytes :: "host \<Rightarrow> 'a::len secret list \<Rightarrow> 8 secret list" where
  "secret_to_be_bytes h ints =
     concat (map (\<lambda>int. map classify (transmute_to_bytes h (to_be h (declassify int)))) ints)"

definition secret_from_le_bytes :: "host \<Rightarrow> 8 secret list \<Rightarrow> 'a::len secret list option" where
  "secret_from_le_bytes h bytes = do {
     rust_assert (length bytes mod (LENGTH('a) div 8) = 0);
     Some (map (\<lambda>chunk. classify (to_le h (transmute_from_bytes h (map declassify chunk))))
       (chunks (LENGTH('a) div 8) bytes))
   }"

definition secret_from_be_bytes :: "host \<Rightarrow> 8 secret list \<Rightarrow> 'a::len secret list option" where
  "secret_from_be_bytes h bytes = do {
     rust_assert (length bytes mod (LENGTH('a) div 8) = 0);
     Some (map (\<lambda>chunk. classify (to_be h (transmute_from_bytes h (map declassify chunk))))
       (chunks (LENGTH('a) div 8) bytes))
   }"

section \<open>Casts\<close>

text \<open>\<open>define_safe_casting!\<close>, \<open>define_unsafe_casting!\<close>: Rust's \<open>as\<close> between integer types.\<close>

definition cast_unsigned :: "'a::len secret \<Rightarrow> 'b::len secret" where
  "cast_unsigned x = ucast x"

definition cast_signed :: "'a::len secret \<Rightarrow> 'b::len secret" where
  "cast_signed x = scast x"

section \<open>The masks of the unsigned comparisons\<close>

lemma shift_amount_top:
  "LENGTH('a::len) \<le> 2 ^ 32 \<Longrightarrow> shift_amount LENGTH('a) (LENGTH('a) - 1) = LENGTH('a) - 1"
proof -
  assume "LENGTH('a) \<le> 2 ^ 32"
  then have "(LENGTH('a) - 1) mod 2 ^ 32 = LENGTH('a) - 1"
    using len_gt_0 [where 'a = 'a] by (intro mod_less) linarith
  then show ?thesis by (simp add: shift_amount_def)
qed

text \<open>Shifting the top bit down and subtracting one is the mask of its complement.\<close>

lemma top_bit_mask:
  assumes "LENGTH('a::len) \<le> 2 ^ 32"
  shows "secret_sub (secret_shr (w :: 'a word) (LENGTH('a) - 1)) secret_one
    = (if bit w (LENGTH('a) - 1) then 0 else - 1)"
  using shift_amount_top [OF assms] drop_bit_top [of w]
  by (simp add: secret_shr_def secret_sub_def secret_one_def)

lemma top_bit_mask_signed:
  assumes "LENGTH('a::len) \<le> 2 ^ 32"
  shows "secret_shr_signed (w :: 'a word) (LENGTH('a) - 1)
    = (if bit w (LENGTH('a) - 1) then - 1 else 0)"
proof (rule bit_word_eqI)
  fix n assume "n < LENGTH('a)"
  then show "bit (secret_shr_signed w (LENGTH('a) - 1)) n
      = bit (if bit w (LENGTH('a) - 1) then - 1 else (0 :: 'a word)) n"
    using shift_amount_top [OF assms]
    by (cases "n = 0") (simp_all add: secret_shr_signed_def bit_signed_drop_bit_iff)
qed

lemma top_bit_or_neg:
  "bit (x OR (NOT x + 1) :: 'a::len word) (LENGTH('a) - 1) \<longleftrightarrow> x \<noteq> 0"
proof -
  have "NOT x + 1 = - x" by (simp add: minus_eq_not_plus_1)
  moreover have "bit x (LENGTH('a) - 1) \<or> bit (- x) (LENGTH('a) - 1)" if "x \<noteq> 0"
  proof -
    from that have "unat (- x) = 2 ^ LENGTH('a) - unat x"
      using unat_sub_if_size [of 0 x] by (simp add: word_size unat_eq_0)
    then show ?thesis
      unfolding top_bit_iff two_power_pred by linarith
  qed
  ultimately show ?thesis by (auto simp: bit_or_iff)
qed

text \<open>The borrow of a subtraction, read off the top bits of its operands and its result.\<close>

lemma top_bit_borrow:
  fixes x y :: "'a::len word"
  shows "bit (x XOR ((x XOR y) OR ((x - y) XOR y))) (LENGTH('a) - 1) \<longleftrightarrow> x < y"
proof -
  let ?h = "2 ^ (LENGTH('a) - 1) :: nat"
  have bounds: "unat x < 2 * ?h" "unat y < 2 * ?h" "unat (x - y) < 2 * ?h"
    using two_power_pred [where 'a = 'a] unat_less_power [of x]
      unat_less_power [of y] unat_less_power [of "x - y"] by simp_all
  have diff: "unat (x - y) = (if unat y \<le> unat x then unat x - unat y else unat x + 2 * ?h - unat y)"
    using two_power_pred [where 'a = 'a] by (simp add: unat_sub_if_size word_size)
  have "bit (x XOR ((x XOR y) OR ((x - y) XOR y))) (LENGTH('a) - 1) \<longleftrightarrow>
      (?h \<le> unat x) \<noteq> ((?h \<le> unat x) \<noteq> (?h \<le> unat y) \<or> (?h \<le> unat (x - y)) \<noteq> (?h \<le> unat y))"
    by (simp only: bit_xor_iff bit_or_iff top_bit_iff [symmetric])
  also have "\<dots> \<longleftrightarrow> x < y"
    unfolding word_less_nat_alt using bounds diff by (auto split: if_splits; linarith)
  finally show ?thesis .
qed

lemma xor_eq_zero_iff: "a XOR b = 0 \<longleftrightarrow> a = (b :: 'a::len word)"
  by (auto simp: bit_eq_iff bit_simps)

lemma comp_eq_mask:
  "LENGTH('a::len) \<le> 2 ^ 32 \<Longrightarrow> comp_eq (a :: 'a word) b = (if a = b then - 1 else 0)"
  unfolding comp_eq_def Let_def top_bit_mask secret_or_def secret_xor_def secret_neg_def
    top_bit_or_neg by (simp add: xor_eq_zero_iff)

lemma comp_gte_mask:
  "LENGTH('a::len) \<le> 2 ^ 32 \<Longrightarrow> comp_gte (a :: 'a word) b = (if b \<le> a then - 1 else 0)"
  unfolding comp_gte_def Let_def top_bit_mask secret_or_def secret_xor_def secret_sub_def [of a b]
    top_bit_borrow by auto

text \<open>
  C25: the constant-time comparison operators of every unsigned secret integer type return the
  all-ones mask when the comparison holds and zero when it does not.
\<close>

theorem unsigned_comparison_masks:
  assumes "LENGTH('a::len) \<le> 2 ^ 32"
  shows "comp_eq (a :: 'a secret) b = (if a = b then - 1 else 0)
    \<and> comp_ne a b = (if a \<noteq> b then - 1 else 0)
    \<and> comp_gte a b = (if a \<ge> b then - 1 else 0)
    \<and> comp_gt a b = (if a > b then - 1 else 0)
    \<and> comp_lte a b = (if a \<le> b then - 1 else 0)
    \<and> comp_lt a b = (if a < b then - 1 else 0)"
  using comp_eq_mask [OF assms, of a b] comp_gte_mask [OF assms, of a b]
  by (auto simp: comp_ne_def comp_gt_def comp_lte_def comp_lt_def secret_not_def secret_xor_def)

theorem unsigned_comparison_masks_witness:
  "LENGTH(8) \<le> 2 ^ 32 \<and> comp_gte (200 :: 8 secret) 3 = - 1 \<and> comp_lt (200 :: 8 secret) 3 = 0"
  using unsigned_comparison_masks [where 'a = 8 and a = 200 and b = 3] by simp


section \<open>The masks of the signed comparisons\<close>

lemma sint_top_bit:
  "sint (w :: 'a::len word)
    = int (unat w) - (if bit w (LENGTH('a) - 1) then 2 * 2 ^ (LENGTH('a) - 1) else 0)"
proof -
  have "take_bit LENGTH('a) (uint w) = uint w" by (simp add: take_bit_int_eq_self_iff)
  moreover have "bit (uint w) (LENGTH('a) - 1) \<longleftrightarrow> bit w (LENGTH('a) - 1)"
    by (simp add: bit_uint_iff)
  moreover have "push_bit LENGTH('a) (- 1) = - (2 * 2 ^ (LENGTH('a) - 1) :: int)"
    by (metis One_nat_def Suc_pred len_gt_0 mult_minus1 power_Suc push_bit_eq_mult)
  ultimately show ?thesis
    by (simp add: sint_uint signed_take_bit_code Let_def)
qed

text \<open>Both comparisons rest on a fact about the residues modulo \<open>2 * h\<close> and the sign \<open>h \<le> _\<close>.\<close>

lemma signed_less_residues:
  fixes h a b d :: nat
  assumes "a < 2 * h" and "b < 2 * h" and "d = (if b \<le> a then a - b else a + 2 * h - b)"
  shows "((h \<le> a) \<noteq> ((h \<le> a) \<noteq> (h \<le> d) \<and> (h \<le> b) \<noteq> (h \<le> d))) \<longleftrightarrow>
    int a - (if h \<le> a then int (2 * h) else 0) < int b - (if h \<le> b then int (2 * h) else 0)"
  using assms by (cases "h \<le> a"; cases "h \<le> b"; cases "b \<le> a"; simp; linarith)

lemma top_bit_sless:
  fixes x y :: "'a::len word"
  shows "bit (x XOR ((x XOR (x - y)) AND (y XOR (x - y)))) (LENGTH('a) - 1) \<longleftrightarrow> sint x < sint y"
proof -
  let ?h = "2 ^ (LENGTH('a) - 1) :: nat"
  have bounds: "unat x < 2 * ?h" "unat y < 2 * ?h" "unat (x - y) < 2 * ?h"
    using two_power_pred [where 'a = 'a] unat_less_power [of x]
      unat_less_power [of y] unat_less_power [of "x - y"] by simp_all
  have diff: "unat (x - y) = (if unat y \<le> unat x then unat x - unat y else unat x + 2 * ?h - unat y)"
    using two_power_pred [where 'a = 'a] by (simp add: unat_sub_if_size word_size)
  have h: "2 * 2 ^ (LENGTH('a) - 1) = int (2 * ?h)" by simp
  have "bit (x XOR ((x XOR (x - y)) AND (y XOR (x - y)))) (LENGTH('a) - 1) \<longleftrightarrow>
      (?h \<le> unat x) \<noteq> ((?h \<le> unat x) \<noteq> (?h \<le> unat (x - y)) \<and> (?h \<le> unat y) \<noteq> (?h \<le> unat (x - y)))"
    by (simp only: bit_xor_iff bit_and_iff top_bit_iff [symmetric])
  also have "\<dots> \<longleftrightarrow> sint x < sint y"
    unfolding sint_top_bit top_bit_iff h using bounds(1,2) diff by (rule signed_less_residues)
  finally show ?thesis .
qed

lemma scomp_ne_mask:
  assumes "LENGTH('a::len) \<le> 2 ^ 32"
  shows "scomp_ne (a :: 'a word) b = (if a \<noteq> b then - 1 else 0)"
proof -
  have "b - a = NOT (a - b) + 1" by (simp flip: minus_eq_not_plus_1)
  then show ?thesis
    unfolding scomp_ne_def Let_def top_bit_mask_signed [OF assms] secret_or_def secret_sub_def
    by (simp only: top_bit_or_neg) simp
qed

lemma scomp_lt_mask:
  assumes "LENGTH('a::len) \<le> 2 ^ 32"
  shows "scomp_lt (a :: 'a word) b = (if sint a < sint b then - 1 else 0)"
  unfolding scomp_lt_def Let_def top_bit_mask_signed [OF assms] secret_xor_def secret_and_def
    secret_sub_def top_bit_sless by simp

text \<open>
  the constant-time comparison operators of every signed secret integer type return the
  all-ones mask when the comparison of the two's complement values holds and zero otherwise.
\<close>

theorem signed_comparison_masks:
  assumes "LENGTH('a::len) \<le> 2 ^ 32"
  shows "scomp_eq (a :: 'a secret) b = (if sint a = sint b then - 1 else 0)
    \<and> scomp_ne a b = (if sint a \<noteq> sint b then - 1 else 0)
    \<and> scomp_gte a b = (if sint a \<ge> sint b then - 1 else 0)
    \<and> scomp_gt a b = (if sint a > sint b then - 1 else 0)
    \<and> scomp_lte a b = (if sint a \<le> sint b then - 1 else 0)
    \<and> scomp_lt a b = (if sint a < sint b then - 1 else 0)"
  using scomp_ne_mask [OF assms, of a b] scomp_lt_mask [OF assms, of a b]
  by (auto simp: scomp_eq_def scomp_gte_def scomp_gt_def scomp_lte_def secret_not_def
      secret_and_def secret_or_def dest: signed_word_eqI)

theorem signed_comparison_masks_witness:
  "LENGTH(8) \<le> 2 ^ 32 \<and> scomp_gte (200 :: 8 secret) 3 = 0 \<and> scomp_lt (200 :: 8 secret) 3 = - 1"
  using signed_comparison_masks [where 'a = 8 and a = 200 and b = 3] by simp


section \<open>Round trips of the byte conversions\<close>

lemma classify_id [simp]: "map classify bs = bs" "map declassify bs = bs"
  by (auto intro!: map_idI simp: classify_def declassify_def)

lemma le_split_swap_bytes:
  "8 dvd LENGTH('a::len) \<Longrightarrow> le_split (swap_bytes (w :: 'a word)) = rev (le_split w)"
  by (simp add: swap_bytes_def le_split_join)

lemma swap_bytes_join:
  "8 dvd LENGTH('a::len) \<Longrightarrow> length bs = LENGTH('a) div 8 \<Longrightarrow>
     swap_bytes (le_join bs :: 'a word) = le_join (rev bs)"
  by (simp add: swap_bytes_def le_split_join)

text \<open>On either host, \<open>transmute\<close> after \<open>to_le\<close> (\<open>to_be\<close>) yields the little (big) endian bytes.\<close>

lemma transmute_to_le:
  "8 dvd LENGTH('a::len) \<Longrightarrow> transmute_to_bytes h (to_le h (w :: 'a word)) = le_split w"
  by (cases h) (simp_all add: transmute_to_bytes_def to_le_def le_split_swap_bytes)

lemma transmute_to_be:
  "8 dvd LENGTH('a::len) \<Longrightarrow> transmute_to_bytes h (to_be h (w :: 'a word)) = rev (le_split w)"
  by (cases h) (simp_all add: transmute_to_bytes_def to_be_def le_split_swap_bytes)

lemma transmute_from_le:
  "8 dvd LENGTH('a::len) \<Longrightarrow> length bs = LENGTH('a) div 8 \<Longrightarrow>
     to_le h (transmute_from_bytes h bs :: 'a word) = le_join bs"
  by (cases h) (simp_all add: transmute_from_bytes_def to_le_def swap_bytes_join)

lemma transmute_from_be:
  "8 dvd LENGTH('a::len) \<Longrightarrow> length bs = LENGTH('a) div 8 \<Longrightarrow>
     to_be h (transmute_from_bytes h bs :: 'a word) = le_join (rev bs)"
  by (cases h) (simp_all add: transmute_from_bytes_def to_be_def swap_bytes_join)

lemma bytes_per_word: "8 dvd LENGTH('a::len) \<Longrightarrow> 0 < LENGTH('a) div 8"
  by (metis dvd_div_eq_0_iff len_gt_0 neq0_conv)

lemma secret_to_le_bytes_eq:
  "8 dvd LENGTH('a::len) \<Longrightarrow> secret_to_le_bytes h (xs :: 'a secret list) = concat (map le_split xs)"
  by (simp add: secret_to_le_bytes_def transmute_to_le declassify_def)

lemma secret_to_be_bytes_eq:
  "8 dvd LENGTH('a::len) \<Longrightarrow>
     secret_to_be_bytes h (xs :: 'a secret list) = concat (map (rev \<circ> le_split) xs)"
  by (simp add: secret_to_be_bytes_def transmute_to_be declassify_def comp_def)

lemma secret_from_le_bytes_eq:
  assumes "8 dvd LENGTH('a::len)" and "LENGTH('a) div 8 dvd length bs"
  shows "secret_from_le_bytes h bs = Some (map (le_join :: _ \<Rightarrow> 'a word) (chunks (LENGTH('a) div 8) bs))"
  using assms
  by (auto simp: secret_from_le_bytes_def classify_def dvd_eq_mod_eq_0 [symmetric]
      transmute_from_le dest!: length_chunk)

lemma secret_from_be_bytes_eq:
  assumes "8 dvd LENGTH('a::len)" and "LENGTH('a) div 8 dvd length bs"
  shows "secret_from_be_bytes h bs
    = Some (map ((le_join :: _ \<Rightarrow> 'a word) \<circ> rev) (chunks (LENGTH('a) div 8) bs))"
  using assms
  by (auto simp: secret_from_be_bytes_def classify_def dvd_eq_mod_eq_0 [symmetric]
      transmute_from_be dest!: length_chunk)

text \<open>
  C29: converting secret integers to bytes and back is the identity, in both byte orders, for
  every width that is a whole number of bytes and on hosts of either endianness; the bytes
  themselves do not depend on the host.
\<close>

theorem secret_bytes_roundtrip:
  assumes "8 dvd LENGTH('a::len)"
  shows "secret_from_le_bytes h (secret_to_le_bytes h xs) = Some (xs :: 'a secret list)
    \<and> secret_from_be_bytes h (secret_to_be_bytes h xs) = Some xs
    \<and> secret_to_le_bytes h xs = secret_to_le_bytes h' xs
    \<and> secret_to_be_bytes h xs = secret_to_be_bytes h' xs"
proof -
  let ?n = "LENGTH('a) div 8"
  note n = bytes_per_word [OF assms]
  have le: "chunks ?n (concat (map le_split xs)) = map le_split xs"
    and be: "chunks ?n (concat (map (rev \<circ> le_split) xs)) = map (rev \<circ> le_split) xs"
    using n by (auto intro!: chunks_concat)
  have "length (concat (map le_split xs)) = ?n * length xs"
    and "length (concat (map (rev \<circ> le_split) xs)) = ?n * length xs"
    by (simp_all add: length_concat comp_def sum_list_triv)
  then show ?thesis
    using assms le be
    by (simp add: secret_to_le_bytes_eq secret_to_be_bytes_eq secret_from_le_bytes_eq
        secret_from_be_bytes_eq le_join_split map_idI)
qed

theorem secret_bytes_roundtrip_witness:
  "8 dvd LENGTH(16)
    \<and> secret_from_le_bytes LittleEndian (secret_to_le_bytes LittleEndian [0x1234 :: 16 secret])
        = Some [0x1234 :: 16 secret]"
  using secret_bytes_roundtrip [where 'a = 16 and h = LittleEndian and h' = LittleEndian and xs = "[0x1234]"] by simp


text \<open>
  reading bytes as secret integers panics exactly when the number of bytes is not a multiple
  of the integer's size; otherwise writing the integers back gives the same bytes.
\<close>

theorem secret_bytes_read_write:
  assumes "8 dvd LENGTH('a::len)"
  shows "(case secret_from_le_bytes h bs of
      None \<Rightarrow> \<not> LENGTH('a) div 8 dvd length bs
    | Some xs \<Rightarrow> LENGTH('a) div 8 dvd length bs \<and> secret_to_le_bytes h (xs :: 'a secret list) = bs)
    \<and> (case secret_from_be_bytes h bs of
      None \<Rightarrow> \<not> LENGTH('a) div 8 dvd length bs
    | Some xs \<Rightarrow> LENGTH('a) div 8 dvd length bs \<and> secret_to_be_bytes h (xs :: 'a secret list) = bs)"
proof (cases "LENGTH('a) div 8 dvd length bs")
  case True
  then have "map (le_split \<circ> (le_join :: _ \<Rightarrow> 'a word)) (chunks (LENGTH('a) div 8) bs)
      = chunks (LENGTH('a) div 8) bs"
    and "map (rev \<circ> le_split \<circ> ((le_join :: _ \<Rightarrow> 'a word) \<circ> rev)) (chunks (LENGTH('a) div 8) bs)
      = chunks (LENGTH('a) div 8) bs"
    using assms by (auto intro!: map_idI simp: le_split_join dest!: length_chunk)
  with True assms concat_chunks [OF bytes_per_word [OF assms], of bs] show ?thesis
    by (simp add: secret_from_le_bytes_eq secret_to_le_bytes_eq secret_from_be_bytes_eq
        secret_to_be_bytes_eq)
next
  case False
  then show ?thesis
    by (simp add: secret_from_le_bytes_def secret_from_be_bytes_def dvd_eq_mod_eq_0)
qed

theorem secret_bytes_read_write_witness:
  "8 dvd LENGTH(16)
    \<and> (secret_from_le_bytes LittleEndian [1, 2, 3] :: 16 secret list option) = None"
  using secret_bytes_read_write [where 'a = 16 and h = LittleEndian and bs = "[1, 2, 3]"]
  by (simp split: option.splits)


end
