(* ===== verification/Machine_Integers.thy ===== *)
theory Machine_Integers
  imports Secret_Integers
begin

text \<open>
  The traits \<open>ModNumeric\<close>, \<open>Numeric\<close> and \<open>Integer\<close> of \<open>lib/src/traits.rs\<close> and their
  implementations for the machine integers in \<open>lib/src/machine_integers.rs\<close>. A generic Rust
  function over \<open>T: Integer\<close> receives the implementation of the trait as a dictionary; the record
  \<open>'t numeric\<close> is that dictionary, with the functions the generic code of the library calls. A
  function that can panic returns an option. The macros \<open>implement_public_unsigned_mi!\<close>,
  \<open>implement_secret_unsigned_mi!\<close> and \<open>implement_secret_signed_mi!\<close> give the three dictionaries,
  polymorphic in the width.
\<close>

named_theorems mi_defs \<open>definitions of the machine integer implementations\<close>

section \<open>The trait dictionary\<close>

record 't numeric =
  n_default :: 't
  ZERO :: 't
  ONE :: 't
  TWO :: 't
  NUM_BITS :: nat
  n_add :: "'t \<Rightarrow> 't \<Rightarrow> 't option"
  n_sub :: "'t \<Rightarrow> 't \<Rightarrow> 't option"
  n_mul :: "'t \<Rightarrow> 't \<Rightarrow> 't option"
  n_xor :: "'t \<Rightarrow> 't \<Rightarrow> 't"
  n_and :: "'t \<Rightarrow> 't \<Rightarrow> 't"
  n_shl :: "'t \<Rightarrow> usize \<Rightarrow> 't option"
  get_bit :: "'t \<Rightarrow> usize \<Rightarrow> 't option"
  n_set_bit :: "'t \<Rightarrow> 't \<Rightarrow> usize \<Rightarrow> 't option"
  n_set :: "'t \<Rightarrow> usize \<Rightarrow> 't \<Rightarrow> usize \<Rightarrow> 't option"
  wrap_add :: "'t \<Rightarrow> 't \<Rightarrow> 't"
  wrap_sub :: "'t \<Rightarrow> 't \<Rightarrow> 't"
  wrap_mul :: "'t \<Rightarrow> 't \<Rightarrow> 't"
  equal_fn :: "'t \<Rightarrow> 't \<Rightarrow> bool"
  greater_than :: "'t \<Rightarrow> 't \<Rightarrow> bool"
  less_than :: "'t \<Rightarrow> 't \<Rightarrow> bool"
  greater_than_or_equal_bm :: "'t \<Rightarrow> 't \<Rightarrow> 't"

section \<open>Constant-time utilities\<close>

text \<open>\<open>lib/src/math_util/ct_util.rs\<close>, generic in the dictionary.\<close>

definition cswap :: "'t numeric \<Rightarrow> 't \<Rightarrow> 't \<Rightarrow> 't \<Rightarrow> 't \<times> 't" where
  "cswap T x y c =
     (let mask = n_and T c (n_xor T x y)
      in (n_xor T x mask, n_xor T y mask))"

definition cswap_bit :: "'t numeric \<Rightarrow> 't \<Rightarrow> 't \<Rightarrow> 't \<Rightarrow> 't \<times> 't" where
  "cswap_bit T x y c = cswap T x y (wrap_sub T (n_default T) c)"

definition cset_bit :: "'t numeric \<Rightarrow> 't \<Rightarrow> 't \<Rightarrow> usize \<Rightarrow> 't \<Rightarrow> 't option" where
  "cset_bit T x b i c = do {
     st \<leftarrow> n_set_bit T x b i;
     let (out, _) = cswap T x st c;
     Some out
   }"

definition cadd :: "'t numeric \<Rightarrow> 't \<Rightarrow> 't \<Rightarrow> 't \<Rightarrow> 't" where
  "cadd T x y c = (let sm = wrap_add T x y; (x, _) = cswap T x sm c in x)"

definition csub :: "'t numeric \<Rightarrow> 't \<Rightarrow> 't \<Rightarrow> 't \<Rightarrow> 't" where
  "csub T x y c = (let diff = wrap_sub T x y; (x, _) = cswap T x diff c in x)"

definition cmul :: "'t numeric \<Rightarrow> 't \<Rightarrow> 't \<Rightarrow> 't \<Rightarrow> 't" where
  "cmul T x y c = (let prd = wrap_mul T x y; (x, _) = cswap T x prd c in x)"

text \<open>One round of the division loop, and the loop over the bits from the top.\<close>

definition ct_div_step :: "'t numeric \<Rightarrow> 't \<Rightarrow> 't \<Rightarrow> usize \<Rightarrow> 't \<times> 't \<Rightarrow> ('t \<times> 't) option" where
  "ct_div_step T a d i = (\<lambda>(q, r). do {
     r \<leftarrow> n_shl T r 1;
     r \<leftarrow> n_set T r 0 a i;
     let geq = greater_than_or_equal_bm T r d;
     let r = csub T r d geq;
     q \<leftarrow> cset_bit T q (ONE T) i geq;
     Some (q, r)
   })"

definition ct_div :: "'t numeric \<Rightarrow> 't \<Rightarrow> 't \<Rightarrow> ('t \<times> 't) option" where
  "ct_div T a d = foldM (ct_div_step T a d) (rev [0..<NUM_BITS T]) (n_default T, n_default T)"

section \<open>Public unsigned integers\<close>

definition pu_add :: "'a::len word \<Rightarrow> 'a word \<Rightarrow> 'a word option" where
  [mi_defs]: "pu_add x y = (if unat x + unat y < 2 ^ LENGTH('a) then Some (x + y) else None)"

definition pu_sub :: "'a::len word \<Rightarrow> 'a word \<Rightarrow> 'a word option" where
  [mi_defs]: "pu_sub x y = (if y \<le> x then Some (x - y) else None)"

definition pu_mul :: "'a::len word \<Rightarrow> 'a word \<Rightarrow> 'a word option" where
  [mi_defs]: "pu_mul x y = (if unat x * unat y < 2 ^ LENGTH('a) then Some (x * y) else None)"

definition pu_shl :: "'a::len word \<Rightarrow> usize \<Rightarrow> 'a word option" where
  [mi_defs]: "pu_shl x n = (if n < LENGTH('a) then Some (push_bit n x) else None)"

definition pu_shr :: "'a::len word \<Rightarrow> usize \<Rightarrow> 'a word option" where
  [mi_defs]: "pu_shr x n = (if n < LENGTH('a) then Some (drop_bit n x) else None)"

definition pu_rem :: "'a::len word \<Rightarrow> 'a word \<Rightarrow> 'a word option" where
  [mi_defs]: "pu_rem x n = (if n = 0 then None else Some (x mod n))"

text \<open>\<open>!(1 << i)\<close> is computed on \<open>u128\<close>, the type of the argument of \<open>from_literal\<close>.\<close>

definition from_literal :: "u128 \<Rightarrow> 'a::len word" where
  [mi_defs]: "from_literal val = ucast val"

definition pu_get_bit :: "'a::len word \<Rightarrow> usize \<Rightarrow> 'a word option" where
  "pu_get_bit self i = do { s \<leftarrow> pu_shr self i; Some (s AND 1) }"

definition pu_set_bit :: "'a::len word \<Rightarrow> 'a word \<Rightarrow> usize \<Rightarrow> 'a word option" where
  "pu_set_bit self b i = do {
     rust_assert (b = 1 \<or> b = 0);
     one_i \<leftarrow> pu_shl (1 :: u128) i;
     let tmp1 = from_literal (NOT one_i);
     tmp2 \<leftarrow> pu_shl b i;
     Some ((self AND tmp1) OR tmp2)
   }"

definition pu_set :: "'a::len word \<Rightarrow> usize \<Rightarrow> 'a word \<Rightarrow> usize \<Rightarrow> 'a word option" where
  "pu_set self pos y yi = do { b \<leftarrow> pu_get_bit y yi; pu_set_bit self b pos }"

text \<open>
  \<open>(-(n as i32) as usize) & (NUM_BITS - 1)\<close>: for \<open>n < NUM_BITS\<close> the negated amount, read as an
  unsigned 64-bit number and masked.
\<close>

definition neg_amount :: "nat \<Rightarrow> usize \<Rightarrow> nat" where
  [mi_defs]: "neg_amount bits n = unat ((- word_of_nat n :: u64) AND word_of_nat (bits - 1))"

definition pu_rotate_left :: "'a::len word \<Rightarrow> usize \<Rightarrow> 'a word option" where
  "pu_rotate_left self n = do {
     rust_assert (n < LENGTH('a));
     l \<leftarrow> pu_shl self n;
     r \<leftarrow> pu_shr self (neg_amount LENGTH('a) n);
     Some (l OR r)
   }"

definition pu_rotate_right :: "'a::len word \<Rightarrow> usize \<Rightarrow> 'a word option" where
  "pu_rotate_right self n = do {
     rust_assert (n < LENGTH('a));
     r \<leftarrow> pu_shr self n;
     l \<leftarrow> pu_shl self (neg_amount LENGTH('a) n);
     Some (r OR l)
   }"

text \<open>
  \<open>sub_mod\<close> adds \<open>n\<close> until the subtraction does not underflow. An addition that overflows panics;
  with \<open>n = 0\<close> the loop does not end. Both are \<open>None\<close>.
\<close>

function pu_sub_mod_loop :: "'a::len word \<Rightarrow> 'a word \<Rightarrow> 'a word \<Rightarrow> 'a word option" where
  "pu_sub_mod_loop tmp rhs n =
     (if tmp < rhs
      then (if n = 0 then None
            else case pu_add tmp n of None \<Rightarrow> None | Some tmp' \<Rightarrow> pu_sub_mod_loop tmp' rhs n)
      else Some tmp)"
  by pat_completeness auto
termination
proof (relation "measure (\<lambda>(tmp, rhs, n). unat rhs - unat tmp)", goal_cases)
  case (2 tmp rhs n x2)
  then have "unat x2 = unat tmp + unat n" and "0 < unat n" and "unat tmp < unat rhs"
    by (auto simp: pu_add_def unat_word_ariths unat_gt_0 word_less_nat_alt split: if_splits)
  then show ?case by simp
qed simp

declare pu_sub_mod_loop.simps [simp del]

definition pu_sub_mod :: "'a::len word \<Rightarrow> 'a word \<Rightarrow> 'a word \<Rightarrow> 'a word option" where
  "pu_sub_mod self rhs n = do {
     tmp \<leftarrow> pu_sub_mod_loop self rhs n;
     d \<leftarrow> pu_sub tmp rhs;
     pu_rem d n
   }"

definition pu_add_mod :: "'a::len word \<Rightarrow> 'a word \<Rightarrow> 'a word \<Rightarrow> 'a word option" where
  "pu_add_mod self rhs n = do { s \<leftarrow> pu_add self rhs; pu_rem s n }"

definition pu_mul_mod :: "'a::len word \<Rightarrow> 'a word \<Rightarrow> 'a word \<Rightarrow> 'a word option" where
  "pu_mul_mod self rhs n = do { s \<leftarrow> pu_mul self rhs; pu_rem s n }"

definition pu_greater_than_or_equal_bm :: "'a::len word \<Rightarrow> 'a word \<Rightarrow> 'a word" where
  "pu_greater_than_or_equal_bm self other = (if self \<ge> other then - 1 else 0)"

definition public_unsigned :: "'a::len word numeric" where
  "public_unsigned = \<lparr> n_default = 0, ZERO = 0, ONE = 1, TWO = 2, NUM_BITS = LENGTH('a),
     n_add = pu_add, n_sub = pu_sub, n_mul = pu_mul, n_xor = (XOR), n_and = (AND),
     n_shl = pu_shl, get_bit = pu_get_bit, n_set_bit = pu_set_bit, n_set = pu_set,
     wrap_add = (+), wrap_sub = (-), wrap_mul = (*),
     equal_fn = (=), greater_than = (\<lambda>x y. x > y), less_than = (<),
     greater_than_or_equal_bm = pu_greater_than_or_equal_bm \<rparr>"

section \<open>Secret integers\<close>

definition sec_set_bit :: "'a::len secret \<Rightarrow> 'a secret \<Rightarrow> usize \<Rightarrow> 'a secret option" where
  "sec_set_bit self b i = do {
     rust_assert (declassify (comp_eq b 1) \<noteq> 0 \<or> declassify (comp_eq b 0) \<noteq> 0);
     one_i \<leftarrow> pu_shl (1 :: u128) i;
     let tmp1 = classify (from_literal (NOT one_i));
     let tmp2 = secret_shl b i;
     Some (secret_or (secret_and self tmp1) tmp2)
   }"

definition sec_get_bit :: "'a::len secret \<Rightarrow> usize \<Rightarrow> 'a secret" where
  "sec_get_bit self i = secret_and (secret_shr self i) secret_one"

definition sec_set :: "'a::len secret \<Rightarrow> usize \<Rightarrow> 'a secret \<Rightarrow> usize \<Rightarrow> 'a secret option" where
  "sec_set self pos y yi = (let b = sec_get_bit y yi in sec_set_bit self b pos)"

definition sec_rotate_left :: "'a::len secret \<Rightarrow> usize \<Rightarrow> 'a secret option" where
  "sec_rotate_left self n = do {
     rust_assert (n < LENGTH('a));
     Some (secret_or (secret_shl self n) (secret_shr self (neg_amount LENGTH('a) n)))
   }"

definition sec_rotate_right :: "'a::len secret \<Rightarrow> usize \<Rightarrow> 'a secret option" where
  "sec_rotate_right self n = do {
     rust_assert (n < LENGTH('a));
     Some (secret_or (secret_shr self n) (secret_shl self (neg_amount LENGTH('a) n)))
   }"

text \<open>\<open>exp\<close>: \<open>for _ in 1..exp { s = s * self }\<close>.\<close>

definition sec_exp :: "'a::len secret \<Rightarrow> u32 \<Rightarrow> 'a secret" where
  "sec_exp self e = (if e = 0 then 1 else fold (\<lambda>_ s. secret_mul s self) [1..<unat e] self)"

definition secret_unsigned :: "'a::len secret numeric" where
  "secret_unsigned = \<lparr> n_default = 0, ZERO = 0, ONE = 1, TWO = 2, NUM_BITS = LENGTH('a),
     n_add = (\<lambda>x y. Some (secret_add x y)), n_sub = (\<lambda>x y. Some (secret_sub x y)),
     n_mul = (\<lambda>x y. Some (secret_mul x y)), n_xor = secret_xor, n_and = secret_and,
     n_shl = (\<lambda>x n. Some (secret_shl x n)), get_bit = (\<lambda>x n. Some (sec_get_bit x n)),
     n_set_bit = sec_set_bit, n_set = sec_set,
     wrap_add = secret_add, wrap_sub = secret_sub, wrap_mul = secret_mul,
     equal_fn = (\<lambda>x y. declassify (comp_eq x y) \<noteq> 0),
     greater_than = (\<lambda>x y. declassify (comp_gt x y) \<noteq> 0),
     less_than = (\<lambda>x y. declassify (comp_lt x y) \<noteq> 0),
     greater_than_or_equal_bm = comp_gte \<rparr>"

definition sec_modulo :: "'a::len secret \<Rightarrow> 'a secret \<Rightarrow> 'a secret option" where
  "sec_modulo self n = map_option snd (ct_div secret_unsigned self n)"

definition sec_divide :: "'a::len secret \<Rightarrow> 'a secret \<Rightarrow> 'a secret option" where
  "sec_divide self rhs = map_option fst (ct_div secret_unsigned self rhs)"

definition sec_sub_mod :: "'a::len secret \<Rightarrow> 'a secret \<Rightarrow> 'a secret \<Rightarrow> 'a secret option" where
  "sec_sub_mod self rhs n = sec_modulo (secret_sub self rhs) n"

definition sec_add_mod :: "'a::len secret \<Rightarrow> 'a secret \<Rightarrow> 'a secret \<Rightarrow> 'a secret option" where
  "sec_add_mod self rhs n = sec_modulo (secret_add self rhs) n"

definition sec_mul_mod :: "'a::len secret \<Rightarrow> 'a secret \<Rightarrow> 'a secret \<Rightarrow> 'a secret option" where
  "sec_mul_mod self rhs n = sec_modulo (secret_mul self rhs) n"

text \<open>
  The signed dictionary differs in the comparisons and in the arithmetic right shift of \<open>get_bit\<close>.
\<close>

definition ssec_get_bit :: "'a::len secret \<Rightarrow> usize \<Rightarrow> 'a secret" where
  "ssec_get_bit self i = secret_and (secret_shr_signed self i) secret_one"

definition ssec_set_bit :: "'a::len secret \<Rightarrow> 'a secret \<Rightarrow> usize \<Rightarrow> 'a secret option" where
  "ssec_set_bit self b i = do {
     rust_assert (declassify (scomp_eq b 1) \<noteq> 0 \<or> declassify (scomp_eq b 0) \<noteq> 0);
     one_i \<leftarrow> pu_shl (1 :: u128) i;
     let tmp1 = classify (from_literal (NOT one_i));
     let tmp2 = secret_shl b i;
     Some (secret_or (secret_and self tmp1) tmp2)
   }"

definition ssec_set :: "'a::len secret \<Rightarrow> usize \<Rightarrow> 'a secret \<Rightarrow> usize \<Rightarrow> 'a secret option" where
  "ssec_set self pos y yi = (let b = ssec_get_bit y yi in ssec_set_bit self b pos)"

definition secret_signed :: "'a::len secret numeric" where
  "secret_signed = \<lparr> n_default = 0, ZERO = 0, ONE = 1, TWO = 2, NUM_BITS = LENGTH('a),
     n_add = (\<lambda>x y. Some (secret_add x y)), n_sub = (\<lambda>x y. Some (secret_sub x y)),
     n_mul = (\<lambda>x y. Some (secret_mul x y)), n_xor = secret_xor, n_and = secret_and,
     n_shl = (\<lambda>x n. Some (secret_shl x n)), get_bit = (\<lambda>x n. Some (ssec_get_bit x n)),
     n_set_bit = ssec_set_bit, n_set = ssec_set,
     wrap_add = secret_add, wrap_sub = secret_sub, wrap_mul = secret_mul,
     equal_fn = (\<lambda>x y. declassify (scomp_eq x y) \<noteq> 0),
     greater_than = (\<lambda>x y. declassify (scomp_gt x y) \<noteq> 0),
     less_than = (\<lambda>x y. declassify (scomp_lt x y) \<noteq> 0),
     greater_than_or_equal_bm = scomp_gte \<rparr>"

definition ssec_modulo :: "'a::len secret \<Rightarrow> 'a secret \<Rightarrow> 'a secret option" where
  "ssec_modulo self n = map_option snd (ct_div secret_signed self n)"

text \<open>\<open>while ret.less_than(ZERO) { ret = ret + n; }\<close> need not end, for instance when \<open>n = 0\<close>.\<close>

partial_function (option) ssec_signed_modulo_loop :: "'a::len secret \<Rightarrow> 'a secret \<Rightarrow> 'a secret option" where
  "ssec_signed_modulo_loop ret n =
     (if declassify (scomp_lt ret 0) \<noteq> 0 then ssec_signed_modulo_loop (secret_add ret n) n
      else Some ret)"

definition ssec_signed_modulo :: "'a::len secret \<Rightarrow> 'a secret \<Rightarrow> 'a secret option" where
  "ssec_signed_modulo self n = do { ret \<leftarrow> ssec_modulo self n; ssec_signed_modulo_loop ret n }"

section \<open>The contract of an unsigned integer and constant-time division\<close>

text \<open>
  What \<open>ct_div\<close> relies on: the type has \<open>NUM_BITS\<close> bits, the operations compute on the value
  \<open>val\<close>, and the mask of \<open>greater_than_or_equal_bm\<close> selects with \<open>&\<close> and \<open>^\<close>.
\<close>

lemma div_power_Suc: "a div 2 ^ Suc i = a div 2 ^ i div (2::nat)"
  by (metis div_mult2_eq power_Suc2)

lemma division_round:
  fixes A d b :: nat
  assumes "0 < d" and "b < 2"
  shows "(2 * A + b) mod d
      = (if d \<le> 2 * (A mod d) + b then 2 * (A mod d) + b - d else 2 * (A mod d) + b)"
    and "(2 * A + b) div d = 2 * (A div d) + (if d \<le> 2 * (A mod d) + b then 1 else 0)"
proof -
  let ?m = "2 * (A mod d) + b"
  have eq: "2 * A + b = ?m + d * (2 * (A div d))"
    using mod_mult_div_eq [of A d] mult.left_commute [of d 2 "A div d"] by linarith
  have lt: "?m < 2 * d" using assms mod_less_divisor [of d A] by linarith
  have md: "?m mod d = (if d \<le> ?m then ?m - d else ?m)"
    using lt by (simp add: le_mod_geq)
  have dv: "?m div d = (if d \<le> ?m then 1 else 0)"
    using lt assms by (simp add: le_div_geq)
  show "(2 * A + b) mod d = (if d \<le> ?m then ?m - d else ?m)"
    unfolding eq mod_mult_self2 by (rule md)
  show "(2 * A + b) div d = 2 * (A div d) + (if d \<le> ?m then 1 else 0)"
    unfolding eq using assms dv by simp
qed

locale ct_integer =
  fixes T :: "'t numeric" and val :: "'t \<Rightarrow> nat"
  assumes val_bound: "val x < 2 ^ NUM_BITS T"
    and val_default: "val (n_default T) = 0"
    and shl_one: "\<exists>y. n_shl T x 1 = Some y \<and> val y = 2 * val x mod 2 ^ NUM_BITS T"
    and set_low: "i < NUM_BITS T \<Longrightarrow> even (val x) \<Longrightarrow>
      \<exists>y. n_set T x 0 a i = Some y \<and> val y = val x + val a div 2 ^ i mod 2"
    and set_one: "i < NUM_BITS T \<Longrightarrow> even (val x div 2 ^ i) \<Longrightarrow>
      \<exists>y. n_set_bit T x (ONE T) i = Some y \<and> val y = val x + 2 ^ i"
    and sub: "val y \<le> val x \<Longrightarrow> val (wrap_sub T x y) = val x - val y"
    and and_mask: "n_and T (greater_than_or_equal_bm T x y) z
      = (if val y \<le> val x then z else n_default T)"
    and xor_cancel: "n_xor T x (n_xor T x y) = y" "n_xor T y (n_xor T x y) = x"
    and xor_default: "n_xor T x (n_default T) = x"
begin

lemma cswap_mask:
  "cswap T u v (greater_than_or_equal_bm T x y) = (if val y \<le> val x then (v, u) else (u, v))"
  by (simp add: cswap_def and_mask xor_cancel xor_default)

lemma csub_mask:
  "val (csub T r d (greater_than_or_equal_bm T r d)) = (if val d \<le> val r then val r - val d else val r)"
  by (simp add: csub_def cswap_mask sub)

lemma cset_bit_mask:
  assumes "i < NUM_BITS T" and "even (val q div 2 ^ i)"
  shows "\<exists>q'. cset_bit T q (ONE T) i (greater_than_or_equal_bm T r d) = Some q'
    \<and> val q' = (if val d \<le> val r then val q + 2 ^ i else val q)"
  using set_one [OF assms] by (auto simp: cset_bit_def cswap_mask)

text \<open>One round doubles the remainder, takes in the next bit and subtracts the divisor if it fits.\<close>

lemma step:
  assumes i: "i < NUM_BITS T" and r: "2 * val r < 2 ^ NUM_BITS T" and q: "even (val q div 2 ^ i)"
  shows "\<exists>q' r'. ct_div_step T a d i (q, r) = Some (q', r')
    \<and> (let m = 2 * val r + val a div 2 ^ i mod 2 in
        val r' = (if val d \<le> m then m - val d else m)
        \<and> val q' = (if val d \<le> m then val q + 2 ^ i else val q))"
proof -
  from shl_one [of r] r obtain r1 where r1: "n_shl T r 1 = Some r1" "val r1 = 2 * val r"
    by auto
  with set_low [OF i, of r1 a] obtain r2 where
    r2: "n_set T r1 0 a i = Some r2" "val r2 = 2 * val r + val a div 2 ^ i mod 2"
    by auto
  obtain q' where q': "cset_bit T q (ONE T) i (greater_than_or_equal_bm T r2 d) = Some q'"
    "val q' = (if val d \<le> val r2 then val q + 2 ^ i else val q)"
    using cset_bit_mask [OF i q] by blast
  with r1 r2 show ?thesis
    by (simp add: ct_div_step_def csub_mask Let_def)
qed

lemma half_bound: "i < NUM_BITS T \<Longrightarrow> 2 * (val a div 2 ^ Suc i) < 2 ^ NUM_BITS T"
proof -
  have "2 * (val a div 2 ^ Suc i) \<le> val a div 2 ^ i"
    unfolding div_power_Suc by simp
  also have "\<dots> \<le> val a" by (rule div_le_dividend)
  finally show ?thesis using val_bound [of a] by (rule le_less_trans)
qed

theorem ct_div_correct:
  assumes "0 < val d"
  shows "\<exists>q r. ct_div T a d = Some (q, r) \<and> val q = val a div val d \<and> val r = val a mod val d"
proof -
  define P where "P = (\<lambda>k (q, r). val r = val a div 2 ^ k mod val d
    \<and> val q = 2 ^ k * (val a div 2 ^ k div val d))"
  have "\<exists>s'. foldM (ct_div_step T a d) (rev [0..<NUM_BITS T]) (n_default T, n_default T) = Some s' \<and> P 0 s'"
  proof (rule foldM_rev_rule)
    show "P (NUM_BITS T) (n_default T, n_default T)"
      using val_bound [of a] by (simp add: P_def val_default)
  next
    fix i s assume i: "i < NUM_BITS T" and P: "P (Suc i) s"
    obtain q r where s: "s = (q, r)" by force
    define A where "A = val a div 2 ^ Suc i"
    define b where "b = val a div 2 ^ i mod 2"
    have A: "val a div 2 ^ i = 2 * A + b" and b: "b < 2"
      unfolding A_def b_def div_power_Suc by simp_all
    from P s have r: "val r = A mod val d" and q: "val q = 2 ^ i * (2 * (A div val d))"
      by (simp_all add: P_def A_def mult_ac)
    have "val r \<le> A" by (simp add: r)
    with half_bound [OF i, of a] have "2 * val r < 2 ^ NUM_BITS T" unfolding A_def by linarith
    from step [OF i this, of q a d] q obtain q' r' where s': "ct_div_step T a d i s = Some (q', r')"
      and r': "val r' = (if val d \<le> 2 * val r + b then 2 * val r + b - val d else 2 * val r + b)"
      and q': "val q' = (if val d \<le> 2 * val r + b then val q + 2 ^ i else val q)"
      by (auto simp: s Let_def b_def)
    have "P i (q', r')"
      using division_round [OF assms b, of A] r q r' q' by (simp add: P_def A)
    with s' show "\<exists>s'. ct_div_step T a d i s = Some s' \<and> P i s'" by blast
  qed
  then show ?thesis by (auto simp: ct_div_def P_def)
qed

text \<open>A zero divisor is subtracted in every round: all quotient bits are set.\<close>

theorem ct_div_zero:
  assumes "val d = 0"
  shows "\<exists>q r. ct_div T a d = Some (q, r) \<and> val q = 2 ^ NUM_BITS T - 1 \<and> val r = val a"
proof -
  define P where "P = (\<lambda>k (q, r). val r = val a div 2 ^ k \<and> val q + 2 ^ k = 2 ^ NUM_BITS T)"
  have "\<exists>s'. foldM (ct_div_step T a d) (rev [0..<NUM_BITS T]) (n_default T, n_default T) = Some s' \<and> P 0 s'"
  proof (rule foldM_rev_rule)
    show "P (NUM_BITS T) (n_default T, n_default T)"
      using val_bound [of a] by (simp add: P_def val_default)
  next
    fix i s assume i: "i < NUM_BITS T" and P: "P (Suc i) s"
    obtain q r where s: "s = (q, r)" by force
    from P s have r: "val r = val a div 2 ^ Suc i" and q: "val q + 2 ^ Suc i = 2 ^ NUM_BITS T"
      by (simp_all only: P_def prod.case)
    have "2 * val r < 2 ^ NUM_BITS T" using half_bound [OF i, of a] by (simp only: r)
    moreover have "even (val q div 2 ^ i)"
    proof -
      from i have "(2::nat) ^ NUM_BITS T = 2 ^ i * 2 ^ (NUM_BITS T - i)"
        by (simp flip: power_add)
      with q have "val q = 2 ^ i * (2 ^ (NUM_BITS T - i) - 2)" by (simp add: algebra_simps)
      with i show ?thesis by simp
    qed
    ultimately obtain q' r' where s': "ct_div_step T a d i s = Some (q', r')"
      and "val r' = 2 * val r + val a div 2 ^ i mod 2" and "val q' = val q + 2 ^ i"
      using step [OF i, of r q a d] assms by (auto simp: s Let_def)
    then have "P i (q', r')" using r q by (simp add: P_def div_power_Suc del: power_Suc) simp
    with s' show "\<exists>s'. ct_div_step T a d i s = Some s' \<and> P i s'" by blast
  qed
  then show ?thesis by (auto simp: ct_div_def P_def)
qed

end

section \<open>The machine integers meet the contract\<close>

lemma bit_unat_div: "bit (x :: 'a::len word) i \<longleftrightarrow> odd (unat x div 2 ^ i)"
proof -
  have "bit x i \<longleftrightarrow> bit (unat x) i" by (simp add: bit_unsigned_iff)
  then show ?thesis by (simp add: bit_iff_odd)
qed

lemma clear_mask_bit:
  "i < 128 \<Longrightarrow> LENGTH('a::len) \<le> 128 \<Longrightarrow>
     bit (ucast (NOT (2 ^ i :: u128)) :: 'a word) k \<longleftrightarrow> k < LENGTH('a) \<and> k \<noteq> i"
  by (auto simp: bit_simps)

text \<open>Clearing bit \<open>i\<close> and or-ing in \<open>b << i\<close> adds \<open>b * 2 ^ i\<close> to a word whose bit \<open>i\<close> is clear.\<close>

lemma set_bit_adds:
  fixes x b :: "'a::len word"
  assumes i: "i < LENGTH('a)" and l: "LENGTH('a) \<le> 128" and x: "even (unat x div 2 ^ i)"
    and b: "b = 0 \<or> b = 1"
  shows "unat ((x AND ucast (NOT (push_bit i 1 :: u128))) OR push_bit i b) = unat x + 2 ^ i * unat b"
proof -
  let ?c = "ucast (NOT (push_bit i 1 :: u128)) :: 'a word"
  have "x AND ?c = x"
    using x l i bit_unat_div [of x i] by (intro bit_word_eqI) (auto simp: bit_and_iff clear_mask_bit)
  moreover have "unat (x OR push_bit i b) = unat x + unat (push_bit i b)"
  proof -
    have "\<not> bit (unat x) k \<or> \<not> bit (unat (push_bit i b)) k" for k
      using x b bit_unat_div [of x i] by (auto simp: bit_unsigned_iff bit_exp_iff)
    then show ?thesis by (simp add: unsigned_or_eq flip: disjunctive_add)
  qed
  moreover have "unat (push_bit i b) = 2 ^ i * unat b"
    using b i by (auto simp: unat_two_power)
  ultimately show ?thesis by simp
qed

lemma get_bit_unat: "unat (drop_bit i y AND 1 :: 'a::len word) = unat y div 2 ^ i mod 2"
proof -
  have "drop_bit i y AND 1 = of_bool (bit y i)" by (rule bit_word_eqI) (auto simp: bit_simps)
  then show ?thesis by (simp add: bit_unat_div mod_2_eq_odd)
qed

lemma get_bit_01: "drop_bit i y AND 1 = (0 :: 'a::len word) \<or> drop_bit i y AND 1 = (1 :: 'a word)"
proof -
  have "drop_bit i y AND 1 = of_bool (bit y i)" by (rule bit_word_eqI) (auto simp: bit_simps)
  then show ?thesis by simp
qed

lemma push_bit_one_unat: "unat (push_bit 1 (x :: 'a::len word)) = 2 * unat x mod 2 ^ LENGTH('a)"
  by (simp add: unat_word_ariths take_bit_eq_mod mod_mult_right_eq mult.commute)

lemma xor_cancels: "x XOR (x XOR y) = y" "y XOR (x XOR y) = (x :: 'a::len word)"
  by (rule bit_word_eqI, auto simp: bit_simps)+

lemma public_unsigned_ct:
  assumes "1 < LENGTH('a::len)" and "LENGTH('a) \<le> 128"
  shows "ct_integer (public_unsigned :: 'a word numeric) unat"
proof
  fix x y z a :: "'a word" and i
  let ?T = "public_unsigned :: 'a word numeric"
  show "unat x < 2 ^ NUM_BITS ?T" by (simp add: public_unsigned_def unat_less_power)
  show "unat (n_default ?T) = 0" by (simp add: public_unsigned_def)
  show "\<exists>y. n_shl ?T x 1 = Some y \<and> unat y = 2 * unat x mod 2 ^ NUM_BITS ?T"
    using assms push_bit_one_unat [of x] by (simp add: public_unsigned_def pu_shl_def)
  show "unat y \<le> unat x \<Longrightarrow> unat (wrap_sub ?T x y) = unat x - unat y"
    by (simp add: public_unsigned_def unat_sub word_le_nat_alt)
  show "n_and ?T (greater_than_or_equal_bm ?T x y) z = (if unat y \<le> unat x then z else n_default ?T)"
    by (simp add: public_unsigned_def pu_greater_than_or_equal_bm_def word_le_nat_alt)
  show "n_xor ?T x (n_xor ?T x y) = y" "n_xor ?T y (n_xor ?T x y) = x"
    and "n_xor ?T x (n_default ?T) = x"
    by (simp_all add: public_unsigned_def xor_cancels)
  show "\<exists>y. n_set_bit ?T x (ONE ?T) i = Some y \<and> unat y = unat x + 2 ^ i"
    if "i < NUM_BITS ?T" and "even (unat x div 2 ^ i)"
    using that assms set_bit_adds [of i x 1]
    by (simp add: public_unsigned_def pu_set_bit_def pu_shl_def from_literal_def)
  show "\<exists>y. n_set ?T x 0 a i = Some y \<and> unat y = unat x + unat a div 2 ^ i mod 2"
    if "i < NUM_BITS ?T" and "even (unat x)"
    using that assms set_bit_adds [of 0 x "drop_bit i a AND 1"] get_bit_01 [of i a]
    by (auto simp: public_unsigned_def pu_set_def pu_get_bit_def pu_shr_def pu_set_bit_def
        pu_shl_def from_literal_def get_bit_unat)
qed

lemma shift_amount_less [simp]:
  "n < LENGTH('a::len) \<Longrightarrow> LENGTH('a) \<le> 128 \<Longrightarrow> shift_amount LENGTH('a) n = n"
  by (simp add: shift_amount_def)

lemma secret_unsigned_ct:
  assumes "1 < LENGTH('a::len)" and "LENGTH('a) \<le> 128"
  shows "ct_integer (secret_unsigned :: 'a secret numeric) unat"
proof
  fix x y z a :: "'a word" and i
  let ?T = "secret_unsigned :: 'a word numeric"
  have l: "LENGTH('a) \<le> 2 ^ 32" using assms(2) by simp
  show "unat x < 2 ^ NUM_BITS ?T" by (simp add: secret_unsigned_def unat_less_power)
  show "unat (n_default ?T) = 0" by (simp add: secret_unsigned_def)
  show "\<exists>y. n_shl ?T x 1 = Some y \<and> unat y = 2 * unat x mod 2 ^ NUM_BITS ?T"
    using assms push_bit_one_unat [of x] by (simp add: secret_unsigned_def secret_shl_def)
  show "unat y \<le> unat x \<Longrightarrow> unat (wrap_sub ?T x y) = unat x - unat y"
    by (simp add: secret_unsigned_def secret_sub_def unat_sub word_le_nat_alt)
  show "n_and ?T (greater_than_or_equal_bm ?T x y) z = (if unat y \<le> unat x then z else n_default ?T)"
    by (simp add: secret_unsigned_def secret_and_def comp_gte_mask [OF l] word_le_nat_alt)
  show "n_xor ?T x (n_xor ?T x y) = y" "n_xor ?T y (n_xor ?T x y) = x"
    and "n_xor ?T x (n_default ?T) = x"
    by (simp_all add: secret_unsigned_def secret_xor_def xor_cancels)
  show "\<exists>y. n_set_bit ?T x (ONE ?T) i = Some y \<and> unat y = unat x + 2 ^ i"
    if "i < NUM_BITS ?T" and "even (unat x div 2 ^ i)"
    using that assms set_bit_adds [of i x 1]
    by (simp add: secret_unsigned_def sec_set_bit_def pu_shl_def from_literal_def
        secret_defs comp_eq_mask [OF l])
  show "\<exists>y. n_set ?T x 0 a i = Some y \<and> unat y = unat x + unat a div 2 ^ i mod 2"
    if "i < NUM_BITS ?T" and "even (unat x)"
    using that assms set_bit_adds [of 0 x "drop_bit i a AND 1"] get_bit_01 [of i a]
    by (auto simp: secret_unsigned_def sec_set_def sec_get_bit_def sec_set_bit_def
        pu_shl_def from_literal_def get_bit_unat secret_defs comp_eq_mask [OF l])
qed

interpretation secret_u8: ct_integer "secret_unsigned :: 8 secret numeric" unat
  by (rule secret_unsigned_ct) simp_all

interpretation secret_u16: ct_integer "secret_unsigned :: 16 secret numeric" unat
  by (rule secret_unsigned_ct) simp_all

interpretation secret_u32: ct_integer "secret_unsigned :: 32 secret numeric" unat
  by (rule secret_unsigned_ct) simp_all

interpretation secret_u64: ct_integer "secret_unsigned :: 64 secret numeric" unat
  by (rule secret_unsigned_ct) simp_all

interpretation secret_u128: ct_integer "secret_unsigned :: 128 secret numeric" unat
  by (rule secret_unsigned_ct) simp_all

interpretation public_u8: ct_integer "public_unsigned :: 8 word numeric" unat
  by (rule public_unsigned_ct) simp_all

interpretation public_u16: ct_integer "public_unsigned :: 16 word numeric" unat
  by (rule public_unsigned_ct) simp_all

interpretation public_u32: ct_integer "public_unsigned :: 32 word numeric" unat
  by (rule public_unsigned_ct) simp_all

interpretation public_u64: ct_integer "public_unsigned :: 64 word numeric" unat
  by (rule public_unsigned_ct) simp_all

interpretation public_u128: ct_integer "public_unsigned :: 128 word numeric" unat
  by (rule public_unsigned_ct) simp_all


lemma ct_div_secret_eq:
  assumes "1 < LENGTH('a::len)" and "LENGTH('a) \<le> 128"
  shows "ct_div secret_unsigned (a :: 'a secret) d
    = Some (if d = 0 then (- 1, a) else (a div d, a mod d))"
proof (cases "d = 0")
  case True
  then obtain q r where "ct_div secret_unsigned a d = Some (q, r)"
    and q: "unat q = 2 ^ LENGTH('a) - 1" and r: "unat r = unat a"
    using ct_integer.ct_div_zero [OF secret_unsigned_ct [OF assms], of d a]
    by (auto simp: secret_unsigned_def)
  moreover from q have "q = - 1"
    by (simp add: word_unat_eq_iff unsigned_minus_1_eq_mask mask_eq_exp_minus_1)
  moreover from r have "r = a" by (simp add: word_unat_eq_iff)
  ultimately show ?thesis using True by simp
next
  case False
  then have "0 < unat d" by (simp add: unat_gt_0)
  then obtain q r where "ct_div secret_unsigned a d = Some (q, r)"
    and "unat q = unat a div unat d" and "unat r = unat a mod unat d"
    using ct_integer.ct_div_correct [OF secret_unsigned_ct [OF assms]] by blast
  then show ?thesis using False by (simp add: word_unat_eq_iff unat_div unat_mod)
qed

lemma sec_modulo_eq:
  "1 < LENGTH('a::len) \<Longrightarrow> LENGTH('a) \<le> 128 \<Longrightarrow> sec_modulo (a :: 'a secret) n = Some (a mod n)"
  by (simp add: sec_modulo_def ct_div_secret_eq)

text \<open>
  C9: constant-time division of secret unsigned integers, and the trait functions \<open>divide\<close> and
  \<open>modulo\<close> built on it, return for every width of the library and every non-zero divisor exactly
  the quotient and the remainder; with a zero divisor they do not panic but return the largest
  value and the dividend.
\<close>

theorem ct_div_secret_unsigned:
  assumes "1 < LENGTH('a::len)" and "LENGTH('a) \<le> 128"
  shows "ct_div secret_unsigned (a :: 'a secret) d
      = Some (if d = 0 then (- 1, a) else (a div d, a mod d))
    \<and> sec_divide a d = Some (if d = 0 then - 1 else a div d)
    \<and> sec_modulo a d = Some (a mod d)"
  using assms by (simp add: sec_divide_def sec_modulo_eq ct_div_secret_eq)

theorem ct_div_secret_unsigned_witness:
  "ct_div secret_unsigned (200 :: 8 secret) 7 = Some (28, 4)
   \<and> ct_div secret_unsigned (200 :: 8 secret) 0 = Some (255, 200)"
  using ct_div_secret_unsigned [of "200 :: 8 secret" 7] ct_div_secret_unsigned [of "200 :: 8 secret" 0]
  by simp

section \<open>Modular subtraction\<close>

lemma pu_sub_mod_loop_correct:
  assumes "0 < n" and "unat rhs + unat n \<le> 2 ^ LENGTH('a)"
  shows "\<exists>k tmp'. pu_sub_mod_loop (tmp :: 'a::len word) rhs n = Some tmp'
    \<and> unat tmp' = unat tmp + k * unat n \<and> rhs \<le> tmp'"
  using assms
proof (induction tmp rhs n rule: pu_sub_mod_loop.induct)
  case (1 tmp rhs n)
  show ?case
  proof (cases "tmp < rhs")
    case False
    then have "pu_sub_mod_loop tmp rhs n = Some tmp" by (simp add: pu_sub_mod_loop.simps)
    with False show ?thesis
      by (intro exI [of _ "0 :: nat"] exI [of _ tmp]) (simp add: not_less)
  next
    case True
    with 1(3) have lt: "unat tmp + unat n < 2 ^ LENGTH('a)"
      by (simp add: word_less_nat_alt)
    then have add: "pu_add tmp n = Some (tmp + n)" by (simp add: pu_add_def)
    from 1(2) have "n \<noteq> 0" by auto
    from 1(1) [OF True this add] 1(2,3) obtain k tmp' where
      "pu_sub_mod_loop (tmp + n) rhs n = Some tmp'"
      "unat tmp' = unat (tmp + n) + k * unat n" "rhs \<le> tmp'"
      by blast
    with True add \<open>n \<noteq> 0\<close> lt show ?thesis
      by (intro exI [of _ "Suc k"] exI [of _ tmp'])
        (simp add: pu_sub_mod_loop.simps [of tmp] unat_word_ariths)
  qed
qed

text \<open>
  on public unsigned integers \<open>sub_mod\<close> returns the mathematical residue of the difference,
  also when the difference is negative, provided the modulus is positive and leaves room for one
  addition above the subtrahend.
\<close>

theorem pu_sub_mod_correct:
  assumes "0 < n" and "unat rhs + unat n \<le> 2 ^ LENGTH('a)"
  shows "\<exists>r. pu_sub_mod (self :: 'a::len word) rhs n = Some r
    \<and> int (unat r) = (int (unat self) - int (unat rhs)) mod int (unat n)"
proof -
  obtain k tmp where tmp: "pu_sub_mod_loop self rhs n = Some tmp"
    "unat tmp = unat self + k * unat n" "rhs \<le> tmp"
    using pu_sub_mod_loop_correct [OF assms] by blast
  moreover have "int (unat ((tmp - rhs) mod n)) = (int (unat self) - int (unat rhs)) mod int (unat n)"
  proof -
    have "int (unat ((tmp - rhs) mod n)) = int (unat tmp - unat rhs) mod int (unat n)"
      using tmp(3) by (simp add: unat_mod unat_sub zmod_int)
    also have "int (unat tmp - unat rhs) = int (unat self) - int (unat rhs) + int k * int (unat n)"
      using tmp(2,3) by (simp add: word_le_nat_alt of_nat_diff)
    finally show ?thesis by simp
  qed
  moreover have "n \<noteq> 0" using assms(1) by auto
  ultimately show ?thesis
    by (simp add: pu_sub_mod_def pu_sub_def pu_rem_def)
qed

theorem pu_sub_mod_correct_witness:
  "\<exists>r. pu_sub_mod (3 :: u8) 5 7 = Some r \<and> int (unat r) = (3 - 5) mod 7"
  using pu_sub_mod_correct [of "7 :: u8" 5 3] by simp

text \<open>
  on secret unsigned integers \<open>add_mod\<close>, \<open>sub_mod\<close> and \<open>mul_mod\<close> reduce the wrapped machine
  result: they never panic, and they return the mathematical residue whenever the operation itself
  does not wrap.
\<close>

theorem secret_mod_arithmetic:
  fixes a b n :: "'a::len secret"
  assumes "1 < LENGTH('a)" and "LENGTH('a) \<le> 128"
  shows "sec_sub_mod a b n = Some ((a - b) mod n)
    \<and> sec_add_mod a b n = Some ((a + b) mod n)
    \<and> sec_mul_mod a b n = Some ((a * b) mod n)
    \<and> (b \<le> a \<longrightarrow> unat ((a - b) mod n) = (unat a - unat b) mod unat n)
    \<and> (unat a + unat b < 2 ^ LENGTH('a) \<longrightarrow> unat ((a + b) mod n) = (unat a + unat b) mod unat n)
    \<and> (unat a * unat b < 2 ^ LENGTH('a) \<longrightarrow> unat ((a * b) mod n) = (unat a * unat b) mod unat n)"
  using assms
  by (simp add: sec_sub_mod_def sec_add_mod_def sec_mul_mod_def sec_modulo_eq secret_defs
      unat_mod unat_sub unat_word_ariths)

theorem secret_mod_arithmetic_witness:
  "sec_sub_mod (9 :: 8 secret) 4 3 = Some 2 \<and> unat (((9 :: 8 secret) - 4) mod 3) = (9 - 4) mod 3"
  using secret_mod_arithmetic [of "9 :: 8 secret" 4 3] by simp

text \<open>
  modular subtraction of secret integers is not the residue of the difference when the
  difference is negative: \<open>0 - 1\<close> modulo 3 on \<open>U8\<close> is 0, where the public type returns 2.
\<close>

theorem secret_sub_mod_wraps:
  "sec_sub_mod (0 :: 8 secret) 1 3 = Some 0 \<and> pu_sub_mod (0 :: u8) 1 3 = Some 2
   \<and> (0 - 1) mod 3 = (2 :: int)"
  by (simp add: sec_sub_mod_def sec_modulo_eq secret_sub_def pu_sub_mod_def pu_sub_mod_loop.simps
      pu_add_def pu_sub_def pu_rem_def)

section \<open>Rotations\<close>

text \<open>For a width that is a power of two, the masked negation is the complementary amount.\<close>

lemma neg_amount_eq:
  assumes "bits = 2 ^ k" and "k \<le> 31" and "n < bits"
  shows "neg_amount bits n = (bits - n) mod bits"
proof -
  have k: "k < LENGTH(64)" using assms(2) by simp
  have b: "bits \<le> 2 ^ 31"
    using assms(1) power_increasing [OF assms(2), of "2::nat"] by (simp only:)
  have "word_of_nat (bits - 1) = (mask k :: u64)"
    by (simp add: assms(1) mask_eq_exp_minus_1 of_nat_diff)
  then have "neg_amount bits n = unat (take_bit k (- word_of_nat n :: u64))"
    by (simp add: neg_amount_def take_bit_eq_mask)
  also have "\<dots> = unat (- word_of_nat n :: u64) mod 2 ^ k"
    unfolding unsigned_take_bit_eq by (simp add: take_bit_eq_mod)
  also have "\<dots> = (2 ^ 64 - n) mod 2 ^ 64 mod 2 ^ k"
  proof -
    have "unat (- word_of_nat n :: u64) = (2 ^ 64 - n) mod 2 ^ 64"
    proof -
      have "(- word_of_nat n :: u64) = word_of_nat (2 ^ 64 - n)"
        using b assms(3) by (simp add: of_nat_diff)
      then show ?thesis by (simp only: unat_of_nat) simp
    qed
    then show ?thesis by simp
  qed
  also have "\<dots> = (2 ^ 64 - n) mod 2 ^ k"
    using k by (intro mod_mod_cancel le_imp_power_dvd) simp
  also have "\<dots> = (bits - n) mod bits"
  proof -
    have "(2::nat) ^ 64 - n = bits - n + bits * (2 ^ (64 - k) - 1)"
    proof -
      have "bits * 2 ^ (64 - k) = (2::nat) ^ 64"
        using k assms(1) by (simp flip: power_add)
      then have "bits * (2 ^ (64 - k) - 1) = 2 ^ 64 - bits"
        by (simp add: diff_mult_distrib2)
      with b assms(3) show ?thesis by simp
    qed
    then show ?thesis by (simp add: assms(1))
  qed
  finally show ?thesis .
qed

text \<open>The two shifts of the code never panic and cover complementary bits.\<close>

lemma rotl_as_shifts:
  fixes x :: "'a::len word"
  assumes "n < LENGTH('a)"
  shows "push_bit n x OR drop_bit ((LENGTH('a) - n) mod LENGTH('a)) x = word_rotl n x"
proof (cases "n = 0")
  case True
  then show ?thesis by (intro bit_word_eqI) (auto simp: bit_simps)
next
  case False
  with assms have m: "(LENGTH('a) - n) mod LENGTH('a) = LENGTH('a) - n" by simp
  show ?thesis
  proof (rule bit_word_eqI)
    fix i assume i: "i < LENGTH('a)"
    show "bit (push_bit n x OR drop_bit ((LENGTH('a) - n) mod LENGTH('a)) x) i = bit (word_rotl n x) i"
    proof (cases "n \<le> i")
      case True
      with i assms have "(i + (LENGTH('a) - n)) mod LENGTH('a) = i - n"
        by (simp add: le_mod_geq)
      moreover have "\<not> bit x (LENGTH('a) - n + i)"
        using True bit_imp_le_length [of x "LENGTH('a) - n + i"] assms by auto
      ultimately show ?thesis
        using True i assms m by (simp add: bit_simps bit_word_rotl_iff)
    next
      case False
      with i assms m show ?thesis by (simp add: bit_simps bit_word_rotl_iff add.commute)
    qed
  qed
qed

lemma rotr_as_shifts:
  fixes x :: "'a::len word"
  assumes "n < LENGTH('a)"
  shows "drop_bit n x OR push_bit ((LENGTH('a) - n) mod LENGTH('a)) x = word_rotr n x"
proof (cases "n = 0")
  case True
  then show ?thesis by (intro bit_word_eqI) (auto simp: bit_simps)
next
  case False
  with assms have "word_rotr n x = word_rotl (LENGTH('a) - n) x"
    by (simp add: word_rotl_eq_word_rotr)
  also have "\<dots> = push_bit (LENGTH('a) - n) x OR drop_bit n x"
    using False assms rotl_as_shifts [of "LENGTH('a) - n" x] by simp
  finally show ?thesis using False assms by (simp add: or.commute)
qed

lemma secret_shift_less:
  "n < LENGTH('a::len) \<Longrightarrow> LENGTH('a) \<le> 128 \<Longrightarrow> secret_shl (x :: 'a secret) n = push_bit n x"
  "n < LENGTH('a::len) \<Longrightarrow> LENGTH('a) \<le> 128 \<Longrightarrow> secret_shr (x :: 'a secret) n = drop_bit n x"
  by (simp_all add: secret_shl_def secret_shr_def)

text \<open>
  the trait rotations, written with two shifts and a masked negation, panic exactly when the
  amount is not below the width and otherwise are the bit rotations, for public and secret integers
  of every width of the library; rotating left and then right is the identity.
\<close>

theorem rotations_correct:
  fixes x :: "'a::len word"
  assumes "LENGTH('a) = 2 ^ k" and "k \<le> 7"
  shows "pu_rotate_left x n = (if n < LENGTH('a) then Some (word_rotl n x) else None)
    \<and> pu_rotate_right x n = (if n < LENGTH('a) then Some (word_rotr n x) else None)
    \<and> sec_rotate_left x n = (if n < LENGTH('a) then Some (word_rotl n x) else None)
    \<and> sec_rotate_right x n = (if n < LENGTH('a) then Some (word_rotr n x) else None)
    \<and> (n < LENGTH('a) \<longrightarrow> pu_rotate_left x n \<bind> (\<lambda>y. pu_rotate_right y n) = Some x)"
proof -
  have l: "LENGTH('a) \<le> 128"
    using assms(1) power_increasing [OF assms(2), of "2::nat"] by simp
  have "n < LENGTH('a) \<Longrightarrow> neg_amount LENGTH('a) n = (LENGTH('a) - n) mod LENGTH('a)"
    using assms by (intro neg_amount_eq [of _ k]) simp_all
  moreover have "word_rotr n (word_rotl n x) = x"
    by (rule bit_word_eqI) (simp add: bit_word_rotr_iff bit_word_rotl_iff mod_simps)
  ultimately show ?thesis
    using rotl_as_shifts [of n x] rotr_as_shifts [of n x] rotr_as_shifts [of n "word_rotl n x"]
    by (simp add: pu_rotate_left_def pu_rotate_right_def sec_rotate_left_def sec_rotate_right_def
        pu_shl_def pu_shr_def secret_or_def secret_shift_less [OF _ l])
qed

theorem rotations_correct_witness:
  "pu_rotate_left (0x81 :: u8) 1 = Some 3 \<and> sec_rotate_right (0x81 :: 8 secret) 9 = None"
proof -
  have "word_rotl 1 (0x81 :: u8) = 3" by code_simp
  then show ?thesis
    using rotations_correct [of 3 "0x81 :: u8" 1] rotations_correct [of 3 "0x81 :: u8" 9] by simp
qed

end
