(* ===== verification/Seq.thy ===== *)
theory Seq
  imports Secret_Integers
begin

text \<open>
  \<open>lib/src/seq.rs\<close>: variable-length sequences. The three structs \<open>SecretSeq\<close>, \<open>PublicSeq\<close> and
  \<open>Seq\<close> that \<open>declare_seq!\<close> generates have one field \<open>b: Vec<T>\<close> and the same methods; a sequence is
  the list of its elements. Every method is one definition, in the order of the source; a panic
  (a failed \<open>debug_assert!\<close>, an index out of range, an overflow on \<open>usize\<close>) is \<open>None\<close>.

  The lemmas give the functional behaviour of every method on all its branches: slices,
  concatenation, the decomposition of a sequence into chunks, and the round trip of the
  hexadecimal conversions.
\<close>

named_theorems seq_defs \<open>definitions of the methods of Seq\<close>

type_synonym 'a seq = "'a list"

text \<open>\<open>T::default()\<close> of the integer types is zero.\<close>

instantiation word :: (len) default
begin

definition default_word :: "'a word" where
  "default_word = 0"

instance ..

end

section \<open>The trait SeqTrait\<close>

definition seq_new :: "usize \<Rightarrow> 'a::default seq" where
  "seq_new l = replicate l default"

definition seq_with_capacity :: "usize \<Rightarrow> 'a seq" where
  [seq_defs]: "seq_with_capacity l = []"

definition seq_reserve :: "'a seq \<Rightarrow> usize \<Rightarrow> 'a seq" where
  [seq_defs]: "seq_reserve self additional = self"

definition seq_len :: "'a seq \<Rightarrow> usize" where
  [seq_defs]: "seq_len self = length self"

definition seq_update_slice ::
  "'a seq \<Rightarrow> usize \<Rightarrow> 'a seq \<Rightarrow> usize \<Rightarrow> usize \<Rightarrow> 'a seq option" where
  "seq_update_slice self start_out v start_in len = do {
     end_out \<leftarrow> usize_add start_out len;
     rust_assert (seq_len self \<ge> end_out);
     end_in \<leftarrow> usize_add start_in len;
     rust_assert (seq_len v \<ge> end_in);
     for_range 0 len (\<lambda>i self. do {
       x \<leftarrow> vec_get v (start_in + i);
       vec_set self (start_out + i) x
     }) self
   }"

definition seq_update :: "'a seq \<Rightarrow> usize \<Rightarrow> 'a seq \<Rightarrow> 'a seq option" where
  [seq_defs]: "seq_update self start v = (let len = seq_len v in seq_update_slice self start v 0 len)"

definition seq_update_start :: "'a seq \<Rightarrow> 'a seq \<Rightarrow> 'a seq option" where
  [seq_defs]: "seq_update_start self v = (let len = seq_len v in seq_update_slice self 0 v 0 len)"

section \<open>Slices\<close>

definition seq_from_slice :: "'a::default seq \<Rightarrow> usize \<Rightarrow> usize \<Rightarrow> 'a seq option" where
  "seq_from_slice input start len =
     (let a = seq_new len in seq_update_slice a 0 input start len)"

definition seq_slice :: "'a::default seq \<Rightarrow> usize \<Rightarrow> usize \<Rightarrow> 'a seq option" where
  [seq_defs]: "seq_slice self start_out len = seq_from_slice self start_out len"

text \<open>\<open>Vec::drain(a..b)\<close> panics unless \<open>a \<le> b\<close> and \<open>b\<close> is at most the length.\<close>

definition vec_drain :: "'a list \<Rightarrow> usize \<Rightarrow> usize \<Rightarrow> 'a list option" where
  "vec_drain xs a b = (if a \<le> b \<and> b \<le> length xs then Some (take (b - a) (drop a xs)) else None)"

definition seq_into_slice :: "'a seq \<Rightarrow> usize \<Rightarrow> usize \<Rightarrow> 'a seq option" where
  "seq_into_slice self start_out len = do {
     e \<leftarrow> usize_add start_out len;
     vec_drain self start_out e
   }"

definition seq_slice_range :: "'a::default seq \<Rightarrow> usize \<times> usize \<Rightarrow> 'a seq option" where
  "seq_slice_range self r = do { l \<leftarrow> usize_sub (snd r) (fst r); seq_slice self (fst r) l }"

definition seq_into_slice_range :: "'a seq \<Rightarrow> usize \<times> usize \<Rightarrow> 'a seq option" where
  "seq_into_slice_range self r = vec_drain self (fst r) (snd r)"

text \<open>\<open>Vec::split_off(at)\<close> keeps the first \<open>at\<close> elements and returns the rest; it panics if \<open>at > len\<close>.\<close>

definition seq_split_off :: "'a seq \<Rightarrow> usize \<Rightarrow> ('a seq \<times> 'a seq) option" where
  "seq_split_off self at = (if at \<le> length self then Some (take at self, drop at self) else None)"

definition seq_pop :: "'a seq \<Rightarrow> ('a \<times> 'a seq) option" where
  "seq_pop self = do {
     (self, other) \<leftarrow> seq_split_off self 1;
     first \<leftarrow> (if self = [] then None else Some (last self));
     Some (first, other)
   }"

definition seq_truncate :: "'a seq \<Rightarrow> usize \<Rightarrow> 'a seq" where
  "seq_truncate self len = take len self"

definition seq_from_slice_range :: "'a::default seq \<Rightarrow> usize \<times> usize \<Rightarrow> 'a seq option" where
  "seq_from_slice_range input r = do { l \<leftarrow> usize_sub (snd r) (fst r); seq_from_slice input (fst r) l }"

section \<open>Concatenation\<close>

definition seq_concat :: "'a::default seq \<Rightarrow> 'a seq \<Rightarrow> 'a seq option" where
  "seq_concat self next = do {
     n \<leftarrow> usize_add (seq_len self) (seq_len next);
     let out = seq_new n;
     out \<leftarrow> seq_update_start out self;
     out \<leftarrow> seq_update_slice out (seq_len self) next 0 (seq_len next);
     Some out
   }"

definition seq_concat_owned :: "'a seq \<Rightarrow> 'a seq \<Rightarrow> 'a seq" where
  "seq_concat_owned self next = self @ next"

definition seq_push :: "'a::default seq \<Rightarrow> 'a \<Rightarrow> 'a seq option" where
  "seq_push self next = do {
     n \<leftarrow> usize_add (seq_len self) 1;
     let out = seq_new n;
     out \<leftarrow> seq_update_start out self;
     out \<leftarrow> vec_set out (seq_len self) next;
     Some out
   }"

definition seq_push_owned :: "'a seq \<Rightarrow> 'a \<Rightarrow> 'a seq" where
  "seq_push_owned self next = self @ [next]"

section \<open>Chunks\<close>

definition seq_num_chunks :: "'a seq \<Rightarrow> usize \<Rightarrow> usize option" where
  "seq_num_chunks self chunk_size = do {
     s \<leftarrow> usize_add (seq_len self) chunk_size;
     s \<leftarrow> usize_sub s 1;
     usize_div s chunk_size
   }"

definition seq_num_exact_chunks :: "'a seq \<Rightarrow> usize \<Rightarrow> usize option" where
  "seq_num_exact_chunks self chunk_size = usize_div (seq_len self) chunk_size"

definition chunk_len :: "'a seq \<Rightarrow> usize \<Rightarrow> usize \<Rightarrow> usize option" where
  "chunk_len self chunk_size idx_start = do {
     e \<leftarrow> usize_add idx_start chunk_size;
     if e > seq_len self then usize_sub (seq_len self) idx_start else Some chunk_size
   }"

definition seq_get_chunk :: "'a::default seq \<Rightarrow> usize \<Rightarrow> usize \<Rightarrow> (usize \<times> 'a seq) option" where
  "seq_get_chunk self chunk_size chunk_number = do {
     idx_start \<leftarrow> usize_mul chunk_size chunk_number;
     len \<leftarrow> chunk_len self chunk_size idx_start;
     out \<leftarrow> seq_slice self idx_start len;
     Some (len, out)
   }"

definition seq_get_exact_chunk :: "'a::default seq \<Rightarrow> usize \<Rightarrow> usize \<Rightarrow> 'a seq option" where
  "seq_get_exact_chunk self chunk_size chunk_number = do {
     (len, chunk) \<leftarrow> seq_get_chunk self chunk_size chunk_number;
     if len \<noteq> chunk_size then Some (seq_new 0) else Some chunk
   }"

definition seq_get_remainder_chunk :: "'a::default seq \<Rightarrow> usize \<Rightarrow> 'a seq option" where
  "seq_get_remainder_chunk self chunk_size = do {
     chunks \<leftarrow> seq_num_chunks self chunk_size;
     let last_chunk = (if chunks > 0 then chunks - 1 else 0);
     (len, chunk) \<leftarrow> seq_get_chunk self chunk_size last_chunk;
     if len = chunk_size then Some (seq_new 0) else Some chunk
   }"

definition seq_set_chunk :: "'a seq \<Rightarrow> usize \<Rightarrow> usize \<Rightarrow> 'a seq \<Rightarrow> 'a seq option" where
  "seq_set_chunk self chunk_size chunk_number input = do {
     idx_start \<leftarrow> usize_mul chunk_size chunk_number;
     len \<leftarrow> chunk_len self chunk_size idx_start;
     rust_assert (seq_len input = len);
     seq_update_slice self idx_start input 0 len
   }"

definition seq_set_exact_chunk :: "'a seq \<Rightarrow> usize \<Rightarrow> usize \<Rightarrow> 'a seq \<Rightarrow> 'a seq option" where
  "seq_set_exact_chunk self chunk_size chunk_number input = do {
     rust_assert (seq_len input = chunk_size);
     idx_start \<leftarrow> usize_mul chunk_size chunk_number;
     e \<leftarrow> usize_add idx_start chunk_size;
     rust_assert (e \<le> seq_len self);
     seq_update_slice self idx_start input 0 chunk_size
   }"

text \<open>\<open>for (o, i) in self.b.iter_mut().skip(start_out).zip(v.b.drain(..)) { *o = i; }\<close>\<close>

fun overwrite :: "'a list \<Rightarrow> 'a list \<Rightarrow> 'a list" where
  "overwrite (b # bs) (v # vs) = v # overwrite bs vs"
| "overwrite bs vs = bs"

definition seq_update_owned :: "'a seq \<Rightarrow> usize \<Rightarrow> 'a seq \<Rightarrow> 'a seq option" where
  "seq_update_owned self start_out v = do {
     e \<leftarrow> usize_add start_out (seq_len v);
     rust_assert (seq_len self \<ge> e);
     Some (take start_out self @ overwrite (drop start_out self) v)
   }"

section \<open>Conversions\<close>

definition seq_from_seq :: "'a::default seq \<Rightarrow> 'a seq option" where
  "seq_from_seq x = for_range 0 (seq_len x) (\<lambda>i tmp. do {
     v \<leftarrow> vec_get x i;
     vec_set tmp i v
   }) (seq_new (seq_len x))"

definition seq_from_public_seq :: "'a::len word seq \<Rightarrow> 'a secret seq option" where
  "seq_from_public_seq x = for_range 0 (seq_len x) (\<lambda>i tmp. do {
     v \<leftarrow> vec_get x i;
     vec_set tmp i (classify v)
   }) (seq_new (seq_len x))"

definition seq_declassify :: "'a::len secret seq \<Rightarrow> 'a word seq option" where
  "seq_declassify self = for_range 0 (seq_len self) (\<lambda>i tmp. do {
     v \<leftarrow> vec_get self i;
     vec_set tmp i (declassify v)
   }) (seq_new (seq_len self))"

definition seq_from_public_slice :: "'a::len word list \<Rightarrow> 'a secret seq" where
  "seq_from_public_slice v = map classify v"

definition seq_to_native :: "'a::len secret seq \<Rightarrow> 'a word list" where
  "seq_to_native self = map declassify self"

section \<open>Hexadecimal strings\<close>

text \<open>
  A \<open>&str\<close> is the list of its bytes. \<open>u8::from_str_radix(s, 16)\<close> accepts an optional leading
  \<open>+\<close>, refuses the empty string and a lone sign, and reports an overflow; \<open>None\<close> is the error.
\<close>

definition hex_digit :: "char \<Rightarrow> nat option" where
  "hex_digit c = (let n = of_char c in
     if 48 \<le> n \<and> n \<le> 57 then Some (n - 48)
     else if 97 \<le> n \<and> n \<le> 102 then Some (n - 87)
     else if 65 \<le> n \<and> n \<le> 70 then Some (n - 55)
     else None)"

definition u8_push_digit :: "char \<Rightarrow> nat \<Rightarrow> nat option" where
  "u8_push_digit c acc = do {
     d \<leftarrow> hex_digit c;
     if acc * 16 < 256 \<and> acc * 16 + d < 256 then Some (acc * 16 + d) else None
   }"

definition u8_from_str_radix_16 :: "string \<Rightarrow> u8 option" where
  "u8_from_str_radix_16 s =
     (if s = [] \<or> s = ''+'' \<or> s = ''-'' then None
      else map_option of_nat (foldM u8_push_digit (if hd s = CHR ''+'' then tl s else s) 0))"

fun collect :: "'a option list \<Rightarrow> 'a list option" where
  "collect [] = Some []"
| "collect (x # xs) = do { y \<leftarrow> x; ys \<leftarrow> collect xs; Some (y # ys) }"

definition hex_string_to_bytes :: "string \<Rightarrow> u8 list option" where
  "hex_string_to_bytes s = do {
     rust_assert (length s mod 2 = 0);
     collect (map u8_from_str_radix_16 (chunks 2 s))
   }"

definition seq_from_hex :: "string \<Rightarrow> 8 secret seq option" where
  "seq_from_hex s = map_option (map classify) (hex_string_to_bytes s)"

definition hex_char :: "nat \<Rightarrow> char" where
  "hex_char n = (if n < 10 then char_of (48 + n) else char_of (87 + n))"

text \<open>\<open>format!("{:02x}", b)\<close>\<close>

definition format_02x :: "u8 \<Rightarrow> string" where
  "format_02x b = [hex_char (unat b div 16), hex_char (unat b mod 16)]"

definition seq_to_hex :: "8 secret seq \<Rightarrow> string" where
  "seq_to_hex self = concat (map (\<lambda>b. format_02x (declassify b)) self)"

section \<open>Correctness of slices, concatenation and pointwise conversions\<close>

lemma update_slice_step:
  assumes "i < n" "a + n \<le> length xs" "length vs = n"
  shows "(take a xs @ take i vs @ drop (a + i) xs)[a + i := vs ! i]
    = take a xs @ take (Suc i) vs @ drop (a + Suc i) xs"
proof -
  have "drop (a + i) xs = xs ! (a + i) # drop (a + Suc i) xs"
    using assms by (simp add: Cons_nth_drop_Suc)
  then show ?thesis
    using assms by (simp add: list_update_append take_Suc_conv_app_nth)
qed

lemma copy_loop:
  assumes "so + n \<le> length self" "si + n \<le> length v"
  shows "for_range 0 n (\<lambda>i self. do { x \<leftarrow> vec_get v (si + i); vec_set self (so + i) x }) self
    = Some (take so self @ take n (drop si v) @ drop (so + n) self)"
proof -
  let ?vs = "take n (drop si v)"
  let ?f = "\<lambda>i self. do { x \<leftarrow> vec_get v (si + i); vec_set self (so + i) x }"
  have "\<exists>s. for_range 0 n ?f self = Some s \<and> s = take so self @ take n ?vs @ drop (so + n) self"
  proof (rule for_range_rule
      [where P = "\<lambda>i s. s = take so self @ take i ?vs @ drop (so + i) self"])
    show "self = take so self @ take 0 ?vs @ drop (so + 0) self" by simp
  next
    fix i s assume i: "i < n" and s: "s = take so self @ take i ?vs @ drop (so + i) self"
    have "length s = length self" using i s assms by simp
    moreover have "v ! (si + i) = ?vs ! i" using i assms by simp
    ultimately have "?f i s = Some (s[so + i := ?vs ! i])"
      using i assms by (simp del: nth_take nth_drop)
    moreover have "s[so + i := ?vs ! i] = take so self @ take (Suc i) ?vs @ drop (so + Suc i) self"
      unfolding s by (rule update_slice_step [OF i]) (use assms in auto)
    ultimately show "\<exists>s'. ?f i s = Some s'
        \<and> s' = take so self @ take (Suc i) ?vs @ drop (so + Suc i) self"
      by blast
  qed simp
  then show ?thesis by simp
qed

lemma seq_update_slice_Some:
  assumes "so + n \<le> length self" "si + n \<le> length v" "usize_fits (so + n)" "usize_fits (si + n)"
  shows "seq_update_slice self so v si n
    = Some (take so self @ take n (drop si v) @ drop (so + n) self)"
  using assms copy_loop [OF assms(1,2)] by (simp add: seq_update_slice_def seq_len_def)

lemma seq_update_slice_None:
  assumes "usize_fits (length self)" "usize_fits (length v)"
    and "length self < so + n \<or> length v < si + n"
  shows "seq_update_slice self so v si n = None"
  using assms by (auto simp: seq_update_slice_def seq_len_def usize_add_def)

lemma seq_update_slice_eq:
  assumes "usize_fits (length self)" "usize_fits (length v)"
  shows "seq_update_slice self so v si n =
    (if so + n \<le> length self \<and> si + n \<le> length v
     then Some (take so self @ take n (drop si v) @ drop (so + n) self) else None)"
  using assms seq_update_slice_Some [of so n self si v] seq_update_slice_None [of self v so n si]
  by (auto intro: usize_fits_mono)

lemma length_seq_new [simp]: "length (seq_new n) = n"
  by (simp add: seq_new_def)

lemma seq_from_slice_eq:
  assumes "usize_fits (length input)"
  shows "seq_from_slice input start n =
    (if start + n \<le> length input then Some (take n (drop start input)) else None)"
proof (cases "start + n \<le> length input")
  case True
  with assms have "usize_fits n" "usize_fits (start + n)" by (auto intro: usize_fits_mono)
  with True show ?thesis
    by (simp add: seq_from_slice_def seq_update_slice_Some)
next
  case False
  then show ?thesis
    using assms by (auto simp: seq_from_slice_def seq_update_slice_def seq_len_def usize_add_def)
qed

lemma seq_slice_eq:
  assumes "usize_fits (length self)"
  shows "seq_slice self start n =
    (if start + n \<le> length self then Some (take n (drop start self)) else None)"
  using seq_from_slice_eq [OF assms] by (simp add: seq_slice_def)

lemma seq_into_slice_eq:
  assumes "usize_fits (length self)"
  shows "seq_into_slice self start n = seq_slice self start n"
  using assms
  by (auto simp: seq_into_slice_def vec_drain_def seq_slice_eq usize_add_def intro: usize_fits_mono)

lemma seq_slice_range_eq:
  assumes "usize_fits (length self)"
  shows "seq_slice_range self (a, b) =
    (if a \<le> b \<and> b \<le> length self then Some (take (b - a) (drop a self)) else None)"
  using assms by (auto simp: seq_slice_range_def seq_slice_eq usize_sub_def)

lemma seq_concat_eq:
  assumes "usize_fits (length a + length b)"
  shows "seq_concat a b = Some (a @ b)"
proof -
  have "usize_fits (length a)" "usize_fits (length b)" using assms by (auto intro: usize_fits_mono)
  then have "seq_update_start (seq_new (length a + length b)) a
      = Some (a @ drop (length a) (seq_new (length a + length b)))"
    by (simp add: seq_update_start_def seq_len_def seq_update_slice_Some)
  with assms \<open>usize_fits (length b)\<close> show ?thesis
    by (simp add: seq_concat_def seq_len_def seq_update_slice_Some)
qed

lemma seq_push_eq:
  fixes a :: "'a::default seq"
  assumes "usize_fits (length a + 1)"
  shows "seq_push a x = Some (a @ [x])"
proof -
  have "usize_fits (length a)" using assms by (auto intro: usize_fits_mono)
  then have "seq_update_start (seq_new (length a + 1)) a
      = Some (a @ drop (length a) (seq_new (length a + 1)))"
    by (simp add: seq_update_start_def seq_len_def seq_update_slice_Some)
  moreover have "drop (length a) (seq_new (length a + 1)) = [default :: 'a]"
    by (simp add: seq_new_def drop_replicate del: replicate_Suc) simp
  ultimately show ?thesis
    using assms by (simp add: seq_push_def seq_len_def)
qed

lemma overwrite_eq: "length vs \<le> length bs \<Longrightarrow> overwrite bs vs = vs @ drop (length vs) bs"
  by (induction bs vs rule: overwrite.induct) auto

lemma seq_update_owned_eq:
  assumes "usize_fits (length self)" "usize_fits (length v)"
  shows "seq_update_owned self so v = seq_update self so v"
  using assms
  by (auto simp: seq_update_owned_def seq_update_def Let_def seq_update_slice_eq seq_len_def
      overwrite_eq usize_add_def add.commute intro: usize_fits_mono)

lemma seq_from_seq_eq: "seq_from_seq x = Some x"
  using for_range_pointwise [of "seq_new (length x)" x "\<lambda>v. v"]
  by (simp add: seq_from_seq_def seq_len_def)

lemma seq_declassify_eq: "seq_declassify x = Some (map declassify x)"
  by (simp add: seq_declassify_def seq_len_def for_range_pointwise)

lemma seq_from_public_seq_eq: "seq_from_public_seq x = Some (map classify x)"
  by (simp add: seq_from_public_seq_def seq_len_def for_range_pointwise)

text \<open>
  C18: \<open>update_slice\<close> panics exactly when one of the two ranges leaves its sequence; otherwise it
  replaces the range of the output by the range of the input and leaves the rest. \<open>slice\<close>,
  \<open>into_slice\<close> and \<open>slice_range\<close> return the range, and panic exactly when it is out of bounds.
\<close>

theorem seq_slices_correct:
  assumes "usize_fits (length self)" and "usize_fits (length v)"
  shows "seq_update_slice self so v si n =
      (if so + n \<le> length self \<and> si + n \<le> length v
       then Some (take so self @ take n (drop si v) @ drop (so + n) self) else None)
    \<and> seq_slice self so n = (if so + n \<le> length self then Some (take n (drop so self)) else None)
    \<and> seq_into_slice self so n = seq_slice self so n
    \<and> seq_slice_range self (so, si) =
        (if so \<le> si \<and> si \<le> length self then Some (take (si - so) (drop so self)) else None)"
  using assms by (simp add: seq_update_slice_eq seq_slice_eq seq_into_slice_eq seq_slice_range_eq)

theorem seq_slices_correct_witness:
  "usize_fits (length [1, 2, 3 :: u8]) \<and> usize_fits (length [7, 8 :: u8])
    \<and> seq_update_slice [1, 2, 3 :: u8] 1 [7, 8] 0 2 = Some [1, 7, 8]
    \<and> seq_slice [1, 2, 3 :: u8] 1 2 = Some [2, 3]"
  using seq_slices_correct [of "[1, 2, 3 :: u8]" "[7, 8]" 1 0 2] by (simp add: usize_fits_def)

text \<open>
  \<open>concat\<close> and \<open>push\<close> never panic while the result's length is a \<open>usize\<close>, and agree with their
  consuming variants, which append; \<open>update_owned\<close> agrees with \<open>update\<close>.
\<close>

theorem seq_owned_variants_agree:
  assumes "usize_fits (length a + length b + 1)"
  shows "seq_concat a b = Some (seq_concat_owned a b)
    \<and> seq_concat_owned a b = a @ b
    \<and> seq_push a x = Some (seq_push_owned a x)
    \<and> seq_push_owned a x = a @ [x]
    \<and> seq_update_owned a i b = seq_update a i b"
proof -
  have "usize_fits (length a + length b)" "usize_fits (length a + 1)" "usize_fits (length a)"
    "usize_fits (length b)"
    using assms by (auto intro: usize_fits_mono)
  then show ?thesis
    by (simp add: seq_concat_eq seq_push_eq seq_update_owned_eq seq_concat_owned_def
        seq_push_owned_def)
qed

theorem seq_owned_variants_agree_witness:
  "usize_fits (length [1 :: u8] + length [2, 3 :: u8] + 1)
    \<and> seq_concat [1 :: u8] [2, 3] = Some [1, 2, 3]"
  using seq_owned_variants_agree [of "[1 :: u8]" "[2, 3]" 0 0] by (simp add: usize_fits_def)

section \<open>The contract of SeqTrait\<close>

text \<open>
  What the trait \<open>SeqTrait\<close> promises its clients, over the representation of a value as the list
  of its elements: \<open>inv\<close> is the invariant of the implementing type (the length of an array is
  fixed, the length of a sequence is a \<open>usize\<close>).
\<close>

locale seq_trait =
  fixes inv :: "'a list \<Rightarrow> bool"
    and len :: "'a list \<Rightarrow> usize"
    and update_slice :: "'a list \<Rightarrow> usize \<Rightarrow> 'a list \<Rightarrow> usize \<Rightarrow> usize \<Rightarrow> 'a list option"
  assumes len_eq: "inv s \<Longrightarrow> len s = length s"
    and inv_fits: "inv s \<Longrightarrow> usize_fits (length s)"
    and inv_length: "inv s \<Longrightarrow> length t = length s \<Longrightarrow> inv t"
    and update_slice_eq: "inv s \<Longrightarrow> usize_fits (length v) \<Longrightarrow>
      update_slice s so v si n = (if so + n \<le> length s \<and> si + n \<le> length v
        then Some (take so s @ take n (drop si v) @ drop (so + n) s) else None)"
begin

lemma update_slice_SomeD:
  assumes "inv s" "usize_fits (length v)" "update_slice s so v si n = Some t"
  shows "so + n \<le> length s" "si + n \<le> length v"
    "t = take so s @ take n (drop si v) @ drop (so + n) s" "length t = length s"
  using assms by (auto simp: update_slice_eq split: if_splits)

lemma update_slice_inv:
  "inv s \<Longrightarrow> usize_fits (length v) \<Longrightarrow> update_slice s so v si n = Some t \<Longrightarrow> inv t"
  using update_slice_SomeD(4) inv_length by blast

lemma update_slice_nth:
  assumes "inv s" "usize_fits (length v)" "update_slice s so v si n = Some t" "k < length s"
  shows "t ! k = (if so \<le> k \<and> k < so + n then v ! (si + (k - so)) else s ! k)"
  using update_slice_SomeD [OF assms(1-3)] assms(4) by (auto simp: nth_append)

lemma update_slice_None_iff:
  assumes "inv s" "usize_fits (length v)"
  shows "update_slice s so v si n = None \<longleftrightarrow> \<not> (so + n \<le> length s \<and> si + n \<le> length v)"
  using assms by (simp add: update_slice_eq)

lemma update_slice_after:
  assumes "inv s" "usize_fits (length v)" "update_slice s so v si n = Some t"
    and "usize_fits (length w)"
  shows "update_slice t so' w si' n' = None \<longleftrightarrow> update_slice s so' w si' n' = None"
  using update_slice_inv [OF assms(1-3)] update_slice_SomeD(4) [OF assms(1-3)] assms(1,4)
  by (simp add: update_slice_None_iff)

lemma update_slice_commute:
  assumes s: "inv s" and v: "usize_fits (length v)" and w: "usize_fits (length w)"
    and disjoint: "so + n \<le> so' \<or> so' + n' \<le> so"
  shows "update_slice s so v si n \<bind> (\<lambda>t. update_slice t so' w si' n')
    = update_slice s so' w si' n' \<bind> (\<lambda>t. update_slice t so v si n)"
proof (cases "update_slice s so v si n = None \<or> update_slice s so' w si' n' = None")
  case True
  then show ?thesis
    using update_slice_after [OF s v _ w] update_slice_after [OF s w _ v]
    by (auto split: bind_splits) (metis option.exhaust)+
next
  case False
  then obtain t u where t: "update_slice s so v si n = Some t"
    and u: "update_slice s so' w si' n' = Some u" by auto
  obtain x where x: "update_slice t so' w si' n' = Some x"
    using update_slice_after [OF s v t w, of so' si' n'] u by auto
  obtain y where y: "update_slice u so v si n = Some y"
    using update_slice_after [OF s w u v, of so si n] t by auto
  note inv = update_slice_inv [OF s v t] update_slice_inv [OF s w u]
  note len = update_slice_SomeD(4) [OF s v t] update_slice_SomeD(4) [OF s w u]
    update_slice_SomeD(4) [OF inv(1) w x] update_slice_SomeD(4) [OF inv(2) v y]
  have "x ! k = y ! k" if "k < length s" for k
  proof -
    have "x ! k = (if so' \<le> k \<and> k < so' + n' then w ! (si' + (k - so')) else t ! k)"
      using update_slice_nth [OF inv(1) w x] that len by simp
    moreover have "y ! k = (if so \<le> k \<and> k < so + n then v ! (si + (k - so)) else u ! k)"
      using update_slice_nth [OF inv(2) v y] that len by simp
    ultimately show ?thesis
      using update_slice_nth [OF s v t that] update_slice_nth [OF s w u that] disjoint
      by (cases "so \<le> k \<and> k < so + n"; cases "so' \<le> k \<and> k < so' + n'"; simp; linarith)
  qed
  then have "x = y" using len by (intro nth_equalityI) simp_all
  with t u x y show ?thesis by simp
qed

end

definition seq_inv :: "'a seq \<Rightarrow> bool" where
  "seq_inv s \<longleftrightarrow> usize_fits (length s)"

interpretation seq: seq_trait seq_inv seq_len seq_update_slice
  by unfold_locales (simp_all add: seq_inv_def seq_len_def seq_update_slice_eq)

section \<open>Correctness of the chunks\<close>

lemma seq_num_chunks_eq:
  assumes "0 < c" "usize_fits (length xs + c)"
  shows "seq_num_chunks xs c = Some (length (chunks c xs))"
  using assms by (simp add: seq_num_chunks_def seq_len_def usize_div_def length_chunks)

lemma chunk_len_eq:
  assumes "usize_fits (length xs + c)"
  shows "chunk_len xs c s = (if s \<le> length xs then Some (min c (length xs - s)) else None)"
proof (cases "s \<le> length xs")
  case True
  with assms have "usize_fits (s + c)" by (auto intro: usize_fits_mono)
  with True show ?thesis by (auto simp: chunk_len_def seq_len_def)
next
  case False
  then show ?thesis by (auto simp: chunk_len_def seq_len_def usize_add_def)
qed

lemma seq_get_chunk_eq:
  assumes "usize_fits (length xs + c)"
  shows "seq_get_chunk xs c i = (if c * i \<le> length xs
    then Some (length (take c (drop (c * i) xs)), take c (drop (c * i) xs)) else None)"
proof (cases "c * i \<le> length xs")
  case True
  with assms have "usize_fits (c * i)" "usize_fits (length xs)" by (auto intro: usize_fits_mono)
  with True assms show ?thesis
    by (auto simp: seq_get_chunk_def chunk_len_eq seq_slice_eq min_def)
next
  case False
  then show ?thesis
    using assms by (simp add: seq_get_chunk_def chunk_len_eq usize_mul_def)
qed

lemma seq_get_chunks:
  assumes "usize_fits (length xs + c)"
  shows "map (seq_get_chunk xs c) [0..<length (chunks c xs)]
    = map (\<lambda>ch. Some (length ch, ch)) (chunks c xs)"
  by (rule map_chunks) (simp add: seq_get_chunk_eq [OF assms] less_imp_le nth_chunks_bound)

lemma seq_set_chunk_eq:
  assumes "usize_fits (length xs + c)" "usize_fits (length v)"
  shows "seq_set_chunk xs c i v =
    (if c * i \<le> length xs \<and> length v = min c (length xs - c * i)
     then Some (take (c * i) xs @ v @ drop (c * i + length v) xs) else None)"
proof (cases "c * i \<le> length xs \<and> length v = min c (length xs - c * i)")
  case True
  with assms have "usize_fits (c * i)" "usize_fits (length xs)" by (auto intro: usize_fits_mono)
  moreover from True have "c * i + length v \<le> length xs" by linarith
  ultimately show ?thesis using True assms
    by (simp add: seq_set_chunk_def chunk_len_eq seq_len_def seq_update_slice_eq)
next
  case False
  then show ?thesis
    using assms by (auto simp: seq_set_chunk_def chunk_len_eq seq_len_def usize_mul_def)
qed

text \<open>
  for a positive chunk size, \<open>num_chunks\<close> is the number of chunks, \<open>get_chunk\<close> returns
  each of them with its length and never panics on them, and together they are the sequence.
\<close>

theorem seq_chunks_correct:
  assumes "0 < c" and "usize_fits (length xs + c)"
  shows "seq_num_chunks xs c = Some (length (chunks c xs))
    \<and> map (seq_get_chunk xs c) [0..<length (chunks c xs)]
        = map (\<lambda>ch. Some (length ch, ch)) (chunks c xs)
    \<and> concat (chunks c xs) = xs"
  using assms by (simp add: seq_num_chunks_eq seq_get_chunks concat_chunks)

theorem seq_chunks_correct_witness:
  "0 < (2::nat) \<and> usize_fits (length [1, 2, 3 :: u8] + 2)
    \<and> seq_num_chunks [1, 2, 3 :: u8] 2 = Some 2
    \<and> seq_get_chunk [1, 2, 3 :: u8] 2 1 = Some (1, [3])"
  using seq_chunks_correct [of 2 "[1, 2, 3 :: u8]"]
  by (simp add: usize_fits_def chunks.simps upt_rec)


lemma seq_get_exact_chunk_eq:
  assumes "usize_fits (length xs + c)"
  shows "seq_get_exact_chunk xs c i = (if c * i + c \<le> length xs then Some (take c (drop (c * i) xs))
    else if c * i \<le> length xs then Some [] else None)"
  using assms by (auto simp: seq_get_exact_chunk_def seq_get_chunk_eq seq_new_def)

lemma seq_get_remainder_chunk_eq:
  assumes "0 < c" "usize_fits (length xs + c)"
  shows "seq_get_remainder_chunk xs c = Some (drop (c * (length xs div c)) xs)"
proof -
  define q where "q = length xs div c"
  define r where "r = length xs mod c"
  have len: "length xs = c * q + r" and r: "r < c" using assms(1) by (simp_all add: q_def r_def)
  have nc: "seq_num_chunks xs c = Some (q + (if r = 0 then 0 else 1))"
    unfolding q_def r_def using assms by (simp only: seq_num_chunks_eq length_chunks div_round_up)
  show ?thesis
  proof (cases "r = 0")
    case True
    then have "seq_get_chunk xs c (q - 1) = Some (if q = 0 then 0 else c, drop (c * (q - 1)) xs)"
      using len assms(2) by (cases q) (auto simp: seq_get_chunk_eq)
    with True len assms(1) nc show ?thesis
      by (auto simp: seq_get_remainder_chunk_def seq_new_def q_def [symmetric] Let_def)
  next
    case False
    then have "seq_get_chunk xs c q = Some (r, drop (c * q) xs)"
      using len r assms(2) by (auto simp: seq_get_chunk_eq)
    with False r nc show ?thesis
      by (auto simp: seq_get_remainder_chunk_def q_def [symmetric] Let_def)
  qed
qed

text \<open>
  the exact chunks of a sequence are all of the chunk size, the remainder chunk is shorter,
  and their concatenation is the sequence.
\<close>

theorem seq_exact_chunks_correct:
  assumes "0 < c" and "usize_fits (length xs + c)"
  shows "\<exists>n es r. seq_num_exact_chunks xs c = Some n
    \<and> map (seq_get_exact_chunk xs c) [0..<n] = map Some es
    \<and> seq_get_remainder_chunk xs c = Some r
    \<and> concat es @ r = xs \<and> (\<forall>e \<in> set es. length e = c) \<and> length r < c"
proof (intro exI conjI)
  let ?n = "length xs div c"
  let ?es = "map (\<lambda>i. take c (drop (c * i) xs)) [0..<?n]"
  have in_range: "c * i + c \<le> length xs" if "i < ?n" for i
  proof -
    have "c * Suc i \<le> c * ?n" using that by (intro mult_le_mono2) simp
    also have "\<dots> \<le> length xs" by (rule times_div_less_eq_dividend)
    finally show ?thesis by (simp add: add.commute)
  qed
  show "seq_num_exact_chunks xs c = Some ?n"
    using assms(1) by (simp add: seq_num_exact_chunks_def usize_div_def seq_len_def)
  show "map (seq_get_exact_chunk xs c) [0..<?n] = map Some ?es"
    using in_range by (simp add: seq_get_exact_chunk_eq [OF assms(2)])
  show "seq_get_remainder_chunk xs c = Some (drop (c * ?n) xs)"
    by (rule seq_get_remainder_chunk_eq [OF assms])
  show "concat ?es @ drop (c * ?n) xs = xs"
    by (simp only: concat_exact_chunks append_take_drop_id)
  show "\<forall>e \<in> set ?es. length e = c"
    using in_range by fastforce
  show "length (drop (c * ?n) xs) < c"
    using assms(1) by (simp add: minus_mult_div_eq_mod)
qed

theorem seq_exact_chunks_correct_witness:
  "0 < (2::nat) \<and> usize_fits (length [1, 2, 3 :: u8] + 2)
    \<and> (\<exists>n es r. seq_num_exact_chunks [1, 2, 3 :: u8] 2 = Some n
      \<and> seq_get_remainder_chunk [1, 2, 3 :: u8] 2 = Some r \<and> concat es @ r = [1, 2, 3] \<and> length r < 2)"
  using seq_exact_chunks_correct [of 2 "[1, 2, 3 :: u8]"] by (auto simp: usize_fits_def)


text \<open>
  when \<open>set_chunk\<close> does not panic, it keeps the length, the chunk it wrote reads back, and every
  other chunk is unchanged.
\<close>

theorem seq_set_get_chunk:
  assumes "usize_fits (length xs + c)" and "usize_fits (length v)"
    and "seq_set_chunk xs c i v = Some ys"
  shows "length ys = length xs \<and> seq_get_chunk ys c i = Some (length v, v)
    \<and> (\<forall>j. j \<noteq> i \<longrightarrow> seq_get_chunk ys c j = seq_get_chunk xs c j)"
proof -
  from assms have i: "c * i \<le> length xs" and v: "length v = min c (length xs - c * i)"
    and ys: "ys = take (c * i) xs @ v @ drop (c * i + length v) xs"
    by (auto simp: seq_set_chunk_eq split: if_splits)
  from i v have len: "length ys = length xs" by (simp add: ys)
  have same: "take c (drop (c * i) ys) = v" using i v by (auto simp: ys min_def)
  have other: "take c (drop (c * j) ys) = take c (drop (c * j) xs)"
    if "j \<noteq> i" "c * j \<le> length xs" for j
  proof (rule nth_equalityI)
    fix k assume "k < length (take c (drop (c * j) ys))"
    then have k: "k < c" "c * j + k < length xs" using len by auto
    have "c * j + k < c * i \<or> c * i + length v \<le> c * j + k"
      using chunk_disjoint [OF that(1), of c] k v by linarith
    then have "ys ! (c * j + k) = xs ! (c * j + k)"
      using i k(2) unfolding ys by (rule nth_replace_slice)
    then show "take c (drop (c * j) ys) ! k = take c (drop (c * j) xs) ! k"
      using k len by simp
  qed (simp add: len)
  have "seq_get_chunk ys c i = Some (length v, v)"
    using assms(1) i len same by (simp add: seq_get_chunk_eq)
  moreover have "seq_get_chunk ys c j = seq_get_chunk xs c j" if "j \<noteq> i" for j
    using assms(1) len other [OF that] by (simp add: seq_get_chunk_eq)
  ultimately show ?thesis using len by blast
qed

theorem seq_set_get_chunk_witness:
  "seq_set_chunk [1, 2, 3 :: u8] 2 1 [9] = Some [1, 2, 9]
    \<and> seq_get_chunk [1, 2, 9 :: u8] 2 1 = Some (1, [9])"
proof -
  have "usize_fits (length [1, 2, 3 :: u8] + 2)" "usize_fits (length [9 :: u8])"
    by (simp_all add: usize_fits_def)
  moreover from this have "seq_set_chunk [1, 2, 3 :: u8] 2 1 [9] = Some [1, 2, 9]"
    by (simp add: seq_set_chunk_eq)
  ultimately show ?thesis
    using seq_set_get_chunk [of "[1, 2, 3 :: u8]" 2 "[9]" 1 "[1, 2, 9]"] by simp
qed


section \<open>Correctness of the hexadecimal conversions\<close>

text \<open>The lower-case form of a hexadecimal digit.\<close>

definition to_ascii_lowercase :: "char \<Rightarrow> char" where
  "to_ascii_lowercase c = (let n = of_char c :: nat in if 65 \<le> n \<and> n \<le> 90 then char_of (n + 32) else c)"

lemma of_hex_char: "n < 16 \<Longrightarrow> of_char (hex_char n) = (if n < 10 then 48 + n else 87 + n)"
  by (simp add: hex_char_def of_char_of)

lemma hex_digit_hex_char: "n < 16 \<Longrightarrow> hex_digit (hex_char n) = Some n"
  by (auto simp: hex_digit_def of_hex_char Let_def)

lemma hex_char_neq_sign: "n < 16 \<Longrightarrow> hex_char n \<noteq> CHR ''+''"
proof
  assume n: "n < 16" and "hex_char n = CHR ''+''"
  then have "of_char (hex_char n) = (43 :: nat)" by simp
  then show False using n by (simp add: of_hex_char split: if_splits)
qed

lemma of_lowercase: "of_char (to_ascii_lowercase c)
    = (if 65 \<le> (of_char c :: nat) \<and> of_char c \<le> (90 :: nat) then of_char c + 32 else (of_char c :: nat))"
  by (simp add: to_ascii_lowercase_def Let_def of_char_of)

lemma hex_digit_Some_iff:
  "hex_digit c = Some d \<longleftrightarrow> d < 16 \<and> to_ascii_lowercase c = hex_char d"
proof
  assume "hex_digit c = Some d"
  then show "d < 16 \<and> to_ascii_lowercase c = hex_char d"
    by (auto simp: hex_digit_def to_ascii_lowercase_def hex_char_def Let_def split: if_splits)
next
  assume d: "d < 16 \<and> to_ascii_lowercase c = hex_char d"
  then have "of_char (to_ascii_lowercase c) = (if d < 10 then 48 + d else 87 + d)"
    by (simp add: of_hex_char)
  with d show "hex_digit c = Some d"
    unfolding of_lowercase by (auto simp: hex_digit_def Let_def split: if_splits)
qed

lemma u8_from_pair:
  assumes "hex_digit a = Some x" "hex_digit b = Some y"
  shows "u8_from_str_radix_16 [a, b] = Some (of_nat (x * 16 + y))"
proof -
  from assms have "x < 16" "y < 16" by (simp_all add: hex_digit_Some_iff)
  moreover have "a \<noteq> CHR ''+''" using assms(1) by (auto simp: hex_digit_def)
  ultimately show ?thesis
    using assms by (simp add: u8_from_str_radix_16_def u8_push_digit_def)
qed

lemma format_02x_of_pair:
  assumes "x < 16" "y < 16"
  shows "format_02x (of_nat (x * 16 + y)) = [hex_char x, hex_char y]"
proof -
  have "unat (of_nat (x * 16 + y) :: u8) = x * 16 + y"
    using assms by (simp only: unat_of_nat) simp
  with assms show ?thesis by (simp add: format_02x_def)
qed

lemma u8_from_format: "u8_from_str_radix_16 (format_02x b) = Some b"
proof -
  have lt: "unat b < 256" using unat_less_power [of b] by simp
  then have "unat b div 16 < 16" by simp
  then have "u8_from_str_radix_16 (format_02x b) = Some (of_nat (unat b div 16 * 16 + unat b mod 16))"
    unfolding format_02x_def by (intro u8_from_pair) (simp_all add: hex_digit_hex_char)
  then show ?thesis by (simp del: of_nat_add of_nat_mult)
qed

lemma collect_map: "(\<And>x. x \<in> set xs \<Longrightarrow> f x = Some (g x)) \<Longrightarrow> collect (map f xs) = Some (map g xs)"
  by (induction xs) auto

lemma length_collect: "collect xs = Some ys \<Longrightarrow> length ys = length xs"
  by (induction xs arbitrary: ys) (auto simp: bind_eq_Some_conv)

text \<open>
  reading back the hexadecimal form of a byte sequence gives the sequence.
\<close>

theorem seq_hex_roundtrip: "seq_from_hex (seq_to_hex xs) = Some xs"
proof -
  let ?f = "\<lambda>b. format_02x (declassify b)"
  have len: "\<forall>s \<in> set (map ?f xs). length s = 2" by (simp add: format_02x_def)
  then have "chunks 2 (seq_to_hex xs) = map ?f xs"
    unfolding seq_to_hex_def by (intro chunks_concat) simp_all
  then have "collect (map u8_from_str_radix_16 (chunks 2 (seq_to_hex xs))) = Some (map declassify xs)"
    by (simp add: collect_map u8_from_format comp_def)
  moreover have "length (seq_to_hex xs) mod 2 = 0"
    by (induction xs) (simp_all add: seq_to_hex_def format_02x_def)
  ultimately show ?thesis
    by (simp add: seq_from_hex_def hex_string_to_bytes_def comp_def map_idI)
qed

text \<open>
  on a string of hexadecimal digits, \<open>from_hex\<close> panics exactly when the length is odd; otherwise
  it returns half as many bytes, and their hexadecimal form is the string in lower case.
\<close>

theorem seq_from_hex_correct:
  assumes "\<forall>c \<in> set s. hex_digit c \<noteq> None"
  shows "(case seq_from_hex s of
      None \<Rightarrow> odd (length s)
    | Some xs \<Rightarrow> even (length s) \<and> length xs = length s div 2 \<and> seq_to_hex xs = map to_ascii_lowercase s)"
  using assms
proof (induction s rule: induct_list012)
  case (3 a b s)
  from 3(3) obtain x y where xy: "hex_digit a = Some x" "hex_digit b = Some y" by auto
  then have lt: "x < 16" "y < 16" by (simp_all add: hex_digit_Some_iff)
  have "chunks 2 (a # b # s) = [a, b] # chunks 2 s"
    using chunks_append [of "[a, b]" 2 s] by simp
  with xy have "seq_from_hex (a # b # s) = map_option ((#) (classify (of_nat (x * 16 + y)))) (seq_from_hex s)"
    by (auto simp: seq_from_hex_def hex_string_to_bytes_def u8_from_pair option.map_comp comp_def
       split: bind_splits simp del: of_nat_add of_nat_mult)
  moreover have "seq_to_hex (classify (of_nat (x * 16 + y)) # xs) = map to_ascii_lowercase [a, b] @ seq_to_hex xs" for xs
    using xy lt by (simp add: seq_to_hex_def format_02x_of_pair hex_digit_Some_iff secret_defs del: of_nat_add of_nat_mult)
  ultimately show ?case
    using 3 by (auto split: option.splits)
qed (auto simp: seq_from_hex_def hex_string_to_bytes_def seq_to_hex_def)

theorem seq_from_hex_correct_witness:
  "map hex_digit ''0aF'' = [Some 0, Some 10, Some 15] \<and> seq_from_hex ''0aF'' = None"
proof -
  have "\<forall>c \<in> set ''0aF''. hex_digit c \<noteq> None" by (simp add: hex_digit_def)
  with seq_from_hex_correct [of "''0aF''"] show ?thesis
    by (simp add: hex_digit_def split: option.splits)
qed


lemma hex_sign_accepted: "seq_from_hex ''+f'' = Some [15]"
  by (simp add: seq_from_hex_def hex_string_to_bytes_def chunks.simps u8_from_str_radix_16_def u8_push_digit_def hex_digit_def
      secret_defs)

end
