(* ===== verification/Arrays.thy ===== *)
theory Arrays
  imports Seq
begin

text \<open>
  \<open>lib/src/array.rs\<close>: the fixed-length arrays that the macros \<open>_array_base!\<close>, \<open>_secret_array!\<close>,
  \<open>_public_array!\<close> and \<open>_implement_secret_u8_array!\<close> generate, the byte conversions of
  \<open>lib/src/transmute.rs\<close>, and the coefficient-wise operators that \<open>lib/src/vec_integers.rs\<close> adds.

  The struct \<open>$name([$t; $l])\<close> is the list of its elements; the constant \<open>$l\<close> is the parameter \<open>l\<close>
  of every definition, and \<open>array_ok l\<close> is the invariant that the type gives in Rust. A method that
  takes any \<open>SeqTrait\<close> value takes the list of that value's elements.

  The lemmas show that every operation keeps the invariant, that the array operations agree with
  the operations of \<open>Seq\<close> on the elements, the round trips through bytes, words and hexadecimal
  strings, and that the constant-time equality of secret arrays is equality.
\<close>

named_theorems array_defs \<open>definitions of the array operations\<close>

type_synonym 'a array = "'a list"

definition array_ok :: "usize \<Rightarrow> 'a array \<Rightarrow> bool" where
  "array_ok l a \<longleftrightarrow> length a = l \<and> usize_fits l"

section \<open>_array_base\<close>

definition array_new :: "usize \<Rightarrow> 'a::default array" where
  "array_new l = replicate l default"

definition array_len :: "usize \<Rightarrow> 'a array \<Rightarrow> usize" where
  [array_defs]: "array_len l self = l"

definition array_from_native_slice :: "usize \<Rightarrow> 'a::default list \<Rightarrow> 'a array option" where
  "array_from_native_slice l v = do {
     rust_assert (length v \<le> l);
     for_range 0 (length v) (\<lambda>i tmp. do { x \<leftarrow> vec_get v i; vec_set tmp i x }) (array_new l)
   }"

definition array_update_slice ::
  "usize \<Rightarrow> 'a array \<Rightarrow> usize \<Rightarrow> 'a list \<Rightarrow> usize \<Rightarrow> usize \<Rightarrow> 'a array option" where
  "array_update_slice l self start_out v start_in len = do {
     end_out \<leftarrow> usize_add start_out len;
     rust_assert (array_len l self \<ge> end_out);
     end_in \<leftarrow> usize_add start_in len;
     rust_assert (length v \<ge> end_in);
     for_range 0 len (\<lambda>i self. do {
       x \<leftarrow> vec_get v (start_in + i);
       vec_set self (start_out + i) x
     }) self
   }"

definition array_update :: "usize \<Rightarrow> 'a array \<Rightarrow> usize \<Rightarrow> 'a list \<Rightarrow> 'a array option" where
  "array_update l self start v = array_update_slice l self start v 0 (length v)"

definition array_update_start :: "usize \<Rightarrow> 'a array \<Rightarrow> 'a list \<Rightarrow> 'a array option" where
  "array_update_start l self v = array_update_slice l self 0 v 0 (length v)"

definition array_from_slice :: "usize \<Rightarrow> 'a::default list \<Rightarrow> usize \<Rightarrow> usize \<Rightarrow> 'a array option" where
  "array_from_slice l input start len = do {
     let a = array_new l;
     rust_assert (len \<le> array_len l a);
     array_update_slice l a 0 input start len
   }"

definition array_concat :: "usize \<Rightarrow> 'a::default array \<Rightarrow> 'a list \<Rightarrow> 'a seq option" where
  "array_concat l self next = do {
     n \<leftarrow> usize_add (array_len l self) (length next);
     let out = seq_new n;
     out \<leftarrow> seq_update_start out self;
     seq_update_slice out (array_len l self) next 0 (length next)
   }"

definition array_from_slice_range :: "usize \<Rightarrow> 'a::default list \<Rightarrow> usize \<times> usize \<Rightarrow> 'a array option" where
  "array_from_slice_range l input r = do {
     n \<leftarrow> usize_sub (snd r) (fst r);
     array_from_slice l input (fst r) n
   }"

definition array_slice :: "'a::default array \<Rightarrow> usize \<Rightarrow> usize \<Rightarrow> 'a seq option" where
  "array_slice self start_out len = seq_from_slice self start_out len"

definition array_slice_range :: "'a::default array \<Rightarrow> usize \<times> usize \<Rightarrow> 'a seq option" where
  "array_slice_range self r = do { n \<leftarrow> usize_sub (snd r) (fst r); array_slice self (fst r) n }"

definition array_num_chunks :: "usize \<Rightarrow> 'a array \<Rightarrow> usize \<Rightarrow> usize option" where
  "array_num_chunks l self chunk_size = do {
     s \<leftarrow> usize_add (array_len l self) chunk_size;
     s \<leftarrow> usize_sub s 1;
     usize_div s chunk_size
   }"

definition array_get_chunk_len :: "usize \<Rightarrow> 'a array \<Rightarrow> usize \<Rightarrow> usize \<Rightarrow> usize option" where
  "array_get_chunk_len l self chunk_size chunk_number = do {
     idx_start \<leftarrow> usize_mul chunk_size chunk_number;
     e \<leftarrow> usize_add idx_start chunk_size;
     if e > array_len l self then usize_sub (array_len l self) idx_start else Some chunk_size
   }"

definition array_get_chunk ::
  "usize \<Rightarrow> 'a::default array \<Rightarrow> usize \<Rightarrow> usize \<Rightarrow> (usize \<times> 'a seq) option" where
  "array_get_chunk l self chunk_size chunk_number = do {
     idx_start \<leftarrow> usize_mul chunk_size chunk_number;
     len \<leftarrow> array_get_chunk_len l self chunk_size chunk_number;
     out \<leftarrow> array_slice self idx_start len;
     Some (len, out)
   }"

definition array_set_chunk :: "usize \<Rightarrow> 'a array \<Rightarrow> usize \<Rightarrow> usize \<Rightarrow> 'a list \<Rightarrow> 'a array option" where
  "array_set_chunk l self chunk_size chunk_number input = do {
     idx_start \<leftarrow> usize_mul chunk_size chunk_number;
     len \<leftarrow> array_get_chunk_len l self chunk_size chunk_number;
     rust_assert (length input = len);
     array_update_slice l self idx_start input 0 len
   }"

definition array_create :: "usize \<Rightarrow> usize \<Rightarrow> 'a::default array option" where
  "array_create l x = do { rust_assert (x = l); Some (array_new l) }"

definition array_from_vec :: "usize \<Rightarrow> 'a::default list \<Rightarrow> 'a array option" where
  "array_from_vec l x = do {
     rust_assert (length x = l);
     for_range 0 (length x) (\<lambda>i tmp. do { e \<leftarrow> vec_get x i; vec_set tmp i e }) (array_new l)
   }"

definition array_from_seq :: "usize \<Rightarrow> 'a::default list \<Rightarrow> 'a array option" where
  "array_from_seq l x = do {
     rust_assert (length x = l);
     for_range 0 (length x) (\<lambda>i out. do { e \<leftarrow> vec_get x i; vec_set out i e }) (array_new l)
   }"

text \<open>
  \<open>hex_string_to_vec\<close> for an element type of \<open>size_of\<close> bytes with conversion \<open>from\<close> from \<open>u8\<close>: the slice
  \<open>s[i..i + 2]\<close> at the last index panics when the length is odd.
\<close>

definition array_hex_string_to_vec :: "usize \<Rightarrow> (u8 \<Rightarrow> 'a) \<Rightarrow> string \<Rightarrow> 'a list option" where
  "array_hex_string_to_vec size_of from s = do {
     rust_assert (length s mod size_of = 0);
     rust_assert (even (length s));
     collect (map (\<lambda>p. map_option from (u8_from_str_radix_16 p)) (chunks 2 s))
   }"

definition array_from_hex :: "usize \<Rightarrow> usize \<Rightarrow> (u8 \<Rightarrow> 'a::default) \<Rightarrow> string \<Rightarrow> 'a array option" where
  "array_from_hex l size_of from s = do {
     v \<leftarrow> array_hex_string_to_vec size_of from s;
     rust_assert (length v = l);
     for_range 0 l (\<lambda>i out. do { e \<leftarrow> vec_get v i; vec_set out i e }) (array_new l)
   }"

section \<open>_secret_array and _public_array\<close>

definition array_declassify_eq :: "'a::len secret array \<Rightarrow> 'a secret array \<Rightarrow> bool" where
  "array_declassify_eq self other \<longleftrightarrow> map declassify self = map declassify other"

text \<open>The nested loop of \<open>to_be_bytes\<close>, \<open>to_le_bytes\<close> and \<open>into_le_bytes\<close>; \<open>enc\<close> gives the bytes of an element.\<close>

definition array_bytes_loop :: "usize \<Rightarrow> usize \<Rightarrow> ('a \<Rightarrow> u8 list) \<Rightarrow> 'a array \<Rightarrow> u8 seq option" where
  "array_bytes_loop l factor enc self = do {
     n \<leftarrow> usize_mul l factor;
     for_range 0 l (\<lambda>i out. do {
       x \<leftarrow> vec_get self i;
       let tmp = enc x;
       for_range 0 factor (\<lambda>j out. do {
         b \<leftarrow> vec_get tmp j;
         vec_set out (i * factor + j) b
       }) out
     }) (seq_new n)
   }"

definition array_to_be_bytes :: "usize \<Rightarrow> host \<Rightarrow> 'a::len secret array \<Rightarrow> 8 secret seq option" where
  "array_to_be_bytes l h self =
     array_bytes_loop l (LENGTH('a) div 8) (\<lambda>tmp. secret_to_be_bytes h [tmp]) self"

definition array_to_le_bytes :: "usize \<Rightarrow> host \<Rightarrow> 'a::len secret array \<Rightarrow> 8 secret seq option" where
  "array_to_le_bytes l h self =
     array_bytes_loop l (LENGTH('a) div 8) (\<lambda>tmp. secret_to_le_bytes h [tmp]) self"

definition array_into_le_bytes :: "usize \<Rightarrow> 'a::len word array \<Rightarrow> u8 seq option" where
  "array_into_le_bytes l self = array_bytes_loop l (LENGTH('a) div 8) le_split self"

definition array_from_public_slice :: "usize \<Rightarrow> 'a::len word list \<Rightarrow> 'a secret array option" where
  "array_from_public_slice l v = do {
     rust_assert (length v = l);
     array_from_vec l (map classify v)
   }"

definition array_to_public_array :: "usize \<Rightarrow> 'a::len secret array \<Rightarrow> 'a word list" where
  "array_to_public_array l self = overwrite (replicate l 0) (map declassify self)"

section \<open>Words of a byte array\<close>

text \<open>
  \<open>U32_from_be_bytes\<close> and the other conversions of \<open>transmute.rs\<close>, for every width: a word from the
  \<open>LENGTH('a) div 8\<close> bytes of a word array. \<open>from_be_bytes(&s.0)[0]\<close> reads the first of the words.
\<close>

definition word_from_be_bytes :: "host \<Rightarrow> 8 secret array \<Rightarrow> 'a::len secret option" where
  "word_from_be_bytes h s = do { ws \<leftarrow> secret_from_be_bytes h s; vec_get ws 0 }"

definition word_from_le_bytes :: "host \<Rightarrow> 8 secret array \<Rightarrow> 'a::len secret option" where
  "word_from_le_bytes h s = do { ws \<leftarrow> secret_from_le_bytes h s; vec_get ws 0 }"

definition word_to_be_bytes :: "host \<Rightarrow> 'a::len secret \<Rightarrow> 8 secret array option" where
  "word_to_be_bytes h x = array_from_vec (LENGTH('a) div 8) (secret_to_be_bytes h [x])"

definition word_to_le_bytes :: "host \<Rightarrow> 'a::len secret \<Rightarrow> 8 secret array option" where
  "word_to_le_bytes h x = array_from_vec (LENGTH('a) div 8) (secret_to_le_bytes h [x])"

text \<open>\<open>for (i, block) in self.0.chunks(n).enumerate()\<close>, with the word read from each block.\<close>

definition array_words_loop ::
  "usize \<Rightarrow> usize \<Rightarrow> (u8 array \<Rightarrow> 'w option) \<Rightarrow> u8 array \<Rightarrow> 'w::default seq option" where
  "array_words_loop l n rd self =
     foldM (\<lambda>(i, block) out. do {
       rust_assert (length block = n);
       b \<leftarrow> array_from_native_slice n block;
       w \<leftarrow> rd b;
       vec_set out i w
     }) (enumerate 0 (chunks n self)) (seq_new (l div n))"

definition array_to_be_words :: "usize \<Rightarrow> host \<Rightarrow> 8 secret array \<Rightarrow> 'a::len secret seq option" where
  "array_to_be_words l h self = array_words_loop l (LENGTH('a) div 8) (word_from_be_bytes h) self"

definition array_to_le_words :: "usize \<Rightarrow> host \<Rightarrow> 8 secret array \<Rightarrow> 'a::len secret seq option" where
  "array_to_le_words l h self = array_words_loop l (LENGTH('a) div 8) (word_from_le_bytes h) self"

definition array_to_hex :: "8 secret array \<Rightarrow> string" where
  "array_to_hex self = concat (map (\<lambda>b. format_02x (declassify b)) self)"

section \<open>Coefficient-wise operators\<close>

text \<open>
  The loop of \<open>Add\<close>, \<open>Sub\<close>, \<open>Mul\<close>, \<open>BitXor\<close>, \<open>BitOr\<close> and \<open>BitAnd\<close>. The two operands of one array
  type have the same length, so the assertion of \<open>compatible\<close> holds by typing.
\<close>

definition array_zip_loop :: "usize \<Rightarrow> ('a \<Rightarrow> 'a \<Rightarrow> 'a) \<Rightarrow> 'a::default array \<Rightarrow> 'a array \<Rightarrow> 'a array option" where
  "array_zip_loop l f self rhs =
     for_range 0 l (\<lambda>i out. do {
       x \<leftarrow> vec_get self i;
       y \<leftarrow> vec_get rhs i;
       vec_set out i (f x y)
     }) (array_new l)"

definition array_add :: "usize \<Rightarrow> 'a::len secret array \<Rightarrow> 'a secret array \<Rightarrow> 'a secret array option" where
  [array_defs]: "array_add l self rhs = array_zip_loop l secret_add self rhs"

definition array_sub :: "usize \<Rightarrow> 'a::len secret array \<Rightarrow> 'a secret array \<Rightarrow> 'a secret array option" where
  [array_defs]: "array_sub l self rhs = array_zip_loop l secret_sub self rhs"

definition array_mul :: "usize \<Rightarrow> 'a::len secret array \<Rightarrow> 'a secret array \<Rightarrow> 'a secret array option" where
  [array_defs]: "array_mul l self rhs = array_zip_loop l secret_mul self rhs"

definition array_bitxor :: "usize \<Rightarrow> 'a::len secret array \<Rightarrow> 'a secret array \<Rightarrow> 'a secret array option" where
  [array_defs]: "array_bitxor l self rhs = array_zip_loop l secret_xor self rhs"

text \<open>\<open>equal\<close> of a secret array: the conjunction of the masks, declassified at the end.\<close>

definition array_equal :: "'a::len secret array \<Rightarrow> 'a secret array \<Rightarrow> bool" where
  "array_equal self other =
     (let result = fold (\<lambda>(a, b) result. secret_and result (comp_eq a b)) (zip self other) (- 1)
      in declassify result = - 1)"

section \<open>The invariant and the agreement with Seq\<close>

lemma length_array_new [simp]: "length (array_new l) = l"
  by (simp add: array_new_def)

lemma array_update_slice_seq:
  "array_ok l a \<Longrightarrow> array_update_slice l a so v si n = seq_update_slice a so v si n"
  by (simp add: array_update_slice_def seq_update_slice_def seq_len_def array_len_def array_ok_def)

lemma array_okD: "array_ok l a \<Longrightarrow> length a = l" "array_ok l a \<Longrightarrow> usize_fits (length a)"
  by (simp_all add: array_ok_def)

interpretation array: seq_trait "array_ok l" "array_len l" "array_update_slice l" for l
  by unfold_locales
    (auto simp: array_len_def array_update_slice_seq seq_update_slice_eq array_ok_def)

lemma array_get_chunk_len_eq:
  assumes "array_ok l a" "usize_fits (l + c)"
  shows "array_get_chunk_len l a c i = (if c * i \<le> l then Some (min c (l - c * i)) else None)"
proof (cases "c * i \<le> l")
  case True
  with assms(2) have "usize_fits (c * i)" "usize_fits (c * i + c)" by (auto intro: usize_fits_mono)
  with True show ?thesis by (auto simp: array_get_chunk_len_def array_len_def)
next
  case False
  then show ?thesis
    by (auto simp: array_get_chunk_len_def array_len_def usize_add_def usize_mul_def)
qed

lemma array_get_chunk_seq:
  assumes "array_ok l a" "usize_fits (l + c)"
  shows "array_get_chunk l a c i = seq_get_chunk a c i"
  using array_get_chunk_len_eq [OF assms, of i] chunk_len_eq [of a c "c * i"] assms
  by (auto simp: array_get_chunk_def seq_get_chunk_def array_slice_def seq_slice_def array_ok_def
      usize_mul_def)

lemma array_set_chunk_seq:
  assumes "array_ok l a" "usize_fits (l + c)"
  shows "array_set_chunk l a c i v = seq_set_chunk a c i v"
  using array_get_chunk_len_eq [OF assms, of i] chunk_len_eq [of a c "c * i"] assms
  by (auto simp: array_set_chunk_def seq_set_chunk_def array_update_slice_seq array_ok_def
      seq_len_def usize_mul_def)

lemma array_copy_loop:
  assumes "length x = l"
  shows "for_range 0 l (\<lambda>i tmp. do { e \<leftarrow> vec_get x i; vec_set tmp i e }) (array_new l) = Some x"
  using for_range_pointwise [of "array_new l" x "\<lambda>v. v"] assms by simp

lemma array_from_vec_eq: "array_from_vec l x = (if length x = l then Some x else None)"
  by (simp add: array_from_vec_def array_copy_loop)

lemma array_from_seq_eq: "array_from_seq l x = (if length x = l then Some x else None)"
  by (simp add: array_from_seq_def array_copy_loop)

lemma array_from_native_slice_eq:
  "length v = l \<Longrightarrow> array_from_native_slice l v = Some v"
  by (simp add: array_from_native_slice_def array_copy_loop)

text \<open>
  an array operation returns what the operation of \<open>Seq\<close> returns on the array's elements, and
  every operation that returns an array keeps the array's length.
\<close>

theorem array_agrees_with_seq:
  assumes "array_ok l a" and "usize_fits (l + c)" and "usize_fits (length v)"
  shows "array_update l a so v = seq_update a so v
    \<and> array_get_chunk l a c i = seq_get_chunk a c i
    \<and> array_set_chunk l a c i v = seq_set_chunk a c i v
    \<and> array_num_chunks l a c = seq_num_chunks a c
    \<and> array_concat l a v = seq_concat a v
    \<and> (\<forall>t. array_update_slice l a so v si n = Some t \<longrightarrow> array_ok l t)
    \<and> (\<forall>t. array_set_chunk l a c i v = Some t \<longrightarrow> array_ok l t)"
proof -
  have "array_ok l t" if "seq_set_chunk a c i v = Some t" for t
    using that assms by (auto simp: seq_set_chunk_eq array_ok_def split: if_splits)
  then show ?thesis
    using assms array.update_slice_inv [OF assms(1,3), of so si n]
    by (simp add: array_get_chunk_seq array_set_chunk_seq array_update_slice_seq array_update_def
        seq_update_def seq_len_def array_num_chunks_def seq_num_chunks_def array_len_def
        array_concat_def seq_concat_def array_okD)
qed

theorem array_agrees_with_seq_witness:
  "array_ok 3 [1, 2, 3 :: u8] \<and> usize_fits (3 + 2) \<and> usize_fits (length [9 :: u8])
    \<and> array_get_chunk 3 [1, 2, 3 :: u8] 2 1 = seq_get_chunk [1, 2, 3] 2 1"
  using array_agrees_with_seq [of 3 "[1, 2, 3 :: u8]" 2 "[9]" 0 1 0 0]
  by (simp add: array_ok_def usize_fits_def)

section \<open>Round trips through bytes and words\<close>

lemma array_bytes_loop_eq:
  assumes "length self = l" "usize_fits (l * factor)" "\<And>x. length (enc x) = factor"
  shows "array_bytes_loop l factor enc self = Some (concat (map enc self))"
proof -
  let ?init = "seq_new (l * factor) :: u8 seq"
  let ?body = "\<lambda>i out. do {
       x \<leftarrow> vec_get self i;
       let tmp = enc x;
       for_range 0 factor (\<lambda>j out. do {
         b \<leftarrow> vec_get tmp j;
         vec_set out (i * factor + j) b
       }) out
     }"
  let ?P = "\<lambda>i s. s = concat (map enc (take i self)) @ drop (i * factor) ?init"
  have len: "length (concat (map enc xs)) = length xs * factor" for xs
    using assms(3) by (simp add: length_concat comp_def sum_list_triv)
  have "\<exists>s. for_range 0 l ?body ?init = Some s \<and> ?P l s"
  proof (rule for_range_rule [where P = ?P])
    fix i s assume i: "i < l" and s: "?P i s"
    have fit: "i * factor + factor \<le> l * factor"
      using mult_le_mono1 [of "Suc i" l factor] i by simp
    have pre: "length (concat (map enc (take i self))) = i * factor"
      using len [of "take i self"] i assms(1) by simp
    have "for_range 0 factor (\<lambda>j out. do {
         b \<leftarrow> vec_get (enc (self ! i)) j; vec_set out (i * factor + j) b }) s
      = Some (take (i * factor) s @ enc (self ! i) @ drop (i * factor + factor) s)"
      using copy_loop [of "i * factor" factor s 0 "enc (self ! i)"] fit s pre assms(3) by simp
    moreover have "take (i * factor) s @ enc (self ! i) @ drop (i * factor + factor) s
        = concat (map enc (take (Suc i) self)) @ drop (Suc i * factor) ?init"
      using pre i assms(1) s by (simp add: take_Suc_conv_app_nth add.commute)
    ultimately show "\<exists>s'. ?body i s = Some s' \<and> ?P (Suc i) s'"
      using i assms(1) by simp
  qed simp_all
  then show ?thesis
    using assms by (simp add: array_bytes_loop_def)
qed

lemma length_secret_bytes:
  assumes "8 dvd LENGTH('a::len)"
  shows "length (secret_to_le_bytes h [x :: 'a secret]) = LENGTH('a) div 8"
    "length (secret_to_be_bytes h [x :: 'a secret]) = LENGTH('a) div 8"
  using assms by (simp_all add: secret_to_le_bytes_eq secret_to_be_bytes_eq)

lemma concat_singletons:
  "concat (map (\<lambda>x. secret_to_le_bytes h [x]) xs) = secret_to_le_bytes h xs"
  "concat (map (\<lambda>x. secret_to_be_bytes h [x]) xs) = secret_to_be_bytes h xs"
  by (simp_all add: secret_to_le_bytes_def secret_to_be_bytes_def)

lemma array_to_bytes_eq:
  assumes "8 dvd LENGTH('a::len)" "length (xs :: 'a secret list) = l"
    "usize_fits (l * (LENGTH('a) div 8))"
  shows "array_to_le_bytes l h xs = Some (secret_to_le_bytes h xs)"
    "array_to_be_bytes l h xs = Some (secret_to_be_bytes h xs)"
  using assms
  by (simp_all add: array_to_le_bytes_def array_to_be_bytes_def array_bytes_loop_eq
      length_secret_bytes concat_singletons)

lemma words_loop_step:
  assumes "\<And>b. b \<in> set bs \<Longrightarrow> g b = Some (f b)" "k + length bs \<le> length out"
  shows "foldM (\<lambda>(i, b) out. do { w \<leftarrow> g b; vec_set out i w }) (enumerate k bs) out
    = Some (take k out @ map f bs @ drop (k + length bs) out)"
  using assms
proof (induction bs arbitrary: k out)
  case (Cons b bs)
  then have k: "k < length out" by simp
  with Cons have "foldM (\<lambda>(i, b) out. do { w \<leftarrow> g b; vec_set out i w }) (enumerate (Suc k) bs)
      (out[k := f b]) = Some (take (Suc k) (out[k := f b]) @ map f bs @ drop (Suc k + length bs) out)"
    by simp
  moreover have "take (Suc k) (out[k := f b]) = take k out @ [f b]"
    using k by (simp add: take_Suc_conv_app_nth)
  ultimately show ?case using Cons k by simp
qed simp

lemma array_words_loop_eq:
  assumes "length self = n * m" "0 < n" "\<And>b. length b = n \<Longrightarrow> rd b = Some (f b)"
  shows "array_words_loop (n * m) n rd self = Some (map f (chunks n self))"
proof -
  have len: "length b = n" if "b \<in> set (chunks n self)" for b
    using that length_chunk [of n self b] assms(1) by simp
  have count: "length (chunks n self) = m"
    using assms(1,2) div_round_up [of n "n * m"] by (simp add: length_chunks)
  have "foldM (\<lambda>(i, b) out. do { w \<leftarrow> (do { rust_assert (length b = n);
        b \<leftarrow> array_from_native_slice n b; rd b }); vec_set out i w }) (enumerate 0 (chunks n self))
      (seq_new m) = Some (map f (chunks n self))"
    using words_loop_step [of "chunks n self" _ f 0 "seq_new m"] len count assms(3)
    by (simp add: array_from_native_slice_eq)
  then show ?thesis
    using assms(2) by (simp add: array_words_loop_def split_def if_bind_None cong: if_cong)
qed

lemma word_from_bytes_eq:
  assumes "8 dvd LENGTH('a::len)" "length b = LENGTH('a) div 8"
  shows "word_from_le_bytes h b = Some (le_join b :: 'a secret)"
    "word_from_be_bytes h b = Some (le_join (rev b) :: 'a secret)"
proof -
  have "0 < length b" using bytes_per_word [OF assms(1)] assms(2) by simp
  then have "chunks (LENGTH('a) div 8) b = [b]"
    using chunks_append [of b "LENGTH('a) div 8" "[]"] assms(2) by simp
  then show "word_from_le_bytes h b = Some (le_join b :: 'a secret)"
    "word_from_be_bytes h b = Some (le_join (rev b) :: 'a secret)"
    using assms secret_from_le_bytes_eq [OF assms(1), of b h] secret_from_be_bytes_eq [OF assms(1), of b h]
    by (simp_all add: word_from_le_bytes_def word_from_be_bytes_def)
qed

lemma array_to_words_eq:
  assumes "8 dvd LENGTH('a::len)" "length bs = LENGTH('a) div 8 * n"
  shows "array_to_le_words (LENGTH('a) div 8 * n) h bs = Some (map le_join (chunks (LENGTH('a) div 8) bs) :: 'a secret list)"
    "array_to_be_words (LENGTH('a) div 8 * n) h bs = Some (map (le_join \<circ> rev) (chunks (LENGTH('a) div 8) bs) :: 'a secret list)"
  unfolding array_to_le_words_def array_to_be_words_def
  using assms bytes_per_word [OF assms(1)] by (intro array_words_loop_eq; simp add: word_from_bytes_eq)+

lemma secret_bytes_chunks:
  assumes "8 dvd LENGTH('a::len)"
  shows "chunks (LENGTH('a) div 8) (secret_to_le_bytes h (xs :: 'a secret list)) = map le_split xs"
    "chunks (LENGTH('a) div 8) (secret_to_be_bytes h (xs :: 'a secret list)) = map (rev \<circ> le_split) xs"
  unfolding secret_to_le_bytes_eq [OF assms] secret_to_be_bytes_eq [OF assms]
  by (intro chunks_concat; simp add: bytes_per_word [OF assms])+

lemma length_secret_bytes_list:
  assumes "8 dvd LENGTH('a::len)"
  shows "length (secret_to_le_bytes h (xs :: 'a secret list)) = LENGTH('a) div 8 * length xs"
    "length (secret_to_be_bytes h (xs :: 'a secret list)) = LENGTH('a) div 8 * length xs"
  by (simp_all add: secret_to_le_bytes_eq [OF assms] secret_to_be_bytes_eq [OF assms] length_concat
      comp_def sum_list_triv)

text \<open>
  C30: writing a secret array as bytes and reading the bytes back as words gives the array, in both
  byte orders and on hosts of either endianness; so do the conversions of a single word.
\<close>

theorem array_bytes_words_roundtrip:
  assumes "8 dvd LENGTH('a::len)" and "length (xs :: 'a secret list) = l"
    and "usize_fits (l * (LENGTH('a) div 8))"
  shows "array_to_le_bytes l h xs \<bind> array_to_le_words (LENGTH('a) div 8 * l) h = Some xs
    \<and> array_to_be_bytes l h xs \<bind> array_to_be_words (LENGTH('a) div 8 * l) h = Some xs
    \<and> word_to_le_bytes h (x :: 'a secret) \<bind> word_from_le_bytes h = Some x
    \<and> word_to_be_bytes h x \<bind> word_from_be_bytes h = Some x"
proof (intro conjI)
  let ?n = "LENGTH('a) div 8"
  note n = bytes_per_word [OF assms(1)]
  have le: "array_to_le_words (?n * l) h (secret_to_le_bytes h xs) = Some xs"
    unfolding array_to_le_words_def
    using array_words_loop_eq [of "secret_to_le_bytes h xs" ?n l "word_from_le_bytes h"
        "le_join :: _ \<Rightarrow> 'a secret"] n assms(1,2)
    by (simp add: word_from_bytes_eq secret_bytes_chunks length_secret_bytes_list le_join_split comp_def)
  show "array_to_le_bytes l h xs \<bind> array_to_le_words (?n * l) h = Some xs"
    using le assms by (simp add: array_to_bytes_eq)
  have be: "array_to_be_words (?n * l) h (secret_to_be_bytes h xs) = Some xs"
    unfolding array_to_be_words_def
    using array_words_loop_eq [of "secret_to_be_bytes h xs" ?n l "word_from_be_bytes h"
        "\<lambda>b. le_join (rev b) :: 'a secret"] n assms(1,2)
    by (simp add: word_from_bytes_eq secret_bytes_chunks length_secret_bytes_list le_join_split comp_def)
  show "array_to_be_bytes l h xs \<bind> array_to_be_words (?n * l) h = Some xs"
    using be assms by (simp add: array_to_bytes_eq)
  show "word_to_le_bytes h x \<bind> word_from_le_bytes h = Some x"
    "word_to_be_bytes h x \<bind> word_from_be_bytes h = Some x"
    using assms(1)
    by (simp_all add: word_to_le_bytes_def word_to_be_bytes_def array_from_vec_eq
        length_secret_bytes word_from_bytes_eq secret_to_le_bytes_eq secret_to_be_bytes_eq le_join_split)
qed

theorem array_bytes_words_roundtrip_witness:
  "8 dvd LENGTH(32) \<and> length [1, 0x01020304 :: 32 secret] = 2 \<and> usize_fits (2 * (LENGTH(32) div 8))
    \<and> array_to_be_bytes 2 BigEndian [1, 0x01020304 :: 32 secret]
        \<bind> array_to_be_words 8 BigEndian = Some [1, 0x01020304 :: 32 secret]"
  using array_bytes_words_roundtrip [where 'a = 32 and l = 2 and h = BigEndian
      and xs = "[1, 0x01020304]" and x = 0]
  by (simp add: usize_fits_def)

section \<open>Hexadecimal strings and equality\<close>

text \<open>
  reading back the hexadecimal form of a secret byte array gives the array.
\<close>

theorem array_hex_roundtrip:
  assumes "length xs = l"
  shows "array_from_hex l 1 classify (array_to_hex xs) = Some xs"
proof -
  let ?f = "\<lambda>b. format_02x (declassify b)"
  have "chunks 2 (array_to_hex xs) = map ?f xs"
    unfolding array_to_hex_def by (intro chunks_concat) (simp_all add: format_02x_def)
  moreover have "even (length (array_to_hex xs))"
    by (induction xs) (simp_all add: array_to_hex_def format_02x_def)
  ultimately have "array_hex_string_to_vec 1 classify (array_to_hex xs) = Some xs"
    using collect_map [of xs "\<lambda>b. map_option classify (u8_from_str_radix_16 (?f b))" "\<lambda>b. b"]
    by (simp add: array_hex_string_to_vec_def u8_from_format comp_def secret_defs)
  with assms show ?thesis
    by (simp add: array_from_hex_def array_copy_loop)
qed

theorem array_hex_roundtrip_witness:
  "length [1, 0xAB :: 8 secret] = 2
    \<and> array_from_hex 2 1 classify (array_to_hex [1, 0xAB :: 8 secret]) = Some [1, 0xAB]"
  using array_hex_roundtrip [of "[1, 0xAB :: 8 secret]" 2] by simp

lemma array_equal_fold:
  assumes "length xs = length ys" "LENGTH('a::len) \<le> 2 ^ 32"
  shows "fold (\<lambda>(a, b) r. secret_and r (comp_eq a b)) (zip xs ys) (m :: 'a secret)
    = (if xs = ys then m else 0)"
  using assms
  by (induction xs ys arbitrary: m rule: list_induct2)
    (auto simp: comp_eq_mask secret_and_def)

text \<open>
  the constant-time equality of secret arrays holds exactly of equal arrays, and agrees with
  the equality on declassified elements.
\<close>

theorem array_equal_correct:
  assumes "length xs = length ys" and "LENGTH('a::len) \<le> 2 ^ 32"
  shows "array_equal xs (ys :: 'a secret array) = (xs = ys)
    \<and> array_declassify_eq xs ys = (xs = ys)"
  using assms by (simp add: array_equal_def array_equal_fold array_declassify_eq_def declassify_def)

theorem array_equal_correct_witness:
  "length [1, 2 :: 8 secret] = length [1, 3 :: 8 secret] \<and> LENGTH(8) \<le> 2 ^ 32
    \<and> \<not> array_equal [1, 2 :: 8 secret] [1, 3]"
  using array_equal_correct [of "[1, 2 :: 8 secret]" "[1, 3]"] by simp

section \<open>Coefficient-wise operators are pointwise\<close>

lemma array_zip_loop_eq:
  assumes "length xs = l" "length ys = l"
  shows "array_zip_loop l f xs ys = Some (map2 f xs ys)"
proof -
  have "for_range 0 l (\<lambda>i out. do { x \<leftarrow> vec_get xs i; y \<leftarrow> vec_get ys i; vec_set out i (f x y) })
      (array_new l)
    = for_range 0 l (\<lambda>i out. do { p \<leftarrow> vec_get (zip xs ys) i; vec_set out i (f (fst p) (snd p)) })
      (array_new l)"
    by (rule for_range_cong) (use assms in simp)
  also have "\<dots> = Some (map (\<lambda>p. f (fst p) (snd p)) (zip xs ys))"
    using for_range_pointwise [of "array_new l" "zip xs ys" "\<lambda>p. f (fst p) (snd p)"] assms by simp
  finally show ?thesis by (simp add: array_zip_loop_def split_def)
qed

text \<open>
  the arithmetic operators of secret arrays never panic and act element by element, wrapping
  on overflow; exclusive or is its own inverse.
\<close>

theorem array_operators_pointwise:
  assumes "length xs = l" and "length ys = l"
  shows "array_add l xs ys = Some (map2 (+) xs ys)
    \<and> array_sub l xs ys = Some (map2 (-) xs ys)
    \<and> array_mul l xs ys = Some (map2 (*) xs ys)
    \<and> array_bitxor l xs ys \<bind> (\<lambda>zs. array_bitxor l zs ys) = Some (xs :: 'a::len secret array)"
proof -
  have "map2 secret_xor (map2 secret_xor xs ys) ys = xs"
    using assms by (intro nth_equalityI) (simp_all add: secret_xor_def xor.assoc)
  then show ?thesis
    using assms
    by (simp add: array_defs array_zip_loop_eq secret_add_def secret_sub_def secret_mul_def)
qed

theorem array_operators_pointwise_witness:
  "length [1, 255 :: 8 secret] = 2 \<and> length [2, 3 :: 8 secret] = 2
    \<and> array_add 2 [1, 255 :: 8 secret] [2, 3] = Some [3, 2]"
  using array_operators_pointwise [of "[1, 255 :: 8 secret]" 2 "[2, 3]"] by simp

end
