(* ===== verification/Byte_Buffer.thy ===== *)
theory Byte_Buffer
  imports Seq
begin

text \<open>
  \<open>lib/src/buf.rs\<close>: \<open>ByteBuffer\<close>, a queue of byte chunks from which a caller splits off a prefix of
  any length. The struct is a record with the \<open>VecDeque<Bytes>\<close> as a list of chunks, front first;
  \<open>Bytes\<close> is \<open>Seq<U8>\<close> (the crate is modelled without the feature \<open>release\<close>).

  The abstract value of a buffer is the flat list of its bytes. The lemmas show that every operation
  implements the operation on the flat list, whatever the chunking: this is the contract of the
  locale \<open>byte_queue\<close>, which the buffer interprets. \<open>split_off\<close> returns exactly when the
  buffer has a chunk and holds enough bytes, and its loop always ends.
\<close>

type_synonym bytes = "8 secret seq"

record byte_buffer =
  buf_value :: "bytes list"

section \<open>Operations\<close>

definition buffer_new :: byte_buffer where
  "buffer_new = \<lparr>buf_value = []\<rparr>"

definition buffer_from_seq :: "bytes \<Rightarrow> byte_buffer" where
  "buffer_from_seq seq = \<lparr>buf_value = [seq]\<rparr>"

definition buffer_concat_owned :: "byte_buffer \<Rightarrow> bytes \<Rightarrow> byte_buffer" where
  "buffer_concat_owned self seq = self\<lparr>buf_value := buf_value self @ [seq]\<rparr>"

text \<open>
  The loop \<open>while out.len() < len\<close>. Each round pops one chunk; a chunk that is too long is split and
  its rest pushed back, after which \<open>out\<close> has the length asked for.
\<close>

function split_off_loop :: "bytes \<Rightarrow> bytes list \<Rightarrow> usize \<Rightarrow> (bytes \<times> bytes list) option" where
  "split_off_loop out queue len =
     (if seq_len out < len then
        (case queue of
           [] \<Rightarrow> None
         | next # queue \<Rightarrow>
             if seq_len next \<le> len - seq_len out
             then split_off_loop (seq_concat_owned out next) queue len
             else (case seq_split_off next (len - seq_len out) of
                 None \<Rightarrow> None
               | Some (next, to_keep) \<Rightarrow>
                   split_off_loop (seq_concat_owned out next) (to_keep # queue) len))
      else Some (out, queue))"
  by pat_completeness auto
termination
  by (relation "measures [\<lambda>(out, queue, len). len - length out, \<lambda>(out, queue, len). length queue]")
    (auto simp: seq_len_def seq_concat_owned_def seq_split_off_def split: if_splits)

declare split_off_loop.simps [simp del]

definition buffer_split_off :: "byte_buffer \<Rightarrow> usize \<Rightarrow> (bytes \<times> byte_buffer) option" where
  "buffer_split_off self len = do {
     rust_assert (length (buf_value self) \<noteq> 0);
     first \<leftarrow> vec_get (buf_value self) 0;
     if len = seq_len first then Some (first, self\<lparr>buf_value := tl (buf_value self)\<rparr>)
     else do {
       let out = first;
       let queue = tl (buf_value self);
       rust_assert (seq_len out \<noteq> len);
       if seq_len out > len then do {
         (full_out, to_keep) \<leftarrow> seq_split_off out len;
         Some (full_out, self\<lparr>buf_value := to_keep # queue\<rparr>)
       } else do {
         rust_assert (seq_len out < len);
         (out, queue) \<leftarrow> split_off_loop out queue len;
         Some (out, self\<lparr>buf_value := queue\<rparr>)
       }
     }
   }"

definition buffer_to_bytes :: "byte_buffer \<Rightarrow> bytes" where
  "buffer_to_bytes self = fold (\<lambda>v out. seq_concat_owned out v) (buf_value self) (seq_new 0)"

definition buffer_into_bytes :: "byte_buffer \<Rightarrow> bytes" where
  "buffer_into_bytes self = foldl (\<lambda>acc next. seq_concat_owned acc next) (seq_new 0) (buf_value self)"

section \<open>The contract of a byte queue\<close>

text \<open>
  A byte queue with abstract value \<open>bytes_of\<close>. \<open>avail\<close> says whether a prefix may be taken at all.
\<close>

locale byte_queue =
  fixes bytes_of :: "'q \<Rightarrow> 'b list"
    and avail :: "'q \<Rightarrow> bool"
    and empty_q :: 'q
    and put :: "'q \<Rightarrow> 'b list \<Rightarrow> 'q"
    and take_prefix :: "'q \<Rightarrow> nat \<Rightarrow> ('b list \<times> 'q) option"
  assumes bytes_empty: "bytes_of empty_q = []"
    and bytes_put: "bytes_of (put q bs) = bytes_of q @ bs"
    and avail_put: "avail (put q bs)"
    and take_eq: "avail q \<Longrightarrow> n \<le> length (bytes_of q) \<Longrightarrow>
      \<exists>q'. take_prefix q n = Some (take n (bytes_of q), q') \<and> bytes_of q' = drop n (bytes_of q)"
    and take_fails: "\<not> (avail q \<and> n \<le> length (bytes_of q)) \<Longrightarrow> take_prefix q n = None"
begin

lemma bytes_put_all: "bytes_of (foldl put q cs) = bytes_of q @ concat cs"
  by (induction cs arbitrary: q) (simp_all add: bytes_put)

lemma avail_put_all: "cs \<noteq> [] \<Longrightarrow> avail (foldl put q cs)"
  by (cases cs rule: rev_cases) (simp_all add: avail_put)

lemma take_after_put:
  assumes "cs \<noteq> []" "n \<le> length (concat cs)"
  shows "\<exists>q'. take_prefix (foldl put empty_q cs) n = Some (take n (concat cs), q')
    \<and> bytes_of q' = drop n (concat cs)"
  using take_eq [of "foldl put empty_q cs" n] assms
  by (simp add: bytes_put_all bytes_empty avail_put_all)

lemma take_rest:
  assumes "avail q"
  shows "\<exists>q'. take_prefix q (length (bytes_of q)) = Some (bytes_of q, q') \<and> bytes_of q' = []"
  using take_eq [OF assms, of "length (bytes_of q)"] by simp

end

section \<open>The buffer implements the contract\<close>

definition buffer_bytes :: "byte_buffer \<Rightarrow> 8 secret list" where
  "buffer_bytes b = concat (buf_value b)"

definition buffer_avail :: "byte_buffer \<Rightarrow> bool" where
  "buffer_avail b \<longleftrightarrow> buf_value b \<noteq> []"

lemma split_off_loop_correct:
  assumes "length out \<le> len" "len \<le> length (out @ concat queue)"
  shows "\<exists>queue'. split_off_loop out queue len = Some (take len (out @ concat queue), queue')
    \<and> concat queue' = drop len (out @ concat queue)"
  using assms
proof (induction out queue len rule: split_off_loop.induct)
  case (1 out queue len)
  show ?case
  proof (cases "length out < len")
    case False
    with 1(3) show ?thesis by (subst split_off_loop.simps) (simp add: seq_len_def)
  next
    case lt: True
    with 1(4) obtain c queue'' where v: "queue = c # queue''" by (cases queue) auto
    show ?thesis
    proof (cases "length c \<le> len - length out")
      case True
      with lt 1(4) v show ?thesis
        using 1(1) [of c queue''] by (subst split_off_loop.simps) (simp add: seq_len_def seq_concat_owned_def)
    next
      case False
      let ?k = "len - length out"
      have "seq_split_off c ?k = Some (take ?k c, drop ?k c)"
        using False by (simp add: seq_split_off_def)
      moreover have "take ?k c @ drop ?k c @ concat queue'' = c @ concat queue''"
        by (simp flip: append_assoc)
      ultimately show ?thesis
        using 1(2) [of c queue'' "(take ?k c, drop ?k c)"] False lt 1(4) v
        by (subst split_off_loop.simps) (simp add: seq_len_def seq_concat_owned_def)
    qed
  qed
qed

lemma split_off_loop_short:
  assumes "length (out @ concat queue) < len"
  shows "split_off_loop out queue len = None"
  using assms
proof (induction out queue len rule: split_off_loop.induct)
  case (1 out queue len)
  then have lt: "length out < len" by simp
  show ?case
  proof (cases queue)
    case Nil
    with lt show ?thesis by (subst split_off_loop.simps) (simp add: seq_len_def)
  next
    case (Cons c queue'')
    with 1(3) have "length c \<le> len - length out" by simp
    with 1(1) [of c queue''] 1(3) lt Cons show ?thesis
      by (subst split_off_loop.simps) (simp add: seq_len_def seq_concat_owned_def)
  qed
qed

lemma buffer_split_off_Some:
  assumes "buffer_avail b" "n \<le> length (buffer_bytes b)"
  shows "\<exists>b'. buffer_split_off b n = Some (take n (buffer_bytes b), b')
    \<and> buffer_bytes b' = drop n (buffer_bytes b)"
proof -
  from assms(1) obtain c cs where v: "buf_value b = c # cs"
    by (auto simp: buffer_avail_def neq_Nil_conv)
  consider "n = length c" | "n < length c" | "length c < n" by linarith
  then show ?thesis
  proof cases
    case 3
    with split_off_loop_correct [of c n cs] assms(2) v obtain cs' where
      "split_off_loop c cs n = Some (take n (c @ concat cs), cs')" "concat cs' = drop n (c @ concat cs)"
      by (auto simp: buffer_bytes_def)
    with 3 v show ?thesis by (simp add: buffer_split_off_def buffer_bytes_def seq_len_def)
  qed (simp_all add: buffer_split_off_def buffer_bytes_def seq_len_def seq_split_off_def v)
qed

lemma buffer_split_off_None:
  assumes "\<not> (buffer_avail b \<and> n \<le> length (buffer_bytes b))"
  shows "buffer_split_off b n = None"
proof (cases "buf_value b")
  case (Cons c cs)
  with assms have "length (c @ concat cs) < n"
    by (simp add: buffer_avail_def buffer_bytes_def)
  with split_off_loop_short [OF this] Cons show ?thesis
    by (simp add: buffer_split_off_def seq_len_def)
qed (simp add: buffer_split_off_def)

interpretation buf: byte_queue buffer_bytes buffer_avail buffer_new buffer_concat_owned buffer_split_off
proof unfold_locales
  show "buffer_bytes buffer_new = []" by (simp add: buffer_bytes_def buffer_new_def)
  show "buffer_bytes (buffer_concat_owned q bs) = buffer_bytes q @ bs" for q bs
    by (simp add: buffer_bytes_def buffer_concat_owned_def)
  show "buffer_avail (buffer_concat_owned q bs)" for q bs
    by (simp add: buffer_avail_def buffer_concat_owned_def)
  show "\<exists>q'. buffer_split_off q n = Some (take n (buffer_bytes q), q')
      \<and> buffer_bytes q' = drop n (buffer_bytes q)"
    if "buffer_avail q" "n \<le> length (buffer_bytes q)" for q n
    using that by (rule buffer_split_off_Some)
  show "buffer_split_off q n = None" if "\<not> (buffer_avail q \<and> n \<le> length (buffer_bytes q))" for q n
    using that by (rule buffer_split_off_None)
qed

lemma buffer_to_bytes_eq: "buffer_to_bytes b = buffer_bytes b" "buffer_into_bytes b = buffer_bytes b"
proof -
  have f: "fold (\<lambda>v out. seq_concat_owned out v) vs acc = acc @ concat vs" for vs and acc :: bytes
    by (induction vs arbitrary: acc) (simp_all add: seq_concat_owned_def)
  show "buffer_to_bytes b = buffer_bytes b" "buffer_into_bytes b = buffer_bytes b"
    by (simp_all add: buffer_to_bytes_def buffer_into_bytes_def foldl_conv_fold f buffer_bytes_def
        seq_new_def)
qed

section \<open>Properties\<close>


text \<open>
  chunks added to a buffer in sequence are read back in order by any sequence of two splits
  whose lengths add up to the bytes added.
\<close>

theorem buffer_stream_roundtrip:
  assumes "cs \<noteq> []" and "n \<le> length (concat cs)"
  shows "\<exists>b. buffer_split_off (foldl buffer_concat_owned buffer_new cs) n = Some (take n (concat cs), b)
    \<and> buffer_into_bytes b = drop n (concat cs)
    \<and> (buf_value b \<noteq> [] \<longrightarrow> (\<exists>b'. buffer_split_off b (length (concat cs) - n)
          = Some (drop n (concat cs), b') \<and> buffer_into_bytes b' = []))"
proof -
  from buf.take_after_put [OF assms] obtain b where
    b: "buffer_split_off (foldl buffer_concat_owned buffer_new cs) n = Some (take n (concat cs), b)"
    "buffer_bytes b = drop n (concat cs)" by blast
  then show ?thesis
    using buf.take_rest [of b] by (auto simp: buffer_to_bytes_eq buffer_avail_def)
qed

theorem buffer_stream_roundtrip_witness:
  "\<exists>b. buffer_split_off (foldl buffer_concat_owned buffer_new [[1, 2], [3 :: 8 secret]]) 1 = Some ([1], b)
    \<and> buffer_into_bytes b = [2, 3]"
  using buffer_stream_roundtrip [of "[[1, 2], [3 :: 8 secret]]" 1] by auto

end
