(* ===== verification/Rustspec.thy ===== *)
theory Rustspec
  imports Hacspec_Prelude "HOL-Library.Finite_Map" "HOL-Library.List_Lexorder" "HOL-Library.Char_ord"
begin

text \<open>
  \<open>language/src/rustspec.rs\<close>: the abstract syntax of hacspec on which every phase of the compiler
  works, the top-level context of \<open>language/src/name_resolution.rs\<close>, and the result type of the
  phases.

  A constructor of a Rust enum keeps its name, prefixed by a letter for its enum (\<open>T_\<close> for
  \<open>BaseTyp\<close>, \<open>L_\<close> for \<open>Literal\<close>, \<open>E_\<close> for \<open>Expression\<close>, \<open>P_\<close> for \<open>Pattern\<close>, \<open>S_\<close> for
  \<open>Statement\<close>, \<open>I_\<close> for \<open>Item\<close>). Source positions are erased: \<open>Spanned<T>\<close> is \<open>T\<close>, since positions only
  reach error messages. The contracts of functions (\<open>requires\<close> and \<open>ensures\<close>) and the tags of items are left out. \<open>HashMap\<close> and \<open>HashSet\<close> of the crate \<open>im\<close> are finite maps and finite sets with
  the documented behaviour of their operations.

  A phase returns a value of \<open>'a tc\<close>: \<open>Ok x rep\<close> is \<open>Ok(x)\<close>, where \<open>rep\<close> says whether an error has been
  reported to the session on the way (some checks report and go on; a crate with a reported error is
  not compiled); \<open>Err\<close> is \<open>Err(())\<close>; \<open>Panic\<close> is a panic; \<open>Diverge\<close> says that the recursion is deeper
  than the bound given to the model.
\<close>

section \<open>Results of a phase\<close>

datatype 'a tc = Ok 'a bool | Err | Panic | Diverge

definition tc_return :: "'a \<Rightarrow> 'a tc" where
  "tc_return x = Ok x False"

fun tc_bind :: "'a tc \<Rightarrow> ('a \<Rightarrow> 'b tc) \<Rightarrow> 'b tc" where
  "tc_bind (Ok x rep) f = (case f x of Ok y rep' \<Rightarrow> Ok y (rep \<or> rep') | r \<Rightarrow> r)"
| "tc_bind Err f = Err"
| "tc_bind Panic f = Panic"
| "tc_bind Diverge f = Diverge"

text \<open>\<open>sess.span_rustspec_err(..)\<close> without an early return.\<close>

definition tc_report :: "unit tc" where
  "tc_report = Ok () True"

text \<open>\<open>.ok()\<close>: an error becomes \<open>None\<close>; its message has been reported.\<close>

fun tc_ok :: "'a tc \<Rightarrow> 'a option tc" where
  "tc_ok (Ok x rep) = Ok (Some x) rep"
| "tc_ok Err = Ok None True"
| "tc_ok Panic = Panic"
| "tc_ok Diverge = Diverge"

text \<open>
  \<open>check_vec(iter.map(f).collect())\<close>: \<open>f\<close> runs on every element, also after one has failed, with the
  state that the closure mutates; the vector is an error if one of its elements is.
\<close>

fun check_vec :: "('a \<Rightarrow> 's \<Rightarrow> 'b tc \<times> 's) \<Rightarrow> 'a list \<Rightarrow> 's \<Rightarrow> ('b list \<times> 's) tc" where
  "check_vec f [] s = Ok ([], s) False"
| "check_vec f (x # xs) s = (case f x s of
      (Ok y rep, s') \<Rightarrow> tc_bind (Ok () rep) (\<lambda>u. tc_bind (check_vec f xs s') (\<lambda>(ys, s'').
        tc_return (y # ys, s'')))
    | (Err, s') \<Rightarrow> (case check_vec f xs s' of Panic \<Rightarrow> Panic | Diverge \<Rightarrow> Diverge | r \<Rightarrow> Err)
    | (Panic, s') \<Rightarrow> Panic
    | (Diverge, s') \<Rightarrow> Diverge)"

text \<open>
  A call followed by \<open>?\<close> inside the closure of a \<open>map\<close>: on an error the closure returns before it
  changes the captured state.
\<close>

fun closure_bind :: "'a tc \<Rightarrow> 's \<Rightarrow> ('a \<Rightarrow> 'b tc \<times> 's) \<Rightarrow> 'b tc \<times> 's" where
  "closure_bind (Ok x rep) s f = (tc_bind (Ok () rep) (\<lambda>u. fst (f x)), snd (f x))"
| "closure_bind Err s f = (Err, s)"
| "closure_bind Panic s f = (Panic, s)"
| "closure_bind Diverge s f = (Diverge, s)"

text \<open>\<open>iter.map(f).collect::<Result<Vec<_>, _>>()\<close> stops at the first error.\<close>

fun tc_map :: "('a \<Rightarrow> 'b tc) \<Rightarrow> 'a list \<Rightarrow> 'b list tc" where
  "tc_map f [] = tc_return []"
| "tc_map f (x # xs) = tc_bind (f x) (\<lambda>y. tc_bind (tc_map f xs) (\<lambda>ys. tc_return (y # ys)))"

text \<open>\<open>iter.all(f)\<close> stops at the first element that is false.\<close>

fun tc_all :: "('a \<Rightarrow> bool tc) \<Rightarrow> 'a list \<Rightarrow> bool tc" where
  "tc_all f [] = tc_return True"
| "tc_all f (x # xs) = tc_bind (f x) (\<lambda>b. if b then tc_all f xs else tc_return False)"

section \<open>Identifiers\<close>

datatype local_ident = LocalIdent (li_id: usize) (li_name: string) (li_mutable: bool)

datatype top_level_ident_kind = K_Type | K_Function | K_Constant | K_Crate | K_EnumConstructor

datatype top_level_ident = TopLevelIdent (tli_string: string) (tli_kind: top_level_ident_kind)

datatype ident = Unresolved string | Local local_ident | TopLevel top_level_ident

text \<open>The derived order of \<open>LocalIdent\<close>, by which \<open>sorted()\<close> orders a set of variables.\<close>

instantiation local_ident :: linorder
begin

definition less_eq_local_ident :: "local_ident \<Rightarrow> local_ident \<Rightarrow> bool" where
  "less_eq_local_ident a b \<longleftrightarrow> li_id a < li_id b \<or> li_id a = li_id b \<and>
     (li_name a < li_name b \<or> li_name a = li_name b \<and> li_mutable a \<le> li_mutable b)"

definition less_local_ident :: "local_ident \<Rightarrow> local_ident \<Rightarrow> bool" where
  "less_local_ident a b \<longleftrightarrow> a \<le> b \<and> \<not> b \<le> (a :: local_ident)"

instance
proof
  fix a b c :: local_ident
  show "(a < b) = (a \<le> b \<and> \<not> b \<le> a)" by (simp add: less_local_ident_def)
  show "a \<le> a" by (simp add: less_eq_local_ident_def)
  show "a \<le> b \<Longrightarrow> b \<le> c \<Longrightarrow> a \<le> c" by (auto simp: less_eq_local_ident_def)
  show "a \<le> b \<Longrightarrow> b \<le> a \<Longrightarrow> a = b"
    by (cases a; cases b) (auto simp: less_eq_local_ident_def)
  show "a \<le> b \<or> b \<le> a" by (auto simp: less_eq_local_ident_def)
qed

end

type_synonym var_set = "local_ident fset"

section \<open>Types\<close>

datatype borrowing = Borrowed | Consumed

datatype array_size = Size_Integer usize | Size_Ident top_level_ident

datatype secrecy = Secret | Public

type_synonym typ_var = usize

datatype base_typ =
    T_Bool | T_UInt128 | T_Int128 | T_UInt64 | T_Int64 | T_UInt32 | T_Int32 | T_UInt16 | T_Int16
  | T_UInt8 | T_Int8 | T_Usize | T_Isize | T_Str
  | T_Seq base_typ
  | T_Array array_size base_typ
  | T_Named top_level_ident "base_typ list option"
  | T_Variable typ_var
  | T_Tuple "base_typ list"
  | T_Enum "(top_level_ident \<times> base_typ option) list" "typ_var list"
  | T_NaturalInteger secrecy string usize
  | T_Placeholder

abbreviation UnitTyp :: base_typ where
  "UnitTyp \<equiv> T_Tuple []"

type_synonym Typ = "borrowing \<times> base_typ"

section \<open>Expressions and patterns\<close>

datatype literal =
    L_Unit | L_Bool bool | L_Int128 "128 word" | L_UInt128 "128 word" | L_Int64 "64 word"
  | L_UInt64 "64 word" | L_Int32 "32 word" | L_UInt32 "32 word" | L_Int16 "16 word"
  | L_UInt16 "16 word" | L_Int8 "8 word" | L_UInt8 "8 word" | L_Usize "64 word"
  | L_Isize "64 word" | L_UnspecifiedInt "128 word" | L_Str string

datatype un_op_kind = U_Not | U_Neg

datatype bin_op_kind =
    B_Add | B_Sub | B_Mul | B_Div | B_Rem | B_And | B_Or | B_BitXor | B_BitAnd | B_BitOr
  | B_Shl | B_Shr | B_Eq | B_Lt | B_Le | B_Ne | B_Ge | B_Gt

datatype carrier_typ = C_Result base_typ base_typ | C_Option base_typ

datatype early_return_type = R_Option | R_Result

fun carrier_payload :: "carrier_typ \<Rightarrow> base_typ" where
  "carrier_payload (C_Result ok err) = ok"
| "carrier_payload (C_Option ok) = ok"

fun carrier_kind :: "carrier_typ \<Rightarrow> early_return_type" where
  "carrier_kind (C_Result ok err) = R_Result"
| "carrier_kind (C_Option ok) = R_Option"

datatype pattern =
    P_IdentPat ident bool
  | P_WildCard
  | P_LiteralPat literal
  | P_Tuple "pattern list"
  | P_EnumCase base_typ top_level_ident "pattern option"

datatype expression =
    E_Unary un_op_kind expression "Typ option"
  | E_Binary bin_op_kind expression expression "Typ option"
  | E_InlineConditional expression expression expression
  | E_QuestionMark expression "carrier_typ option"
  | E_MonadicLet carrier_typ "(ident \<times> expression) list" expression bool
  | E_Named ident
  | E_FuncCall "base_typ option" top_level_ident "(expression \<times> borrowing) list" "base_typ list option"
  | E_MethodCall "expression \<times> borrowing" "Typ option" top_level_ident
      "(expression \<times> borrowing) list" "base_typ list option"
  | E_EnumInject base_typ top_level_ident "expression option"
  | E_MatchWith expression "(pattern \<times> expression) list"
  | E_FieldAccessor expression int
  | E_Lit literal
  | E_ArrayIndex ident expression "Typ option"
  | E_NewArray "top_level_ident option" "base_typ option" "expression list"
  | E_Tuple "expression list"
  | E_IntegerCasting expression base_typ "base_typ option"

section \<open>Statements, blocks and items\<close>

type_synonym mutable_var = "ident \<times> Typ option"

record scope_mutable_vars =
  external_vars :: "mutable_var fset"
  local_vars :: "mutable_var fset"

type_synonym function_dependencies = "top_level_ident fset"

type_synonym question_mark_info = "(scope_mutable_vars \<times> function_dependencies) option"

datatype statement =
    S_LetBinding pattern "Typ option" expression "carrier_typ option" question_mark_info
  | S_Reassignment ident "Typ option" expression "carrier_typ option" question_mark_info
  | S_Conditional expression block "block option" "mutated_info option"
  | S_ForLoop "ident option" expression expression block
  | S_ArrayUpdate ident expression expression "carrier_typ option" question_mark_info "Typ option"
  | S_ReturnExp expression "Typ option"
and block =
    Block (b_stmts: "statement list") (b_mutated: "mutated_info option") (b_return_typ: "Typ option")
      (b_contains_question_mark: "bool option") (b_mutable_vars: scope_mutable_vars)
      (b_function_dependencies: function_dependencies)
and mutated_info =
    MutatedInfo (mi_early_return_type: "carrier_typ option") (mi_vars: var_set) (mi_stmt: statement)

definition smv_new :: scope_mutable_vars where
  "smv_new = \<lparr>external_vars = {||}, local_vars = {||}\<rparr>"

definition smv_push :: "mutable_var \<Rightarrow> scope_mutable_vars \<Rightarrow> scope_mutable_vars" where
  "smv_push v s = s\<lparr>local_vars := finsert v (local_vars s)\<rparr>"

definition smv_push_external :: "mutable_var \<Rightarrow> scope_mutable_vars \<Rightarrow> scope_mutable_vars" where
  "smv_push_external v s = s\<lparr>external_vars := finsert v (external_vars s)\<rparr>"

definition smv_extend :: "scope_mutable_vars \<Rightarrow> scope_mutable_vars \<Rightarrow> scope_mutable_vars" where
  "smv_extend s other =
     \<lparr>external_vars = external_vars s |\<union>| external_vars other,
      local_vars = local_vars s |\<union>| external_vars other |\<union>| local_vars other\<rparr>"

record func_sig =
  sig_args_of :: "(ident \<times> Typ) list"
  sig_ret_of :: base_typ
  sig_mutable_vars :: scope_mutable_vars
  sig_function_dependencies :: function_dependencies

record external_func_sig =
  ext_args :: "Typ list"
  ext_ret :: base_typ

datatype item =
    I_FnDecl top_level_ident func_sig block
  | I_EnumDecl top_level_ident "(top_level_ident \<times> base_typ option) list"
  | I_ArrayDecl top_level_ident expression base_typ "top_level_ident option"
  | I_AliasDecl top_level_ident base_typ
  | I_ImportedCrate top_level_ident
  | I_ConstDecl top_level_ident base_typ expression
  | I_NaturalIntegerDecl top_level_ident secrecy expression "(top_level_ident \<times> string) option"

definition U8_TYP :: top_level_ident where
  "U8_TYP = TopLevelIdent ''U8'' K_Type"

section \<open>The top-level context\<close>

datatype dict_entry = D_Alias | D_Array | D_NaturalInteger | D_Enum

datatype fn_key = Independent top_level_ident | Impl base_typ top_level_ident

datatype fn_value = F_Local func_sig | F_External external_func_sig | F_ExternalNotInHacspec string

text \<open>
  The functions are kept in the order in which the hash map iterates over them, which the
  implementation does not fix: a statement for all contexts is a statement for all orders.
\<close>

record top_level_context =
  ctx_functions :: "(fn_key \<times> fn_value) list"
  ctx_consts :: "top_level_ident \<rightharpoonup> base_typ"
  ctx_typ_dict :: "top_level_ident \<rightharpoonup> Typ \<times> dict_entry"

text \<open>
  \<open>functions.insert(key, value)\<close>: the entry of a function is there already, from the resolution of
  names, and is replaced where it stands.
\<close>

fun functions_insert :: "fn_key \<Rightarrow> fn_value \<Rightarrow> (fn_key \<times> fn_value) list \<Rightarrow> (fn_key \<times> fn_value) list" where
  "functions_insert key v [] = [(key, v)]"
| "functions_insert key v ((key', v') # fs) =
     (if key' = key then (key, v) # fs else (key', v') # functions_insert key v fs)"

section \<open>Bound variables\<close>

text \<open>The identifiers that patterns, expressions, statements and blocks bind.\<close>

fun pattern_ids :: "pattern \<Rightarrow> usize list" where
  "pattern_ids (P_IdentPat (Local x) m) = [li_id x]"
| "pattern_ids (P_Tuple ps) = concat (map pattern_ids ps)"
| "pattern_ids (P_EnumCase t name (Some p)) = pattern_ids p"
| "pattern_ids p = []"

fun bound_ids :: "expression \<Rightarrow> usize list" where
  "bound_ids (E_Unary op e t) = bound_ids e"
| "bound_ids (E_Binary op e1 e2 t) = bound_ids e1 @ bound_ids e2"
| "bound_ids (E_InlineConditional e1 e2 e3) = bound_ids e1 @ bound_ids e2 @ bound_ids e3"
| "bound_ids (E_QuestionMark e t) = bound_ids e"
| "bound_ids (E_MonadicLet c bs e p) = []"
| "bound_ids (E_Named y) = []"
| "bound_ids (E_FuncCall p f args ts) = concat (map (\<lambda>a. bound_ids (fst a)) args)"
| "bound_ids (E_MethodCall sel t f args ts) = bound_ids (fst sel) @ concat (map (\<lambda>a. bound_ids (fst a)) args)"
| "bound_ids (E_EnumInject t c None) = []"
| "bound_ids (E_EnumInject t c (Some e)) = bound_ids e"
| "bound_ids (E_MatchWith e arms) = bound_ids e @ concat (map (\<lambda>a. pattern_ids (fst a) @ bound_ids (snd a)) arms)"
| "bound_ids (E_FieldAccessor e i) = bound_ids e"
| "bound_ids (E_Lit l) = []"
| "bound_ids (E_ArrayIndex y e t) = bound_ids e"
| "bound_ids (E_NewArray a t es) = concat (map bound_ids es)"
| "bound_ids (E_Tuple es) = concat (map bound_ids es)"
| "bound_ids (E_IntegerCasting e t o1) = bound_ids e"

fun ident_ids :: "ident \<Rightarrow> usize list" where
  "ident_ids (Local y) = [li_id y]"
| "ident_ids y = []"

fun stmt_bound :: "statement \<Rightarrow> usize list"
  and block_bound :: "block \<Rightarrow> usize list" where
  "stmt_bound (S_LetBinding pat t e c q) = pattern_ids pat @ bound_ids e"
| "stmt_bound (S_Reassignment y t e c q) = bound_ids e"
| "stmt_bound (S_ArrayUpdate y e1 e2 c q t) = bound_ids e1 @ bound_ids e2"
| "stmt_bound (S_ReturnExp e t) = bound_ids e"
| "stmt_bound (S_Conditional e b1 None m) = bound_ids e @ block_bound b1"
| "stmt_bound (S_Conditional e b1 (Some b2) m) = bound_ids e @ block_bound b1 @ block_bound b2"
| "stmt_bound (S_ForLoop None e1 e2 b) = bound_ids e1 @ bound_ids e2 @ block_bound b"
| "stmt_bound (S_ForLoop (Some y) e1 e2 b) = ident_ids y @ bound_ids e1 @ bound_ids e2 @ block_bound b"
| "block_bound (Block ss m r c v d) = concat (map stmt_bound ss)"

section \<open>Laws of the result type\<close>

lemma tc_bind_Ok_iff:
  "tc_bind m f = Ok y rep \<longleftrightarrow>
     (\<exists>x r1 r2. m = Ok x r1 \<and> f x = Ok y r2 \<and> rep = (r1 \<or> r2))"
  by (cases m) (auto split: tc.splits)

lemma tc_bind_OkE:
  assumes "tc_bind m f = Ok y rep"
  obtains x r1 r2 where "m = Ok x r1" "f x = Ok y r2" "rep = (r1 \<or> r2)"
  using assms by (auto simp: tc_bind_Ok_iff)

lemma tc_bind_return [simp]: "tc_bind (tc_return x) f = f x"
  by (cases "f x") (simp_all add: tc_return_def)

lemma tc_return_Ok_iff [simp]: "tc_return x = Ok y rep \<longleftrightarrow> y = x \<and> \<not> rep"
  by (auto simp: tc_return_def)

lemma tc_return_eq_iff [simp]: "tc_return x = tc_return y \<longleftrightarrow> x = y"
  by (simp add: tc_return_def)

lemma tc_return_neq [simp]: "tc_return x \<noteq> Err" "tc_return x \<noteq> Panic" "tc_return x \<noteq> Diverge"
  by (simp_all add: tc_return_def)

lemma tc_bind_assoc: "tc_bind (tc_bind m f) g = tc_bind m (\<lambda>x. tc_bind (f x) g)"
  by (cases m) (auto split: tc.splits)

lemma tc_report_Ok_iff [simp]: "tc_report = Ok u rep \<longleftrightarrow> rep"
  by (auto simp: tc_report_def)

lemma tc_ok_Ok_iff:
  "tc_ok m = Ok y rep \<longleftrightarrow>
     (case m of Ok x r \<Rightarrow> y = Some x \<and> rep = r | Err \<Rightarrow> y = None \<and> rep | _ \<Rightarrow> False)"
  by (cases m) auto

lemma tc_all_True_iff:
  "(\<exists>rep. tc_all f xs = Ok True rep) \<longleftrightarrow> (\<forall>x \<in> set xs. \<exists>rep. f x = Ok True rep)"
  by (induction xs) (auto simp: tc_bind_Ok_iff)

lemma tc_all_return: "(\<And>x. x \<in> set xs \<Longrightarrow> f x = tc_return (g x)) \<Longrightarrow> tc_all f xs = tc_return (list_all g xs)"
  by (induction xs) auto

text \<open>The order of results by the bound on the recursion: a larger bound only turns \<open>Diverge\<close> into a result.\<close>

definition tc_le :: "'a tc \<Rightarrow> 'a tc \<Rightarrow> bool" where
  "tc_le a b \<longleftrightarrow> a = Diverge \<or> a = b"

named_theorems tc_mono \<open>monotonicity of the combinators in the bound on the recursion\<close>

lemma tc_le_refl [tc_mono]: "tc_le a a"
  by (simp add: tc_le_def)

lemma tc_le_Diverge [tc_mono]: "tc_le Diverge b"
  by (simp add: tc_le_def)

lemma tc_le_bind [tc_mono]:
  assumes "tc_le m m'" "\<And>x. tc_le (f x) (f' x)"
  shows "tc_le (tc_bind m f) (tc_bind m' f')"
proof (cases m)
  case (Ok x rep)
  with assms(1) have "m' = Ok x rep" by (simp add: tc_le_def)
  with Ok assms(2) [of x] show ?thesis by (auto simp: tc_le_def)
qed (use assms(1) in \<open>auto simp: tc_le_def\<close>)

lemma tc_le_ok [tc_mono]: "tc_le m m' \<Longrightarrow> tc_le (tc_ok m) (tc_ok m')"
  by (auto simp: tc_le_def)

lemma tc_le_all [tc_mono]: "(\<And>x. tc_le (f x) (f' x)) \<Longrightarrow> tc_le (tc_all f xs) (tc_all f' xs)"
  by (induction xs) (auto intro!: tc_le_bind tc_le_refl)

lemma tc_le_map [tc_mono]: "(\<And>x. tc_le (f x) (f' x)) \<Longrightarrow> tc_le (tc_map f xs) (tc_map f' xs)"
  by (induction xs) (auto intro!: tc_le_bind tc_le_refl)

lemma tc_map_Ok:
  assumes "tc_map f xs = Ok ys rep"
  shows "length ys = length xs \<and> (\<forall>i < length xs. \<exists>r. f (xs ! i) = Ok (ys ! i) r \<and> (r \<longrightarrow> rep))"
  using assms
proof (induction xs arbitrary: ys rep)
  case (Cons x xs)
  then obtain y ys' r1 r2 where "f x = Ok y r1" "tc_map f xs = Ok ys' r2" "ys = y # ys'" "rep = (r1 \<or> r2)"
    by (auto simp: tc_bind_Ok_iff)
  with Cons.IH [of ys' r2] show ?case by (auto simp: nth_Cons split: nat.split)
qed simp

lemma tc_leD: "tc_le a b \<Longrightarrow> a \<noteq> Diverge \<Longrightarrow> b = a"
  by (auto simp: tc_le_def)

lemma neq_Borrowed [simp]: "b \<noteq> Borrowed \<longleftrightarrow> b = Consumed"
  by (cases b) auto

lemma neq_Consumed [simp]: "b \<noteq> Consumed \<longleftrightarrow> b = Borrowed"
  by (cases b) auto

text \<open>Results without a reported error.\<close>

lemma tc_bind_clean: "tc_bind m f = Ok y False \<longleftrightarrow> (\<exists>x. m = Ok x False \<and> f x = Ok y False)"
  by (auto simp: tc_bind_Ok_iff)

lemma tc_bind_cleanE:
  assumes "tc_bind m f = Ok y False"
  obtains x where "m = Ok x False" "f x = Ok y False"
  using assms by (auto simp: tc_bind_clean)

text \<open>Results whose report flag does not matter.\<close>

lemma tc_bind_someE:
  assumes "tc_bind m f = Ok y rep"
  obtains x r1 r2 where "m = Ok x r1" "f x = Ok y r2"
  using assms by (auto simp: tc_bind_Ok_iff)

text \<open>Closures over a state.\<close>

lemma check_vec_cong [fundef_cong]:
  assumes "xs = xs'" "s = s'" "\<And>x s. x \<in> set xs' \<Longrightarrow> f x s = g x s"
  shows "check_vec f xs s = check_vec g xs' s'"
  using assms(3) unfolding assms(1,2)
  by (induction xs' arbitrary: s') (auto split: tc.split prod.split)

lemma closure_bind_clean: "closure_bind m s f = (Ok y False, s') \<longleftrightarrow> (\<exists>x. m = Ok x False \<and> f x = (Ok y False, s'))"
  by (cases m) (auto split: tc.splits simp: prod_eq_iff)

lemma check_vec_Cons_clean:
  "check_vec f (x # xs) s = Ok (zs, s') False \<longleftrightarrow>
     (\<exists>y ys s1. f x s = (Ok y False, s1) \<and> check_vec f xs s1 = Ok (ys, s') False \<and> zs = y # ys)"
  by (auto simp: tc_bind_Ok_iff split: tc.splits prod.splits)

lemma closure_bind_someE:
  assumes "closure_bind m s f = (Ok y rep, s')"
  obtains x r1 r2 where "m = Ok x r1" "f x = (Ok y r2, s')"
  using assms by (cases m) (auto split: tc.splits simp: prod_eq_iff)

lemma check_vec_ConsE:
  assumes "check_vec f (x # xs) s = Ok (zs, s') rep"
  obtains y ys s1 r1 r2 where "f x s = (Ok y r1, s1)" "check_vec f xs s1 = Ok (ys, s') r2" "zs = y # ys"
  using assms by (auto simp: tc_bind_Ok_iff split: tc.splits prod.splits)

lemma check_vec_Ok_all:
  assumes "check_vec f ps s = Ok (ys, s') rep"
    and "\<And>p s y s' rep. p \<in> set ps \<Longrightarrow> f p s = (Ok y rep, s') \<Longrightarrow> Q y"
  shows "\<forall>y \<in> set ys. Q y"
  using assms
proof (induction ps arbitrary: s ys rep)
  case (Cons p ps)
  from Cons.prems(1) obtain y s1 ys1 r1 r2 where p: "f p s = (Ok y r1, s1)"
      and rest: "check_vec f ps s1 = Ok (ys1, s') r2" and ys: "ys = y # ys1"
    by (rule check_vec_ConsE)
  have "Q y" using Cons.prems(2) [OF _ p] by simp
  moreover have "\<forall>y \<in> set ys1. Q y" using Cons.IH [OF rest] Cons.prems(2) by (metis list.set_intros(2))
  ultimately show ?case by (simp add: ys)
qed simp

text \<open>Sizes, for the recursions over the syntax.\<close>

lemma size_member:
  fixes a e :: expression
  shows "(a, b) \<in> set xs \<Longrightarrow> size a \<le> size_list (size_prod size (\<lambda>x. 0)) xs"
  "(p, a) \<in> set zs \<Longrightarrow> size a \<le> size_list (size_prod (\<lambda>x. 0) size) zs"
  "e \<in> set ys \<Longrightarrow> size e \<le> size_list size ys"
  by (erule size_list_estimation'; simp)+

lemma size_block_stmts: "size_list size (b_stmts b) < size b"
  by (cases b) simp

lemma size_block_stmt: "s \<in> set (b_stmts b) \<Longrightarrow> size s < size b"
  by (cases b) (auto simp: less_Suc_eq_le intro: trans_le_add1 dest: size_list_estimation' [OF _ order_refl, of _ _ size])

end
