(* ===== verification/Name_Resolution.thy ===== *)
theory Name_Resolution
  imports Rustspec
begin

text \<open>
  \<open>language/src/name_resolution.rs\<close>: the phase that replaces every name of a crate by a local identifier
  with a fresh number or by a top-level constant, and fills the top-level context with the
  declarations of the crate and of the crates it imports.

  The counter \<open>ID_COUNTER\<close> is passed through: a definition takes the next number and returns the next
  number after it. (After an error the number does not matter, because the crate is not compiled.) The data of
  external crates comes from the metadata of the Rust compiler and is a parameter. Contracts
  (\<open>requires\<close> and \<open>ensures\<close>) are left out, as in the syntax.

  The lemmas show that a resolved block has the names of the original one, that every identifier in it is
  the innermost binding of its name in scope or a constant, that the numbers of its variables are
  fresh and distinct, and on which blocks the phase succeeds. One exception to the scoping of Rust is stated as a theorem:
  the variable of a loop stays in scope after the loop.
\<close>

section \<open>Names and identifiers\<close>

type_synonym name_context = "string \<rightharpoonup> ident"

definition to_fresh_ident :: "string \<Rightarrow> bool \<Rightarrow> nat \<Rightarrow> ident \<times> nat" where
  "to_fresh_ident x mut k = (Local (LocalIdent k x mut), Suc k)"

fun add_name :: "ident \<Rightarrow> ident \<Rightarrow> name_context \<Rightarrow> name_context tc" where
  "add_name (Unresolved name) var nc = tc_return (nc(name \<mapsto> var))"
| "add_name x var nc = Panic"

fun find_ident :: "top_level_context \<Rightarrow> name_context \<Rightarrow> ident \<Rightarrow> ident tc" where
  "find_ident tlc nc (Unresolved name) =
     (case nc name of
        None \<Rightarrow>
          let x_tl = TopLevelIdent name K_Constant in
          (case ctx_consts tlc x_tl of
             Some t \<Rightarrow> tc_return (TopLevel x_tl)
           | None \<Rightarrow> Err)
      | Some x \<Rightarrow> tc_return x)"
| "find_ident tlc nc x = Err"

section \<open>Patterns\<close>

fun resolve_pattern :: "pattern \<Rightarrow> nat \<Rightarrow> (pattern \<times> name_context \<times> nat) tc"
  and resolve_patterns :: "pattern list \<Rightarrow> name_context \<Rightarrow> nat \<Rightarrow> (pattern list \<times> name_context \<times> nat) tc" where
  "resolve_pattern (P_EnumCase ty_name name None) k = tc_return (P_EnumCase ty_name name None, Map.empty, k)"
| "resolve_pattern (P_EnumCase ty_name name (Some inner_pat)) k =
     tc_bind (resolve_pattern inner_pat k) (\<lambda>(new_inner_pat, sub_context, k).
     tc_return (P_EnumCase ty_name name (Some new_inner_pat), sub_context, k))"
| "resolve_pattern (P_Tuple pat_args) k =
     tc_bind (resolve_patterns pat_args Map.empty k) (\<lambda>(tup_args, acc_name, k).
     tc_return (P_Tuple tup_args, acc_name, k))"
| "resolve_pattern P_WildCard k = tc_return (P_WildCard, Map.empty, k)"
| "resolve_pattern (P_LiteralPat x) k = tc_return (P_LiteralPat x, Map.empty, k)"
| "resolve_pattern (P_IdentPat x m) k =
     (case x of
        Unresolved s \<Rightarrow>
          let (x_new, k) = to_fresh_ident s m k in tc_return (P_IdentPat x_new m, [s \<mapsto> x_new], k)
      | _ \<Rightarrow> Panic)"
| "resolve_patterns [] acc_name k = tc_return ([], acc_name, k)"
| "resolve_patterns (pat_arg # pat_args) acc_name k =
     tc_bind (resolve_pattern pat_arg k) (\<lambda>(new_pat, sub_name_context, k).
     tc_bind (resolve_patterns pat_args (sub_name_context ++ acc_name) k) (\<lambda>(acc_pat, acc_name, k).
     tc_return (new_pat # acc_pat, acc_name, k)))"

section \<open>Expressions\<close>

text \<open>The closure of \<open>check_vec\<close>, with the counter as its state.\<close>

definition counted :: "('a \<times> nat) tc \<Rightarrow> nat \<Rightarrow> 'a tc \<times> nat" where
  "counted m k = closure_bind m k (\<lambda>(x, k). (tc_return x, k))"

function resolve_expression :: "top_level_context \<Rightarrow> name_context \<Rightarrow> expression \<Rightarrow> nat \<Rightarrow> (expression \<times> nat) tc" where
  "resolve_expression tlc nc (E_Unary op e1 ty) k =
     tc_bind (resolve_expression tlc nc e1 k) (\<lambda>(new_e1, k). tc_return (E_Unary op new_e1 ty, k))"
| "resolve_expression tlc nc (E_Binary op e1 e2 ty) k =
     tc_bind (resolve_expression tlc nc e1 k) (\<lambda>(new_e1, k).
     tc_bind (resolve_expression tlc nc e2 k) (\<lambda>(new_e2, k).
     tc_return (E_Binary op new_e1 new_e2 ty, k)))"
| "resolve_expression tlc nc (E_MonadicLet c bs e p) k = Panic"
| "resolve_expression tlc nc (E_QuestionMark e t) k =
     tc_bind (resolve_expression tlc nc e k) (\<lambda>(new_e, k). tc_return (E_QuestionMark new_e t, k))"
| "resolve_expression tlc nc (E_MatchWith arg arms) k =
     tc_bind (resolve_expression tlc nc arg k) (\<lambda>(new_arg, k).
     tc_bind (check_vec (\<lambda>(pat, arm) k. counted
         (tc_bind (resolve_pattern pat k) (\<lambda>(new_pat, new_name_context, k).
          tc_bind (resolve_expression tlc (nc ++ new_name_context) arm k) (\<lambda>(new_arm, k).
          tc_return ((new_pat, new_arm), k)))) k) arms k) (\<lambda>(new_arms, k).
     tc_return (E_MatchWith new_arg new_arms, k)))"
| "resolve_expression tlc nc (E_FieldAccessor e1 field) k =
     tc_bind (resolve_expression tlc nc e1 k) (\<lambda>(e1, k). tc_return (E_FieldAccessor e1 field, k))"
| "resolve_expression tlc nc (E_EnumInject enum_name case_name payload) k =
     tc_bind (case payload of
         None \<Rightarrow> tc_return (None, k)
       | Some payload \<Rightarrow>
           tc_bind (resolve_expression tlc nc payload k) (\<lambda>(new_payload, k). tc_return (Some new_payload, k)))
       (\<lambda>(payload, k).
     tc_return (E_EnumInject enum_name case_name payload, k))"
| "resolve_expression tlc nc (E_InlineConditional e1 e2 e3) k =
     tc_bind (resolve_expression tlc nc e1 k) (\<lambda>(new_e1, k).
     tc_bind (resolve_expression tlc nc e2 k) (\<lambda>(new_e2, k).
     tc_bind (resolve_expression tlc nc e3 k) (\<lambda>(new_e3, k).
     tc_return (E_InlineConditional new_e1 new_e2 new_e3, k))))"
| "resolve_expression tlc nc (E_Named i) k =
     tc_bind (find_ident tlc nc i) (\<lambda>new_i. tc_return (E_Named new_i, k))"
| "resolve_expression tlc nc (E_FuncCall ty f args arg_types) k =
     tc_bind (check_vec (\<lambda>(arg, b) k. counted
         (tc_bind (resolve_expression tlc nc arg k) (\<lambda>(new_arg0, k). tc_return ((new_arg0, b), k))) k) args k)
       (\<lambda>(new_args, k).
     tc_return (E_FuncCall ty f new_args arg_types, k))"
| "resolve_expression tlc nc (E_MethodCall sel ty f args arg_types) k =
     tc_bind (resolve_expression tlc nc (fst sel) k) (\<lambda>(new_self, k).
     tc_bind (check_vec (\<lambda>(arg, b) k. counted
         (tc_bind (resolve_expression tlc nc arg k) (\<lambda>(new_arg0, k). tc_return ((new_arg0, b), k))) k) args k)
       (\<lambda>(new_args, k).
     tc_return (E_MethodCall (new_self, snd sel) ty f new_args arg_types, k)))"
| "resolve_expression tlc nc (E_Lit l) k = tc_return (E_Lit l, k)"
| "resolve_expression tlc nc (E_ArrayIndex x e1 t) k =
     tc_bind (find_ident tlc nc x) (\<lambda>new_x.
     tc_bind (resolve_expression tlc nc e1 k) (\<lambda>(new_e1, k).
     tc_return (E_ArrayIndex new_x new_e1 t, k)))"
| "resolve_expression tlc nc (E_NewArray x ty args) k =
     tc_bind (check_vec (\<lambda>arg k. counted (resolve_expression tlc nc arg k) k) args k) (\<lambda>(new_args, k).
     tc_return (E_NewArray x ty new_args, k))"
| "resolve_expression tlc nc (E_Tuple args) k =
     tc_bind (check_vec (\<lambda>arg k. counted (resolve_expression tlc nc arg k) k) args k) (\<lambda>(new_args, k).
     tc_return (E_Tuple new_args, k))"
| "resolve_expression tlc nc (E_IntegerCasting e1 t_from t_to) k =
     tc_bind (resolve_expression tlc nc e1 k) (\<lambda>(new_e1, k). tc_return (E_IntegerCasting new_e1 t_from t_to, k))"
  by pat_completeness auto

termination
  by (relation "measure (\<lambda>(tlc, nc, e, k). size e)")
    (auto simp: less_Suc_eq_le dest!: size_member)

section \<open>Statements and blocks\<close>

function resolve_statement :: "top_level_context \<Rightarrow> statement \<Rightarrow> name_context \<Rightarrow> nat \<Rightarrow> (statement \<times> name_context \<times> nat) tc"
  and resolve_block :: "top_level_context \<Rightarrow> block \<Rightarrow> name_context \<Rightarrow> nat \<Rightarrow> (block \<times> nat) tc"
  and resolve_stmts :: "top_level_context \<Rightarrow> statement list \<Rightarrow> name_context \<Rightarrow> nat \<Rightarrow> (statement list \<times> nat) tc" where
  "resolve_statement tlc (S_Conditional cond then_b else_b info) nc k =
     tc_bind (resolve_expression tlc nc cond k) (\<lambda>(new_cond, k).
     tc_bind (resolve_block tlc then_b nc k) (\<lambda>(new_then_b, k).
     tc_bind (case else_b of
         Some else_b \<Rightarrow> tc_bind (resolve_block tlc else_b nc k) (\<lambda>(b, k). tc_return (Some b, k))
       | None \<Rightarrow> tc_return (None, k)) (\<lambda>(new_else_b, k).
     tc_return (S_Conditional new_cond new_then_b new_else_b info, nc, k))))"
| "resolve_statement tlc (S_ForLoop None lower upper body) nc k =
     tc_bind (resolve_expression tlc nc lower k) (\<lambda>(new_lower, k).
     tc_bind (resolve_expression tlc nc upper k) (\<lambda>(new_upper, k).
     tc_bind (resolve_block tlc body nc k) (\<lambda>(new_body, k).
     tc_return (S_ForLoop None new_lower new_upper new_body, nc, k))))"
| "resolve_statement tlc (S_ForLoop (Some var) lower upper body) nc k =
     tc_bind (resolve_expression tlc nc lower k) (\<lambda>(new_lower, k).
     tc_bind (resolve_expression tlc nc upper k) (\<lambda>(new_upper, k).
     case var of
       Unresolved s \<Rightarrow>
         let (new_var, k) = to_fresh_ident s False k in
         tc_bind (add_name var new_var nc) (\<lambda>nc.
         tc_bind (resolve_block tlc body nc k) (\<lambda>(new_body, k).
         tc_return (S_ForLoop (Some new_var) new_lower new_upper new_body, nc, k)))
     | _ \<Rightarrow> Panic))"
| "resolve_statement tlc (S_ReturnExp e t) nc k =
     tc_bind (resolve_expression tlc nc e k) (\<lambda>(new_e, k). tc_return (S_ReturnExp new_e None, nc, k))"
| "resolve_statement tlc (S_ArrayUpdate var index e carrier question_mark t) nc k =
     tc_bind (find_ident tlc nc var) (\<lambda>new_var.
     tc_bind (resolve_expression tlc nc index k) (\<lambda>(new_index, k).
     tc_bind (resolve_expression tlc nc e k) (\<lambda>(new_e, k).
     tc_return (S_ArrayUpdate new_var new_index new_e carrier question_mark t, nc, k))))"
| "resolve_statement tlc (S_Reassignment var var_typ e carrier question_mark) nc k =
     tc_bind (find_ident tlc nc var) (\<lambda>new_var.
     tc_bind (resolve_expression tlc nc e k) (\<lambda>(new_e, k).
     tc_return (S_Reassignment new_var var_typ new_e carrier question_mark, nc, k)))"
| "resolve_statement tlc (S_LetBinding pat t e carrier question_mark) nc k =
     tc_bind (resolve_expression tlc nc e k) (\<lambda>(new_e, k).
     tc_bind (resolve_pattern pat k) (\<lambda>(new_pat, new_name_context, k).
     tc_return (S_LetBinding new_pat t new_e carrier question_mark, nc ++ new_name_context, k)))"
| "resolve_block tlc b nc k =
     tc_bind (resolve_stmts tlc (b_stmts b) nc k) (\<lambda>(new_stmts, k).
     tc_return (Block new_stmts None None None (b_mutable_vars b) (b_function_dependencies b), k))"
| "resolve_stmts tlc [] nc k = tc_return ([], k)"
| "resolve_stmts tlc (s # ss) nc k =
     tc_bind (resolve_statement tlc s nc k) (\<lambda>(new_stmt, new_name_context, k).
     tc_bind (resolve_stmts tlc ss new_name_context k) (\<lambda>(new_stmts, k).
     tc_return (new_stmt # new_stmts, k)))"
  by pat_completeness auto

termination
  by (relation "measure (\<lambda>a. case a of Inl (tlc, s, nc, k) \<Rightarrow> size s | Inr (Inl (tlc, b, nc, k)) \<Rightarrow> size b
      | Inr (Inr (tlc, ss, nc, k)) \<Rightarrow> size_list size ss)")
    (auto simp: size_block_stmts)

declare resolve_block.simps [simp del]

section \<open>Items\<close>

fun resolve_args :: "(ident \<times> Typ) list \<Rightarrow> name_context \<Rightarrow> nat \<Rightarrow> ((ident \<times> Typ) list \<times> name_context \<times> nat) tc" where
  "resolve_args [] nc k = tc_return ([], nc, k)"
| "resolve_args ((x, t) # args) nc k =
     (case x of
        Unresolved s \<Rightarrow>
          let (new_x, k) = to_fresh_ident s False k in
          tc_bind (add_name x new_x nc) (\<lambda>nc.
          tc_bind (resolve_args args nc k) (\<lambda>(new_args, nc, k).
          tc_return ((new_x, t) # new_args, nc, k)))
      | _ \<Rightarrow> Panic)"

definition resolve_item :: "top_level_context \<Rightarrow> item \<Rightarrow> nat \<Rightarrow> (item \<times> nat) tc" where
  "resolve_item tlc i k =
     (case i of
        I_ConstDecl x t e \<Rightarrow>
          tc_bind (resolve_expression tlc Map.empty e k) (\<lambda>(new_e, k). tc_return (I_ConstDecl x t new_e, k))
      | I_ArrayDecl x len cell_t index_typ \<Rightarrow>
          tc_bind (resolve_expression tlc Map.empty len k) (\<lambda>(new_size, k).
          tc_return (I_ArrayDecl x new_size cell_t index_typ, k))
      | I_EnumDecl x cases \<Rightarrow> tc_return (i, k)
      | I_AliasDecl x t \<Rightarrow> tc_return (i, k)
      | I_ImportedCrate x \<Rightarrow> tc_return (i, k)
      | I_NaturalIntegerDecl typ_ident sec canvas_size info \<Rightarrow>
          tc_bind (resolve_expression tlc Map.empty canvas_size k) (\<lambda>(new_canvas_size, k).
          tc_return (I_NaturalIntegerDecl typ_ident sec new_canvas_size info, k))
      | I_FnDecl f sig b \<Rightarrow>
          tc_bind (resolve_args (sig_args_of sig) Map.empty k) (\<lambda>(new_sig_args, nc, k).
          tc_bind (resolve_block tlc b nc k) (\<lambda>(new_b, k).
          tc_return (I_FnDecl f (sig\<lparr>sig_args_of := new_sig_args,
            sig_function_dependencies := b_function_dependencies new_b\<rparr>) new_b, k))))"

section \<open>The declarations of a crate\<close>

definition insert_typ :: "top_level_ident \<Rightarrow> base_typ \<Rightarrow> dict_entry \<Rightarrow> top_level_context \<Rightarrow> top_level_context" where
  "insert_typ x t d tlc = tlc\<lparr>ctx_typ_dict := (ctx_typ_dict tlc)(x \<mapsto> ((Consumed, t), d))\<rparr>"

definition insert_fn :: "fn_key \<Rightarrow> fn_value \<Rightarrow> top_level_context \<Rightarrow> top_level_context" where
  "insert_fn key v tlc = tlc\<lparr>ctx_functions := functions_insert key v (ctx_functions tlc)\<rparr>"

definition insert_const :: "top_level_ident \<Rightarrow> base_typ \<Rightarrow> top_level_context \<Rightarrow> top_level_context" where
  "insert_const x t tlc = tlc\<lparr>ctx_consts := (ctx_consts tlc)(x \<mapsto> t)\<rparr>"

definition declare_array :: "top_level_ident \<Rightarrow> expression \<Rightarrow> base_typ \<Rightarrow> top_level_ident option \<Rightarrow> top_level_context \<Rightarrow>
    top_level_context tc" where
  "declare_array x len cell_t index_typ tlc =
     tc_bind (case len of
         E_Lit (L_Usize u) \<Rightarrow> tc_return (Size_Integer (unat u))
       | E_Named (Unresolved s) \<Rightarrow> tc_return (Size_Ident (TopLevelIdent s K_Constant))
       | _ \<Rightarrow> Err) (\<lambda>new_size.
     let tlc = insert_typ x (T_Array new_size cell_t) D_Array tlc in
     tc_return (case index_typ of
         None \<Rightarrow> tlc
       | Some index_typ \<Rightarrow> insert_typ index_typ T_Usize D_Alias tlc))"

definition process_decl_item :: "item \<Rightarrow> top_level_context \<Rightarrow> top_level_context tc" where
  "process_decl_item i tlc =
     (case i of
        I_ConstDecl x t e \<Rightarrow> tc_return (insert_const x t tlc)
      | I_EnumDecl x cases \<Rightarrow> tc_return (insert_typ x (T_Enum cases []) D_Enum tlc)
      | I_ArrayDecl x len cell_t index_typ \<Rightarrow> declare_array x len cell_t index_typ tlc
      | I_NaturalIntegerDecl typ_ident sec canvas_size info \<Rightarrow>
          tc_bind (case info of
              Some (canvas_typ_ident, mod_string) \<Rightarrow>
                tc_bind (declare_array canvas_typ_ident canvas_size
                    (case sec of Secret \<Rightarrow> T_Named U8_TYP None | Public \<Rightarrow> T_UInt8) None tlc) (\<lambda>tlc.
                tc_return (mod_string, tlc))
            | None \<Rightarrow> tc_return ([], tlc)) (\<lambda>(mod_string, tlc).
          (case canvas_size of
             E_Lit (L_Usize u) \<Rightarrow>
               tc_return (insert_typ typ_ident (T_NaturalInteger sec mod_string (unat u)) D_NaturalInteger tlc)
           | _ \<Rightarrow> Err))
      | I_AliasDecl alias_name alias_ty \<Rightarrow> tc_return (insert_typ alias_name alias_ty D_Alias tlc)
      | I_ImportedCrate x \<Rightarrow> tc_return tlc
      | I_FnDecl f sig b \<Rightarrow> tc_return (insert_fn (Independent f) (F_Local sig) tlc))"

fun process_decl_items :: "item list \<Rightarrow> top_level_context \<Rightarrow> top_level_context tc" where
  "process_decl_items [] tlc = tc_return tlc"
| "process_decl_items (i # items) tlc = tc_bind (process_decl_item i tlc) (process_decl_items items)"

section \<open>External crates\<close>

text \<open>
  The hash maps of \<open>ExternalData\<close> are lists, in the order of their iteration.
\<close>

record external_data =
  ext_funcs :: "(fn_key \<times> (external_func_sig + string)) list"
  ext_consts :: "(string \<times> base_typ) list"
  ext_arrays :: "(string \<times> base_typ) list"
  ext_nat_ints :: "(string \<times> base_typ) list"
  ext_enums :: "(string \<times> base_typ) list"
  ext_ty_aliases :: "(string \<times> base_typ) list"

fun is_imported_crate :: "item \<Rightarrow> bool" where
  "is_imported_crate (I_ImportedCrate x) = True"
| "is_imported_crate i = False"

fun imported_crate_name :: "item \<Rightarrow> string tc" where
  "imported_crate_name (I_ImportedCrate (TopLevelIdent s K_Crate)) = tc_return s"
| "imported_crate_name i = Panic"

definition get_imported_crates :: "item list \<Rightarrow> string list tc" where
  "get_imported_crates p = tc_map imported_crate_name (filter is_imported_crate p)"

definition external_fn_value :: "external_func_sig + string \<Rightarrow> fn_value" where
  "external_fn_value v = (case v of Inl sig \<Rightarrow> F_External sig | Inr s \<Rightarrow> F_ExternalNotInHacspec s)"

definition insert_external_typs :: "dict_entry \<Rightarrow> (string \<times> base_typ) list \<Rightarrow> top_level_context \<Rightarrow> top_level_context" where
  "insert_external_typs d = fold (\<lambda>(name, t). insert_typ (TopLevelIdent name K_Type) t d)"

definition enrich_with_external_crates_symbols :: "(string list \<Rightarrow> external_data) \<Rightarrow> item list \<Rightarrow> top_level_context \<Rightarrow>
    top_level_context tc" where
  "enrich_with_external_crates_symbols external_data p tlc =
     tc_bind (get_imported_crates p) (\<lambda>crates.
     let data = external_data crates;
         tlc = insert_external_typs D_Alias (ext_ty_aliases data) tlc;
         tlc = insert_external_typs D_Array (ext_arrays data) tlc;
         tlc = insert_external_typs D_Enum (ext_enums data) tlc;
         tlc = insert_external_typs D_NaturalInteger (ext_nat_ints data) tlc;
         tlc = fold (\<lambda>(key, v). insert_fn key (external_fn_value v)) (ext_funcs data) tlc;
         tlc = fold (\<lambda>(name, t). insert_const (TopLevelIdent name K_Constant) t) (ext_consts data) tlc
     in tc_return tlc)"

section \<open>Crates\<close>

definition insert_fn_decl :: "item \<Rightarrow> top_level_context \<Rightarrow> top_level_context" where
  "insert_fn_decl i tlc = (case i of I_FnDecl f sig b \<Rightarrow> insert_fn (Independent f) (F_Local sig) tlc | _ \<Rightarrow> tlc)"

definition resolve_items :: "top_level_context \<Rightarrow> item list \<Rightarrow> nat \<Rightarrow> (item list \<times> nat) tc" where
  "resolve_items tlc items k = check_vec (\<lambda>i k. counted (resolve_item tlc i k) k) items k"

definition resolve_crate :: "(string list \<Rightarrow> external_data) \<Rightarrow> item list \<Rightarrow> top_level_context \<Rightarrow> nat \<Rightarrow>
    (item list \<times> top_level_context \<times> nat) tc" where
  "resolve_crate external_data p tlc k =
     tc_bind (enrich_with_external_crates_symbols external_data p tlc) (\<lambda>tlc.
     tc_bind (process_decl_items p tlc) (\<lambda>tlc.
     tc_bind (resolve_items tlc p k) (\<lambda>(items, k).
     tc_return (items, fold insert_fn_decl items tlc, k))))"

section \<open>Scopes\<close>

text \<open>
  \<open>unresolve\<close> puts the names back and drops the annotations that the phase resets. \<open>scoped\<close> says that
  every identifier is the innermost binding of its name in the scope, a list of variables, or a
  constant when the name is not bound.
\<close>

fun unresolve_ident :: "ident \<Rightarrow> ident" where
  "unresolve_ident (Unresolved s) = Unresolved s"
| "unresolve_ident (Local x) = Unresolved (li_name x)"
| "unresolve_ident (TopLevel x) = Unresolved (tli_string x)"

fun unresolve_pattern :: "pattern \<Rightarrow> pattern" where
  "unresolve_pattern (P_IdentPat x m) = P_IdentPat (unresolve_ident x) m"
| "unresolve_pattern (P_Tuple ps) = P_Tuple (map unresolve_pattern ps)"
| "unresolve_pattern (P_EnumCase t name None) = P_EnumCase t name None"
| "unresolve_pattern (P_EnumCase t name (Some p)) = P_EnumCase t name (Some (unresolve_pattern p))"
| "unresolve_pattern p = p"

fun unresolve :: "expression \<Rightarrow> expression" where
  "unresolve (E_Unary op e t) = E_Unary op (unresolve e) t"
| "unresolve (E_Binary op e1 e2 t) = E_Binary op (unresolve e1) (unresolve e2) t"
| "unresolve (E_InlineConditional e1 e2 e3) = E_InlineConditional (unresolve e1) (unresolve e2) (unresolve e3)"
| "unresolve (E_QuestionMark e t) = E_QuestionMark (unresolve e) t"
| "unresolve (E_MonadicLet c bs e p) = E_MonadicLet c (map (\<lambda>b. (unresolve_ident (fst b), unresolve (snd b))) bs) (unresolve e) p"
| "unresolve (E_Named y) = E_Named (unresolve_ident y)"
| "unresolve (E_FuncCall p f args ts) = E_FuncCall p f (map (\<lambda>a. (unresolve (fst a), snd a)) args) ts"
| "unresolve (E_MethodCall sel t f args ts) =
     E_MethodCall (unresolve (fst sel), snd sel) t f (map (\<lambda>a. (unresolve (fst a), snd a)) args) ts"
| "unresolve (E_EnumInject t c None) = E_EnumInject t c None"
| "unresolve (E_EnumInject t c (Some e)) = E_EnumInject t c (Some (unresolve e))"
| "unresolve (E_MatchWith e arms) = E_MatchWith (unresolve e) (map (\<lambda>a. (unresolve_pattern (fst a), unresolve (snd a))) arms)"
| "unresolve (E_FieldAccessor e i) = E_FieldAccessor (unresolve e) i"
| "unresolve (E_Lit l) = E_Lit l"
| "unresolve (E_ArrayIndex y e t) = E_ArrayIndex (unresolve_ident y) (unresolve e) t"
| "unresolve (E_NewArray a t es) = E_NewArray a t (map unresolve es)"
| "unresolve (E_Tuple es) = E_Tuple (map unresolve es)"
| "unresolve (E_IntegerCasting e t o1) = E_IntegerCasting (unresolve e) t o1"

fun pattern_vars :: "pattern \<Rightarrow> local_ident list" where
  "pattern_vars (P_IdentPat (Local x) m) = [x]"
| "pattern_vars (P_Tuple ps) = concat (map pattern_vars ps)"
| "pattern_vars (P_EnumCase t name (Some p)) = pattern_vars p"
| "pattern_vars p = []"

definition lookup_name :: "local_ident list \<Rightarrow> name_context" where
  "lookup_name \<Gamma> s = map_option Local (List.find (\<lambda>x. li_name x = s) \<Gamma>)"

fun scoped_ident :: "top_level_context \<Rightarrow> local_ident list \<Rightarrow> ident \<Rightarrow> bool" where
  "scoped_ident tlc \<Gamma> (Unresolved s) = False"
| "scoped_ident tlc \<Gamma> (Local x) = (lookup_name \<Gamma> (li_name x) = Some (Local x))"
| "scoped_ident tlc \<Gamma> (TopLevel x) =
     (lookup_name \<Gamma> (tli_string x) = None \<and> tli_kind x = K_Constant \<and> ctx_consts tlc x \<noteq> None)"

fun scoped :: "top_level_context \<Rightarrow> local_ident list \<Rightarrow> expression \<Rightarrow> bool" where
  "scoped tlc \<Gamma> (E_Unary op e t) = scoped tlc \<Gamma> e"
| "scoped tlc \<Gamma> (E_Binary op e1 e2 t) = (scoped tlc \<Gamma> e1 \<and> scoped tlc \<Gamma> e2)"
| "scoped tlc \<Gamma> (E_InlineConditional e1 e2 e3) = (scoped tlc \<Gamma> e1 \<and> scoped tlc \<Gamma> e2 \<and> scoped tlc \<Gamma> e3)"
| "scoped tlc \<Gamma> (E_QuestionMark e t) = scoped tlc \<Gamma> e"
| "scoped tlc \<Gamma> (E_MonadicLet c bs e p) = False"
| "scoped tlc \<Gamma> (E_Named y) = scoped_ident tlc \<Gamma> y"
| "scoped tlc \<Gamma> (E_FuncCall p f args ts) = (\<forall>a \<in> set args. scoped tlc \<Gamma> (fst a))"
| "scoped tlc \<Gamma> (E_MethodCall sel t f args ts) = (scoped tlc \<Gamma> (fst sel) \<and> (\<forall>a \<in> set args. scoped tlc \<Gamma> (fst a)))"
| "scoped tlc \<Gamma> (E_EnumInject t c None) = True"
| "scoped tlc \<Gamma> (E_EnumInject t c (Some e)) = scoped tlc \<Gamma> e"
| "scoped tlc \<Gamma> (E_MatchWith e arms) = (scoped tlc \<Gamma> e \<and> (\<forall>a \<in> set arms. scoped tlc (pattern_vars (fst a) @ \<Gamma>) (snd a)))"
| "scoped tlc \<Gamma> (E_FieldAccessor e i) = scoped tlc \<Gamma> e"
| "scoped tlc \<Gamma> (E_Lit l) = True"
| "scoped tlc \<Gamma> (E_ArrayIndex y e t) = (scoped_ident tlc \<Gamma> y \<and> scoped tlc \<Gamma> e)"
| "scoped tlc \<Gamma> (E_NewArray a t es) = (\<forall>e \<in> set es. scoped tlc \<Gamma> e)"
| "scoped tlc \<Gamma> (E_Tuple es) = (\<forall>e \<in> set es. scoped tlc \<Gamma> e)"
| "scoped tlc \<Gamma> (E_IntegerCasting e t o1) = scoped tlc \<Gamma> e"

fun unresolve_stmt :: "statement \<Rightarrow> statement"
  and unresolve_block :: "block \<Rightarrow> block" where
  "unresolve_stmt (S_LetBinding pat t e c q) = S_LetBinding (unresolve_pattern pat) t (unresolve e) c q"
| "unresolve_stmt (S_Reassignment y t e c q) = S_Reassignment (unresolve_ident y) t (unresolve e) c q"
| "unresolve_stmt (S_ArrayUpdate y e1 e2 c q t) = S_ArrayUpdate (unresolve_ident y) (unresolve e1) (unresolve e2) c q t"
| "unresolve_stmt (S_ReturnExp e t) = S_ReturnExp (unresolve e) None"
| "unresolve_stmt (S_Conditional e b1 None m) = S_Conditional (unresolve e) (unresolve_block b1) None m"
| "unresolve_stmt (S_Conditional e b1 (Some b2) m) =
     S_Conditional (unresolve e) (unresolve_block b1) (Some (unresolve_block b2)) m"
| "unresolve_stmt (S_ForLoop y e1 e2 b) =
     S_ForLoop (map_option unresolve_ident y) (unresolve e1) (unresolve e2) (unresolve_block b)"
| "unresolve_block (Block ss m r c v d) = Block (map unresolve_stmt ss) None None None v d"

fun ident_vars :: "ident \<Rightarrow> local_ident list" where
  "ident_vars (Local x) = [x]"
| "ident_vars y = []"

text \<open>The variables in scope after a statement; the variable of a loop is one of them.\<close>

fun stmt_scope :: "statement \<Rightarrow> local_ident list" where
  "stmt_scope (S_LetBinding pat t e c q) = pattern_vars pat"
| "stmt_scope (S_ForLoop (Some y) e1 e2 b) = ident_vars y"
| "stmt_scope s = []"

fun scoped_stmt :: "top_level_context \<Rightarrow> local_ident list \<Rightarrow> statement \<Rightarrow> bool"
  and scoped_block :: "top_level_context \<Rightarrow> local_ident list \<Rightarrow> block \<Rightarrow> bool"
  and scoped_stmts :: "top_level_context \<Rightarrow> local_ident list \<Rightarrow> statement list \<Rightarrow> bool" where
  "scoped_stmt tlc \<Gamma> (S_LetBinding pat t e c q) = scoped tlc \<Gamma> e"
| "scoped_stmt tlc \<Gamma> (S_Reassignment y t e c q) = (scoped_ident tlc \<Gamma> y \<and> scoped tlc \<Gamma> e)"
| "scoped_stmt tlc \<Gamma> (S_ArrayUpdate y e1 e2 c q t) = (scoped_ident tlc \<Gamma> y \<and> scoped tlc \<Gamma> e1 \<and> scoped tlc \<Gamma> e2)"
| "scoped_stmt tlc \<Gamma> (S_ReturnExp e t) = scoped tlc \<Gamma> e"
| "scoped_stmt tlc \<Gamma> (S_Conditional e b1 None m) = (scoped tlc \<Gamma> e \<and> scoped_block tlc \<Gamma> b1)"
| "scoped_stmt tlc \<Gamma> (S_Conditional e b1 (Some b2) m) =
     (scoped tlc \<Gamma> e \<and> scoped_block tlc \<Gamma> b1 \<and> scoped_block tlc \<Gamma> b2)"
| "scoped_stmt tlc \<Gamma> (S_ForLoop None e1 e2 b) = (scoped tlc \<Gamma> e1 \<and> scoped tlc \<Gamma> e2 \<and> scoped_block tlc \<Gamma> b)"
| "scoped_stmt tlc \<Gamma> (S_ForLoop (Some y) e1 e2 b) =
     (scoped tlc \<Gamma> e1 \<and> scoped tlc \<Gamma> e2 \<and> scoped_block tlc (ident_vars y @ \<Gamma>) b)"
| "scoped_block tlc \<Gamma> (Block ss m r c v d) = scoped_stmts tlc \<Gamma> ss"
| "scoped_stmts tlc \<Gamma> [] = True"
| "scoped_stmts tlc \<Gamma> (s # ss) = (scoped_stmt tlc \<Gamma> s \<and> scoped_stmts tlc (stmt_scope s @ \<Gamma>) ss)"

section \<open>Fresh numbers\<close>

definition fresh :: "nat \<Rightarrow> nat \<Rightarrow> nat list \<Rightarrow> bool" where
  "fresh k k' xs \<longleftrightarrow> k \<le> k' \<and> distinct xs \<and> set xs \<subseteq> {k..<k'}"

lemma fresh_Nil [simp]: "fresh k k' [] \<longleftrightarrow> k \<le> k'"
  by (simp add: fresh_def)

lemma fresh_append [intro]: "fresh k k1 xs \<Longrightarrow> fresh k1 k2 ys \<Longrightarrow> fresh k k2 (xs @ ys)"
  by (fastforce simp: fresh_def)

lemma fresh_append_swap: "fresh k k1 ys \<Longrightarrow> fresh k1 k2 xs \<Longrightarrow> fresh k k2 (xs @ ys)"
  by (fastforce simp: fresh_def)

lemma fresh_first [simp]: "fresh k (Suc k) [k]"
  by (simp add: fresh_def)

section \<open>Lists of results\<close>

lemma counted_Ok [simp]: "counted m k = (Ok y r, k') \<longleftrightarrow> m = Ok (y, k') r"
  by (cases m) (auto simp: counted_def tc_return_def)

text \<open>
  A property of a list of results from the property of each; \<open>ids\<close> are the numbers that an element binds.
\<close>

lemma check_vec_fresh:
  assumes "check_vec f xs k = Ok (ys, k') rep"
    and "\<And>x k y k' rep. x \<in> set xs \<Longrightarrow> f x k = (Ok y rep, k') \<Longrightarrow> u y = u x \<and> P y \<and> fresh k k' (ids y)"
  shows "map u ys = map u xs \<and> (\<forall>y \<in> set ys. P y) \<and> fresh k k' (concat (map ids ys))"
  using assms
proof (induction xs arbitrary: k ys rep)
  case (Cons x xs)
  from Cons.prems(1) obtain y ys1 k1 r1 r2 where x: "f x k = (Ok y r1, k1)"
      and xs: "check_vec f xs k1 = Ok (ys1, k') r2" and ys: "ys = y # ys1"
    by (rule check_vec_ConsE)
  have "map u ys1 = map u xs \<and> (\<forall>y \<in> set ys1. P y) \<and> fresh k1 k' (concat (map ids ys1))"
    by (rule Cons.IH [OF xs]) (rule Cons.prems(2), simp_all)
  with Cons.prems(2) [OF _ x] show ?case by (auto simp: ys)
qed simp

section \<open>Resolution keeps names and scopes\<close>

lemma lookup_name_Nil [simp]: "lookup_name [] = Map.empty"
  by (simp add: lookup_name_def fun_eq_iff)

lemma lookup_name_append [simp]: "lookup_name (xs @ ys) = lookup_name ys ++ lookup_name xs"
  by (induction xs) (auto simp: lookup_name_def fun_eq_iff map_add_def)

lemma lookup_name_Cons: "lookup_name (x # xs) = (lookup_name xs)(li_name x \<mapsto> Local x)"
  by (auto simp: lookup_name_def fun_eq_iff)

lemma lookup_name_Some: "lookup_name \<Gamma> s = Some y \<Longrightarrow> \<exists>x. y = Local x \<and> li_name x = s"
  by (auto simp: lookup_name_def find_Some_iff)

lemma pattern_ids_vars: "pattern_ids p = map li_id (pattern_vars p)"
  by (induction p rule: pattern_ids.induct) (simp_all add: map_concat o_def cong: map_cong)

lemma resolve_pattern_ok:
  "resolve_pattern p k = Ok (p', nc, k') rep \<Longrightarrow>
     unresolve_pattern p' = unresolve_pattern p \<and> nc = lookup_name (pattern_vars p') \<and> fresh k k' (pattern_ids p')"
  "resolve_patterns ps acc k = Ok (ps', nc, k') rep \<Longrightarrow>
     map unresolve_pattern ps' = map unresolve_pattern ps \<and>
     nc = lookup_name (concat (map pattern_vars ps')) ++ acc \<and> fresh k k' (concat (map pattern_ids ps'))"
proof (induction p k and ps acc k arbitrary: p' nc k' rep and ps' nc k' rep
    rule: resolve_pattern_resolve_patterns.induct)
  case (6 x m k)
  then show ?case by (cases x) (auto simp: to_fresh_ident_def lookup_name_Cons)
next
  case (8 p ps acc k)
  then show ?case by (fastforce elim!: tc_bind_someE split: prod.split_asm)
qed (fastforce elim!: tc_bind_someE split: prod.split_asm)+

lemma lookup_name_scoped:
  "lookup_name \<Gamma> s = Some y \<Longrightarrow> unresolve_ident y = Unresolved s \<and> scoped_ident tlc \<Gamma> y"
  by (frule lookup_name_Some) auto

lemma find_ident_ok:
  "find_ident tlc (lookup_name \<Gamma>) x = Ok y rep \<Longrightarrow> unresolve_ident y = unresolve_ident x \<and> scoped_ident tlc \<Gamma> y"
  by (cases x) (auto split: option.split_asm simp: Let_def dest: lookup_name_scoped)

definition resolves :: "top_level_context \<Rightarrow> local_ident list \<Rightarrow> expression \<Rightarrow> expression \<Rightarrow> nat \<Rightarrow> nat \<Rightarrow> bool" where
  "resolves tlc \<Gamma> e e' k k' \<longleftrightarrow> unresolve e' = unresolve e \<and> scoped tlc \<Gamma> e' \<and> fresh k k' (bound_ids e')"

lemma resolves_vec:
  assumes "check_vec (\<lambda>arg k. counted (resolve_expression tlc nc arg k) k) args k = Ok (ys, k') rep"
    and "\<And>e k e' k' rep. e \<in> set args \<Longrightarrow> resolve_expression tlc nc e k = Ok (e', k') rep \<Longrightarrow> resolves tlc \<Gamma> e e' k k'"
  shows "map unresolve ys = map unresolve args \<and> (\<forall>e \<in> set ys. scoped tlc \<Gamma> e) \<and> fresh k k' (concat (map bound_ids ys))"
  using assms(1) by (rule check_vec_fresh) (auto dest: assms(2) simp: resolves_def)

lemma resolves_args:
  assumes "check_vec (\<lambda>(arg, b) k. counted (tc_bind (resolve_expression tlc nc arg k)
      (\<lambda>(new_arg0, k). tc_return ((new_arg0, b), k))) k) args k = Ok (ys, k') rep"
    and "\<And>e b k e' k' rep. (e, b) \<in> set args \<Longrightarrow> resolve_expression tlc nc e k = Ok (e', k') rep \<Longrightarrow> resolves tlc \<Gamma> e e' k k'"
  shows "map (\<lambda>a. (unresolve (fst a), snd a)) ys = map (\<lambda>a. (unresolve (fst a), snd a)) args \<and>
    (\<forall>a \<in> set ys. scoped tlc \<Gamma> (fst a)) \<and> fresh k k' (concat (map (\<lambda>a. bound_ids (fst a)) ys))"
  using assms(1)
  by (rule check_vec_fresh) (auto elim!: tc_bind_someE split: prod.split_asm dest: assms(2) simp: resolves_def)

lemma resolves_arms:
  assumes "check_vec (\<lambda>(pat, arm) k. counted
         (tc_bind (resolve_pattern pat k) (\<lambda>(new_pat, new_name_context, k).
          tc_bind (resolve_expression tlc (lookup_name \<Gamma> ++ new_name_context) arm k) (\<lambda>(new_arm, k).
          tc_return ((new_pat, new_arm), k)))) k) arms k = Ok (ys, k') rep"
    and "\<And>p e k e' k' rep \<Delta>. (p, e) \<in> set arms \<Longrightarrow>
      resolve_expression tlc (lookup_name \<Gamma> ++ lookup_name \<Delta>) e k = Ok (e', k') rep \<Longrightarrow> resolves tlc (\<Delta> @ \<Gamma>) e e' k k'"
  shows "map (\<lambda>a. (unresolve_pattern (fst a), unresolve (snd a))) ys = map (\<lambda>a. (unresolve_pattern (fst a), unresolve (snd a))) arms \<and>
    (\<forall>a \<in> set ys. scoped tlc (pattern_vars (fst a) @ \<Gamma>) (snd a)) \<and>
    fresh k k' (concat (map (\<lambda>a. pattern_ids (fst a) @ bound_ids (snd a)) ys))"
  using assms(1)
  by (rule check_vec_fresh)
    (auto elim!: tc_bind_someE split: prod.split_asm dest!: assms(2) resolve_pattern_ok(1) simp: resolves_def)

lemma resolve_expression_ok:
  "resolve_expression tlc nc e k = Ok (e', k') rep \<Longrightarrow> nc = lookup_name \<Gamma> \<Longrightarrow> resolves tlc \<Gamma> e e' k k'"
proof (induction tlc nc e k arbitrary: \<Gamma> e' k' rep rule: resolve_expression.induct)
  case (5 tlc nc arg arms k)
  from "5.prems" obtain a k1 r1 ys r2 where a: "resolve_expression tlc nc arg k = Ok (a, k1) r1"
    and v: "check_vec (\<lambda>(pat, arm) k. counted
         (tc_bind (resolve_pattern pat k) (\<lambda>(new_pat, new_name_context, k).
          tc_bind (resolve_expression tlc (lookup_name \<Gamma> ++ new_name_context) arm k) (\<lambda>(new_arm, k).
          tc_return ((new_pat, new_arm), k)))) k) arms k1 = Ok (ys, k') r2"
    and e': "e' = E_MatchWith a ys"
    by (auto elim!: tc_bind_someE split: prod.split_asm)
  have "resolves tlc (\<Delta> @ \<Gamma>) e e' k k'" if "(p, e) \<in> set arms"
    "resolve_expression tlc (lookup_name \<Gamma> ++ lookup_name \<Delta>) e k = Ok (e', k') rep" for p e k e' k' rep \<Delta>
    using "5.IH"(2) that "5.prems"(2) by force
  from resolves_arms [OF v this] "5.IH"(1) [OF a "5.prems"(2)] show ?case
    by (auto simp: resolves_def e')
next
  case (10 tlc nc ty f args ts k)
  then obtain ys r where "check_vec (\<lambda>(arg, b) k. counted (tc_bind (resolve_expression tlc nc arg k)
      (\<lambda>(new_arg0, k). tc_return ((new_arg0, b), k))) k) args k = Ok (ys, k') r" "e' = E_FuncCall ty f ys ts"
    by (auto elim!: tc_bind_someE split: prod.split_asm)
  with resolves_args [OF this(1), of \<Gamma>] 10 show ?case by (auto simp: resolves_def)
next
  case (11 tlc nc sel ty f args ts k)
  then obtain s k1 r1 ys r where "resolve_expression tlc nc (fst sel) k = Ok (s, k1) r1"
      "check_vec (\<lambda>(arg, b) k. counted (tc_bind (resolve_expression tlc nc arg k)
      (\<lambda>(new_arg0, k). tc_return ((new_arg0, b), k))) k) args k1 = Ok (ys, k') r"
      "e' = E_MethodCall (s, snd sel) ty f ys ts"
    by (auto elim!: tc_bind_someE split: prod.split_asm)
  with resolves_args [OF this(2), of \<Gamma>] 11 show ?case by (fastforce simp: resolves_def)
next
  case (14 tlc nc x ty args k)
  then obtain ys r where "check_vec (\<lambda>arg k. counted (resolve_expression tlc nc arg k) k) args k = Ok (ys, k') r"
      "e' = E_NewArray x ty ys"
    by (auto elim!: tc_bind_someE split: prod.split_asm)
  with resolves_vec [OF this(1), of \<Gamma>] 14 show ?case by (auto simp: resolves_def)
next
  case (15 tlc nc args k)
  then obtain ys r where "check_vec (\<lambda>arg k. counted (resolve_expression tlc nc arg k) k) args k = Ok (ys, k') r"
      "e' = E_Tuple ys"
    by (auto elim!: tc_bind_someE split: prod.split_asm)
  with resolves_vec [OF this(1), of \<Gamma>] 15 show ?case by (auto simp: resolves_def)
qed (fastforce simp: resolves_def elim!: tc_bind_someE split: prod.split_asm option.split_asm dest: find_ident_ok)+


lemma resolve_statement_ok:
  "resolve_statement tlc s nc k = Ok (s', nc', k') rep \<Longrightarrow> nc = lookup_name \<Gamma> \<Longrightarrow>
     unresolve_stmt s' = unresolve_stmt s \<and> scoped_stmt tlc \<Gamma> s' \<and> fresh k k' (stmt_bound s') \<and>
     nc' = lookup_name (stmt_scope s' @ \<Gamma>)"
  "resolve_block tlc b nc k = Ok (b', k') rep \<Longrightarrow> nc = lookup_name \<Gamma> \<Longrightarrow>
     unresolve_block b' = unresolve_block b \<and> scoped_block tlc \<Gamma> b' \<and> fresh k k' (block_bound b')"
  "resolve_stmts tlc ss nc k = Ok (ss', k') rep \<Longrightarrow> nc = lookup_name \<Gamma> \<Longrightarrow>
     map unresolve_stmt ss' = map unresolve_stmt ss \<and> scoped_stmts tlc \<Gamma> ss' \<and> fresh k k' (concat (map stmt_bound ss'))"
proof (induction tlc s nc k and tlc b nc k and tlc ss nc k arbitrary: \<Gamma> s' nc' k' rep and \<Gamma> b' k' rep and \<Gamma> ss' k' rep
    rule: resolve_statement_resolve_block_resolve_stmts.induct)
  case (8 tlc b nc k)
  then show ?case by (cases b) (fastforce simp: resolve_block.simps elim!: tc_bind_someE split: prod.split_asm)
next
  case (10 tlc s ss nc k)
  from "10.prems" obtain s1 nc1 k1 r1 ss1 r2 where s: "resolve_statement tlc s nc k = Ok (s1, nc1, k1) r1"
      and ss: "resolve_stmts tlc ss nc1 k1 = Ok (ss1, k') r2" and ss': "ss' = s1 # ss1"
    by (auto elim!: tc_bind_someE split: prod.split_asm)
  note s_ok = "10.IH"(1) [OF s "10.prems"(2)]
  then have "nc1 = lookup_name (stmt_scope s1 @ \<Gamma>)" by blast
  from "10.IH"(2) [OF ss this] s_ok show ?case by (auto simp: ss')
next
  case (3 tlc var lower upper body nc k)
  from "3.prems" obtain e1 k1 r1 e2 k2 r2 s b r3 where
      e1: "resolve_expression tlc nc lower k = Ok (e1, k1) r1"
      and e2: "resolve_expression tlc nc upper k1 = Ok (e2, k2) r2" and var: "var = Unresolved s"
      and b: "resolve_block tlc body (nc(s \<mapsto> Local (LocalIdent k2 s False))) (Suc k2) = Ok (b, k') r3"
      and s': "s' = S_ForLoop (Some (Local (LocalIdent k2 s False))) e1 e2 b"
      and nc': "nc' = nc(s \<mapsto> Local (LocalIdent k2 s False))"
    by (auto elim!: tc_bind_someE split: prod.split_asm ident.split_asm simp: to_fresh_ident_def)
  have nc: "nc(s \<mapsto> Local (LocalIdent k2 s False)) = lookup_name (LocalIdent k2 s False # \<Gamma>)"
    by (simp add: "3.prems"(2) lookup_name_Cons)
  note ok = resolve_expression_ok [OF e1 "3.prems"(2)] resolve_expression_ok [OF e2 "3.prems"(2)]
  have body: "unresolve_block b = unresolve_block body \<and> scoped_block tlc (LocalIdent k2 s False # \<Gamma>) b \<and>
      fresh (Suc k2) k' (block_bound b)"
    by (rule "3.IH" [OF var _ _ b nc, of "to_fresh_ident s False k2"]) (simp_all add: to_fresh_ident_def)
  have "fresh k k' (k2 # bound_ids e1 @ bound_ids e2 @ block_bound b)"
  proof -
    have "fresh k k2 (bound_ids e1 @ bound_ids e2)" using ok by (auto simp: resolves_def)
    with body show ?thesis by (fastforce simp: fresh_def)
  qed
  with ok body show ?case by (simp add: s' nc' nc resolves_def var)
next
  case (1 tlc cond then_b else_b info nc k)
  from "1.prems" obtain e k1 r1 b1 k2 r2 b2 r3 where
      e: "resolve_expression tlc nc cond k = Ok (e, k1) r1"
      and b1: "resolve_block tlc then_b nc k1 = Ok (b1, k2) r2"
      and b2: "(case else_b of Some else_b \<Rightarrow> tc_bind (resolve_block tlc else_b nc k2) (\<lambda>(b, k). tc_return (Some b, k))
        | None \<Rightarrow> tc_return (None, k2)) = Ok (b2, k') r3"
      and s': "s' = S_Conditional e b1 b2 info" and nc': "nc' = nc"
    by (auto elim!: tc_bind_someE split: prod.split_asm)
  note ok = resolve_expression_ok [OF e "1.prems"(2)] "1.IH"(1) [OF b1 "1.prems"(2)]
  show ?case
  proof (cases else_b)
    case None
    with ok b2 show ?thesis by (auto simp: s' nc' resolves_def "1.prems"(2))
  next
    case (Some b)
    with b2 obtain b3 r4 where b3: "resolve_block tlc b nc k2 = Ok (b3, k') r4" "b2 = Some b3"
      by (auto elim!: tc_bind_someE split: prod.split_asm)
    have "unresolve_block b3 = unresolve_block b \<and> scoped_block tlc \<Gamma> b3 \<and> fresh k2 k' (block_bound b3)"
      using "1.IH"(2) [OF Some b3(1) "1.prems"(2)] by blast
    with ok Some b3(2) show ?thesis by (auto simp: s' nc' resolves_def "1.prems"(2))
  qed
qed (fastforce elim!: tc_bind_someE split: prod.split_asm dest: find_ident_ok resolve_expression_ok resolve_pattern_ok
   simp: resolves_def intro: fresh_append_swap)+

section \<open>When resolution succeeds\<close>

text \<open>
  \<open>closed\<close>: every identifier is a name that is bound in \<open>N\<close> or a constant, and there is no monadic binding
  (the front end makes none).
\<close>

fun closed_ident :: "top_level_context \<Rightarrow> string set \<Rightarrow> ident \<Rightarrow> bool" where
  "closed_ident tlc N (Unresolved s) = (s \<in> N \<or> ctx_consts tlc (TopLevelIdent s K_Constant) \<noteq> None)"
| "closed_ident tlc N y = False"

fun raw_pattern :: "pattern \<Rightarrow> bool" where
  "raw_pattern (P_IdentPat (Unresolved s) m) = True"
| "raw_pattern (P_IdentPat y m) = False"
| "raw_pattern (P_Tuple ps) = (\<forall>p \<in> set ps. raw_pattern p)"
| "raw_pattern (P_EnumCase t name (Some p)) = raw_pattern p"
| "raw_pattern p = True"

fun pattern_names :: "pattern \<Rightarrow> string set" where
  "pattern_names (P_IdentPat (Unresolved s) m) = {s}"
| "pattern_names (P_Tuple ps) = (\<Union>p \<in> set ps. pattern_names p)"
| "pattern_names (P_EnumCase t name (Some p)) = pattern_names p"
| "pattern_names p = {}"

fun closed :: "top_level_context \<Rightarrow> string set \<Rightarrow> expression \<Rightarrow> bool" where
  "closed tlc N (E_Unary op e t) = closed tlc N e"
| "closed tlc N (E_Binary op e1 e2 t) = (closed tlc N e1 \<and> closed tlc N e2)"
| "closed tlc N (E_InlineConditional e1 e2 e3) = (closed tlc N e1 \<and> closed tlc N e2 \<and> closed tlc N e3)"
| "closed tlc N (E_QuestionMark e t) = closed tlc N e"
| "closed tlc N (E_MonadicLet c bs e p) = False"
| "closed tlc N (E_Named y) = closed_ident tlc N y"
| "closed tlc N (E_FuncCall p f args ts) = (\<forall>a \<in> set args. closed tlc N (fst a))"
| "closed tlc N (E_MethodCall sel t f args ts) = (closed tlc N (fst sel) \<and> (\<forall>a \<in> set args. closed tlc N (fst a)))"
| "closed tlc N (E_EnumInject t c None) = True"
| "closed tlc N (E_EnumInject t c (Some e)) = closed tlc N e"
| "closed tlc N (E_MatchWith e arms) = (closed tlc N e \<and>
     (\<forall>a \<in> set arms. raw_pattern (fst a) \<and> closed tlc (N \<union> pattern_names (fst a)) (snd a)))"
| "closed tlc N (E_FieldAccessor e i) = closed tlc N e"
| "closed tlc N (E_Lit l) = True"
| "closed tlc N (E_ArrayIndex y e t) = (closed_ident tlc N y \<and> closed tlc N e)"
| "closed tlc N (E_NewArray a t es) = (\<forall>e \<in> set es. closed tlc N e)"
| "closed tlc N (E_Tuple es) = (\<forall>e \<in> set es. closed tlc N e)"
| "closed tlc N (E_IntegerCasting e t o1) = closed tlc N e"

fun stmt_names :: "statement \<Rightarrow> string set" where
  "stmt_names (S_LetBinding pat t e c q) = pattern_names pat"
| "stmt_names (S_ForLoop (Some (Unresolved s)) e1 e2 b) = {s}"
| "stmt_names s = {}"

fun closed_stmt :: "top_level_context \<Rightarrow> string set \<Rightarrow> statement \<Rightarrow> bool"
  and closed_block :: "top_level_context \<Rightarrow> string set \<Rightarrow> block \<Rightarrow> bool"
  and closed_stmts :: "top_level_context \<Rightarrow> string set \<Rightarrow> statement list \<Rightarrow> bool" where
  "closed_stmt tlc N (S_LetBinding pat t e c q) = (raw_pattern pat \<and> closed tlc N e)"
| "closed_stmt tlc N (S_Reassignment y t e c q) = (closed_ident tlc N y \<and> closed tlc N e)"
| "closed_stmt tlc N (S_ArrayUpdate y e1 e2 c q t) = (closed_ident tlc N y \<and> closed tlc N e1 \<and> closed tlc N e2)"
| "closed_stmt tlc N (S_ReturnExp e t) = closed tlc N e"
| "closed_stmt tlc N (S_Conditional e b1 None m) = (closed tlc N e \<and> closed_block tlc N b1)"
| "closed_stmt tlc N (S_Conditional e b1 (Some b2) m) = (closed tlc N e \<and> closed_block tlc N b1 \<and> closed_block tlc N b2)"
| "closed_stmt tlc N (S_ForLoop None e1 e2 b) = (closed tlc N e1 \<and> closed tlc N e2 \<and> closed_block tlc N b)"
| "closed_stmt tlc N (S_ForLoop (Some (Unresolved s)) e1 e2 b) =
     (closed tlc N e1 \<and> closed tlc N e2 \<and> closed_block tlc (insert s N) b)"
| "closed_stmt tlc N (S_ForLoop (Some y) e1 e2 b) = False"
| "closed_block tlc N (Block ss m r c v d) = closed_stmts tlc N ss"
| "closed_stmts tlc N [] = True"
| "closed_stmts tlc N (s # ss) = (closed_stmt tlc N s \<and> closed_stmts tlc (stmt_names s \<union> N) ss)"

definition clean :: "'a tc \<Rightarrow> bool" where
  "clean m \<longleftrightarrow> (\<exists>x. m = Ok x False)"

declare tc_bind.simps(1) [simp del]

lemma tc_bind_pure [simp]: "tc_bind (Ok x False) f = f x"
  by (cases "f x") (simp_all add: tc_bind.simps)

lemma clean_return [simp]: "clean (tc_return x)"
  by (simp add: clean_def)

lemma clean_bind: "clean m \<Longrightarrow> (\<And>x. m = Ok x False \<Longrightarrow> clean (f x)) \<Longrightarrow> clean (tc_bind m f)"
  by (auto simp: clean_def tc_bind_clean)

lemma check_vec_total:
  assumes "\<And>x k. x \<in> set xs \<Longrightarrow> clean (fst (f x k))"
  shows "clean (check_vec f xs k)"
  using assms
proof (induction xs arbitrary: k)
  case (Cons x xs)
  obtain y k1 where x: "f x k = (Ok y False, k1)"
    using Cons.prems [of x k] by (cases "f x k") (auto simp: clean_def)
  obtain ys k' where "check_vec f xs k1 = Ok (ys, k') False" using Cons by (fastforce simp: clean_def)
  with x show ?case by (simp add: clean_def check_vec_Cons_clean del: check_vec.simps)
qed (simp add: clean_def)

lemma fst_counted [simp]: "clean (fst (counted m k)) = clean m"
  by (cases m) (auto simp: counted_def clean_def tc_return_def tc_bind.simps)

lemma resolve_pattern_total:
  "raw_pattern p \<Longrightarrow> \<exists>p' nc k'. resolve_pattern p k = Ok (p', nc, k') False \<and> dom nc = pattern_names p"
  "\<forall>p \<in> set ps. raw_pattern p \<Longrightarrow> \<exists>ps' nc k'. resolve_patterns ps acc k = Ok (ps', nc, k') False \<and>
     dom nc = (\<Union>p \<in> set ps. pattern_names p) \<union> dom acc"
proof (induction p k and ps acc k rule: resolve_pattern_resolve_patterns.induct)
  case (6 x m k)
  then show ?case by (cases x) (auto simp: to_fresh_ident_def)
next
  case (8 p ps acc k)
  then obtain p' nc k1 where p: "resolve_pattern p k = Ok (p', nc, k1) False" "dom nc = pattern_names p" by auto
  obtain ps' nc' k' where "resolve_patterns ps (nc ++ acc) k1 = Ok (ps', nc', k') False"
      "dom nc' = (\<Union>p \<in> set ps. pattern_names p) \<union> dom (nc ++ acc)"
    using "8.IH"(2) [of nc k1] "8.prems" by auto
  with p show ?case by (auto simp: tc_bind_clean)
next
  case (2 t name p k)
  then obtain p' nc k1 where "resolve_pattern p k = Ok (p', nc, k1) False" "dom nc = pattern_names p" by auto
  then show ?case by (simp add: tc_bind_clean)
next
  case (3 ps k)
  then obtain ps' nc k1 where "resolve_patterns ps Map.empty k = Ok (ps', nc, k1) False"
      "dom nc = (\<Union>p \<in> set ps. pattern_names p)" by auto
  then show ?case by (simp add: tc_bind_clean)
qed simp_all

lemma find_ident_total: "closed_ident tlc (dom nc) x \<Longrightarrow> clean (find_ident tlc nc x)"
  by (cases x) (auto split: option.split simp: Let_def)

lemma pattern_clean:
  assumes "raw_pattern p" "\<And>p' nc k'. dom nc = pattern_names p \<Longrightarrow> clean (f (p', nc, k'))"
  shows "clean (tc_bind (resolve_pattern p k) f)"
  using resolve_pattern_total(1) [OF assms(1), of k] assms(2) by (auto simp: clean_def tc_bind_clean)

lemma resolve_expression_total: "closed tlc (dom nc) e \<Longrightarrow> clean (resolve_expression tlc nc e k)"
proof (induction tlc nc e k rule: resolve_expression.induct)
  case (7 tlc nc t c p k)
  then show ?case by (cases p) (auto intro!: clean_bind)
next
  case (5 tlc nc arg arms k)
  from "5.prems" have "closed tlc (pattern_names p \<union> dom nc) e" "raw_pattern p" if "(p, e) \<in> set arms" for p e
    using that by (auto simp: Un_commute dest!: bspec)
  with 5 show ?case by (auto intro!: clean_bind check_vec_total pattern_clean)
qed (auto 4 3 intro!: clean_bind check_vec_total dest: find_ident_total)

lemma resolve_statement_total:
  "closed_stmt tlc (dom nc) s \<Longrightarrow> \<exists>s' nc' k'. resolve_statement tlc s nc k = Ok (s', nc', k') False \<and>
     dom nc' = stmt_names s \<union> dom nc"
  "closed_block tlc (dom nc) b \<Longrightarrow> \<exists>b' k'. resolve_block tlc b nc k = Ok (b', k') False"
  "closed_stmts tlc (dom nc) ss \<Longrightarrow> \<exists>ss' k'. resolve_stmts tlc ss nc k = Ok (ss', k') False"
proof (induction tlc s nc k and tlc b nc k and tlc ss nc k rule: resolve_statement_resolve_block_resolve_stmts.induct)
  case (1 tlc cond then_b else_b info nc k)
  obtain e k1 where "resolve_expression tlc nc cond k = Ok (e, k1) False"
    using "1.prems" resolve_expression_total [of tlc nc cond k] by (cases else_b) (auto simp: clean_def)
  moreover obtain b1 k2 where "resolve_block tlc then_b nc k1 = Ok (b1, k2) False"
    using "1.prems" "1.IH"(1) by (cases else_b) fastforce+
  moreover have "\<exists>b2 k3. resolve_block tlc b nc k2 = Ok (b2, k3) False" if "else_b = Some b" for b
    using "1.prems" "1.IH"(2) that by fastforce
  ultimately show ?case by (cases else_b) (fastforce simp: tc_bind_clean)+
next
  case (2 tlc lower upper body nc k)
  obtain e1 k1 where "resolve_expression tlc nc lower k = Ok (e1, k1) False"
    using "2.prems" resolve_expression_total [of tlc nc lower k] by (auto simp: clean_def)
  moreover obtain e2 k2 where "resolve_expression tlc nc upper k1 = Ok (e2, k2) False"
    using "2.prems" resolve_expression_total [of tlc nc upper k1] by (auto simp: clean_def)
  moreover obtain b k3 where "resolve_block tlc body nc k2 = Ok (b, k3) False"
    using "2.prems" "2.IH" by fastforce
  ultimately show ?case by (simp add: tc_bind_clean)
next
  case (3 tlc var lower upper body nc k)
  then obtain s where s: "var = Unresolved s" by (cases var) auto
  obtain e1 k1 where "resolve_expression tlc nc lower k = Ok (e1, k1) False"
    using "3.prems" resolve_expression_total [of tlc nc lower k] by (auto simp: clean_def s)
  moreover obtain e2 k2 where "resolve_expression tlc nc upper k1 = Ok (e2, k2) False"
    using "3.prems" resolve_expression_total [of tlc nc upper k1] by (auto simp: clean_def s)
  moreover have "closed_block tlc (dom (nc(s \<mapsto> Local (LocalIdent k2 s False)))) body"
    using "3.prems" by (simp add: s)
  then have "\<exists>b k3. resolve_block tlc body (nc(s \<mapsto> Local (LocalIdent k2 s False))) (Suc k2) = Ok (b, k3) False"
    by (rule "3.IH" [OF s, of "to_fresh_ident s False k2", rotated 2]) (simp_all add: to_fresh_ident_def)
  then obtain b k3 where "resolve_block tlc body (nc(s \<mapsto> Local (LocalIdent k2 s False))) (Suc k2) = Ok (b, k3) False"
    by blast
  ultimately show ?case by (simp add: tc_bind_clean s to_fresh_ident_def)
next
  case (7 tlc pat t e c q nc k)
  obtain e' k1 where e: "resolve_expression tlc nc e k = Ok (e', k1) False"
    using "7.prems" resolve_expression_total [of tlc nc e k] by (auto simp: clean_def)
  with resolve_pattern_total(1) [of pat k1] "7.prems" show ?case by (auto simp: tc_bind_clean)
next
  case (5 tlc x i e c q t nc k)
  obtain y where "find_ident tlc nc x = Ok y False"
    using "5.prems" find_ident_total [of tlc nc x] by (auto simp: clean_def)
  moreover obtain e1 k1 where "resolve_expression tlc nc i k = Ok (e1, k1) False"
    using "5.prems" resolve_expression_total [of tlc nc i k] by (auto simp: clean_def)
  moreover obtain e2 k2 where "resolve_expression tlc nc e k1 = Ok (e2, k2) False"
    using "5.prems" resolve_expression_total [of tlc nc e k1] by (auto simp: clean_def)
  ultimately show ?case by (simp add: tc_bind_clean)
next
  case (6 tlc x t e c q nc k)
  obtain y where "find_ident tlc nc x = Ok y False"
    using "6.prems" find_ident_total [of tlc nc x] by (auto simp: clean_def)
  moreover obtain e1 k1 where "resolve_expression tlc nc e k = Ok (e1, k1) False"
    using "6.prems" resolve_expression_total [of tlc nc e k] by (auto simp: clean_def)
  ultimately show ?case by (simp add: tc_bind_clean)
next
  case (4 tlc e t nc k)
  obtain e1 k1 where "resolve_expression tlc nc e k = Ok (e1, k1) False"
    using "4.prems" resolve_expression_total [of tlc nc e k] by (auto simp: clean_def)
  then show ?case by (simp add: tc_bind_clean)
next
  case (8 tlc b nc k)
  then show ?case by (cases b) (auto simp: resolve_block.simps tc_bind_clean)
next
  case (10 tlc s ss nc k)
  then obtain s' nc' k1 where s: "resolve_statement tlc s nc k = Ok (s', nc', k1) False" "dom nc' = stmt_names s \<union> dom nc"
    by auto
  with "10.IH"(2) [of nc' k1] "10.prems" show ?case by (auto simp: tc_bind_clean)
qed simp

section \<open>Properties\<close>

text \<open>
  C2: name resolution. A resolved block is the original block with identifiers for names: putting the
  names back gives the original; every identifier is the innermost binding of its name in scope, or a declared
  constant when there is none; and the numbers of the variables that the block binds are distinct and
  taken from the counter, so that no two bindings are confused.
\<close>

theorem resolution_correct:
  assumes "resolve_block tlc b (lookup_name \<Gamma>) k = Ok (b', k') rep"
  shows "unresolve_block b' = unresolve_block b \<and> scoped_block tlc \<Gamma> b' \<and>
    distinct (block_bound b') \<and> set (block_bound b') \<subseteq> {k..<k'}"
  using resolve_statement_ok(2) [OF assms refl] by (simp add: fresh_def)

definition const_example :: top_level_context where
  "const_example = \<lparr>ctx_functions = [], ctx_consts = [TopLevelIdent ''N'' K_Constant \<mapsto> T_Usize], ctx_typ_dict = Map.empty\<rparr>"

definition shadow_example :: block where
  "shadow_example = Block
     [S_LetBinding (P_Tuple [P_IdentPat (Unresolved ''x'') False, P_IdentPat (Unresolved ''y'') False]) None
        (E_Named (Unresolved ''x'')) None None,
      S_ReturnExp (E_Tuple [E_Named (Unresolved ''x''), E_Named (Unresolved ''N'')]) None] None None None smv_new {||}"

lemma shadow_example_resolves:
  "resolve_block const_example shadow_example (lookup_name [LocalIdent 0 ''x'' False]) 1 =
     Ok (Block [S_LetBinding (P_Tuple [P_IdentPat (Local (LocalIdent 1 ''x'' False)) False,
            P_IdentPat (Local (LocalIdent 2 ''y'' False)) False]) None (E_Named (Local (LocalIdent 0 ''x'' False))) None None,
          S_ReturnExp (E_Tuple [E_Named (Local (LocalIdent 1 ''x'' False)), E_Named (TopLevel (TopLevelIdent ''N'' K_Constant))]) None]
        None None None smv_new {||}, 3) False"
  by (simp add: shadow_example_def resolve_block.simps to_fresh_ident_def tc_return_def lookup_name_def numeral_3_eq_3
      const_example_def counted_def)

theorem resolution_correct_witness:
  "\<exists>b' k'. resolve_block const_example shadow_example (lookup_name [LocalIdent 0 ''x'' False]) 1 = Ok (b', k') False \<and>
     unresolve_block b' = unresolve_block shadow_example \<and> distinct (block_bound b')"
  using resolution_correct [OF shadow_example_resolves] shadow_example_resolves by blast

text \<open>
  C34: resolution succeeds, without a reported error, on every block of the front end whose names are bound or
  declared as constants.
\<close>

theorem resolution_total:
  assumes "closed_block tlc (dom nc) b"
  shows "\<exists>b' k'. resolve_block tlc b nc k = Ok (b', k') False"
  using assms by (rule resolve_statement_total(2))

theorem resolution_total_witness:
  "\<exists>b' k'. resolve_block const_example shadow_example (lookup_name [LocalIdent 0 ''x'' False]) 1 = Ok (b', k') False"
  by (rule resolution_total) (auto simp: shadow_example_def const_example_def lookup_name_def dom_def)

lemma map_of_functions_insert [simp]: "map_of (functions_insert key v fs) = (map_of fs)(key \<mapsto> v)"
  by (induction key v fs rule: functions_insert.induct) (auto simp: fun_eq_iff)

fun fn_names :: "item list \<Rightarrow> top_level_ident list" where
  "fn_names [] = []"
| "fn_names (I_FnDecl f sig b # items) = f # fn_names items"
| "fn_names (i # items) = fn_names items"

lemma fn_names_set: "I_FnDecl f sig b \<in> set items \<Longrightarrow> f \<in> set (fn_names items)"
  by (induction items rule: fn_names.induct) auto

lemma insert_fn_decl_FnDecl [simp]: "insert_fn_decl (I_FnDecl f sig b) tlc = insert_fn (Independent f) (F_Local sig) tlc"
  by (simp add: insert_fn_decl_def)

lemma insert_fn_decl_other:
  "f \<notin> set (fn_names items) \<Longrightarrow>
     map_of (ctx_functions (fold insert_fn_decl items tlc)) (Independent f) = map_of (ctx_functions tlc) (Independent f)"
  by (induction items arbitrary: tlc rule: fn_names.induct) (auto simp: insert_fn_decl_def insert_fn_def)

lemma insert_fn_decl_fold:
  assumes "I_FnDecl f sig b \<in> set items" "distinct (fn_names items)"
  shows "map_of (ctx_functions (fold insert_fn_decl items tlc)) (Independent f) = Some (F_Local sig)"
  using assms
proof (induction items arbitrary: tlc rule: fn_names.induct)
  case (2 g sig' b' items)
  then show ?case
    by (cases "I_FnDecl f sig b \<in> set items")
      (auto simp: insert_fn_decl_other insert_fn_def dest: fn_names_set)
qed auto

text \<open>
  after the resolution of a crate the context gives every function of the crate its resolved
  signature, whatever the external crates declare.
\<close>

theorem crate_functions_declared:
  assumes "resolve_crate ext p tlc k = Ok (items, tlc', k') rep"
    and "I_FnDecl f sig b \<in> set items" "distinct (fn_names items)"
  shows "map_of (ctx_functions tlc') (Independent f) = Some (F_Local sig)"
proof -
  obtain tlc1 where "tlc' = fold insert_fn_decl items tlc1"
    using assms(1) by (auto simp: resolve_crate_def elim!: tc_bind_someE split: prod.split_asm)
  then show ?thesis by (simp add: insert_fn_decl_fold [OF assms(2,3)])
qed

definition fn_example :: "string \<Rightarrow> ident \<Rightarrow> item" where
  "fn_example name x = I_FnDecl (TopLevelIdent name K_Function)
     \<lparr>sig_args_of = [(x, (Consumed, T_Usize))], sig_ret_of = T_Usize, sig_mutable_vars = smv_new, sig_function_dependencies = {||}\<rparr>
     (Block [S_ReturnExp (E_Named x) None] None None None smv_new {||})"

definition no_data :: "string list \<Rightarrow> external_data" where
  "no_data crates = \<lparr>ext_funcs = [(Independent (TopLevelIdent ''f'' K_Function), Inr ''f'')], ext_consts = [], ext_arrays = [],
     ext_nat_ints = [], ext_enums = [], ext_ty_aliases = []\<rparr>"

lemma fn_example_resolves:
  "\<exists>tlc'. resolve_crate no_data [I_ImportedCrate (TopLevelIdent ''hacspec_lib'' K_Crate), fn_example ''f'' (Unresolved ''x'')]
     const_example 0 = Ok ([I_ImportedCrate (TopLevelIdent ''hacspec_lib'' K_Crate),
       fn_example ''f'' (Local (LocalIdent 0 ''x'' False))], tlc', 1) False"
  by (simp add: resolve_crate_def enrich_with_external_crates_symbols_def get_imported_crates_def no_data_def
      insert_external_typs_def fn_example_def process_decl_item_def resolve_items_def resolve_item_def counted_def
      to_fresh_ident_def resolve_block.simps tc_return_def Let_def)

theorem crate_functions_declared_witness:
  "\<exists>tlc' sig b. resolve_crate no_data [I_ImportedCrate (TopLevelIdent ''hacspec_lib'' K_Crate), fn_example ''f'' (Unresolved ''x'')]
     const_example 0 = Ok ([I_ImportedCrate (TopLevelIdent ''hacspec_lib'' K_Crate),
       fn_example ''f'' (Local (LocalIdent 0 ''x'' False))], tlc', 1) False \<and>
     fn_example ''f'' (Local (LocalIdent 0 ''x'' False)) = I_FnDecl (TopLevelIdent ''f'' K_Function) sig b \<and>
     map_of (ctx_functions tlc') (Independent (TopLevelIdent ''f'' K_Function)) = Some (F_Local sig)"
proof -
  obtain tlc' where r: "resolve_crate no_data [I_ImportedCrate (TopLevelIdent ''hacspec_lib'' K_Crate),
      fn_example ''f'' (Unresolved ''x'')] const_example 0 = Ok ([I_ImportedCrate (TopLevelIdent ''hacspec_lib'' K_Crate),
       fn_example ''f'' (Local (LocalIdent 0 ''x'' False))], tlc', 1) False"
    using fn_example_resolves by blast
  obtain sig b where f: "fn_example ''f'' (Local (LocalIdent 0 ''x'' False)) = I_FnDecl (TopLevelIdent ''f'' K_Function) sig b"
    by (simp add: fn_example_def)
  have "map_of (ctx_functions tlc') (Independent (TopLevelIdent ''f'' K_Function)) = Some (F_Local sig)"
    by (rule crate_functions_declared [OF r, where b = b]) (simp_all add: f)
  with r f show ?thesis by blast
qed

section \<open>The variable of a loop\<close>

lemma loop_variable_stays:
  assumes "resolve_statement tlc (S_ForLoop (Some (Unresolved s)) e1 e2 b) nc k = Ok (s', nc', k') rep"
  shows "\<exists>x e1' e2' b'. s' = S_ForLoop (Some (Local x)) e1' e2' b' \<and> nc' = nc(s \<mapsto> Local x)"
  using assms by (auto simp: to_fresh_ident_def elim!: tc_bind_someE split: prod.split_asm)

end
