(* ===== verification/Function_Dependencies.thy ===== *)
theory Function_Dependencies
  imports Rustspec
begin

text \<open>
  \<open>language/src/function_dependency_resolution.rs\<close>: the phase that records for every function which
  functions and methods its body calls. It runs between the resolution of names and the type checker.

  The functions of the file have the names of those of the name resolution and get the prefix
  \<open>dep\<close> here. \<open>resolve_fun_dep\<close>, the transitive closure over a map of dependencies, has a bound on its
  recursion, because it does not return when the calls form a cycle.

  The lemmas show that the recorded dependencies are the calls in the body with what the context
  records for them, and that the closure returns exactly the functions reachable by calls whenever
  the calls have no cycle.
\<close>

section \<open>Expressions\<close>

definition check_vec_pure :: "('a \<Rightarrow> 'b tc) \<Rightarrow> 'a list \<Rightarrow> 'b list tc" where
  "check_vec_pure f xs = tc_bind (check_vec (\<lambda>x u. (f x, u)) xs ()) (\<lambda>(ys, u). tc_return ys)"

lemma check_vec_pure_cong [fundef_cong]:
  "xs = xs' \<Longrightarrow> (\<And>x. x \<in> set xs' \<Longrightarrow> f x = g x) \<Longrightarrow> check_vec_pure f xs = check_vec_pure g xs'"
  unfolding check_vec_pure_def by (auto intro!: arg_cong [where f = "\<lambda>m. tc_bind m _"] check_vec_cong)

text \<open>\<open>ScopeMutInfo\<close> holds one field, the set of functions; \<open>extend\<close> is the union.\<close>

definition recorded :: "top_level_context \<Rightarrow> top_level_ident \<Rightarrow> function_dependencies" where
  "recorded tlc f =
     (case map_of (ctx_functions tlc) (Independent f) of
        Some (F_Local sig) \<Rightarrow> sig_function_dependencies sig
      | _ \<Rightarrow> {||})"

definition extend_all :: "function_dependencies list \<Rightarrow> function_dependencies" where
  "extend_all smis = fold (\<lambda>x smi. smi |\<union>| x) smis {||}"

function dep_expression :: "top_level_context \<Rightarrow> expression \<Rightarrow> function_dependencies tc" where
  "dep_expression tlc (E_Unary op e1 t) = dep_expression tlc e1"
| "dep_expression tlc (E_Binary op e1 e2 t) =
     tc_bind (dep_expression tlc e1) (\<lambda>smi1.
     tc_bind (dep_expression tlc e2) (\<lambda>smi2.
     tc_return (smi1 |\<union>| smi2)))"
| "dep_expression tlc (E_MonadicLet c bs e p) = Panic"
| "dep_expression tlc (E_QuestionMark e t) = dep_expression tlc e"
| "dep_expression tlc (E_MatchWith arg arms) =
     tc_bind (dep_expression tlc arg) (\<lambda>smi_arg.
     tc_bind (check_vec_pure (\<lambda>(pat, arm). dep_expression tlc arm) arms) (\<lambda>smi_arms.
     tc_return (smi_arg |\<union>| extend_all smi_arms)))"
| "dep_expression tlc (E_FieldAccessor e1 field) = dep_expression tlc e1"
| "dep_expression tlc (E_EnumInject t c payload) =
     (case payload of None \<Rightarrow> tc_return {||} | Some payload \<Rightarrow> dep_expression tlc payload)"
| "dep_expression tlc (E_InlineConditional e1 e2 e3) =
     tc_bind (dep_expression tlc e1) (\<lambda>smi1.
     tc_bind (dep_expression tlc e2) (\<lambda>smi2.
     tc_bind (dep_expression tlc e3) (\<lambda>smi3.
     tc_return (smi1 |\<union>| smi2 |\<union>| smi3))))"
| "dep_expression tlc (E_Named x) = tc_return {||}"
| "dep_expression tlc (E_FuncCall p f args ts) =
     tc_bind (check_vec_pure (\<lambda>(arg, b). dep_expression tlc arg) args) (\<lambda>smi_args.
     tc_return (finsert f (extend_all smi_args) |\<union>| recorded tlc f))"
| "dep_expression tlc (E_MethodCall sel t f args ts) =
     tc_bind (dep_expression tlc (fst sel)) (\<lambda>smi_self.
     tc_bind (check_vec_pure (\<lambda>(arg, b). dep_expression tlc arg) args) (\<lambda>smi_args.
     tc_return (finsert f (smi_self |\<union>| extend_all smi_args) |\<union>| recorded tlc f)))"
| "dep_expression tlc (E_Lit l) = tc_return {||}"
| "dep_expression tlc (E_ArrayIndex x e1 t) = dep_expression tlc e1"
| "dep_expression tlc (E_NewArray x t args) =
     tc_bind (check_vec_pure (dep_expression tlc) args) (\<lambda>smi_args. tc_return (extend_all smi_args))"
| "dep_expression tlc (E_Tuple args) =
     tc_bind (check_vec_pure (dep_expression tlc) args) (\<lambda>smi_args. tc_return (extend_all smi_args))"
| "dep_expression tlc (E_IntegerCasting e1 t_from t_to) = dep_expression tlc e1"
  by pat_completeness auto

termination
  by (relation "measure (\<lambda>(tlc, e). size e)") (auto simp: less_Suc_eq_le dest!: size_member)

section \<open>Statements and blocks\<close>

text \<open>The block keeps its statements: the dependencies of the blocks inside it are only read.\<close>

definition set_dependencies :: "function_dependencies \<Rightarrow> block \<Rightarrow> block" where
  "set_dependencies funcs b =
     Block (b_stmts b) (b_mutated b) (b_return_typ b) (b_contains_question_mark b) (b_mutable_vars b) funcs"

function dep_statement :: "top_level_context \<Rightarrow> statement \<Rightarrow> function_dependencies tc"
  and dep_block :: "top_level_context \<Rightarrow> block \<Rightarrow> block tc"
  and dep_stmts :: "top_level_context \<Rightarrow> statement list \<Rightarrow> function_dependencies \<Rightarrow> function_dependencies tc" where
  "dep_statement tlc (S_Conditional cond then_b else_b info) =
     tc_bind (dep_expression tlc cond) (\<lambda>smi_cond.
     tc_bind (dep_block tlc then_b) (\<lambda>new_then_b.
     tc_bind (case else_b of
         None \<Rightarrow> tc_return {||}
       | Some else_b \<Rightarrow> tc_bind (dep_block tlc else_b) (\<lambda>new_else_b. tc_return (b_function_dependencies new_else_b)))
       (\<lambda>smi_else.
     tc_return (smi_cond |\<union>| b_function_dependencies new_then_b |\<union>| smi_else))))"
| "dep_statement tlc (S_ForLoop x lower upper body) =
     tc_bind (dep_expression tlc lower) (\<lambda>smi_lower.
     tc_bind (dep_expression tlc upper) (\<lambda>smi_upper.
     tc_bind (dep_block tlc body) (\<lambda>new_body.
     tc_return (smi_lower |\<union>| smi_upper |\<union>| b_function_dependencies new_body))))"
| "dep_statement tlc (S_ReturnExp e t) = dep_expression tlc e"
| "dep_statement tlc (S_ArrayUpdate x index e c q t) =
     tc_bind (dep_expression tlc index) (\<lambda>smi_index.
     tc_bind (dep_expression tlc e) (\<lambda>smi_e.
     tc_return (smi_index |\<union>| smi_e)))"
| "dep_statement tlc (S_Reassignment x t e c q) = dep_expression tlc e"
| "dep_statement tlc (S_LetBinding p t e c q) = dep_expression tlc e"
| "dep_block tlc b =
     tc_bind (dep_stmts tlc (b_stmts b) {||}) (\<lambda>funcs. tc_return (set_dependencies funcs b))"
| "dep_stmts tlc [] smi = tc_return smi"
| "dep_stmts tlc (s # ss) smi =
     tc_bind (dep_statement tlc s) (\<lambda>smi_stmt. dep_stmts tlc ss (smi |\<union>| smi_stmt))"
  by pat_completeness auto

termination
  by (relation "measure (\<lambda>a. case a of Inl (tlc, s) \<Rightarrow> size s | Inr (Inl (tlc, b)) \<Rightarrow> size b
      | Inr (Inr (tlc, ss, smi)) \<Rightarrow> size_list size ss)")
    (auto simp: size_block_stmts)

declare dep_block.simps [simp del]

section \<open>Items and crates\<close>

text \<open>
  An argument that is not resolved yet would get a fresh number from the counter of this file; after the
  resolution of names there is none.
\<close>

fun dep_args :: "(ident \<times> Typ) list \<Rightarrow> nat \<Rightarrow> (ident \<times> Typ) list \<times> nat" where
  "dep_args [] k = ([], k)"
| "dep_args ((x, t) # args) k =
     (case x of
        Unresolved s \<Rightarrow> (let (args', k') = dep_args args (Suc k) in ((Local (LocalIdent k s False), t) # args', k'))
      | _ \<Rightarrow> (let (args', k') = dep_args args k in ((x, t) # args', k')))"

definition dep_item :: "top_level_context \<Rightarrow> item \<Rightarrow> nat \<Rightarrow> (item \<times> nat) tc" where
  "dep_item tlc i k =
     (case i of
        I_FnDecl f sig b \<Rightarrow>
          let (new_sig_args, k) = dep_args (sig_args_of sig) k in
          tc_bind (dep_block tlc b) (\<lambda>new_b.
          tc_return (I_FnDecl f (sig\<lparr>sig_args_of := new_sig_args,
            sig_function_dependencies := b_function_dependencies new_b\<rparr>) new_b, k))
      | _ \<Rightarrow> tc_return (i, k))"

definition dep_crate :: "top_level_context \<Rightarrow> item list \<Rightarrow> nat \<Rightarrow> (item list \<times> nat) tc" where
  "dep_crate tlc items k =
     check_vec (\<lambda>i k. closure_bind (dep_item tlc i k) k (\<lambda>(i, k). (tc_return i, k))) items k"

section \<open>The transitive closure\<close>

text \<open>
  \<open>None\<close> says that the recursion is deeper than the bound. The loop over \<open>f_dep\<close> only collects a set, so its order does not matter.
\<close>

fun resolve_fun_dep :: "nat \<Rightarrow> top_level_ident \<Rightarrow> function_dependencies \<Rightarrow> (top_level_ident \<rightharpoonup> function_dependencies) \<Rightarrow>
    function_dependencies option" where
  "resolve_fun_dep 0 f f_dep m = None"
| "resolve_fun_dep (Suc n) f f_dep m =
     (case m f of
        None \<Rightarrow> Some {||}
      | Some fdeps \<Rightarrow>
          let rs = (\<lambda>f_other. case m f_other of None \<Rightarrow> Some {||} | Some d \<Rightarrow> resolve_fun_dep n f d m) |`| f_dep in
          if None |\<in>| rs then None
          else Some (fdeps |\<union>| f_dep |\<union>| ffUnion (the |`| rs)))"

section \<open>The calls of a body\<close>

fun calls :: "expression \<Rightarrow> top_level_ident set" where
  "calls (E_Unary op e t) = calls e"
| "calls (E_Binary op e1 e2 t) = calls e1 \<union> calls e2"
| "calls (E_InlineConditional e1 e2 e3) = calls e1 \<union> calls e2 \<union> calls e3"
| "calls (E_QuestionMark e t) = calls e"
| "calls (E_MonadicLet c bs e p) = (\<Union>b \<in> set bs. calls (snd b)) \<union> calls e"
| "calls (E_Named y) = {}"
| "calls (E_FuncCall p f args ts) = insert f (\<Union>a \<in> set args. calls (fst a))"
| "calls (E_MethodCall sel t f args ts) = insert f (calls (fst sel) \<union> (\<Union>a \<in> set args. calls (fst a)))"
| "calls (E_EnumInject t c None) = {}"
| "calls (E_EnumInject t c (Some e)) = calls e"
| "calls (E_MatchWith e arms) = calls e \<union> (\<Union>a \<in> set arms. calls (snd a))"
| "calls (E_FieldAccessor e i) = calls e"
| "calls (E_Lit l) = {}"
| "calls (E_ArrayIndex y e t) = calls e"
| "calls (E_NewArray a t es) = (\<Union>e \<in> set es. calls e)"
| "calls (E_Tuple es) = (\<Union>e \<in> set es. calls e)"
| "calls (E_IntegerCasting e t o1) = calls e"

fun stmt_calls :: "statement \<Rightarrow> top_level_ident set"
  and block_calls :: "block \<Rightarrow> top_level_ident set" where
  "stmt_calls (S_LetBinding pat t e c q) = calls e"
| "stmt_calls (S_Reassignment y t e c q) = calls e"
| "stmt_calls (S_ArrayUpdate y e1 e2 c q t) = calls e1 \<union> calls e2"
| "stmt_calls (S_ReturnExp e t) = calls e"
| "stmt_calls (S_Conditional e b1 None m) = calls e \<union> block_calls b1"
| "stmt_calls (S_Conditional e b1 (Some b2) m) = calls e \<union> block_calls b1 \<union> block_calls b2"
| "stmt_calls (S_ForLoop y e1 e2 b) = calls e1 \<union> calls e2 \<union> block_calls b"
| "block_calls (Block ss m r c v d) = (\<Union>s \<in> set ss. stmt_calls s)"

definition with_recorded :: "top_level_context \<Rightarrow> top_level_ident set \<Rightarrow> top_level_ident set" where
  "with_recorded tlc C = C \<union> (\<Union>f \<in> C. fset (recorded tlc f))"

lemma with_recorded_simps [simp]:
  "with_recorded tlc {} = {}"
  "with_recorded tlc (A \<union> B) = with_recorded tlc A \<union> with_recorded tlc B"
  "with_recorded tlc (insert f A) = insert f (fset (recorded tlc f)) \<union> with_recorded tlc A"
  "with_recorded tlc (\<Union>x \<in> X. g x) = (\<Union>x \<in> X. with_recorded tlc (g x))"
  by (auto simp: with_recorded_def)

lemma fset_extend_all: "fset (extend_all smis) = (\<Union>smi \<in> set smis. fset smi)"
proof -
  have "fset (fold (\<lambda>x smi. smi |\<union>| x) smis a) = fset a \<union> (\<Union>smi \<in> set smis. fset smi)" for a
    by (induction smis arbitrary: a) auto
  then show ?thesis by (simp add: extend_all_def)
qed

lemma check_vec_pure_extend:
  assumes "check_vec_pure f xs = Ok ys rep" "\<And>x y r. x \<in> set xs \<Longrightarrow> f x = Ok y r \<Longrightarrow> fset y = g x"
  shows "fset (extend_all ys) = (\<Union>x \<in> set xs. g x)"
proof -
  obtain r where "check_vec (\<lambda>x u. (f x, u)) xs () = Ok (ys, ()) r"
    using assms(1) by (auto simp: check_vec_pure_def elim!: tc_bind_someE)
  then have "(\<Union>smi \<in> set ys. fset smi) = (\<Union>x \<in> set xs. g x)" using assms(2)
  proof (induction xs arbitrary: ys r)
    case (Cons x xs)
    from Cons.prems(1) obtain y ys1 r1 r2 where x: "f x = Ok y r1" and ys: "ys = y # ys1"
      and xs: "check_vec (\<lambda>x u. (f x, u)) xs () = Ok (ys1, ()) r2"
      by (rule check_vec_ConsE) simp
    have "fset y = g x" using Cons.prems(2) [OF _ x] by simp
    moreover have "(\<Union>smi \<in> set ys1. fset smi) = (\<Union>x \<in> set xs. g x)"
      by (rule Cons.IH [OF xs], rule Cons.prems(2)) simp_all
    ultimately show ?case by (simp add: ys)
  qed simp
  then show ?thesis by (simp add: fset_extend_all)
qed

lemma dep_expression_calls: "dep_expression tlc e = Ok smi rep \<Longrightarrow> fset smi = with_recorded tlc (calls e)"
proof (induction tlc e arbitrary: smi rep rule: dep_expression.induct)
  case (5 tlc arg arms)
  then show ?case by (fastforce elim!: tc_bind_someE dest!: check_vec_pure_extend [where g = "\<lambda>a. with_recorded tlc (calls (snd a))"])
next
  case (7 tlc t c p)
  then show ?case by (cases p) auto
next
  case (10 tlc p f args ts)
  then show ?case by (fastforce elim!: tc_bind_someE dest!: check_vec_pure_extend [where g = "\<lambda>a. with_recorded tlc (calls (fst a))"])
next
  case (11 tlc sel t f args ts)
  then show ?case by (fastforce elim!: tc_bind_someE dest!: check_vec_pure_extend [where g = "\<lambda>a. with_recorded tlc (calls (fst a))"])
next
  case (14 tlc x t args)
  then show ?case by (fastforce elim!: tc_bind_someE dest!: check_vec_pure_extend [where g = "\<lambda>a. with_recorded tlc (calls a)"])
next
  case (15 tlc args)
  then show ?case by (fastforce elim!: tc_bind_someE dest!: check_vec_pure_extend [where g = "\<lambda>a. with_recorded tlc (calls a)"])
qed (fastforce elim!: tc_bind_someE)+

lemma dep_statement_calls:
  "dep_statement tlc s = Ok smi rep \<Longrightarrow> fset smi = with_recorded tlc (stmt_calls s)"
  "dep_block tlc b = Ok b' rep \<Longrightarrow> fset (b_function_dependencies b') = with_recorded tlc (block_calls b)"
  "dep_stmts tlc ss smi0 = Ok smi rep \<Longrightarrow> fset smi = fset smi0 \<union> (\<Union>s \<in> set ss. with_recorded tlc (stmt_calls s))"
proof (induction tlc s and tlc b and tlc ss smi0 arbitrary: smi rep and b' rep and smi rep
    rule: dep_statement_dep_block_dep_stmts.induct)
  case (1 tlc cond then_b else_b info)
  then show ?case by (cases else_b) (fastforce elim!: tc_bind_someE dest: dep_expression_calls)+
next
  case (7 tlc b)
  then show ?case by (cases b) (fastforce simp: dep_block.simps set_dependencies_def elim!: tc_bind_someE)
qed (fastforce elim!: tc_bind_someE dest: dep_expression_calls)+

lemma dep_block_stmts: "dep_block tlc b = Ok b' rep \<Longrightarrow> b_stmts b' = b_stmts b"
  by (auto simp: dep_block.simps set_dependencies_def elim!: tc_bind_someE)

section \<open>Reachable functions\<close>

definition call_graph :: "(top_level_ident \<rightharpoonup> function_dependencies) \<Rightarrow> (top_level_ident \<times> top_level_ident) set" where
  "call_graph m = {(g, h). \<exists>d. m g = Some d \<and> h |\<in>| d}"

lemma resolve_fun_dep_Suc:
  assumes "m f = Some fdeps"
    and "\<And>g d. g |\<in>| f_dep \<Longrightarrow> m g = Some d \<Longrightarrow>
      \<exists>res. resolve_fun_dep n f d m = Some res \<and> fset res = fset fdeps \<union> (call_graph m)\<^sup>+ `` {g}"
  shows "\<exists>res. resolve_fun_dep (Suc n) f f_dep m = Some res \<and> fset res = fset fdeps \<union> (call_graph m)\<^sup>* `` fset f_dep"
proof -
  define r where "r g = (case m g of None \<Rightarrow> Some {||} | Some d \<Rightarrow> resolve_fun_dep n f d m)" for g
  have r: "r g \<noteq> None \<and> fset fdeps \<union> fset (the (r g)) = fset fdeps \<union> (call_graph m)\<^sup>+ `` {g}" if "g |\<in>| f_dep" for g
  proof (cases "m g")
    case None
    then have "(call_graph m)\<^sup>+ `` {g} = {}" by (auto simp: call_graph_def dest: tranclD)
    with None show ?thesis by (simp add: r_def)
  next
    case (Some d)
    with assms(2) [OF that] obtain res where "resolve_fun_dep n f d m = Some res"
        "fset res = fset fdeps \<union> (call_graph m)\<^sup>+ `` {g}" by blast
    with Some show ?thesis by (simp add: r_def)
  qed
  then have none: "None |\<notin>| r |`| f_dep" by (metis fimageE)
  have "resolve_fun_dep (Suc n) f f_dep m = Some (fdeps |\<union>| f_dep |\<union>| ffUnion (the |`| (r |`| f_dep)))"
    using none by (simp add: assms(1) r_def [abs_def] Let_def)
  moreover have "fset (fdeps |\<union>| f_dep |\<union>| ffUnion (the |`| (r |`| f_dep))) =
      fset fdeps \<union> fset f_dep \<union> (\<Union>g \<in> fset f_dep. fset fdeps \<union> fset (the (r g)))"
    by (auto simp: ffUnion.rep_eq)
  moreover have "\<dots> = fset fdeps \<union> (call_graph m)\<^sup>* `` fset f_dep"
    using r by (auto simp: rtrancl_eq_or_trancl)
  ultimately show ?thesis by auto
qed

lemma reach_step: "m g = Some d \<Longrightarrow> (call_graph m)\<^sup>* `` fset d = (call_graph m)\<^sup>+ `` {g}"
  by (auto simp: call_graph_def dest!: tranclD intro: rtrancl_into_trancl2)

section \<open>Properties\<close>

text \<open>
  C35: the dependencies recorded for a body are the functions and methods called anywhere in it, with the
  dependencies that the context records for the called functions; the body is not changed.
\<close>

theorem recorded_dependencies:
  assumes "dep_block tlc b = Ok b' rep"
  shows "fset (b_function_dependencies b') = with_recorded tlc (block_calls b) \<and> b_stmts b' = b_stmts b"
  using dep_statement_calls(2) [OF assms] dep_block_stmts [OF assms] by simp

definition f_ident :: top_level_ident where
  "f_ident = TopLevelIdent ''f'' K_Function"

definition inner_block :: block where
  "inner_block = Block [S_ReturnExp (E_FuncCall None f_ident [] None) None] None None None smv_new {||}"

definition outer_block :: block where
  "outer_block = Block [S_Conditional (E_Lit (L_Bool True)) inner_block None None] None None None smv_new {||}"

definition no_context :: top_level_context where
  "no_context = \<lparr>ctx_functions = [], ctx_consts = Map.empty, ctx_typ_dict = Map.empty\<rparr>"

lemma dep_outer_block: "dep_block no_context outer_block = Ok (set_dependencies {|f_ident|} outer_block) False"
  by (simp add: outer_block_def inner_block_def dep_block.simps set_dependencies_def recorded_def no_context_def
      check_vec_pure_def extend_all_def tc_return_def)

theorem recorded_dependencies_witness:
  "\<exists>b'. dep_block no_context outer_block = Ok b' False \<and> f_ident |\<in>| b_function_dependencies b'"
  using recorded_dependencies [OF dep_outer_block] dep_outer_block by (auto simp: set_dependencies_def)

text \<open>
  the dependencies of a block inside a conditional are computed and then dropped: the call of \<open>f\<close> is recorded
  for the outer block, and the inner block, which contains the call, keeps its empty set.
\<close>

theorem inner_dependencies_dropped:
  "\<exists>b'. dep_block no_context outer_block = Ok b' False \<and> f_ident |\<in>| b_function_dependencies b' \<and>
     b_stmts b' = [S_Conditional (E_Lit (L_Bool True)) inner_block None None] \<and>
     f_ident \<in> block_calls inner_block \<and> b_function_dependencies inner_block = {||}"
  by (simp add: dep_outer_block set_dependencies_def) (simp add: outer_block_def inner_block_def)

text \<open>
  when the calls have no cycle, so that some rank decreases along every call, \<open>resolve_fun_dep\<close> returns, and its result is the
  dependencies of the function together with everything reachable from the given set.
\<close>

theorem fun_dep_closure:
  assumes "\<And>g h. (g, h) \<in> call_graph m \<Longrightarrow> rank h < (rank g :: nat)"
    and "m f = Some fdeps" "\<And>g. g |\<in>| f_dep \<Longrightarrow> rank g < n"
  shows "\<exists>res. resolve_fun_dep (Suc n) f f_dep m = Some res \<and> fset res = fset fdeps \<union> (call_graph m)\<^sup>* `` fset f_dep"
  using assms(3)
proof (induction n arbitrary: f_dep)
  case 0
  then show ?case by (intro resolve_fun_dep_Suc [of m, OF assms(2)]) auto
next
  case (Suc n)
  show ?case
  proof (rule resolve_fun_dep_Suc [of m, OF assms(2)])
    fix g d assume g: "g |\<in>| f_dep" "m g = Some d"
    have "rank h < n" if "h |\<in>| d" for h
      using assms(1) [of g h] Suc.prems [OF g(1)] g(2) that by (auto simp: call_graph_def)
    then have "\<exists>res. resolve_fun_dep (Suc n) f d m = Some res \<and> fset res = fset fdeps \<union> (call_graph m)\<^sup>* `` fset d"
      by (rule Suc.IH)
    then show "\<exists>res. resolve_fun_dep (Suc n) f d m = Some res \<and> fset res = fset fdeps \<union> (call_graph m)\<^sup>+ `` {g}"
      by (simp only: reach_step [of m, OF g(2)])
  qed
qed

theorem fun_dep_closure_witness:
  "\<exists>res. resolve_fun_dep 2 f_ident {|U8_TYP|} [f_ident \<mapsto> {|U8_TYP|}] = Some res \<and> U8_TYP |\<in>| res"
proof -
  have "rank h < rank g" if "(g, h) \<in> call_graph [f_ident \<mapsto> {|U8_TYP|}]" "rank = (\<lambda>x. if x = f_ident then 1 else 0 :: nat)" for g h rank
    using that by (auto simp: call_graph_def f_ident_def U8_TYP_def split: if_splits)
  from fun_dep_closure [of "[f_ident \<mapsto> {|U8_TYP|}]" "\<lambda>x. if x = f_ident then 1 else 0" f_ident "{|U8_TYP|}" "{|U8_TYP|}" 1, OF this]
  show ?thesis by (auto simp: f_ident_def U8_TYP_def numeral_2_eq_2)
qed

end
