(* ===== verification/Typ_Unification.thy ===== *)
theory Typ_Unification
  imports Rustspec
begin

text \<open>
  The functions on types of \<open>language/src/typechecker.rs\<close>: the predicates on types, the removal of
  aliases, unification and the instantiation of type variables.

  Every function that follows aliases has a bound \<open>n\<close> on the depth of its recursion, the model of
  the stack: in a context with a cycle of aliases the code does not return. The lemmas show
  that a sufficient bound exists in every context without such a cycle, that the result does not
  depend on a sufficient bound, and that unification is sound: the types it accepts are equal up to
  aliases once the variables are instantiated.
\<close>

section \<open>Predicates on types\<close>

definition machine_integers :: "base_typ list" where
  "machine_integers = [T_UInt128, T_Int128, T_UInt64, T_Int64, T_UInt32, T_Int32, T_UInt16, T_Int16,
     T_UInt8, T_Int8, T_Usize, T_Isize]"

definition secret_integer_names :: "string list" where
  "secret_integer_names = [''U8'', ''U16'', ''U32'', ''U64'', ''U128'', ''I8'', ''I16'', ''I32'',
     ''I64'', ''I128'']"

fun is_numeric :: "nat \<Rightarrow> top_level_context \<Rightarrow> Typ \<Rightarrow> bool tc" where
  "is_numeric 0 top_ctxt t = Diverge"
| "is_numeric (Suc n) top_ctxt t =
     (if fst t = Borrowed then tc_return False
      else if snd t \<in> set machine_integers then tc_return True
      else (case snd t of
          T_Named name None \<Rightarrow>
            (case ctx_typ_dict top_ctxt name of
               Some (new_t1, dict_entry) \<Rightarrow>
                 if fst new_t1 \<noteq> Consumed then Panic
                 else (case dict_entry of
                     D_Alias \<Rightarrow> is_numeric n top_ctxt new_t1
                   | D_Enum \<Rightarrow> tc_return False
                   | D_Array \<Rightarrow> tc_return True
                   | D_NaturalInteger \<Rightarrow> tc_return True)
             | None \<Rightarrow> tc_return (tli_string name \<in> set secret_integer_names))
        | T_Array sz cell \<Rightarrow> tc_return True
        | T_Seq t1 \<Rightarrow> is_numeric n top_ctxt (Consumed, t1)
        | _ \<Rightarrow> tc_return False))"

fun is_bool :: "nat \<Rightarrow> top_level_context \<Rightarrow> Typ \<Rightarrow> bool tc" where
  "is_bool n top_ctxt t =
     (if fst t = Borrowed then tc_return False
      else (case snd t of
          T_Bool \<Rightarrow> tc_return True
        | T_Named name None \<Rightarrow>
            (case ctx_typ_dict top_ctxt name of
               Some (new_t1, dict_entry) \<Rightarrow>
                 if fst new_t1 \<noteq> Consumed then Panic
                 else (case dict_entry of
                     D_Alias \<Rightarrow> is_numeric n top_ctxt new_t1
                   | _ \<Rightarrow> tc_return False)
             | None \<Rightarrow> tc_return False)
        | _ \<Rightarrow> tc_return False))"

fun is_copy :: "nat \<Rightarrow> top_level_context \<Rightarrow> base_typ \<Rightarrow> bool tc" where
  "is_copy 0 top_ctxt t = Diverge"
| "is_copy (Suc n) top_ctxt t =
     (if t = T_Bool \<or> t \<in> set machine_integers then tc_return True
      else (case t of
          T_Seq cell \<Rightarrow> tc_return False
        | T_Str \<Rightarrow> tc_return False
        | T_Array sz cell \<Rightarrow> tc_return True
        | T_Named name arg \<Rightarrow>
            (case ctx_typ_dict top_ctxt name of
               Some (new_t1, dict_entry) \<Rightarrow>
                 if fst new_t1 \<noteq> Consumed then Panic else is_copy n top_ctxt (snd new_t1)
             | None \<Rightarrow>
                 (case arg of
                    None \<Rightarrow> tc_return (tli_string name \<in> set secret_integer_names)
                  | Some args \<Rightarrow> tc_return False))
        | T_Variable v \<Rightarrow> tc_return False
        | T_Tuple ts \<Rightarrow> tc_all (is_copy n top_ctxt) ts
        | T_Enum ts type_args \<Rightarrow>
            if length type_args = 0
            then tc_all (\<lambda>c. case snd c of None \<Rightarrow> tc_return True | Some t \<Rightarrow> is_copy n top_ctxt t) ts
            else tc_return False
        | T_NaturalInteger sec md bits \<Rightarrow> tc_return True
        | T_Placeholder \<Rightarrow> Panic
        | _ \<Rightarrow> tc_return False))"

fun is_array :: "nat \<Rightarrow> top_level_context \<Rightarrow> Typ \<Rightarrow> (array_size option \<times> base_typ) tc" where
  "is_array 0 top_ctxt t = Diverge"
| "is_array (Suc n) top_ctxt t =
     (case snd t of
        T_Seq t1 \<Rightarrow> tc_return (None, t1)
      | T_Named name None \<Rightarrow>
          (case ctx_typ_dict top_ctxt name of
             Some (new_t, dict_entry) \<Rightarrow>
               (case dict_entry of
                  D_Alias \<Rightarrow> is_array n top_ctxt new_t
                | D_Enum \<Rightarrow> Err
                | D_Array \<Rightarrow>
                    (case snd new_t of
                       T_Array sz cell_t \<Rightarrow> tc_return (Some sz, cell_t)
                     | _ \<Rightarrow> Panic)
                | D_NaturalInteger \<Rightarrow> Err)
           | None \<Rightarrow> Err)
      | T_Named name (Some args) \<Rightarrow> Err
      | T_Array len cell_t \<Rightarrow> tc_return (Some len, cell_t)
      | _ \<Rightarrow> Err)"

fun is_index :: "nat \<Rightarrow> top_level_context \<Rightarrow> base_typ \<Rightarrow> bool tc" where
  "is_index 0 top_ctxt t = Diverge"
| "is_index (Suc n) top_ctxt t =
     (if t \<in> set machine_integers then tc_return True
      else (case t of
          T_Named name None \<Rightarrow>
            (case ctx_typ_dict top_ctxt name of
               Some ((Consumed, new_ty), D_Alias) \<Rightarrow> is_index n top_ctxt new_ty
             | _ \<Rightarrow> tc_return False)
        | _ \<Rightarrow> tc_return False))"

fun dealias_type :: "nat \<Rightarrow> top_level_context \<Rightarrow> base_typ \<Rightarrow> base_typ tc" where
  "dealias_type 0 top_ctxt ty = Diverge"
| "dealias_type (Suc n) top_ctxt ty =
     (case ty of
        T_Named name None \<Rightarrow>
          (case ctx_typ_dict top_ctxt name of
             Some ((Consumed, aliased_ty), D_Alias) \<Rightarrow> dealias_type n top_ctxt aliased_ty
           | _ \<Rightarrow> tc_return ty)
      | _ \<Rightarrow> tc_return ty)"

definition is_castable_integer :: "nat \<Rightarrow> top_level_context \<Rightarrow> base_typ \<Rightarrow> bool tc" where
  "is_castable_integer n top_ctxt t =
     tc_bind (dealias_type n top_ctxt t) (\<lambda>t. tc_return (t \<in> set machine_integers))"

fun is_safe_casting :: "base_typ \<Rightarrow> base_typ \<Rightarrow> bool" where
  "is_safe_casting t1 T_UInt128 \<longleftrightarrow> t1 \<in> {T_UInt64, T_UInt32, T_UInt16, T_Usize, T_UInt8}"
| "is_safe_casting t1 T_UInt64 \<longleftrightarrow> t1 \<in> {T_UInt32, T_UInt16, T_Usize, T_UInt8}"
| "is_safe_casting t1 T_UInt32 \<longleftrightarrow> t1 \<in> {T_UInt16, T_Usize, T_UInt8}"
| "is_safe_casting t1 T_UInt16 \<longleftrightarrow> t1 = T_UInt8"
| "is_safe_casting t1 T_Usize \<longleftrightarrow> t1 \<in> {T_UInt16, T_UInt8}"
| "is_safe_casting t1 T_Int128 \<longleftrightarrow> t1 \<in> {T_Int64, T_Int32, T_Int16, T_Isize, T_Int8}"
| "is_safe_casting t1 T_Int64 \<longleftrightarrow> t1 \<in> {T_Int32, T_Int16, T_Isize, T_Int8}"
| "is_safe_casting t1 T_Int32 \<longleftrightarrow> t1 \<in> {T_Int16, T_Isize, T_Int8}"
| "is_safe_casting t1 T_Int16 \<longleftrightarrow> t1 = T_Int8"
| "is_safe_casting t1 T_Isize \<longleftrightarrow> t1 \<in> {T_UInt16, T_UInt8}"
| "is_safe_casting t1 t2 \<longleftrightarrow> False"

section \<open>Unification\<close>

type_synonym type_var_ctx = "typ_var \<rightharpoonup> base_typ"

text \<open>The alias that a type names, with the borrowing of the alias.\<close>

fun alias_of :: "top_level_context \<Rightarrow> Typ \<Rightarrow> Typ option" where
  "alias_of top_ctx (b, T_Named name None) =
     (case ctx_typ_dict top_ctx name of Some (new_t, D_Alias) \<Rightarrow> Some new_t | _ \<Rightarrow> None)"
| "alias_of top_ctx t = None"

fun alias_borrow :: "borrowing \<Rightarrow> borrowing \<Rightarrow> borrowing tc" where
  "alias_borrow Borrowed Borrowed = Err"
| "alias_borrow Consumed Borrowed = tc_return Borrowed"
| "alias_borrow Borrowed Consumed = tc_return Borrowed"
| "alias_borrow Consumed Consumed = tc_return Consumed"

text \<open>The fold over the arguments of two named types or the components of two tuples.\<close>

fun unify_fold :: "(base_typ \<Rightarrow> base_typ \<Rightarrow> type_var_ctx \<Rightarrow> type_var_ctx option tc) \<Rightarrow>
    (base_typ \<times> base_typ) list \<Rightarrow> type_var_ctx option \<Rightarrow> type_var_ctx option tc" where
  "unify_fold f [] acc = tc_return acc"
| "unify_fold f ((a, b) # ps) acc =
     tc_bind (case acc of None \<Rightarrow> tc_return None | Some ctx \<Rightarrow> f a b ctx) (unify_fold f ps)"

text \<open>
  The comparison of two types without alias at their head and with the same borrowing; \<open>f\<close> unifies
  their components.
\<close>

definition unify_heads :: "(base_typ \<Rightarrow> base_typ \<Rightarrow> type_var_ctx \<Rightarrow> type_var_ctx option tc) \<Rightarrow>
    base_typ \<Rightarrow> base_typ \<Rightarrow> type_var_ctx \<Rightarrow> type_var_ctx option tc" where
  "unify_heads f t1 t2 typ_ctx =
     (if t1 = t2 \<and> (t1 = T_Bool \<or> t1 \<in> set machine_integers) then tc_return (Some typ_ctx)
      else (case t2 of
          T_Variable id2 \<Rightarrow>
            (case t1 of
               T_Variable id1 \<Rightarrow> tc_return None
             | bt1 \<Rightarrow> tc_return (Some (typ_ctx(id2 \<mapsto> bt1))))
        | bt2 \<Rightarrow>
            (case t1 of
               T_Variable id1 \<Rightarrow> tc_return (Some (typ_ctx(id1 \<mapsto> bt2)))
             | T_Seq tc1 \<Rightarrow> (case bt2 of T_Seq tc2 \<Rightarrow> f tc1 tc2 typ_ctx | _ \<Rightarrow> tc_return None)
             | T_Named name1 None \<Rightarrow>
                 (case bt2 of
                    T_Named name2 None \<Rightarrow>
                      if tli_string name1 = tli_string name2 then tc_return (Some typ_ctx)
                      else tc_return None
                  | _ \<Rightarrow> tc_return None)
             | T_Named name1 (Some args1) \<Rightarrow>
                 (case bt2 of
                    T_Named name2 (Some args2) \<Rightarrow>
                      if tli_string name1 = tli_string name2 \<and> length args1 = length args2
                      then unify_fold f (zip args1 args2) (Some typ_ctx)
                      else tc_return None
                  | _ \<Rightarrow> tc_return None)
             | T_Tuple ts1 \<Rightarrow>
                 (case bt2 of
                    T_Tuple ts2 \<Rightarrow>
                      if length ts1 = length ts2 then unify_fold f (zip ts1 ts2) (Some typ_ctx)
                      else tc_return None
                  | _ \<Rightarrow> tc_return None)
             | _ \<Rightarrow> tc_return None)))"

fun unify_types ::
  "nat \<Rightarrow> top_level_context \<Rightarrow> Typ \<Rightarrow> Typ \<Rightarrow> type_var_ctx \<Rightarrow> type_var_ctx option tc" where
  "unify_types 0 top_ctx t1 t2 typ_ctx = Diverge"
| "unify_types (Suc n) top_ctx t1 t2 typ_ctx =
     (case alias_of top_ctx t1 of
        Some (new_b, new_t1) \<Rightarrow>
          tc_bind (alias_borrow (fst t1) new_b) (\<lambda>b. unify_types n top_ctx (b, new_t1) t2 typ_ctx)
      | None \<Rightarrow>
     (case alias_of top_ctx t2 of
        Some (new_b, new_t2) \<Rightarrow>
          tc_bind (alias_borrow (fst t2) new_b) (\<lambda>b. unify_types n top_ctx t1 (b, new_t2) typ_ctx)
      | None \<Rightarrow>
     if fst t1 = fst t2
     then unify_heads (\<lambda>a b. unify_types n top_ctx (Consumed, a) (Consumed, b)) (snd t1) (snd t2) typ_ctx
     else tc_return None))"

definition unify_types_default_error_message ::
  "nat \<Rightarrow> top_level_context \<Rightarrow> Typ \<Rightarrow> Typ \<Rightarrow> type_var_ctx \<Rightarrow> type_var_ctx tc" where
  "unify_types_default_error_message n top_ctx t1 t2 typ_ctx =
     tc_bind (unify_types n top_ctx t1 t2 typ_ctx)
       (\<lambda>r. case r of Some x \<Rightarrow> tc_return x | None \<Rightarrow> Err)"

fun bind_variable_type :: "base_typ \<Rightarrow> type_var_ctx \<Rightarrow> base_typ tc"
  and bind_variable_types :: "base_typ list \<Rightarrow> type_var_ctx \<Rightarrow> base_typ list tc" where
  "bind_variable_type (T_Variable v) typ_ctx =
     (case typ_ctx v of None \<Rightarrow> Err | Some new_ty \<Rightarrow> tc_return new_ty)"
| "bind_variable_type (T_Seq arg_ty) typ_ctx =
     tc_bind (bind_variable_type arg_ty typ_ctx) (\<lambda>t. tc_return (T_Seq t))"
| "bind_variable_type (T_Named name None) typ_ctx = tc_return (T_Named name None)"
| "bind_variable_type (T_Named name (Some args)) typ_ctx =
     tc_bind (bind_variable_types args typ_ctx) (\<lambda>args. tc_return (T_Named name (Some args)))"
| "bind_variable_type (T_Tuple args) typ_ctx =
     tc_bind (bind_variable_types args typ_ctx) (\<lambda>args. tc_return (T_Tuple args))"
| "bind_variable_type ty typ_ctx = tc_return ty"
| "bind_variable_types [] typ_ctx = tc_return []"
| "bind_variable_types (t # ts) typ_ctx =
     tc_bind (bind_variable_type t typ_ctx) (\<lambda>t. tc_bind (bind_variable_types ts typ_ctx)
       (\<lambda>ts. tc_return (t # ts)))"

section \<open>The bound on the recursion\<close>

lemma unify_fold_None [simp]: "unify_fold f ps None = tc_return None"
  by (induction ps) auto

lemma unify_fold_mono:
  assumes "\<And>a b c. tc_le (f a b c) (g a b c)"
  shows "tc_le (unify_fold f ps acc) (unify_fold g ps acc)"
proof (induction ps arbitrary: acc)
  case (Cons p ps)
  then show ?case
    using assms by (cases p) (auto intro!: tc_le_bind tc_le_refl split: option.split)
qed (simp add: tc_le_refl)

lemma unify_heads_mono:
  assumes "\<And>a b c. tc_le (f a b c) (g a b c)"
  shows "tc_le (unify_heads f t1 t2 ctx) (unify_heads g t1 t2 ctx)"
proof (cases t1)
  case (T_Seq s)
  then show ?thesis by (cases t2) (auto simp: unify_heads_def tc_le_refl assms)
next
  case (T_Named name args)
  then show ?thesis
    by (cases t2) (auto simp: unify_heads_def tc_le_refl assms unify_fold_mono split: option.split)
next
  case (T_Tuple ts)
  then show ?thesis by (cases t2) (auto simp: unify_heads_def tc_le_refl assms unify_fold_mono)
qed (simp_all only: unify_heads_def base_typ.case tc_le_refl)

lemma unify_types_mono: "n \<le> m \<Longrightarrow> tc_le (unify_types n tlc t1 t2 ctx) (unify_types m tlc t1 t2 ctx)"
proof (induction n arbitrary: m t1 t2 ctx)
  case (Suc n)
  then obtain k where m: "m = Suc k" and le: "n \<le> k" by (cases m) auto
  have "tc_le (unify_types n tlc t1 t2 ctx) (unify_types k tlc t1 t2 ctx)" for t1 t2 ctx
    by (rule Suc.IH [OF le])
  then show ?case
    unfolding m by (simp add: tc_le_bind tc_le_refl unify_heads_mono split: option.split prod.split)
qed (simp add: tc_le_Diverge)

text \<open>
  \<open>typ_depth tlc d t\<close>: \<open>d\<close> bounds the depth of \<open>t\<close>, aliases expanded.
\<close>

inductive typ_depth :: "top_level_context \<Rightarrow> nat \<Rightarrow> base_typ \<Rightarrow> bool" for tlc where
  depth_alias: "ctx_typ_dict tlc name = Some ((b, t), D_Alias) \<Longrightarrow> typ_depth tlc d t \<Longrightarrow>
    typ_depth tlc (Suc d) (T_Named name None)"
| depth_name: "\<nexists>bt. ctx_typ_dict tlc name = Some (bt, D_Alias) \<Longrightarrow> typ_depth tlc (Suc d) (T_Named name None)"
| depth_args: "\<forall>t \<in> set ts. typ_depth tlc d t \<Longrightarrow> typ_depth tlc (Suc d) (T_Named name (Some ts))"
| depth_tuple: "\<forall>t \<in> set ts. typ_depth tlc d t \<Longrightarrow> typ_depth tlc (Suc d) (T_Tuple ts)"
| depth_seq: "typ_depth tlc d t \<Longrightarrow> typ_depth tlc (Suc d) (T_Seq t)"
| depth_leaf: "\<forall>name args ts s. t \<noteq> T_Named name args \<and> t \<noteq> T_Tuple ts \<and> t \<noteq> T_Seq s \<Longrightarrow> typ_depth tlc (Suc d) t"

inductive_cases typ_depth_0E: "typ_depth tlc 0 t"
inductive_cases typ_depth_nameE: "typ_depth tlc d (T_Named name None)"
inductive_cases typ_depth_argsE: "typ_depth tlc d (T_Named name (Some ts))"
inductive_cases typ_depth_tupleE: "typ_depth tlc d (T_Tuple ts)"
inductive_cases typ_depth_seqE: "typ_depth tlc d (T_Seq t)"

lemma typ_depth_pos: "typ_depth tlc d t \<Longrightarrow> 0 < d"
  by (cases d) (auto elim: typ_depth_0E)

lemma typ_depth_mono: "typ_depth tlc d t \<Longrightarrow> d \<le> d' \<Longrightarrow> typ_depth tlc d' t"
proof (induction d t arbitrary: d' rule: typ_depth.induct)
  case (depth_alias name b t d)
  then obtain k where "d' = Suc k" "d \<le> k" by (cases d') auto
  with depth_alias show ?case by (auto intro: typ_depth.depth_alias)
next
  case (depth_name name d)
  then obtain k where "d' = Suc k" by (cases d') auto
  with depth_name show ?case by (auto intro: typ_depth.depth_name)
next
  case (depth_args ts d name)
  then obtain k where "d' = Suc k" "d \<le> k" by (cases d') auto
  with depth_args show ?case by (auto intro: typ_depth.depth_args)
next
  case (depth_tuple ts d)
  then obtain k where "d' = Suc k" "d \<le> k" by (cases d') auto
  with depth_tuple show ?case by (auto intro: typ_depth.depth_tuple)
next
  case (depth_seq d t)
  then obtain k where "d' = Suc k" "d \<le> k" by (cases d') auto
  with depth_seq show ?case by (auto intro: typ_depth.depth_seq)
next
  case (depth_leaf t d)
  then obtain k where "d' = Suc k" by (cases d') auto
  with depth_leaf show ?case by (auto intro: typ_depth.depth_leaf)
qed

lemma tc_bind_neq_Diverge:
  "m \<noteq> Diverge \<Longrightarrow> (\<And>x rep. m = Ok x rep \<Longrightarrow> f x \<noteq> Diverge) \<Longrightarrow> tc_bind m f \<noteq> Diverge"
  by (cases m) (auto split: tc.splits)

lemma unify_fold_returns:
  assumes "\<And>a b c. (a, b) \<in> set ps \<Longrightarrow> f a b c \<noteq> Diverge"
  shows "unify_fold f ps acc \<noteq> Diverge"
  using assms
proof (induction ps arbitrary: acc)
  case (Cons p ps)
  obtain a b where p: "p = (a, b)" by (cases p)
  have "f a b c \<noteq> Diverge" for c using Cons.prems p by simp
  moreover have "unify_fold f ps acc \<noteq> Diverge" for acc using Cons by simp
  ultimately show ?case
    unfolding p by (cases acc) (simp_all add: tc_bind_neq_Diverge)
qed simp

lemma unify_heads_returns:
  assumes "\<And>a b c. t1 = T_Seq a \<Longrightarrow> t2 = T_Seq b \<Longrightarrow> f a b c \<noteq> Diverge"
    and "\<And>x y as bs a b c. t1 = T_Named x (Some as) \<Longrightarrow> t2 = T_Named y (Some bs) \<Longrightarrow>
      a \<in> set as \<Longrightarrow> b \<in> set bs \<Longrightarrow> f a b c \<noteq> Diverge"
    and "\<And>as bs a b c. t1 = T_Tuple as \<Longrightarrow> t2 = T_Tuple bs \<Longrightarrow>
      a \<in> set as \<Longrightarrow> b \<in> set bs \<Longrightarrow> f a b c \<noteq> Diverge"
  shows "unify_heads f t1 t2 ctx \<noteq> Diverge"
proof (cases t1)
  case (T_Seq s)
  then show ?thesis using assms(1) by (cases t2) (auto simp: unify_heads_def)
next
  case (T_Named name args)
  have "unify_fold f (zip as bs) acc \<noteq> Diverge" if "args = Some as" "t2 = T_Named y (Some bs)" for as bs y acc
    by (rule unify_fold_returns) (use that T_Named assms(2) in \<open>blast dest: set_zip_leftD set_zip_rightD\<close>)
  with T_Named show ?thesis by (cases t2) (auto simp: unify_heads_def split: option.split)
next
  case (T_Tuple as)
  have "unify_fold f (zip as bs) acc \<noteq> Diverge" if "t2 = T_Tuple bs" for bs acc
    by (rule unify_fold_returns) (use that T_Tuple assms(3) in \<open>blast dest: set_zip_leftD set_zip_rightD\<close>)
  with T_Tuple show ?thesis by (cases t2) (auto simp: unify_heads_def)
qed (cases t2; simp add: unify_heads_def)+

lemma alias_of_SomeE:
  assumes "alias_of tlc t = Some t'"
  obtains name where "snd t = T_Named name None" "ctx_typ_dict tlc name = Some (t', D_Alias)"
  using assms by (cases "(tlc, t)" rule: alias_of.cases) (auto split: option.splits dict_entry.splits prod.splits)

lemma typ_depth_alias:
  assumes "alias_of tlc t = Some (b, t')" "typ_depth tlc d (snd t)"
  obtains d' where "d = Suc d'" "typ_depth tlc d' t'"
  using assms by (auto elim!: alias_of_SomeE typ_depth_nameE)

lemma alias_borrow_returns: "alias_borrow b b' \<noteq> Diverge"
  by (cases b; cases b') auto

lemma unify_types_returns:
  "typ_depth tlc d1 (snd t1) \<Longrightarrow> typ_depth tlc d2 (snd t2) \<Longrightarrow> d1 + d2 \<le> n \<Longrightarrow>
     unify_types n tlc t1 t2 ctx \<noteq> Diverge"
proof (induction n arbitrary: d1 d2 t1 t2 ctx)
  case 0
  then show ?case using typ_depth_pos by fastforce
next
  case (Suc n)
  show ?case
  proof (cases "alias_of tlc t1")
    case (Some a)
    obtain b t' where a: "a = (b, t')" by (cases a)
    from Some Suc.prems(1) a obtain d' where d': "d1 = Suc d'" "typ_depth tlc d' t'"
      by (auto elim: typ_depth_alias)
    have "unify_types n tlc (b', t') t2 ctx \<noteq> Diverge" for b'
      using Suc.IH [of d' "(b', t')" d2 t2 ctx] d' Suc.prems by simp
    with Some a show ?thesis by (simp add: tc_bind_neq_Diverge alias_borrow_returns)
  next
    case none1: None
    show ?thesis
    proof (cases "alias_of tlc t2")
      case (Some a)
      obtain b t' where a: "a = (b, t')" by (cases a)
      from Some Suc.prems(2) a obtain d' where d': "d2 = Suc d'" "typ_depth tlc d' t'"
        by (auto elim: typ_depth_alias)
      have "unify_types n tlc t1 (b', t') ctx \<noteq> Diverge" for b'
        using Suc.IH [of d1 t1 d' "(b', t')" ctx] d' Suc.prems by simp
      with none1 Some a show ?thesis by (simp add: tc_bind_neq_Diverge alias_borrow_returns)
    next
      case None
      have sub: "unify_types n tlc (Consumed, a) (Consumed, b) c \<noteq> Diverge"
        if "typ_depth tlc (d1 - 1) a" "typ_depth tlc (d2 - 1) b" for a b c
        using Suc.IH [of "d1 - 1" "(Consumed, a)" "d2 - 1" "(Consumed, b)" c] that Suc.prems
          typ_depth_pos [OF Suc.prems(1)] by simp
      have "unify_heads (\<lambda>a b. unify_types n tlc (Consumed, a) (Consumed, b)) (snd t1) (snd t2) ctx
          \<noteq> Diverge"
        by (rule unify_heads_returns; rule sub)
          (use Suc.prems in \<open>auto elim!: typ_depth_seqE typ_depth_argsE typ_depth_tupleE\<close>)
      with none1 None show ?thesis by simp
    qed
  qed
qed

text \<open>
  A context has no cycle of aliases if a rank decreases from every alias to the names in its type.
\<close>

fun names_of :: "base_typ \<Rightarrow> top_level_ident list" where
  "names_of (T_Named name None) = [name]"
| "names_of (T_Named name (Some ts)) = concat (map names_of ts)"
| "names_of (T_Tuple ts) = concat (map names_of ts)"
| "names_of (T_Seq t) = names_of t"
| "names_of t = []"

definition aliases_ranked :: "(top_level_ident \<Rightarrow> nat) \<Rightarrow> top_level_context \<Rightarrow> bool" where
  "aliases_ranked rk tlc \<longleftrightarrow> (\<forall>name b t. ctx_typ_dict tlc name = Some ((b, t), D_Alias) \<longrightarrow>
     (\<forall>x \<in> set (names_of t). rk x < rk name))"

lemma typ_depth_list:
  assumes "\<And>t. t \<in> set ts \<Longrightarrow> \<exists>d. typ_depth tlc d t"
  obtains d where "\<forall>t \<in> set ts. typ_depth tlc d t"
proof -
  from assms obtain f where f: "\<And>t. t \<in> set ts \<Longrightarrow> typ_depth tlc (f t) t" by metis
  have "typ_depth tlc (sum_list (map f ts)) t" if "t \<in> set ts" for t
    using f [OF that] member_le_sum_list [of "f t" "map f ts"] that by (auto intro: typ_depth_mono)
  with that show thesis by blast
qed

lemma ranked_typ_depth:
  assumes "aliases_ranked rk tlc" "\<forall>x \<in> set (names_of t). rk x < k"
  shows "\<exists>d. typ_depth tlc d t"
  using assms(2)
proof (induction k arbitrary: t rule: less_induct)
  case (less k)
  show ?case
    using less.prems
  proof (induction t rule: base_typ.induct)
    case (T_Named name args)
    show ?case
    proof (cases args)
      case None
      show ?thesis
      proof (cases "\<exists>bt. ctx_typ_dict tlc name = Some (bt, D_Alias)")
        case True
        then obtain b t where dict: "ctx_typ_dict tlc name = Some ((b, t), D_Alias)" by auto
        with assms(1) have "\<forall>x \<in> set (names_of t). rk x < rk name"
          unfolding aliases_ranked_def by blast
        moreover have "rk name < k" using T_Named.prems None by simp
        ultimately obtain d where "typ_depth tlc d t" using less.IH by blast
        with dict None show ?thesis by (auto intro: depth_alias)
      next
        case False
        with None depth_name [of tlc name 0] show ?thesis by auto
      qed
    next
      case (Some ts)
      then have "\<exists>d. typ_depth tlc d t" if "t \<in> set ts" for t
        using T_Named.IH [of ts t] T_Named.prems that by auto
      then obtain d where "\<forall>t \<in> set ts. typ_depth tlc d t" by (rule typ_depth_list)
      then show ?thesis using Some by (auto intro: depth_args)
    qed
  next
    case (T_Tuple ts)
    then have "\<exists>d. typ_depth tlc d t" if "t \<in> set ts" for t
      using that by auto
    then obtain d where "\<forall>t \<in> set ts. typ_depth tlc d t" by (rule typ_depth_list)
    then show ?case by (auto intro: depth_tuple)
  next
    case (T_Seq t)
    then obtain d where "typ_depth tlc d t" by auto
    then show ?case by (auto intro: depth_seq)
  qed (rule exI [of _ "Suc 0"], rule depth_leaf, simp)+
qed

lemma ranked_depth: "aliases_ranked rk tlc \<Longrightarrow> \<exists>d. typ_depth tlc d t"
proof (rule ranked_typ_depth)
  show "\<forall>x \<in> set (names_of t). rk x < Suc (sum_list (map rk (names_of t)))"
    using member_le_sum_list [of "rk x" "map rk (names_of t)" for x] by (auto simp: less_Suc_eq_le)
qed

section \<open>Instantiation of type variables\<close>

fun tvars :: "base_typ \<Rightarrow> typ_var list" where
  "tvars (T_Variable v) = [v]"
| "tvars (T_Named name (Some ts)) = concat (map tvars ts)"
| "tvars (T_Tuple ts) = concat (map tvars ts)"
| "tvars (T_Seq t) = tvars t"
| "tvars t = []"

lemma bind_variable_type_cong:
  "(\<And>v. v \<in> set (tvars t) \<Longrightarrow> c v = c' v) \<Longrightarrow> bind_variable_type t c = bind_variable_type t c'"
  "(\<And>v. v \<in> set (concat (map tvars ts)) \<Longrightarrow> c v = c' v) \<Longrightarrow>
     bind_variable_types ts c = bind_variable_types ts c'"
  by (induction t c and ts c rule: bind_variable_type_bind_variable_types.induct) simp_all

lemma bind_variable_type_closed:
  "tvars t = [] \<Longrightarrow> bind_variable_type t c = tc_return t"
  "concat (map tvars ts) = [] \<Longrightarrow> bind_variable_types ts c = tc_return ts"
  by (induction t c and ts c rule: bind_variable_type_bind_variable_types.induct) simp_all

text \<open>Instantiation succeeds exactly when every variable is bound, and never panics.\<close>

lemma bind_variable_types_all:
  "\<forall>t \<in> set ts. \<exists>t'. bind_variable_type t c = tc_return t' \<Longrightarrow> \<exists>ts'. bind_variable_types ts c = tc_return ts'"
  by (induction ts) auto

lemma bind_variable_type_bound:
  "\<forall>v \<in> set (tvars t). c v \<noteq> None \<Longrightarrow> \<exists>t'. bind_variable_type t c = tc_return t'"
proof (induction t rule: base_typ.induct)
  case (T_Named name args)
  show ?case
  proof (cases args)
    case (Some ts)
    have "\<exists>ts'. bind_variable_types ts c = tc_return ts'"
      by (rule bind_variable_types_all) (use T_Named Some in simp)
    with Some show ?thesis by auto
  qed simp
next
  case (T_Tuple ts)
  have "\<exists>ts'. bind_variable_types ts c = tc_return ts'"
    by (rule bind_variable_types_all) (use T_Tuple in simp)
  then show ?case by auto
qed auto

lemma bind_variable_types_Err:
  assumes "\<And>t. t \<in> set ts \<Longrightarrow> \<exists>v \<in> set (tvars t). c v = None \<Longrightarrow> bind_variable_type t c = Err"
    and "\<exists>t \<in> set ts. \<exists>v \<in> set (tvars t). c v = None"
  shows "bind_variable_types ts c = Err"
  using assms
proof (induction ts)
  case (Cons a ts)
  show ?case
  proof (cases "\<exists>v \<in> set (tvars a). c v = None")
    case True
    have "bind_variable_type a c = Err" by (rule Cons.prems(1) [OF _ True]) simp
    then show ?thesis by simp
  next
    case False
    then obtain a' where "bind_variable_type a c = tc_return a'"
      using bind_variable_type_bound [of a c] by auto
    moreover from Cons.prems(2) False have ex: "\<exists>t \<in> set ts. \<exists>v \<in> set (tvars t). c v = None" by auto
    have "bind_variable_types ts c = Err"
      by (rule Cons.IH [OF _ ex], rule Cons.prems(1)) simp_all
    ultimately show ?thesis by simp
  qed
qed simp

lemma bind_variable_type_unbound:
  "\<exists>v \<in> set (tvars t). c v = None \<Longrightarrow> bind_variable_type t c = Err"
proof (induction t rule: base_typ.induct)
  case (T_Named name args)
  then show ?case
  proof (cases args)
    case (Some ts)
    have "bind_variable_types ts c = Err"
      by (rule bind_variable_types_Err) (use T_Named.IH [of ts] T_Named.prems Some in auto)
    with Some show ?thesis by simp
  qed simp
next
  case (T_Tuple ts)
  have "bind_variable_types ts c = Err"
    by (rule bind_variable_types_Err) (use T_Tuple.IH T_Tuple.prems in auto)
  then show ?case by simp
qed auto

section \<open>Soundness of unification\<close>

text \<open>
  Equality of types up to aliases: types are nominal, so that two names are equal if their strings
  are, and the arguments are compared one by one.
\<close>

inductive typ_eq :: "top_level_context \<Rightarrow> base_typ \<Rightarrow> base_typ \<Rightarrow> bool" for tlc where
  eq_refl: "typ_eq tlc t t"
| eq_alias_left: "ctx_typ_dict tlc name = Some ((b, t), D_Alias) \<Longrightarrow> typ_eq tlc t u \<Longrightarrow>
    typ_eq tlc (T_Named name None) u"
| eq_alias_right: "ctx_typ_dict tlc name = Some ((b, t), D_Alias) \<Longrightarrow> typ_eq tlc u t \<Longrightarrow>
    typ_eq tlc u (T_Named name None)"
| eq_seq: "typ_eq tlc t u \<Longrightarrow> typ_eq tlc (T_Seq t) (T_Seq u)"
| eq_name: "tli_string x = tli_string y \<Longrightarrow> typ_eq tlc (T_Named x None) (T_Named y None)"
| eq_args: "tli_string x = tli_string y \<Longrightarrow> list_all2 (typ_eq tlc) ts us \<Longrightarrow>
    typ_eq tlc (T_Named x (Some ts)) (T_Named y (Some us))"
| eq_tuple: "list_all2 (typ_eq tlc) ts us \<Longrightarrow> typ_eq tlc (T_Tuple ts) (T_Tuple us)"

definition aliases_closed :: "top_level_context \<Rightarrow> bool" where
  "aliases_closed tlc \<longleftrightarrow>
     (\<forall>name b t. ctx_typ_dict tlc name = Some ((b, t), D_Alias) \<longrightarrow> tvars t = [])"

text \<open>
  What a successful unification of a closed type with a type whose variables are distinct gives:
  the variables are instantiated so that the types are equal, and no other variable changes.
\<close>

definition unifies :: "top_level_context \<Rightarrow> base_typ \<Rightarrow> base_typ \<Rightarrow> type_var_ctx \<Rightarrow> type_var_ctx \<Rightarrow> bool" where
  "unifies tlc t1 t2 c c' \<longleftrightarrow> (\<exists>t2'. bind_variable_type t2 c' = tc_return t2' \<and> typ_eq tlc t1 t2')
     \<and> (\<forall>v. v \<notin> set (tvars t2) \<longrightarrow> c' v = c v)"

lemma unify_fold_sound:
  assumes "\<And>a b c c' rep. f a b c = Ok (Some c') rep \<Longrightarrow> tvars a = [] \<Longrightarrow> distinct (tvars b) \<Longrightarrow>
      unifies tlc a b c c'"
    and "length as = length bs" and "unify_fold f (zip as bs) (Some c) = Ok (Some c') rep"
    and "\<forall>a \<in> set as. tvars a = []" and "distinct (concat (map tvars bs))"
  shows "(\<exists>bs'. bind_variable_types bs c' = tc_return bs' \<and> list_all2 (typ_eq tlc) as bs')
    \<and> (\<forall>v. v \<notin> set (concat (map tvars bs)) \<longrightarrow> c' v = c v)"
  using assms(2-)
proof (induction as bs arbitrary: c rep rule: list_induct2)
  case (Cons a as b bs)
  from Cons.prems(1) obtain r r1 r2 where step: "f a b c = Ok r r1" "unify_fold f (zip as bs) r = Ok (Some c') r2"
    by (auto simp: tc_bind_Ok_iff)
  then obtain d where r: "r = Some d" by (cases r) auto
  have "unifies tlc a b c d" using assms(1) step(1) r Cons.prems by auto
  then obtain b' where b': "bind_variable_type b d = tc_return b'" "typ_eq tlc a b'"
    "\<forall>v. v \<notin> set (tvars b) \<longrightarrow> d v = c v" by (auto simp: unifies_def)
  from Cons.IH [of d] step(2) r Cons.prems obtain bs' where
    bs': "bind_variable_types bs c' = tc_return bs'" "list_all2 (typ_eq tlc) as bs'"
    and rest: "\<forall>v. v \<notin> set (concat (map tvars bs)) \<longrightarrow> c' v = d v" by auto
  have "bind_variable_type b c' = bind_variable_type b d"
    using Cons.prems(3) rest by (intro bind_variable_type_cong(1)) auto
  with b' bs' rest show ?case by auto
qed auto

lemma unify_heads_sound:
  assumes "\<And>a b c c' rep. f a b c = Ok (Some c') rep \<Longrightarrow> tvars a = [] \<Longrightarrow> distinct (tvars b) \<Longrightarrow>
      unifies tlc a b c c'"
    and "unify_heads f t1 t2 c = Ok (Some c') rep" and "tvars t1 = []" and "distinct (tvars t2)"
  shows "unifies tlc t1 t2 c c'"
proof (cases t2)
  case (T_Variable v)
  with assms(2,3) show ?thesis
    by (cases t1) (auto simp: unify_heads_def unifies_def machine_integers_def intro: eq_refl split: option.splits)
next
  case (T_Seq u)
  with assms(2,3) obtain s where s: "t1 = T_Seq s" "f s u c = Ok (Some c') rep"
    by (cases t1) (auto simp: unify_heads_def machine_integers_def split: option.splits)
  with assms(1) [OF s(2)] assms(3,4) T_Seq show ?thesis
    by (auto simp: unifies_def intro: eq_seq)
next
  case (T_Named y bs)
  with assms(2,3) consider (name) x where "t1 = T_Named x None" "bs = None" "tli_string x = tli_string y" "c' = c"
    | (args) x as bs' where "t1 = T_Named x (Some as)" "bs = Some bs'" "tli_string x = tli_string y"
      "length as = length bs'" "unify_fold f (zip as bs') (Some c) = Ok (Some c') rep"
    by (cases t1) (auto simp: unify_heads_def machine_integers_def split: option.splits if_splits)
  then show ?thesis
  proof cases
    case name
    with T_Named show ?thesis by (auto simp: unifies_def intro: eq_name)
  next
    case args
    have "(\<exists>us. bind_variable_types bs' c' = tc_return us \<and> list_all2 (typ_eq tlc) as us)
        \<and> (\<forall>v. v \<notin> set (concat (map tvars bs')) \<longrightarrow> c' v = c v)"
      by (rule unify_fold_sound [OF assms(1) args(4,5)]) (use T_Named args assms(3,4) in auto)
    with T_Named args show ?thesis by (auto simp: unifies_def intro: eq_args)
  qed
next
  case (T_Tuple bs)
  with assms(2,3) obtain as where t: "t1 = T_Tuple as" "length as = length bs"
    "unify_fold f (zip as bs) (Some c) = Ok (Some c') rep"
    by (cases t1) (auto simp: unify_heads_def machine_integers_def split: option.splits if_splits)
  have "(\<exists>us. bind_variable_types bs c' = tc_return us \<and> list_all2 (typ_eq tlc) as us)
      \<and> (\<forall>v. v \<notin> set (concat (map tvars bs)) \<longrightarrow> c' v = c v)"
    by (rule unify_fold_sound [OF assms(1) t(2,3)]) (use T_Tuple t assms(3,4) in auto)
  with T_Tuple t show ?thesis by (auto simp: unifies_def intro: eq_tuple)
qed (use assms(2,3) in \<open>cases t1; auto simp: unify_heads_def unifies_def machine_integers_def
      intro: eq_refl split: option.splits if_splits\<close>)+

lemma unify_types_sound:
  assumes "aliases_closed tlc"
  shows "unify_types n tlc (b1, t1) (b2, t2) c = Ok (Some c') rep \<Longrightarrow> tvars t1 = [] \<Longrightarrow>
    distinct (tvars t2) \<Longrightarrow> unifies tlc t1 t2 c c'"
proof (induction n arbitrary: b1 t1 b2 t2 c c' rep)
  case (Suc n)
  show ?case
  proof (cases "alias_of tlc (b1, t1)")
    case (Some a)
    obtain b t where a: "a = (b, t)" by (cases a)
    with Some obtain name where name: "t1 = T_Named name None"
      "ctx_typ_dict tlc name = Some ((b, t), D_Alias)" by (auto elim: alias_of_SomeE)
    from Suc.prems(1) Some a obtain b' r where
      "unify_types n tlc (b', t) (b2, t2) c = Ok (Some c') r" by (auto simp: tc_bind_Ok_iff)
    moreover have "tvars t = []" using assms name(2) by (auto simp: aliases_closed_def)
    ultimately have "unifies tlc t t2 c c'" using Suc.IH Suc.prems by blast
    with name show ?thesis by (auto simp: unifies_def intro: eq_alias_left)
  next
    case none1: None
    show ?thesis
    proof (cases "alias_of tlc (b2, t2)")
      case (Some a)
      obtain b t where a: "a = (b, t)" by (cases a)
      with Some obtain name where name: "t2 = T_Named name None"
        "ctx_typ_dict tlc name = Some ((b, t), D_Alias)" by (auto elim: alias_of_SomeE)
      from Suc.prems(1) none1 Some a obtain b' r where
        "unify_types n tlc (b1, t1) (b', t) c = Ok (Some c') r" by (auto simp: tc_bind_Ok_iff)
      moreover have closed: "tvars t = []" using assms name(2) by (auto simp: aliases_closed_def)
      ultimately have "unifies tlc t1 t c c'" using Suc.IH Suc.prems by fastforce
      with name closed show ?thesis
        by (auto simp: unifies_def bind_variable_type_closed intro: eq_alias_right)
    next
      case None
      with none1 Suc.prems(1) have "unify_heads (\<lambda>a b. unify_types n tlc (Consumed, a) (Consumed, b))
          t1 t2 c = Ok (Some c') rep" by (auto split: if_splits)
      from unify_heads_sound [OF Suc.IH this Suc.prems(2,3)] show ?thesis .
    qed
  qed
qed simp
section \<open>Ranges of the integer types\<close>

text \<open>The values of an integer type on a target whose pointers have \<open>w\<close> bits.\<close>

fun typ_range :: "nat \<Rightarrow> base_typ \<Rightarrow> int set" where
  "typ_range w T_UInt128 = {0..<2 ^ 128}"
| "typ_range w T_UInt64 = {0..<2 ^ 64}"
| "typ_range w T_UInt32 = {0..<2 ^ 32}"
| "typ_range w T_UInt16 = {0..<2 ^ 16}"
| "typ_range w T_UInt8 = {0..<2 ^ 8}"
| "typ_range w T_Usize = {0..<2 ^ w}"
| "typ_range w T_Int128 = {- (2 ^ 127)..<2 ^ 127}"
| "typ_range w T_Int64 = {- (2 ^ 63)..<2 ^ 63}"
| "typ_range w T_Int32 = {- (2 ^ 31)..<2 ^ 31}"
| "typ_range w T_Int16 = {- (2 ^ 15)..<2 ^ 15}"
| "typ_range w T_Int8 = {- (2 ^ 7)..<2 ^ 7}"
| "typ_range w T_Isize = {- (2 ^ (w - 1))..<2 ^ (w - 1)}"
| "typ_range w t = {}"

section \<open>Properties\<close>

text \<open>
  C11: when a type without variables is unified with a type whose variables are distinct, as an
  argument with the type in a generic signature, success instantiates the variables so that
  the two types are equal up to aliases.
\<close>

theorem unify_types_matches:
  assumes "aliases_closed tlc" and "tvars t1 = []" and "distinct (tvars t2)"
    and "unify_types n tlc (b1, t1) (b2, t2) Map.empty = Ok (Some c) rep"
  shows "\<exists>t2'. bind_variable_type t2 c = tc_return t2' \<and> typ_eq tlc t1 t2'"
  using unify_types_sound [OF assms(1,4,2,3)] by (simp add: unifies_def)

definition alias_example :: top_level_context where
  "alias_example = \<lparr>ctx_functions = [], ctx_consts = Map.empty,
     ctx_typ_dict = [TopLevelIdent ''Byte'' K_Type \<mapsto> ((Consumed, T_UInt8), D_Alias)]\<rparr>"

theorem unify_types_matches_witness:
  "aliases_closed alias_example
    \<and> (\<exists>t2'. bind_variable_type (T_Seq (T_Variable 0))
          [0 \<mapsto> T_UInt8] = tc_return t2'
        \<and> typ_eq alias_example (T_Seq (T_Named (TopLevelIdent ''Byte'' K_Type) None)) t2')"
proof -
  have "aliases_closed alias_example"
    by (auto simp: aliases_closed_def alias_example_def split: if_splits)
  moreover have "unify_types 3 alias_example
      (Consumed, T_Seq (T_Named (TopLevelIdent ''Byte'' K_Type) None)) (Consumed, T_Seq (T_Variable 0)) Map.empty
    = Ok (Some [0 \<mapsto> T_UInt8]) False"
    by (simp add: eval_nat_numeral unify_heads_def alias_example_def machine_integers_def tc_return_def)
  ultimately show ?thesis
    using unify_types_matches [of alias_example "T_Seq (T_Named (TopLevelIdent ''Byte'' K_Type) None)"
        "T_Seq (T_Variable 0)" 3 Consumed Consumed "[0 \<mapsto> T_UInt8]" False] by simp
qed

text \<open>
  C38: in a context whose aliases have no cycle, unification returns: some bound on the depth of its
  recursion is enough, and every larger bound gives the same result.
\<close>

theorem unify_types_terminates:
  assumes "aliases_ranked rk tlc"
  shows "\<exists>N. unify_types N tlc t1 t2 ctx \<noteq> Diverge
    \<and> (\<forall>m. unify_types (N + m) tlc t1 t2 ctx = unify_types N tlc t1 t2 ctx)"
proof -
  from assms obtain d1 d2 where "typ_depth tlc d1 (snd t1)" "typ_depth tlc d2 (snd t2)"
    using ranked_depth by blast
  then have ret: "unify_types (d1 + d2) tlc t1 t2 ctx \<noteq> Diverge"
    by (rule unify_types_returns) simp
  moreover have "unify_types (d1 + d2 + m) tlc t1 t2 ctx = unify_types (d1 + d2) tlc t1 t2 ctx" for m
    by (rule tc_leD [OF unify_types_mono ret]) simp
  ultimately show ?thesis by blast
qed

theorem unify_types_terminates_witness:
  "aliases_ranked (\<lambda>x. 0) alias_example
    \<and> (\<exists>N. unify_types N alias_example (Consumed, T_Named (TopLevelIdent ''Byte'' K_Type) None)
         (Consumed, T_UInt8) Map.empty \<noteq> Diverge)"
proof -
  have "aliases_ranked (\<lambda>x. 0) alias_example"
    by (auto simp: aliases_ranked_def alias_example_def split: if_splits)
  with unify_types_terminates [of "\<lambda>x. 0" alias_example
      "(Consumed, T_Named (TopLevelIdent ''Byte'' K_Type) None)" "(Consumed, T_UInt8)" Map.empty]
  show ?thesis by blast
qed

text \<open>
  instantiating a type returns a type when all its variables are bound, reports an error when
  one is not, leaves a type without variables alone, and never panics.
\<close>

theorem bind_variable_type_correct:
  "(if list_all (\<lambda>v. c v \<noteq> None) (tvars t) then \<exists>t'. bind_variable_type t c = tc_return t'
    else bind_variable_type t c = Err)
   \<and> (tvars t = [] = (\<forall>c. bind_variable_type t c = tc_return t))"
proof (intro conjI)
  show "if list_all (\<lambda>v. c v \<noteq> None) (tvars t) then \<exists>t'. bind_variable_type t c = tc_return t'
    else bind_variable_type t c = Err"
    using bind_variable_type_bound [of t c] bind_variable_type_unbound [of t c]
    by (auto simp: list_all_iff)
  have "bind_variable_type t Map.empty = Err" if "tvars t \<noteq> []"
    by (rule bind_variable_type_unbound) (use that in \<open>cases "tvars t"; auto\<close>)
  then show "tvars t = [] = (\<forall>c. bind_variable_type t c = tc_return t)"
    using bind_variable_type_closed(1) [of t] by (metis tc_return_neq(1))
qed

text \<open>
  unification binds a variable again without comparing with its binding: a tuple of a \<open>u8\<close> and a
  \<open>u32\<close> unifies with a tuple of twice the same variable, although no instance of the variable
  makes them equal.
\<close>

theorem unify_types_rebinds:
  "unify_types 2 tlc (Consumed, T_Tuple [T_UInt8, T_UInt32]) (Consumed, T_Tuple [T_Variable v, T_Variable v])
     Map.empty = Ok (Some [v \<mapsto> T_UInt32]) False
   \<and> bind_variable_type (T_Tuple [T_Variable v, T_Variable v]) [v \<mapsto> T_UInt32]
     = tc_return (T_Tuple [T_UInt32, T_UInt32])"
  by (simp add: eval_nat_numeral unify_heads_def machine_integers_def tc_return_def)

text \<open>
  the test for booleans follows an alias with the test for numbers: an alias of \<open>bool\<close> is not a
  boolean for the checker, and an alias of \<open>u8\<close> is one.
\<close>

theorem is_bool_follows_alias_as_numeric:
  assumes "ctx_typ_dict tlc name = Some ((Consumed, t), D_Alias)"
  shows "is_bool (Suc n) tlc (Consumed, T_Named name None) = is_numeric (Suc n) tlc (Consumed, t)
    \<and> (t = T_Bool \<longrightarrow> is_bool (Suc n) tlc (Consumed, T_Named name None) = tc_return False)
    \<and> (t = T_UInt8 \<longrightarrow> is_bool (Suc n) tlc (Consumed, T_Named name None) = tc_return True)"
  using assms by (simp add: machine_integers_def)

theorem is_bool_follows_alias_as_numeric_witness:
  "is_bool 1 alias_example (Consumed, T_Named (TopLevelIdent ''Byte'' K_Type) None) = tc_return True"
  using is_bool_follows_alias_as_numeric [of alias_example "TopLevelIdent ''Byte'' K_Type" T_UInt8 0]
  by (simp add: alias_example_def)

text \<open>
  a cast that the checker calls safe keeps the value on a target with pointers of 32 bits; on a
  target with pointers of 64 bits it does so except from \<open>usize\<close> to \<open>u32\<close> and from \<open>isize\<close> to \<open>i32\<close>.
\<close>

theorem safe_casting_range:
  assumes "is_safe_casting t1 t2"
  shows "typ_range 32 t1 \<subseteq> typ_range 32 t2
    \<and> (typ_range 64 t1 \<subseteq> typ_range 64 t2 \<longleftrightarrow>
        (t1, t2) \<noteq> (T_Usize, T_UInt32) \<and> (t1, t2) \<noteq> (T_Isize, T_Int32))"
  using assms by (cases t2) auto

theorem safe_casting_range_witness:
  "is_safe_casting T_Usize T_UInt32 \<and> \<not> typ_range 64 T_Usize \<subseteq> typ_range 64 T_UInt32"
  using safe_casting_range [of T_Usize T_UInt32] by simp

end
