(* ===== verification/Var_Context.thy ===== *)
theory Var_Context
  imports Typ_Unification
begin

text \<open>
  The contexts of \<open>language/src/typechecker.rs\<close>: variables and their types (\<open>VarContext\<close>), the search
  for functions (\<open>find_func\<close>), literals, patterns and the question mark.

  A \<open>VarContext\<close> is a record of two finite maps. A variable that has been moved is no longer in
  \<open>vc_vars\<close>: this is how the checker enforces linearity. The lemmas relate the contexts by
  \<open>vars_sub\<close>, the order in which a context loses variables.
\<close>

section \<open>Variable contexts\<close>

type_synonym var_info = "Typ \<times> string \<times> bool"

record var_context =
  vc_vars :: "(usize, var_info) fmap"
  vc_mutable_vars :: "(usize, var_info) fmap"

definition vc_new :: var_context where
  "vc_new = \<lparr>vc_vars = fmempty, vc_mutable_vars = fmempty\<rparr>"

definition vc_unit :: "usize \<Rightarrow> var_info \<Rightarrow> bool \<Rightarrow> var_context" where
  "vc_unit key val external =
     \<lparr>vc_vars = fmupd key val fmempty,
      vc_mutable_vars = (case val of (t, name, mut) \<Rightarrow>
        if mut then fmupd key (t, name, external) fmempty else fmempty)\<rparr>"

text \<open>\<open>HashMap::union\<close> prefers the values of \<open>self\<close>; \<open>intersection\<close> keeps them.\<close>

definition map_union :: "('k, 'v) fmap \<Rightarrow> ('k, 'v) fmap \<Rightarrow> ('k, 'v) fmap" where
  "map_union self other = other ++\<^sub>f self"

definition map_intersection :: "('k, 'v) fmap \<Rightarrow> ('k, 'v) fmap \<Rightarrow> ('k, 'v) fmap" where
  "map_intersection self other = fmfilter (\<lambda>k. fmlookup other k \<noteq> None) self"

definition vc_union :: "var_context \<Rightarrow> var_context \<Rightarrow> var_context" where
  "vc_union self other =
     \<lparr>vc_vars = map_union (vc_vars self) (vc_vars other),
      vc_mutable_vars = map_union (vc_mutable_vars self) (vc_mutable_vars other)\<rparr>"

definition vc_intersection :: "var_context \<Rightarrow> var_context \<Rightarrow> var_context" where
  "vc_intersection self other =
     \<lparr>vc_vars = map_intersection (vc_vars self) (vc_vars other),
      vc_mutable_vars = map_union (vc_mutable_vars self) (vc_mutable_vars other)\<rparr>"

definition vc_change :: "var_context \<Rightarrow> var_context \<Rightarrow> var_context" where
  "vc_change self other =
     \<lparr>vc_vars = vc_vars other,
      vc_mutable_vars = map_union (vc_mutable_vars self) (vc_mutable_vars other)\<rparr>"

section \<open>Signatures and the search for functions\<close>

fun sig_args :: "fn_value \<Rightarrow> Typ list tc" where
  "sig_args (F_Local sig) = tc_return (map snd (sig_args_of sig))"
| "sig_args (F_External sig) = tc_return (ext_args sig)"
| "sig_args (F_ExternalNotInHacspec s) = Panic"

fun sig_ret :: "fn_value \<Rightarrow> base_typ tc" where
  "sig_ret (F_Local sig) = tc_return (sig_ret_of sig)"
| "sig_ret (F_External sig) = tc_return (ext_ret sig)"
| "sig_ret (F_ExternalNotInHacspec s) = Panic"

fun sig_mut_vars :: "fn_value \<Rightarrow> scope_mutable_vars tc" where
  "sig_mut_vars (F_Local sig) = tc_return (sig_mutable_vars sig)"
| "sig_mut_vars (F_External sig) = tc_return smv_new"
| "sig_mut_vars (F_ExternalNotInHacspec s) = Panic"

text \<open>
  The closure of \<open>filter_map\<close> in \<open>find_func\<close>: \<open>None\<close> records the error flag, \<open>Some None\<close> drops the
  candidate, \<open>Some (Some ctx)\<close> keeps it.
\<close>

fun match_fn_key ::
  "nat \<Rightarrow> top_level_context \<Rightarrow> fn_key \<Rightarrow> fn_key \<Rightarrow> type_var_ctx option option tc" where
  "match_fn_key n tlc (Independent n1) (Independent n2) =
     tc_return (Some (if tli_string n1 = tli_string n2 then Some Map.empty else None))"
| "match_fn_key n tlc (Impl t1 n1) (Impl t2 n2) =
     tc_bind (dealias_type n tlc t2) (\<lambda>t2.
     tc_bind (tc_ok (unify_types n tlc (Consumed, t1) (Consumed, t2) Map.empty)) (\<lambda>unification.
     tc_return (case unification of
        Some (Some new_typ_ctx) \<Rightarrow>
          Some (if tli_string n1 = tli_string n2 then Some new_typ_ctx else None)
      | Some None \<Rightarrow> Some None
      | None \<Rightarrow> None)))"
| "match_fn_key n tlc key1 key2 = tc_return (Some None)"

fun fn_candidates :: "nat \<Rightarrow> top_level_context \<Rightarrow> fn_key \<Rightarrow> (fn_key \<times> fn_value) list \<Rightarrow>
    ((type_var_ctx \<times> fn_value) list \<times> bool) tc" where
  "fn_candidates n tlc key1 [] = tc_return ([], False)"
| "fn_candidates n tlc key1 ((key2, sig) # fs) =
     tc_bind (match_fn_key n tlc key1 key2) (\<lambda>m.
     tc_bind (fn_candidates n tlc key1 fs) (\<lambda>(cs, has_err).
     tc_return (case m of
        None \<Rightarrow> (cs, True)
      | Some None \<Rightarrow> (cs, has_err)
      | Some (Some ctx) \<Rightarrow> ((ctx, sig) # cs, has_err))))"

fun not_in_hacspec :: "fn_value \<Rightarrow> bool" where
  "not_in_hacspec (F_ExternalNotInHacspec s) = True"
| "not_in_hacspec f = False"

definition find_func :: "nat \<Rightarrow> top_level_context \<Rightarrow> fn_key \<Rightarrow> (fn_value \<times> type_var_ctx) tc" where
  "find_func n tlc key1 =
     tc_bind (case key1 of
         Independent n1 \<Rightarrow> tc_return key1
       | Impl t1 n1 \<Rightarrow> tc_bind (dealias_type n tlc t1) (\<lambda>t1. tc_return (Impl t1 n1))) (\<lambda>key1.
     tc_bind (fn_candidates n tlc key1 (ctx_functions tlc)) (\<lambda>(candidates, has_err).
     if has_err then Err
     else if candidates = [] then Err
     else (let candidates =
             (if list_all (\<lambda>c. not_in_hacspec (snd c)) candidates then candidates
              else filter (\<lambda>c. \<not> not_in_hacspec (snd c)) candidates)
           in case candidates of
                (typ_ctx, sig) # cs \<Rightarrow> tc_return (sig, typ_ctx)
              | [] \<Rightarrow> Err)))"

section \<open>Looking up and changing variables\<close>

fun find_typ :: "ident \<Rightarrow> var_context \<Rightarrow> top_level_context \<Rightarrow> Typ option tc" where
  "find_typ (Unresolved s) vc tlc = Panic"
| "find_typ (TopLevel name) vc tlc = tc_return (map_option (\<lambda>t. (Consumed, t)) (ctx_consts tlc name))"
| "find_typ (Local x) vc tlc = tc_return (map_option fst (fmlookup (vc_vars vc) (li_id x)))"

fun remove_var :: "ident \<Rightarrow> var_context \<Rightarrow> var_context tc" where
  "remove_var (Local x) vc = tc_return (vc\<lparr>vc_vars := fmdrop (li_id x) (vc_vars vc)\<rparr>)"
| "remove_var x vc = Panic"

fun add_var :: "ident \<Rightarrow> Typ \<Rightarrow> var_context \<Rightarrow> var_context tc" where
  "add_var (Local x) t vc =
     tc_return \<lparr>vc_vars = fmupd (li_id x) (t, li_name x, li_mutable x) (vc_vars vc),
       vc_mutable_vars =
         (if li_mutable x then fmupd (li_id x) (t, li_name x, False) (vc_mutable_vars vc)
          else vc_mutable_vars vc)\<rparr>"
| "add_var x t vc = Panic"

section \<open>Literals and payloads\<close>

fun get_literal_type :: "literal \<Rightarrow> base_typ tc" where
  "get_literal_type L_Unit = tc_return UnitTyp"
| "get_literal_type (L_Bool x) = tc_return T_Bool"
| "get_literal_type (L_Int128 x) = tc_return T_Int128"
| "get_literal_type (L_UInt128 x) = tc_return T_UInt128"
| "get_literal_type (L_Int64 x) = tc_return T_Int64"
| "get_literal_type (L_UInt64 x) = tc_return T_UInt64"
| "get_literal_type (L_Int32 x) = tc_return T_Int32"
| "get_literal_type (L_UInt32 x) = tc_return T_UInt32"
| "get_literal_type (L_Int16 x) = tc_return T_Int16"
| "get_literal_type (L_UInt16 x) = tc_return T_UInt16"
| "get_literal_type (L_Int8 x) = tc_return T_Int8"
| "get_literal_type (L_UInt8 x) = tc_return T_UInt8"
| "get_literal_type (L_Usize x) = tc_return T_Usize"
| "get_literal_type (L_Isize x) = tc_return T_Isize"
| "get_literal_type (L_Str x) = tc_return T_Str"
| "get_literal_type (L_UnspecifiedInt x) = Panic"

definition concretize_literal :: "literal \<Rightarrow> base_typ option \<Rightarrow> literal" where
  "concretize_literal lit expected_type =
     (case lit of
        L_UnspecifiedInt n \<Rightarrow>
          (case expected_type of
             Some T_UInt128 \<Rightarrow> L_UInt128 (ucast n)
           | Some T_Int128 \<Rightarrow> L_Int128 (ucast n)
           | Some T_UInt64 \<Rightarrow> L_UInt64 (ucast n)
           | Some T_Int64 \<Rightarrow> L_Int64 (ucast n)
           | Some T_UInt32 \<Rightarrow> L_UInt32 (ucast n)
           | Some T_Int32 \<Rightarrow> L_Int32 (ucast n)
           | Some T_UInt16 \<Rightarrow> L_UInt16 (ucast n)
           | Some T_Int16 \<Rightarrow> L_Int16 (ucast n)
           | Some T_UInt8 \<Rightarrow> L_UInt8 (ucast n)
           | Some T_Int8 \<Rightarrow> L_Int8 (ucast n)
           | Some T_Usize \<Rightarrow> L_Usize (ucast n)
           | Some T_Isize \<Rightarrow> L_Isize (ucast n)
           | _ \<Rightarrow> L_Usize (ucast n))
      | _ \<Rightarrow> lit)"

text \<open>The variable context built from the type parameters of an enum and its arguments.\<close>

definition enum_var_ctx :: "typ_var list \<Rightarrow> base_typ list option \<Rightarrow> type_var_ctx" where
  "enum_var_ctx type_args args = map_of (rev (zip type_args (case args of None \<Rightarrow> [] | Some ts \<Rightarrow> ts)))"

definition case_payload :: "base_typ option \<Rightarrow> typ_var list \<Rightarrow> base_typ list option \<Rightarrow> base_typ option tc" where
  "case_payload payload type_args args =
     (case payload of
        None \<Rightarrow> tc_return None
      | Some case_typ \<Rightarrow> tc_ok (bind_variable_type case_typ (enum_var_ctx type_args args)))"

fun type_of_payload ::
  "top_level_context \<Rightarrow> top_level_ident \<Rightarrow> string option \<Rightarrow> base_typ list option \<Rightarrow> base_typ option tc" where
  "type_of_payload tlc type_name variant applied_type_args =
     (case ctx_typ_dict tlc type_name of
        Some ((Consumed, T_Enum cases type_args), D_Enum) \<Rightarrow>
          (case (case variant of
                   None \<Rightarrow> (case cases of [] \<Rightarrow> None | c # cs \<Rightarrow> Some c)
                 | Some v \<Rightarrow> find (\<lambda>c. tli_string (fst c) = v) cases) of
             None \<Rightarrow> Panic
           | Some c \<Rightarrow> case_payload (snd c) type_args applied_type_args)
      | _ \<Rightarrow> tc_return None)"

section \<open>Patterns\<close>

definition consumed_alias :: "top_level_context \<Rightarrow> base_typ \<Rightarrow> base_typ option" where
  "consumed_alias tlc t =
     (case t of
        T_Named name None \<Rightarrow>
          (case ctx_typ_dict tlc name of
             Some ((Consumed, new_ty), D_Alias) \<Rightarrow> Some new_ty
           | _ \<Rightarrow> None)
      | _ \<Rightarrow> None)"

text \<open>The cases and the type parameters of the enum with the given name.\<close>

definition enum_cases :: "top_level_context \<Rightarrow> top_level_ident \<Rightarrow>
    ((top_level_ident \<times> base_typ option) list \<times> typ_var list) option" where
  "enum_cases tlc name =
     (case ctx_typ_dict tlc name of
        Some ((Consumed, T_Enum cases type_args), D_Enum) \<Rightarrow> Some (cases, type_args)
      | _ \<Rightarrow> None)"

fun typecheck_pattern ::
  "nat \<Rightarrow> top_level_context \<Rightarrow> pattern \<Rightarrow> Typ \<Rightarrow> (var_context \<times> pattern) tc" where
  "typecheck_pattern 0 tlc pat t = Diverge"
| "typecheck_pattern (Suc n) tlc pat (borrowing_typ, ty) =
     (case consumed_alias tlc ty of
        Some new_ty \<Rightarrow> typecheck_pattern n tlc pat (borrowing_typ, new_ty)
      | None \<Rightarrow>
     (case pat of
        P_EnumCase ty_name pat_enum_name inner_pat \<Rightarrow>
          (case ty of
             T_Named typ_name case_type_annotations \<Rightarrow>
               (case enum_cases tlc typ_name of
                  Some (cases, type_args) \<Rightarrow>
                    (case find (\<lambda>c. tli_string (fst c) = tli_string pat_enum_name) cases of
                       None \<Rightarrow> Panic
                     | Some c \<Rightarrow>
                         tc_bind (case_payload (snd c) type_args case_type_annotations) (\<lambda>case_typ.
                         case inner_pat of
                           Some inner_pat \<Rightarrow>
                             (case case_typ of
                                Some case_typ \<Rightarrow>
                                  tc_bind (typecheck_pattern n tlc inner_pat (borrowing_typ, case_typ))
                                    (\<lambda>(ctx, new_pat). tc_return (ctx,
                                       P_EnumCase (if ty_name = T_Placeholder then ty else ty_name)
                                         pat_enum_name (Some new_pat)))
                              | None \<Rightarrow> Err)
                         | None \<Rightarrow>
                             (case case_typ of Some case_typ \<Rightarrow> Err | None \<Rightarrow> tc_return (vc_new, pat))))
                | None \<Rightarrow> Err)
           | _ \<Rightarrow> Err)
      | P_Tuple pat_args \<Rightarrow>
          (case ty of
             T_Tuple typ_args \<Rightarrow>
               tc_bind (if length pat_args \<noteq> length typ_args then tc_report else tc_return ()) (\<lambda>u.
               tc_bind (tc_map (\<lambda>(pat_arg, typ_arg). typecheck_pattern n tlc pat_arg (borrowing_typ, typ_arg))
                 (zip pat_args typ_args)) (\<lambda>results.
               tc_return (foldl vc_union vc_new (map fst results), P_Tuple (map snd results))))
           | _ \<Rightarrow> Err)
      | P_WildCard \<Rightarrow> tc_return (vc_new, pat)
      | P_LiteralPat l \<Rightarrow>
          (let l = concretize_literal l (Some ty) in
           tc_bind (get_literal_type l) (\<lambda>lit_typ.
           if lit_typ = ty then tc_return (vc_new, P_LiteralPat l) else Err))
      | P_IdentPat x m \<Rightarrow>
          (case x of
             Local li \<Rightarrow>
               tc_return (vc_unit (li_id li) ((borrowing_typ, ty), li_name li, m) False, pat)
           | _ \<Rightarrow> Panic)))"

section \<open>Mutated variables\<close>

definition translate_var_context_to_mut_vars :: "var_context \<Rightarrow> scope_mutable_vars" where
  "translate_var_context_to_mut_vars vc =
     (let entries = fset_of_fmap (vc_mutable_vars vc);
          mut_var = (\<lambda>(i, (t, name, external)). (Local (LocalIdent i name True), Some t))
      in \<lparr>external_vars = mut_var |`| ffilter (\<lambda>(i, (t, name, external)). external) entries,
          local_vars = mut_var |`| ffilter (\<lambda>(i, (t, name, external)). \<not> external) entries\<rparr>)"

fun collect_some :: "'a option list \<Rightarrow> 'a list option" where
  "collect_some [] = Some []"
| "collect_some (x # xs) = do { y \<leftarrow> x; ys \<leftarrow> collect_some xs; Some (y # ys) }"

definition var_set_to_tuple :: "var_set \<Rightarrow> var_context \<Rightarrow> statement" where
  "var_set_to_tuple vars vc =
     (if vars \<noteq> {||} then
        (let xs = sorted_list_of_fset vars in
         S_ReturnExp (E_Tuple (map (\<lambda>i. E_Named (Local i)) xs))
           (map_option (\<lambda>tup. (Consumed, T_Tuple (map snd tup)))
             (collect_some (map (\<lambda>i. map_option fst (fmlookup (vc_vars vc) (li_id i))) xs))))
      else S_ReturnExp (E_Lit L_Unit) (Some (Consumed, UnitTyp)))"

section \<open>Carriers and the question mark\<close>

fun carrier_into :: "carrier_typ \<Rightarrow> base_typ" where
  "carrier_into (C_Option t1) = T_Named (TopLevelIdent ''Option'' K_EnumConstructor) (Some [t1])"
| "carrier_into (C_Result t1 t2) = T_Named (TopLevelIdent ''Result'' K_EnumConstructor) (Some [t1, t2])"

definition carrier_try_into :: "base_typ \<Rightarrow> carrier_typ option" where
  "carrier_try_into t =
     (case t of
        T_Named name (Some [t1]) \<Rightarrow>
          if tli_string name = ''Option'' then Some (C_Option t1) else None
      | T_Named name (Some [t1, t2]) \<Rightarrow>
          if tli_string name = ''Result'' then Some (C_Result t1 t2) else None
      | _ \<Rightarrow> None)"

fun pure_carrier :: "carrier_typ \<Rightarrow> expression \<Rightarrow> expression" where
  "pure_carrier (C_Option t) payload =
     E_EnumInject (carrier_into (C_Option t)) (TopLevelIdent ''Some'' K_EnumConstructor) (Some payload)"
| "pure_carrier (C_Result t e) payload =
     E_EnumInject (carrier_into (C_Result t e)) (TopLevelIdent ''Ok'' K_EnumConstructor) (Some payload)"

definition typecheck_question_mark ::
  "nat \<Rightarrow> top_level_context \<Rightarrow> bool \<Rightarrow> Typ \<Rightarrow> base_typ \<Rightarrow> Typ tc" where
  "typecheck_question_mark n tlc question_mark expr_typ return_typ =
     tc_bind (dealias_type n tlc (snd expr_typ)) (\<lambda>expr_base.
     tc_bind (dealias_type n tlc return_typ) (\<lambda>return_typ.
     if question_mark then
       (case (if fst expr_typ = Consumed then carrier_try_into expr_base else None) of
          None \<Rightarrow> Err
        | Some expr_carrier \<Rightarrow>
            (case carrier_try_into return_typ of
               Some return_carrier \<Rightarrow>
                 if carrier_kind expr_carrier = carrier_kind return_carrier
                 then tc_return (Consumed, carrier_payload expr_carrier)
                 else Err
             | None \<Rightarrow> Err))
     else tc_return (fst expr_typ, expr_base)))"

definition early_return_type_from_return_type ::
  "nat \<Rightarrow> top_level_context \<Rightarrow> base_typ \<Rightarrow> carrier_typ option tc" where
  "early_return_type_from_return_type n tlc return_typ =
     tc_bind (dealias_type n tlc return_typ) (\<lambda>t.
     case t of
       T_Named a (Some args) \<Rightarrow>
         if tli_string a = ''Option'' then
           (case args of t1 # ts \<Rightarrow> tc_return (Some (C_Option t1)) | [] \<Rightarrow> Panic)
         else if tli_string a = ''Result'' then
           (case args of t1 # t2 # ts \<Rightarrow> tc_return (Some (C_Result t1 t2)) | _ \<Rightarrow> Panic)
         else tc_return None
     | _ \<Rightarrow> tc_return None)"

section \<open>The order of contexts\<close>

definition vars_sub :: "var_context \<Rightarrow> var_context \<Rightarrow> bool" where
  "vars_sub a b \<longleftrightarrow> vc_vars a \<subseteq>\<^sub>f vc_vars b"

named_theorems vc_defs \<open>definitions of the operations on variable contexts\<close>

lemmas vc_op_defs [vc_defs] = vc_new_def vc_unit_def vc_union_def vc_intersection_def vc_change_def
  map_union_def map_intersection_def

lemma vars_subI: "(\<And>x v. fmlookup (vc_vars a) x = Some v \<Longrightarrow> fmlookup (vc_vars b) x = Some v) \<Longrightarrow> vars_sub a b"
  by (simp add: vars_sub_def fmsubset.rep_eq map_le_def dom_def) metis

lemma vars_subD: "vars_sub a b \<Longrightarrow> fmlookup (vc_vars a) x = Some v \<Longrightarrow> fmlookup (vc_vars b) x = Some v"
  unfolding vars_sub_def fmsubset.rep_eq map_le_def by (metis domI)

lemma vars_sub_refl [simp]: "vars_sub a a"
  by (rule vars_subI)

lemma vars_sub_trans: "vars_sub a b \<Longrightarrow> vars_sub b c \<Longrightarrow> vars_sub a c"
  by (auto intro: vars_subI dest: vars_subD)

lemma vars_sub_change [simp]: "vars_sub (vc_change a b) c \<longleftrightarrow> vars_sub b c"
  by (simp add: vars_sub_def vc_change_def)

lemma vars_sub_mutable [simp]: "vars_sub (a\<lparr>vc_mutable_vars := m\<rparr>) c \<longleftrightarrow> vars_sub a c"
  by (simp add: vars_sub_def)

lemma vars_sub_intersection_left: "vars_sub (vc_intersection a b) a"
  by (rule vars_subI) (auto simp: vc_defs split: if_splits)

lemma vars_sub_intersectionI: "vars_sub a c \<Longrightarrow> vars_sub (vc_intersection a b) c"
  using vars_sub_intersection_left vars_sub_trans by blast

lemma remove_var_Ok:
  "remove_var x vc = Ok vc' rep \<longleftrightarrow>
     (\<exists>li. x = Local li \<and> vc' = vc\<lparr>vc_vars := fmdrop (li_id li) (vc_vars vc)\<rparr> \<and> \<not> rep)"
  by (cases x) auto

lemma vars_sub_remove: "remove_var x vc = Ok vc' rep \<Longrightarrow> vars_sub vc' vc"
  by (auto simp: remove_var_Ok intro!: vars_subI split: if_splits)

section \<open>The variables of a pattern\<close>

text \<open>The context binds exactly the variables of the pattern, with the borrowing of the matched value.\<close>

definition binds_pattern :: "borrowing \<Rightarrow> pattern \<Rightarrow> var_context \<times> pattern \<Rightarrow> bool" where
  "binds_pattern b p r \<longleftrightarrow> fset (fmdom (vc_vars (fst r))) = set (pattern_ids p)
     \<and> (\<forall>x v. fmlookup (vc_vars (fst r)) x = Some v \<longrightarrow> fst (fst v) = b)
     \<and> pattern_ids (snd r) = pattern_ids p"

lemma binds_pattern_union:
  assumes "length rs = length ps" "\<forall>i < length ps. binds_pattern b (ps ! i) (rs ! i)"
    and "\<forall>x v. fmlookup (vc_vars vc) x = Some v \<longrightarrow> fst (fst v) = b"
  shows "fset (fmdom (vc_vars (foldl vc_union vc (map fst rs)))) = fset (fmdom (vc_vars vc)) \<union> set (concat (map pattern_ids ps))
    \<and> (\<forall>x v. fmlookup (vc_vars (foldl vc_union vc (map fst rs))) x = Some v \<longrightarrow> fst (fst v) = b)
    \<and> concat (map pattern_ids (map snd rs)) = concat (map pattern_ids ps)"
  using assms
proof (induction rs ps arbitrary: vc rule: list_induct2)
  case (Cons r rs p ps)
  have r: "binds_pattern b p r" using Cons.prems(1) by (metis length_greater_0_conv list.simps(3) nth_Cons_0)
  have rs: "\<forall>i < length ps. binds_pattern b (ps ! i) (rs ! i)"
    using Cons.prems(1) by (metis Suc_less_eq length_Cons nth_Cons_Suc)
  have "\<forall>x v. fmlookup (vc_vars (vc_union vc (fst r))) x = Some v \<longrightarrow> fst (fst v) = b"
    using Cons.prems(2) r by (auto simp: vc_defs binds_pattern_def split: if_splits)
  from Cons.IH [OF rs this] r show ?case
    by (auto simp: binds_pattern_def vc_defs)
qed auto

lemma typecheck_pattern_binds:
  "typecheck_pattern n tlc p (b, t) = Ok r False \<Longrightarrow> binds_pattern b p r"
proof (induction n arbitrary: p t r)
  case (Suc n)
  show ?case
  proof (cases "consumed_alias tlc t")
    case (Some t')
    with Suc show ?thesis by simp
  next
    case None
    show ?thesis
    proof (cases p)
      case (P_Tuple ps)
      with None Suc.prems obtain ts where t: "t = T_Tuple ts" and len: "length ps = length ts"
        by (cases t) (auto split: if_splits simp: tc_bind_Ok_iff)
      with P_Tuple None Suc.prems obtain rs where
        rs: "tc_map (\<lambda>(p, t). typecheck_pattern n tlc p (b, t)) (zip ps ts) = Ok rs False"
        and r: "r = (foldl vc_union vc_new (map fst rs), P_Tuple (map snd rs))"
        by (auto simp: tc_bind_Ok_iff)
      have "binds_pattern b (ps ! i) (rs ! i)" if "i < length ps" for i
        by (rule Suc.IH [where t = "ts ! i"]) (use that tc_map_Ok [OF rs] len in auto)
      then have all: "length rs = length ps" "\<forall>i < length ps. binds_pattern b (ps ! i) (rs ! i)"
        using tc_map_Ok [OF rs] len by auto
      from binds_pattern_union [OF all, of vc_new] show ?thesis
        unfolding r P_Tuple by (simp add: binds_pattern_def vc_new_def)
    next
      case (P_EnumCase tn name ip)
      show ?thesis
      proof (cases ip)
        case ip: None
        with None Suc.prems P_EnumCase have "r = (vc_new, p)"
          by (cases t) (auto simp: tc_bind_Ok_iff split: option.splits prod.splits)
        with ip P_EnumCase show ?thesis by (simp add: binds_pattern_def vc_new_def)
      next
        case (Some p')
        with None Suc.prems P_EnumCase have "\<exists>ct q tn'. typecheck_pattern n tlc p' (b, ct) = Ok (fst r, q) False
            \<and> snd r = P_EnumCase tn' name (Some q)"
          by (cases t) (fastforce simp: tc_bind_Ok_iff split: option.splits prod.splits)+
        with Suc.IH Some P_EnumCase show ?thesis by (fastforce simp: binds_pattern_def)
      qed
    next
      case (P_IdentPat x m)
      with None Suc.prems show ?thesis
        by (cases x) (auto simp: binds_pattern_def vc_unit_def split: if_splits)
    qed (use None Suc.prems in \<open>auto simp: binds_pattern_def vc_new_def tc_bind_Ok_iff Let_def split: if_splits\<close>)
  qed
qed simp

text \<open>
  a pattern that is accepted without a reported error binds exactly its own variables, each with
  the borrowing of the value it matches, and the checked pattern has the same variables.
\<close>

theorem pattern_binds_its_variables:
  assumes "typecheck_pattern n tlc p (b, t) = Ok (vc, p') False"
  shows "fset (fmdom (vc_vars vc)) = set (pattern_ids p)
    \<and> list_all (\<lambda>x. map_option (fst \<circ> fst) (fmlookup (vc_vars vc) x) = Some b) (pattern_ids p)
    \<and> pattern_ids p' = pattern_ids p"
proof -
  from typecheck_pattern_binds [OF assms] have *: "binds_pattern b p (vc, p')" .
  then have "\<exists>v. fmlookup (vc_vars vc) x = Some v \<and> fst (fst v) = b" if "x \<in> set (pattern_ids p)" for x
    using that unfolding binds_pattern_def by (metis fmlookup_dom_iff fst_conv)
  with * show ?thesis by (fastforce simp: binds_pattern_def list_all_iff)
qed

theorem pattern_binds_its_variables_witness:
  "list_all (\<lambda>x. map_option (fst \<circ> fst) (fmlookup (vc_vars
      (vc_union (vc_union vc_new (vc_unit 1 ((Consumed, T_UInt8), ''a'', False) False)) vc_new)) x)
        = Some Consumed) [1]"
proof -
  have "typecheck_pattern 2 alias_example
      (P_Tuple [P_IdentPat (Local (LocalIdent 1 ''a'' False)) False, P_WildCard]) (Consumed, T_Tuple [T_UInt8, T_Bool])
    = Ok (vc_union (vc_union vc_new (vc_unit 1 ((Consumed, T_UInt8), ''a'', False) False)) vc_new,
        P_Tuple [P_IdentPat (Local (LocalIdent 1 ''a'' False)) False, P_WildCard]) False"
    by (simp add: eval_nat_numeral consumed_alias_def tc_return_def)
  from pattern_binds_its_variables [OF this] show ?thesis by simp
qed

text \<open>
  a carrier type survives its translation to a base type and back, and the question mark on a value of
  carrier type gives the payload when the function returns the same kind of carrier, and is an
  error otherwise.
\<close>

theorem question_mark_carrier:
  "carrier_try_into (carrier_into c) = Some c
   \<and> typecheck_question_mark (Suc n) tlc True (Consumed, carrier_into c) (carrier_into d)
     = (if carrier_kind c = carrier_kind d then tc_return (Consumed, carrier_payload c) else Err)
   \<and> typecheck_question_mark (Suc n) tlc True (Borrowed, carrier_into c) (carrier_into d) = Err"
  by (cases c; cases d) (simp_all add: carrier_try_into_def typecheck_question_mark_def)

end
