(* ===== verification/Typecheck_Expression.thy ===== *)
theory Typecheck_Expression
  imports Elab_Monadic_Lets
begin

text \<open>
  \<open>typecheck_expression\<close> of \<open>language/src/typechecker.rs\<close>. Each arm of the match is a definition that
  takes the recursive call as an argument; \<open>typecheck_expression\<close> ties the knot by recursion on the
  expression, and the congruence rules of the arms show that they only recur on its parts. The bound
  \<open>n\<close> only limits the depth of types (chains of aliases).

  The lemmas show that the checked expression carries the annotations on which the elaboration of
  question marks relies, with the one exception that the code makes. The use of linear variables is
  the subject of \<open>Linear_Use\<close>.
\<close>

type_synonym checked = "expression \<times> Typ \<times> var_context"

type_synonym check_fun = "expression \<Rightarrow> base_typ option \<Rightarrow> var_context \<Rightarrow> checked tc"

section \<open>The arms of the match\<close>

definition check_question_mark :: "nat \<Rightarrow> top_level_context \<Rightarrow> base_typ option \<Rightarrow> check_fun \<Rightarrow>
    expression \<Rightarrow> base_typ option \<Rightarrow> var_context \<Rightarrow> checked tc" where
  "check_question_mark n tlc func_return_type rec qe expected_type vc =
     (case func_return_type of
        Some return_typ \<Rightarrow>
          tc_bind (rec qe (map_option carrier_payload (Option.bind expected_type carrier_try_into)) vc)
            (\<lambda>(qe, t, vc).
          case carrier_try_into (snd t) of
            None \<Rightarrow> Panic
          | Some carrier \<Rightarrow>
              tc_bind (typecheck_question_mark n tlc True t return_typ) (\<lambda>t.
              tc_return (E_QuestionMark qe (Some carrier), t, vc)))
      | None \<Rightarrow> Err)"

definition tuple_expected :: "base_typ option \<Rightarrow> nat \<Rightarrow> base_typ option list" where
  "tuple_expected expected_type len =
     (case expected_type of
        Some (T_Tuple typs) \<Rightarrow> if length typs = len then map Some typs else replicate len None
      | _ \<Rightarrow> replicate len None)"

definition check_tuple_arg :: "check_fun \<Rightarrow> expression \<times> base_typ option \<Rightarrow> var_context \<Rightarrow>
    (expression \<times> base_typ) tc \<times> var_context" where
  "check_tuple_arg rec p vc = (case p of (arg, expected) \<Rightarrow>
     closure_bind (rec arg expected vc) vc (\<lambda>(new_arg, (arg_typ_borrowing, arg_typ), new_vc).
       (case arg_typ_borrowing of
          Borrowed \<Rightarrow> Err
        | Consumed \<Rightarrow> tc_return (new_arg, arg_typ), vc_change vc new_vc)))"

definition check_tuple :: "check_fun \<Rightarrow> expression list \<Rightarrow> base_typ option \<Rightarrow> var_context \<Rightarrow> checked tc" where
  "check_tuple rec args expected_type vc =
     tc_bind (check_vec (check_tuple_arg rec) (zip args (tuple_expected expected_type (length args))) vc)
       (\<lambda>(new_arg_and_typ, vc).
     tc_return (E_Tuple (map fst new_arg_and_typ), (Consumed, T_Tuple (map snd new_arg_and_typ)), vc))"

definition check_named :: "nat \<Rightarrow> top_level_context \<Rightarrow> ident \<Rightarrow> var_context \<Rightarrow> checked tc" where
  "check_named n tlc x vc =
     tc_bind (find_typ x vc tlc) (\<lambda>r. case r of
       None \<Rightarrow> Err
     | Some t \<Rightarrow>
         if fst t = Consumed then
           tc_bind (is_copy n tlc (snd t)) (\<lambda>copy.
           if copy then tc_return (E_Named x, t, vc)
           else tc_bind (remove_var x vc) (\<lambda>new_vc. tc_return (E_Named x, t, new_vc)))
         else tc_return (E_Named x, t, vc))"

text \<open>The closure over the arms of a match mutates the accumulated context and the type of the result.\<close>

definition check_arm :: "nat \<Rightarrow> top_level_context \<Rightarrow> check_fun \<Rightarrow> Typ \<Rightarrow> base_typ option \<Rightarrow> var_context \<Rightarrow>
    pattern \<times> expression \<Rightarrow> var_context \<times> Typ option \<Rightarrow>
    (pattern \<times> expression) tc \<times> var_context \<times> Typ option" where
  "check_arm n tlc rec t_arg expected_type intermediate arm s =
     (case arm of (arm_pattern, arm_exp) \<Rightarrow> case s of (acc_vc, out_typ) \<Rightarrow>
      closure_bind (typecheck_pattern n tlc arm_pattern t_arg) s (\<lambda>(pat_vc, new_arm_pattern).
      closure_bind (rec arm_exp expected_type (vc_union intermediate pat_vc)) s
        (\<lambda>(new_arm_exp, arm_typ, new_vc).
      (tc_bind (case out_typ of
           None \<Rightarrow> tc_return Map.empty
         | Some out_typ \<Rightarrow> unify_types_default_error_message n tlc arm_typ out_typ Map.empty) (\<lambda>u.
       tc_return (new_arm_pattern, new_arm_exp)),
       vc_intersection acc_vc new_vc, Some (case out_typ of None \<Rightarrow> arm_typ | Some out_typ \<Rightarrow> out_typ)))))"

definition check_match_with :: "nat \<Rightarrow> top_level_context \<Rightarrow> check_fun \<Rightarrow> expression \<Rightarrow>
    (pattern \<times> expression) list \<Rightarrow> base_typ option \<Rightarrow> var_context \<Rightarrow> checked tc" where
  "check_match_with n tlc rec arg arms expected_type vc =
     tc_bind (rec arg None vc) (\<lambda>(new_arg, t_arg, intermediate).
     tc_bind (check_vec (check_arm n tlc rec t_arg expected_type intermediate) arms (intermediate, None))
       (\<lambda>(new_arms, acc_vc, out_typ).
     case out_typ of
       None \<Rightarrow> Panic
     | Some out_typ \<Rightarrow> tc_return (E_MatchWith new_arg new_arms, out_typ, acc_vc)))"

definition field_types :: "top_level_context \<Rightarrow> base_typ \<Rightarrow> base_typ list tc" where
  "field_types tlc t =
     (case t of
        T_Tuple types \<Rightarrow> tc_return types
      | T_Named type_name args \<Rightarrow>
          tc_bind (type_of_payload tlc type_name None args) (\<lambda>r.
          tc_return (case r of
            Some t \<Rightarrow> (case t of T_Tuple args \<Rightarrow> args | _ \<Rightarrow> [t])
          | None \<Rightarrow> []))
      | _ \<Rightarrow> tc_return [])"

definition check_field_accessor :: "top_level_context \<Rightarrow> check_fun \<Rightarrow> expression \<Rightarrow> int \<Rightarrow> var_context \<Rightarrow> checked tc" where
  "check_field_accessor tlc rec e1 field vc =
     tc_bind (rec e1 None vc) (\<lambda>(e1, (e1_borrow, e1_ty), vc).
     tc_bind (field_types tlc e1_ty) (\<lambda>types.
     if 0 \<le> field \<and> nat field < length types
     then tc_return (E_FieldAccessor e1 field, (e1_borrow, types ! nat field), vc)
     else Err))"

text \<open>The constructors of enums: the enum, the case, and what is expected of the payload.\<close>

definition inject_enum_type :: "nat \<Rightarrow> top_level_context \<Rightarrow> base_typ \<Rightarrow> base_typ option \<Rightarrow> base_typ tc" where
  "inject_enum_type n tlc enum_ty expected_type =
     (if enum_ty = T_Placeholder then
        (case expected_type of
           Some expected_type \<Rightarrow> dealias_type n tlc expected_type
         | None \<Rightarrow> Err)
      else tc_return enum_ty)"

definition inject_cases :: "top_level_context \<Rightarrow> base_typ \<Rightarrow>
    ((top_level_ident \<times> base_typ option) list \<times> top_level_ident \<times> base_typ list option) tc" where
  "inject_cases tlc enum_ty =
     (case enum_ty of
        T_Named enum_name args \<Rightarrow>
          (case enum_cases tlc enum_name of
             Some (cases, type_args) \<Rightarrow>
               (case args of
                  None \<Rightarrow> if length type_args \<noteq> 0 then Err else tc_return (cases, enum_name, args)
                | Some ts \<Rightarrow> if length ts \<noteq> length type_args then Err else tc_return (cases, enum_name, args))
           | None \<Rightarrow> Err)
      | _ \<Rightarrow> Panic)"

definition payload_expected :: "nat \<Rightarrow> top_level_context \<Rightarrow> base_typ \<Rightarrow> base_typ option \<Rightarrow> base_typ option tc" where
  "payload_expected n tlc case_typ expected_type =
     (case expected_type of
        None \<Rightarrow> tc_return None
      | Some expected_type \<Rightarrow>
          tc_bind (tc_ok (unify_types n tlc (Consumed, case_typ) (Consumed, expected_type) Map.empty)) (\<lambda>r.
          case r of
            Some (Some ctx) \<Rightarrow> tc_ok (bind_variable_type expected_type ctx)
          | _ \<Rightarrow> tc_return None))"

definition check_enum_inject :: "nat \<Rightarrow> top_level_context \<Rightarrow> check_fun \<Rightarrow> base_typ \<Rightarrow> top_level_ident \<Rightarrow>
    expression option \<Rightarrow> base_typ option \<Rightarrow> var_context \<Rightarrow> checked tc" where
  "check_enum_inject n tlc rec enum_ty case_name payload expected_type vc =
     tc_bind (inject_enum_type n tlc enum_ty expected_type) (\<lambda>enum_ty.
     tc_bind (inject_cases tlc enum_ty) (\<lambda>(cases, enum_name, enum_args).
     case find (\<lambda>c. fst c = case_name) cases of
       None \<Rightarrow> Err
     | Some c \<Rightarrow>
         (case payload of
            None \<Rightarrow>
              (case snd c of
                 None \<Rightarrow> tc_return (E_EnumInject enum_ty case_name None, (Consumed, T_Named enum_name enum_args), vc)
               | Some case_typ \<Rightarrow> Err)
          | Some payload \<Rightarrow>
              (case snd c of
                 None \<Rightarrow> Err
               | Some case_typ \<Rightarrow>
                   tc_bind (payload_expected n tlc case_typ expected_type) (\<lambda>expected.
                   tc_bind (rec payload expected vc) (\<lambda>(new_payload, payload_type, new_vc).
                   tc_bind (unify_types_default_error_message n tlc (Consumed, case_typ) payload_type Map.empty) (\<lambda>u.
                   tc_return (E_EnumInject enum_ty case_name (Some new_payload),
                     (Consumed, T_Named enum_name enum_args), new_vc))))))))"

definition check_inline_conditional :: "nat \<Rightarrow> top_level_context \<Rightarrow> check_fun \<Rightarrow> expression \<Rightarrow> expression \<Rightarrow>
    expression \<Rightarrow> base_typ option \<Rightarrow> var_context \<Rightarrow> checked tc" where
  "check_inline_conditional n tlc rec cond e_t e_f expected_type vc =
     tc_bind (rec cond (Some T_Bool) vc) (\<lambda>(new_cond, t_cond, vc).
     tc_bind (unify_types_default_error_message n tlc t_cond (Consumed, T_Bool) Map.empty) (\<lambda>u.
     tc_bind (rec e_t expected_type vc) (\<lambda>(new_e_t, t_e_t, vc_true).
     tc_bind (rec e_f expected_type vc) (\<lambda>(new_e_f, t_e_f, vc_false).
     tc_bind (unify_types_default_error_message n tlc t_e_t t_e_f Map.empty) (\<lambda>u.
     tc_return (E_InlineConditional new_cond new_e_t new_e_f, t_e_t,
       vc_intersection (vc_intersection vc vc_true) vc_false))))))"

definition is_comparison :: "bin_op_kind \<Rightarrow> bool" where
  "is_comparison op \<longleftrightarrow> op \<in> {B_Eq, B_Lt, B_Le, B_Ne, B_Ge, B_Gt}"

text \<open>The type of the result of a binary operator on operands of types \<open>t1\<close> and \<open>t2\<close>.\<close>

definition binary_result :: "nat \<Rightarrow> top_level_context \<Rightarrow> bin_op_kind \<Rightarrow> Typ \<Rightarrow> Typ \<Rightarrow> Typ tc" where
  "binary_result n tlc op t1 t2 =
     (if op \<in> {B_Shl, B_Shr} then
        (if snd t2 \<in> {T_UInt32, T_Usize} then
           tc_bind (is_numeric n tlc t1) (\<lambda>num. if num then tc_return t1 else Err)
         else Err)
      else
        tc_bind (unify_types n tlc t1 t2 Map.empty) (\<lambda>r.
        if r = None then Err
        else tc_bind (is_numeric n tlc t1) (\<lambda>num.
          if num \<or> op \<in> {B_Eq, B_Ne} then
            tc_return (if is_comparison op then (Consumed, T_Bool) else t1)
          else tc_bind (is_bool n tlc t1) (\<lambda>b.
            if b \<and> op \<in> {B_And, B_Or} then tc_return (Consumed, T_Bool) else Err))))"

definition check_binary :: "nat \<Rightarrow> top_level_context \<Rightarrow> check_fun \<Rightarrow> bin_op_kind \<Rightarrow> expression \<Rightarrow> expression \<Rightarrow>
    var_context \<Rightarrow> checked tc" where
  "check_binary n tlc rec op e1 e2 vc =
     tc_bind (rec e1 None vc) (\<lambda>(new_e1, t1, vc).
     tc_bind (rec e2 None vc) (\<lambda>(new_e2, t2, vc).
     tc_bind (binary_result n tlc op t1 t2) (\<lambda>t.
     tc_return (E_Binary op new_e1 new_e2 (Some t1), t, vc))))"

definition check_unary :: "check_fun \<Rightarrow> un_op_kind \<Rightarrow> expression \<Rightarrow> var_context \<Rightarrow> checked tc" where
  "check_unary rec op e1 vc =
     tc_bind (rec e1 None vc) (\<lambda>(new_e1, e1_typ, new_vc).
     tc_return (E_Unary op new_e1 (Some e1_typ), e1_typ, new_vc))"

definition check_lit :: "literal \<Rightarrow> base_typ option \<Rightarrow> var_context \<Rightarrow> checked tc" where
  "check_lit lit expected_type vc =
     (let lit = concretize_literal lit expected_type in
      tc_bind (get_literal_type lit) (\<lambda>t. tc_return (E_Lit lit, (Consumed, t), vc)))"

text \<open>The closures over the elements of an array literal: of a declared array type, and of a sequence.\<close>

definition check_array_element :: "nat \<Rightarrow> top_level_context \<Rightarrow> check_fun \<Rightarrow> base_typ \<Rightarrow> expression \<Rightarrow>
    var_context \<Rightarrow> expression tc \<times> var_context" where
  "check_array_element n tlc rec cell_type element vc =
     closure_bind (rec element None vc) vc (\<lambda>(new_element, element_typ, new_vc).
       (tc_bind (unify_types n tlc (Consumed, cell_type) element_typ Map.empty) (\<lambda>r.
        if r = None then Err else tc_return new_element), new_vc))"

definition check_seq_element :: "nat \<Rightarrow> top_level_context \<Rightarrow> check_fun \<Rightarrow> expression \<Rightarrow>
    base_typ option \<times> var_context \<Rightarrow> expression tc \<times> base_typ option \<times> var_context" where
  "check_seq_element n tlc rec element s = (case s of (cell_type, vc) \<Rightarrow>
     closure_bind (rec element None vc) s (\<lambda>(new_element, element_typ, new_vc).
       case cell_type of
         Some cell \<Rightarrow>
           (tc_bind (unify_types n tlc (Consumed, cell) element_typ Map.empty) (\<lambda>r.
            if r = None then Err else tc_return new_element), cell_type, new_vc)
       | None \<Rightarrow>
           (case fst element_typ of
              Consumed \<Rightarrow> (tc_return element, Some (snd element_typ), new_vc)
            | Borrowed \<Rightarrow> (Err, cell_type, new_vc))))"

definition check_new_array :: "nat \<Rightarrow> top_level_context \<Rightarrow> check_fun \<Rightarrow> top_level_ident option \<Rightarrow>
    expression list \<Rightarrow> var_context \<Rightarrow> checked tc" where
  "check_new_array n tlc rec array_type elements vc =
     (case array_type of
        Some array_type \<Rightarrow>
          tc_bind (is_array n tlc (Consumed, T_Named array_type None)) (\<lambda>(array_len, cell_type).
          case array_len of
            None \<Rightarrow> Err
          | Some array_len \<Rightarrow>
              tc_bind (case array_len of
                  Size_Integer len \<Rightarrow> if length elements \<noteq> len then tc_report else tc_return ()
                | Size_Ident x \<Rightarrow> tc_return ()) (\<lambda>u.
              tc_bind (check_vec (check_array_element n tlc rec cell_type) elements vc) (\<lambda>(new_elements, vc).
              tc_return (E_NewArray (Some array_type) (Some cell_type) new_elements,
                (Consumed, T_Named array_type None), vc))))
      | None \<Rightarrow>
          tc_bind (check_vec (check_seq_element n tlc rec) elements (None, vc)) (\<lambda>(new_elements, cell_type, vc).
          case cell_type of
            None \<Rightarrow> Err
          | Some cell_type \<Rightarrow>
              tc_return (E_NewArray None (Some cell_type) new_elements, (Consumed, T_Seq cell_type), vc)))"

definition check_array_index :: "nat \<Rightarrow> top_level_context \<Rightarrow> check_fun \<Rightarrow> ident \<Rightarrow> expression \<Rightarrow>
    var_context \<Rightarrow> checked tc" where
  "check_array_index n tlc rec x e2 vc =
     tc_bind (find_typ x vc tlc) (\<lambda>r. case r of
       None \<Rightarrow> Err
     | Some t1 \<Rightarrow>
         tc_bind (rec e2 None vc) (\<lambda>(new_e2, t2, vc).
         tc_bind (is_array n tlc t1) (\<lambda>(len, cell_t).
         if fst t2 = Borrowed then Err
         else tc_bind (is_index n tlc (snd t2)) (\<lambda>idx.
           if idx then tc_return (E_ArrayIndex x new_e2 (Some t1), (Consumed, cell_t), vc)
           else Err))))"

section \<open>Calls\<close>

fun is_named :: "expression \<Rightarrow> bool" where
  "is_named (E_Named x) = True"
| "is_named e = False"

text \<open>
  The loop over the parameters of a signature and the arguments of the call. A borrowed variable is
  not consumed.
\<close>

fun check_args :: "nat \<Rightarrow> top_level_context \<Rightarrow> check_fun \<Rightarrow> (Typ \<times> expression \<times> borrowing) list \<Rightarrow>
    var_context \<Rightarrow> type_var_ctx \<Rightarrow>
    ((expression \<times> borrowing) list \<times> base_typ list \<times> var_context \<times> type_var_ctx) tc" where
  "check_args n tlc rec [] vc typ_var_ctx = tc_return ([], [], vc, typ_var_ctx)"
| "check_args n tlc rec ((sig_t, arg, arg_borrow) # rest) vc typ_var_ctx =
     tc_bind (rec arg (Some (snd sig_t)) vc) (\<lambda>(new_arg, arg_t, new_vc).
     tc_bind (case arg_borrow of
         Borrowed \<Rightarrow>
           (case fst arg_t of
              Borrowed \<Rightarrow> Err
            | Consumed \<Rightarrow> tc_return ((Borrowed, snd arg_t), if is_named arg then vc else new_vc))
       | Consumed \<Rightarrow> tc_return (arg_t, new_vc)) (\<lambda>(new_arg_t, vc).
     tc_bind (unify_types n tlc new_arg_t sig_t typ_var_ctx) (\<lambda>r. case r of
       None \<Rightarrow> Err
     | Some typ_var_ctx \<Rightarrow>
         tc_bind (check_args n tlc rec rest vc typ_var_ctx)
           (\<lambda>(new_args, new_arg_types, vc, typ_var_ctx).
         tc_return ((new_arg, arg_borrow) # new_args, snd new_arg_t # new_arg_types, vc, typ_var_ctx)))))"

text \<open>
  The loop over the mutable variables of the callee, a hash set whose order of iteration is not
  fixed: an identifier occurs in it with one type and one name, and \<open>the_elem\<close> says nothing otherwise.
\<close>

definition mutable_entry :: "mutable_var \<Rightarrow> (usize \<times> var_info) option" where
  "mutable_entry v = (case v of
     (Local x, Some t) \<Rightarrow> Some (li_id x, t, li_name x, True)
   | _ \<Rightarrow> None)"

definition update_mutable_vars :: "scope_mutable_vars \<Rightarrow> var_context \<Rightarrow> var_context" where
  "update_mutable_vars mut_vars vc =
     (let entries = (the \<circ> mutable_entry) |`| ffilter (\<lambda>v. mutable_entry v \<noteq> None)
            (local_vars mut_vars |\<union>| external_vars mut_vars);
          ids = sorted_list_of_fset (fst |`| entries)
      in vc\<lparr>vc_mutable_vars := vc_mutable_vars vc ++\<^sub>f
           fmap_of_list (map (\<lambda>i. (i, the_elem (fset (snd |`| ffilter (\<lambda>p. fst p = i) entries)))) ids)\<rparr>)"

definition check_func_call :: "nat \<Rightarrow> top_level_context \<Rightarrow> check_fun \<Rightarrow> base_typ option \<Rightarrow> top_level_ident \<Rightarrow>
    (expression \<times> borrowing) list \<Rightarrow> var_context \<Rightarrow> checked tc" where
  "check_func_call n tlc rec prefix name args vc =
     tc_bind (find_func n tlc (case prefix of None \<Rightarrow> Independent name | Some prefix \<Rightarrow> Impl prefix name))
       (\<lambda>(f_sig, typ_var_ctx).
     if not_in_hacspec f_sig then Err
     else
     tc_bind (sig_args f_sig) (\<lambda>sig_args.
     tc_bind (if length sig_args \<noteq> length args then tc_report else tc_return ()) (\<lambda>u.
     tc_bind (check_args n tlc rec (zip sig_args args) vc typ_var_ctx)
       (\<lambda>(new_args, new_arg_types, vc, typ_var_ctx).
     tc_bind (sig_ret f_sig) (\<lambda>ret_ty.
     tc_bind (bind_variable_type ret_ty typ_var_ctx) (\<lambda>ret_ty.
     tc_bind (sig_mut_vars f_sig) (\<lambda>external_mut_vars.
     tc_return (E_FuncCall prefix name new_args (Some new_arg_types), (Consumed, ret_ty),
       update_mutable_vars external_mut_vars vc))))))))"

definition implicit_borrow :: "borrowing \<Rightarrow> borrowing \<Rightarrow> borrowing \<Rightarrow> borrowing" where
  "implicit_borrow sel_borrow sel_typ_borrow sig_borrow =
     (if sel_borrow = Consumed \<and> sel_typ_borrow = Consumed \<and> sig_borrow = Borrowed
      then Borrowed else sel_borrow)"

definition check_method_call :: "nat \<Rightarrow> top_level_context \<Rightarrow> check_fun \<Rightarrow> expression \<times> borrowing \<Rightarrow>
    top_level_ident \<Rightarrow> (expression \<times> borrowing) list \<Rightarrow> var_context \<Rightarrow> checked tc" where
  "check_method_call n tlc rec sel f orig_args vc =
     tc_bind (rec (fst sel) None vc) (\<lambda>(sel0, sel_typ, sel_vc).
     tc_bind (find_func n tlc (Impl (snd sel_typ) f)) (\<lambda>(f_sig, typ_var_ctx).
     if not_in_hacspec f_sig then Err
     else
     tc_bind (sig_args f_sig) (\<lambda>sig_args.
     case sig_args of
       [] \<Rightarrow> Panic
     | sig_self # sig_rest \<Rightarrow>
     let args = (fst sel, implicit_borrow (snd sel) (fst sel_typ) (fst sig_self)) # orig_args in
     tc_bind (if length sig_args \<noteq> length args then tc_report else tc_return ()) (\<lambda>u.
     tc_bind (check_args n tlc rec (zip sig_args args) vc typ_var_ctx)
       (\<lambda>(new_args, new_arg_types, vc, typ_var_ctx).
     tc_bind (sig_ret f_sig) (\<lambda>ret_ty.
     tc_bind (bind_variable_type ret_ty typ_var_ctx) (\<lambda>ret_ty.
     tc_bind (sig_mut_vars f_sig) (\<lambda>external_mut_vars.
     tc_return (E_MethodCall (hd new_args) (Some sel_typ) f (tl new_args) (Some (tl new_arg_types)),
       (Consumed, ret_ty), update_mutable_vars external_mut_vars vc)))))))))"

definition check_integer_casting :: "nat \<Rightarrow> top_level_context \<Rightarrow> check_fun \<Rightarrow> expression \<Rightarrow> base_typ \<Rightarrow>
    var_context \<Rightarrow> checked tc" where
  "check_integer_casting n tlc rec e1 t1 vc =
     tc_bind (rec e1 None vc) (\<lambda>(new_e1, e1_typ, vc).
     if fst e1_typ = Borrowed then Err
     else tc_bind (is_castable_integer n tlc (snd e1_typ)) (\<lambda>castable.
     if \<not> castable then Err
     else tc_bind (is_castable_integer n tlc t1) (\<lambda>castable.
     if \<not> castable then Err
     else tc_return (E_IntegerCasting new_e1 t1 (Some (snd e1_typ)), (Consumed, t1), vc))))"

section \<open>The recursion\<close>

text \<open>Each arm only calls the checker on the parts of the expression.\<close>

lemma check_question_mark_cong [fundef_cong]:
  assumes "n = n'" "tlc = tlc'" "r = r'" "e = e'" "ex = ex'" "vc = vc'" "\<And>x vc. f e' x vc = g e' x vc"
  shows "check_question_mark n tlc r f e ex vc = check_question_mark n' tlc' r' g e' ex' vc'"
  using assms by (cases r') (simp_all add: check_question_mark_def)

lemma check_tuple_cong [fundef_cong]:
  assumes "es = es'" "ex = ex'" "vc = vc'" "\<And>e x vc. e \<in> set es' \<Longrightarrow> f e x vc = g e x vc"
  shows "check_tuple f es ex vc = check_tuple g es' ex' vc'"
proof -
  have "check_vec (check_tuple_arg f) (zip es' xs) vc' = check_vec (check_tuple_arg g) (zip es' xs) vc'" for xs
    by (rule check_vec_cong) (auto simp: check_tuple_arg_def assms(4) dest: set_zip_leftD)
  then show ?thesis using assms(1-3) by (simp add: check_tuple_def)
qed

lemma check_match_with_cong [fundef_cong]:
  assumes "n = n'" "tlc = tlc'" "e = e'" "arms = arms'" "ex = ex'" "vc = vc'"
    and "\<And>x vc. f e' x vc = g e' x vc" "\<And>p x vc. p \<in> set arms' \<Longrightarrow> f (snd p) x vc = g (snd p) x vc"
  shows "check_match_with n tlc f e arms ex vc = check_match_with n' tlc' g e' arms' ex' vc'"
proof -
  have "check_vec (check_arm n' tlc' f t ex' m) arms' s = check_vec (check_arm n' tlc' g t ex' m) arms' s" for t m s
    by (rule check_vec_cong) (use assms(8) in \<open>force simp: check_arm_def split: prod.split\<close>)+
  then show ?thesis using assms(1-7) by (simp add: check_match_with_def)
qed

lemma check_field_accessor_cong [fundef_cong]:
  assumes "tlc = tlc'" "e = e'" "i = i'" "vc = vc'" "\<And>x vc. f e' x vc = g e' x vc"
  shows "check_field_accessor tlc f e i vc = check_field_accessor tlc' g e' i' vc'"
  using assms by (simp add: check_field_accessor_def)

lemma check_enum_inject_cong [fundef_cong]:
  assumes "n = n'" "tlc = tlc'" "t = t'" "c = c'" "p = p'" "ex = ex'" "vc = vc'"
    and "\<And>e x vc. p' = Some e \<Longrightarrow> f e x vc = g e x vc"
  shows "check_enum_inject n tlc f t c p ex vc = check_enum_inject n' tlc' g t' c' p' ex' vc'"
  using assms by (cases p') (simp_all add: check_enum_inject_def cong: option.case_cong)

lemma check_inline_conditional_cong [fundef_cong]:
  assumes "n = n'" "tlc = tlc'" "c = c'" "e = e'" "d = d'" "ex = ex'" "vc = vc'"
    and "\<And>x vc. f c' x vc = g c' x vc" "\<And>x vc. f e' x vc = g e' x vc" "\<And>x vc. f d' x vc = g d' x vc"
  shows "check_inline_conditional n tlc f c e d ex vc = check_inline_conditional n' tlc' g c' e' d' ex' vc'"
  using assms by (simp add: check_inline_conditional_def)

lemma check_binary_cong [fundef_cong]:
  assumes "n = n'" "tlc = tlc'" "op = op'" "e = e'" "d = d'" "vc = vc'"
    and "\<And>x vc. f e' x vc = g e' x vc" "\<And>x vc. f d' x vc = g d' x vc"
  shows "check_binary n tlc f op e d vc = check_binary n' tlc' g op' e' d' vc'"
  using assms by (simp add: check_binary_def)

lemma check_unary_cong [fundef_cong]:
  assumes "op = op'" "e = e'" "vc = vc'" "\<And>x vc. f e' x vc = g e' x vc"
  shows "check_unary f op e vc = check_unary g op' e' vc'"
  using assms by (simp add: check_unary_def)

lemma check_new_array_cong [fundef_cong]:
  assumes "n = n'" "tlc = tlc'" "a = a'" "es = es'" "vc = vc'" "\<And>e x vc. e \<in> set es' \<Longrightarrow> f e x vc = g e x vc"
  shows "check_new_array n tlc f a es vc = check_new_array n' tlc' g a' es' vc'"
proof -
  have "check_vec (check_array_element n' tlc' f c) es' vc = check_vec (check_array_element n' tlc' g c) es' vc" for c vc
    by (rule check_vec_cong) (auto simp: check_array_element_def assms(6))
  moreover have "check_vec (check_seq_element n' tlc' f) es' s = check_vec (check_seq_element n' tlc' g) es' s" for s
    by (rule check_vec_cong) (auto simp: check_seq_element_def assms(6))
  ultimately show ?thesis using assms(1-5) by (simp add: check_new_array_def cong: option.case_cong)
qed

lemma check_array_index_cong [fundef_cong]:
  assumes "n = n'" "tlc = tlc'" "y = y'" "e = e'" "vc = vc'" "\<And>x vc. f e' x vc = g e' x vc"
  shows "check_array_index n tlc f y e vc = check_array_index n' tlc' g y' e' vc'"
  using assms by (simp add: check_array_index_def cong: option.case_cong)

lemma check_args_cong:
  assumes "\<And>p x vc. p \<in> set ps \<Longrightarrow> f (fst (snd p)) x vc = g (fst (snd p)) x vc"
  shows "check_args n tlc f ps vc ctx = check_args n tlc g ps vc ctx"
  using assms
proof (induction ps arbitrary: vc ctx)
  case (Cons p ps)
  obtain t e b where p: "p = (t, e, b)" by (cases p) auto
  with Cons.prems have "f e x vc = g e x vc" for x vc by (metis fst_conv list.set_intros(1) snd_conv)
  moreover have "check_args n tlc f ps vc ctx = check_args n tlc g ps vc ctx" for vc ctx
    by (rule Cons.IH) (rule Cons.prems, simp)
  ultimately show ?case by (simp add: p)
qed simp

lemma check_func_call_cong [fundef_cong]:
  assumes "n = n'" "tlc = tlc'" "t = t'" "c = c'" "as = as'" "vc = vc'"
    and "\<And>p x vc. p \<in> set as' \<Longrightarrow> f (fst p) x vc = g (fst p) x vc"
  shows "check_func_call n tlc f t c as vc = check_func_call n' tlc' g t' c' as' vc'"
proof -
  have "check_args n' tlc' f (zip ts as') vc ctx = check_args n' tlc' g (zip ts as') vc ctx" for ts vc ctx
    by (rule check_args_cong) (auto intro!: assms(7) dest: set_zip_rightD)
  then show ?thesis using assms(1-6) by (simp add: check_func_call_def cong: if_cong)
qed

lemma check_method_call_cong [fundef_cong]:
  assumes "n = n'" "tlc = tlc'" "s = s'" "c = c'" "as = as'" "vc = vc'"
    and "\<And>x vc. f (fst s') x vc = g (fst s') x vc" "\<And>p x vc. p \<in> set as' \<Longrightarrow> f (fst p) x vc = g (fst p) x vc"
  shows "check_method_call n tlc f s c as vc = check_method_call n' tlc' g s' c' as' vc'"
proof -
  have "check_args n' tlc' f (zip ts ((fst s', b) # as')) vc ctx = check_args n' tlc' g (zip ts ((fst s', b) # as')) vc ctx" for b ts vc ctx
    by (rule check_args_cong) (use assms(7,8) in \<open>auto dest!: set_zip_rightD\<close>)
  then show ?thesis using assms(1-7)
    by (simp add: check_method_call_def Let_def del: zip_Cons_Cons cong: list.case_cong if_cong)
qed

lemma check_integer_casting_cong [fundef_cong]:
  assumes "n = n'" "tlc = tlc'" "e = e'" "t = t'" "vc = vc'" "\<And>x vc. f e' x vc = g e' x vc"
  shows "check_integer_casting n tlc f e t vc = check_integer_casting n' tlc' g e' t' vc'"
  using assms by (simp add: check_integer_casting_def)

function typecheck_expression :: "nat \<Rightarrow> top_level_context \<Rightarrow> base_typ option \<Rightarrow> expression \<Rightarrow>
    base_typ option \<Rightarrow> var_context \<Rightarrow> checked tc" where
  "typecheck_expression n tlc ret e expected_type vc =
     (case e of
        E_MonadicLet c bs body p \<Rightarrow> Panic
      | E_QuestionMark qe t \<Rightarrow> check_question_mark n tlc ret (typecheck_expression n tlc ret) qe expected_type vc
      | E_Tuple args \<Rightarrow> check_tuple (typecheck_expression n tlc ret) args expected_type vc
      | E_Named x \<Rightarrow> check_named n tlc x vc
      | E_MatchWith arg arms \<Rightarrow> check_match_with n tlc (typecheck_expression n tlc ret) arg arms expected_type vc
      | E_FieldAccessor e1 field \<Rightarrow> check_field_accessor tlc (typecheck_expression n tlc ret) e1 field vc
      | E_EnumInject enum_ty case_name payload \<Rightarrow>
          check_enum_inject n tlc (typecheck_expression n tlc ret) enum_ty case_name payload expected_type vc
      | E_InlineConditional cond e_t e_f \<Rightarrow>
          check_inline_conditional n tlc (typecheck_expression n tlc ret) cond e_t e_f expected_type vc
      | E_Binary op e1 e2 t \<Rightarrow> check_binary n tlc (typecheck_expression n tlc ret) op e1 e2 vc
      | E_Unary op e1 t \<Rightarrow> check_unary (typecheck_expression n tlc ret) op e1 vc
      | E_Lit lit \<Rightarrow> check_lit lit expected_type vc
      | E_NewArray array_type t elements \<Rightarrow>
          check_new_array n tlc (typecheck_expression n tlc ret) array_type elements vc
      | E_ArrayIndex x e2 t \<Rightarrow> check_array_index n tlc (typecheck_expression n tlc ret) x e2 vc
      | E_FuncCall prefix name args arg_types \<Rightarrow>
          check_func_call n tlc (typecheck_expression n tlc ret) prefix name args vc
      | E_MethodCall sel t f args arg_types \<Rightarrow>
          check_method_call n tlc (typecheck_expression n tlc ret) sel f args vc
      | E_IntegerCasting e1 t1 t \<Rightarrow> check_integer_casting n tlc (typecheck_expression n tlc ret) e1 t1 vc)"
  by pat_completeness auto

termination
  by (relation "measure (\<lambda>(n, tlc, ret, e, ex, vc). size e)")
    (auto simp: less_Suc_eq_le dest!: size_member)

declare typecheck_expression.simps [simp del]

section \<open>Annotations for the elaboration\<close>

text \<open>
  The checked expression carries a carrier at every question mark, with one exception: the first
  element of a sequence literal is kept as it was before the check. \<open>seq_heads_typed\<close> excludes
  question marks there.
\<close>

fun seq_heads_typed :: "expression \<Rightarrow> bool" where
  "seq_heads_typed (E_Unary op e t) = seq_heads_typed e"
| "seq_heads_typed (E_Binary op e1 e2 t) = (seq_heads_typed e1 \<and> seq_heads_typed e2)"
| "seq_heads_typed (E_InlineConditional e1 e2 e3) = (seq_heads_typed e1 \<and> seq_heads_typed e2 \<and> seq_heads_typed e3)"
| "seq_heads_typed (E_QuestionMark e t) = seq_heads_typed e"
| "seq_heads_typed (E_MonadicLet c bs e p) = True"
| "seq_heads_typed (E_Named x) = True"
| "seq_heads_typed (E_FuncCall p f args ts) = (\<forall>a \<in> set args. seq_heads_typed (fst a))"
| "seq_heads_typed (E_MethodCall sel t f args ts) = (seq_heads_typed (fst sel) \<and> (\<forall>a \<in> set args. seq_heads_typed (fst a)))"
| "seq_heads_typed (E_EnumInject t c None) = True"
| "seq_heads_typed (E_EnumInject t c (Some e)) = seq_heads_typed e"
| "seq_heads_typed (E_MatchWith e arms) = (seq_heads_typed e \<and> (\<forall>a \<in> set arms. seq_heads_typed (snd a)))"
| "seq_heads_typed (E_FieldAccessor e i) = seq_heads_typed e"
| "seq_heads_typed (E_Lit l) = True"
| "seq_heads_typed (E_ArrayIndex y e t) = seq_heads_typed e"
| "seq_heads_typed (E_NewArray a t es) = ((\<forall>e \<in> set es. seq_heads_typed e) \<and>
     (a = None \<longrightarrow> (case es of [] \<Rightarrow> True | e # es' \<Rightarrow> typed_ast e)))"
| "seq_heads_typed (E_Tuple es) = (\<forall>e \<in> set es. seq_heads_typed e)"
| "seq_heads_typed (E_IntegerCasting e t o1) = seq_heads_typed e"

definition checks_typed :: "check_fun \<Rightarrow> expression \<Rightarrow> bool" where
  "checks_typed rec e \<longleftrightarrow> (\<forall>ex vc e' t vc' rep. rec e ex vc = Ok (e', t, vc') rep \<longrightarrow> typed_ast e')"

lemma checks_typedD: "checks_typed rec e \<Longrightarrow> rec e ex vc = Ok (e', t, vc') rep \<Longrightarrow> typed_ast e'"
  unfolding checks_typed_def by blast

lemma checks_typedI:
  assumes "\<And>ex vc e' t vc' rep. rec e ex vc = Ok (e', t, vc') rep \<Longrightarrow> typed_ast e'"
  shows "checks_typed rec e"
  unfolding checks_typed_def using assms by blast

lemma check_args_typed:
  assumes "check_args n tlc rec ps vc ctx = Ok (as, ts, vc', ctx') rep"
    and "\<And>p. p \<in> set ps \<Longrightarrow> checks_typed rec (fst (snd p))"
  shows "length as = length ps \<and> (\<forall>a \<in> set as. typed_ast (fst a))"
  using assms
proof (induction ps arbitrary: vc ctx as ts rep)
  case (Cons p ps)
  obtain sig_t e b where p: "p = (sig_t, e, b)" by (cases p) auto
  from Cons.prems(1) obtain e1 t1 vc1 r1 vc2 ctx2 as1 ts1 r2 where
      e: "rec e (Some (snd sig_t)) vc = Ok (e1, t1, vc1) r1" and as: "as = (e1, b) # as1"
      and rest: "check_args n tlc rec ps vc2 ctx2 = Ok (as1, ts1, vc', ctx') r2"
    by (auto simp: p elim!: tc_bind_someE split: prod.split_asm borrowing.split_asm option.split_asm)
  have "checks_typed rec e" using Cons.prems(2) [of p] by (simp add: p)
  from checks_typedD [OF this e] Cons.IH [OF rest] Cons.prems(2) show ?case by (simp add: as)
qed simp

lemmas typed_elims = tc_bind_someE closure_bind_someE

lemma check_tuple_typed:
  assumes "check_tuple rec es ex vc = Ok (e', t, vc') rep" "\<And>e. e \<in> set es \<Longrightarrow> checks_typed rec e"
  shows "typed_ast e'"
proof -
  from assms(1) obtain ps ys vc1 r where v: "check_vec (check_tuple_arg rec) (zip es ps) vc = Ok (ys, vc1) r"
      and e': "e' = E_Tuple (map fst ys)"
    by (auto simp: check_tuple_def elim!: tc_bind_someE)
  have "\<forall>y \<in> set ys. typed_ast (fst y)"
  proof (rule check_vec_Ok_all [OF v])
    fix p s y s' rep assume p: "p \<in> set (zip es ps)" and "check_tuple_arg rec p s = (Ok y rep, s')"
    then obtain t1 vc1 r1 where "rec (fst p) (snd p) s = Ok (fst y, t1, vc1) r1"
      by (auto simp: check_tuple_arg_def elim!: closure_bind_someE split: prod.split_asm borrowing.split_asm)
    moreover have "checks_typed rec (fst p)" using p assms(2) by (metis in_set_zipE prod.collapse)
    ultimately show "typed_ast (fst y)" using checks_typedD by blast
  qed
  then show ?thesis by (auto simp: e')
qed

lemma check_seq_element_Some:
  assumes "check_seq_element n tlc rec e (Some c, vc) = (Ok y rep, s')"
  obtains t vc' r where "rec e None vc = Ok (y, t, vc') r" "s' = (Some c, vc')"
  using assms by (auto simp: check_seq_element_def elim!: typed_elims split: prod.split_asm if_split_asm)

lemma check_seq_element_None:
  assumes "check_seq_element n tlc rec e (None, vc) = (Ok y rep, s')"
  obtains c vc' where "y = e" "s' = (Some c, vc')"
  using assms by (auto simp: check_seq_element_def elim!: typed_elims split: prod.split_asm borrowing.split_asm)

lemma check_seq_rest_typed:
  assumes "check_vec (check_seq_element n tlc rec) es (Some c, vc) = Ok (ys, s) r" "\<And>e. e \<in> set es \<Longrightarrow> checks_typed rec e"
  shows "\<forall>y \<in> set ys. typed_ast y"
  using assms
proof (induction es arbitrary: vc ys r)
  case (Cons e es)
  from Cons.prems(1) obtain y ys2 s1 r1 r2 where e: "check_seq_element n tlc rec e (Some c, vc) = (Ok y r1, s1)"
      and rest: "check_vec (check_seq_element n tlc rec) es s1 = Ok (ys2, s) r2" and ys: "ys = y # ys2"
    by (rule check_vec_ConsE)
  from e obtain t vc' r3 where y: "rec e None vc = Ok (y, t, vc') r3" and s1: "s1 = (Some c, vc')"
    by (rule check_seq_element_Some)
  have "checks_typed rec e" using Cons.prems(2) [of e] by simp
  then have "typed_ast y" using y by (rule checks_typedD)
  with Cons.IH rest Cons.prems(2) show ?case by (simp add: ys s1)
qed simp

lemma check_new_array_typed:
  assumes "check_new_array n tlc rec a es vc = Ok (e', t, vc') rep" "\<And>e. e \<in> set es \<Longrightarrow> checks_typed rec e"
    and "a = None \<Longrightarrow> (case es of [] \<Rightarrow> True | e # es' \<Rightarrow> typed_ast e)"
  shows "typed_ast e'"
proof (cases a)
  case (Some b)
  with assms(1) obtain c ys vc1 r where v: "check_vec (check_array_element n tlc rec c) es vc = Ok (ys, vc1) r"
      and e': "e' = E_NewArray (Some b) (Some c) ys"
    by (auto simp: check_new_array_def elim!: tc_bind_someE split: option.split_asm prod.split_asm)
  have "\<forall>y \<in> set ys. typed_ast y"
    by (rule check_vec_Ok_all [OF v])
      (auto simp: check_array_element_def elim!: typed_elims split: if_split_asm dest: checks_typedD [OF assms(2)])
  then show ?thesis by (simp add: e')
next
  case None
  with assms(1) obtain c ys vc1 r where v: "check_vec (check_seq_element n tlc rec) es (None, vc) = Ok (ys, c, vc1) r"
      and e': "\<exists>c. e' = E_NewArray None (Some c) ys"
    by (auto simp: check_new_array_def elim!: tc_bind_someE split: option.split_asm prod.split_asm)
  show ?thesis
  proof (cases es)
    case Nil
    with v e' show ?thesis by auto
  next
    case (Cons e es')
    from v [unfolded Cons] obtain y ys2 s1 r1 r2 where e: "check_seq_element n tlc rec e (None, vc) = (Ok y r1, s1)"
        and rest: "check_vec (check_seq_element n tlc rec) es' s1 = Ok (ys2, c, vc1) r2" and ys: "ys = y # ys2"
      by (rule check_vec_ConsE)
    from e obtain c' vc' where "y = e" and s1: "s1 = (Some c', vc')" by (rule check_seq_element_None)
    moreover have "\<forall>y \<in> set ys2. typed_ast y"
      by (rule check_seq_rest_typed [OF rest [unfolded s1]]) (simp add: assms(2) Cons)
    ultimately show ?thesis using e' assms(3) [OF None] by (auto simp: ys Cons)
  qed
qed

lemma check_match_with_typed:
  assumes "check_match_with n tlc rec e arms ex vc = Ok (e', t, vc') rep" "checks_typed rec e"
    and arms: "\<And>p. p \<in> set arms \<Longrightarrow> checks_typed rec (snd p)"
  shows "typed_ast e'"
proof -
  from assms(1) obtain e1 t1 vc1 r1 ys s r2 where e: "rec e None vc = Ok (e1, t1, vc1) r1"
      and v: "check_vec (check_arm n tlc rec t1 ex vc1) arms (vc1, None) = Ok (ys, s) r2"
      and e': "e' = E_MatchWith e1 ys"
    by (auto simp: check_match_with_def elim!: tc_bind_someE split: option.split_asm prod.split_asm)
  have "\<forall>y \<in> set ys. typed_ast (snd y)"
  proof (rule check_vec_Ok_all [OF v])
    fix p s y s' rep assume p: "p \<in> set arms" and "check_arm n tlc rec t1 ex vc1 p s = (Ok y rep, s')"
    then obtain pvc t2 vc2 r3 where "rec (snd p) ex pvc = Ok (snd y, t2, vc2) r3"
      by (auto simp: check_arm_def elim!: typed_elims split: prod.split_asm)
    with arms [OF p] show "typed_ast (snd y)" by (rule checks_typedD)
  qed
  with checks_typedD [OF assms(2) e] show ?thesis by (simp add: e')
qed

lemma check_func_call_typed:
  assumes "check_func_call n tlc rec pre f args vc = Ok (e', t, vc') rep"
    and "\<And>a. a \<in> set args \<Longrightarrow> checks_typed rec (fst a)"
  shows "typed_ast e'"
proof -
  from assms(1) obtain sigs ctx as ts vc1 ctx1 r where a: "check_args n tlc rec (zip sigs args) vc ctx = Ok (as, ts, vc1, ctx1) r"
      and e': "e' = E_FuncCall pre f as (Some ts)"
    by (auto simp: check_func_call_def elim!: tc_bind_someE split: if_split_asm prod.split_asm)
  have "checks_typed rec (fst (snd p))" if "p \<in> set (zip sigs args)" for p
    using assms(2) that by (metis in_set_zipE prod.collapse)
  from check_args_typed [OF a this] show ?thesis by (simp add: e')
qed

lemma check_method_call_typed:
  assumes "check_method_call n tlc rec sel f args vc = Ok (e', t, vc') rep"
    and "checks_typed rec (fst sel)" "\<And>a. a \<in> set args \<Longrightarrow> checks_typed rec (fst a)"
  shows "typed_ast e'"
proof -
  from assms(1) obtain sig sigs b ctx as ts vc1 ctx1 r ty where
      a: "check_args n tlc rec (zip (sig # sigs) ((fst sel, b) # args)) vc ctx = Ok (as, ts, vc1, ctx1) r"
      and e': "e' = E_MethodCall (hd as) ty f (tl as) (Some (tl ts))"
    by (auto simp: check_method_call_def Let_def elim!: tc_bind_someE split: if_split_asm list.split_asm prod.split_asm
        simp del: zip_Cons_Cons check_args.simps; blast)
  have "checks_typed rec (fst (snd p))" if "p \<in> set (zip (sig # sigs) ((fst sel, b) # args))" for p
    using assms(2,3) that by (auto simp: zip_Cons_Cons) (metis in_set_zipE prod.collapse)
  from check_args_typed [OF a this] obtain x xs where as: "as = x # xs" and "\<forall>a \<in> set as. typed_ast (fst a)"
    by (cases as) auto
  then show ?thesis by (simp add: e')
qed

lemma check_enum_inject_typed:
  assumes "check_enum_inject n tlc rec b c p ex vc = Ok (e', t, vc') rep"
    and "\<And>e. p = Some e \<Longrightarrow> checks_typed rec e"
  shows "typed_ast e'"
proof (cases p)
  case None
  with assms(1) show ?thesis
    by (auto simp: check_enum_inject_def elim!: tc_bind_someE split: option.split_asm prod.split_asm)
next
  case (Some e)
  note typed = checks_typedD [OF assms(2) [OF Some]]
  from assms(1) Some show ?thesis
    by (auto simp: check_enum_inject_def elim!: tc_bind_someE split: option.split_asm prod.split_asm;
        blast dest: typed)
qed

lemma typecheck_expression_typed:
  "seq_heads_typed e \<Longrightarrow> checks_typed (typecheck_expression n tlc ret) e"
proof (induction e rule: seq_heads_typed.induct)
  case (3 e1 e2 e3)
  show ?case
    by (rule checks_typedI, simp only: typecheck_expression.simps expression.case)
      (use 3 in \<open>auto simp: check_inline_conditional_def elim!: tc_bind_someE dest: checks_typedD\<close>)
next
  case (7 p f args ts)
  show ?case
    by (rule checks_typedI, simp only: typecheck_expression.simps expression.case, erule check_func_call_typed) (use 7 in auto)
next
  case (8 sel t f args ts)
  show ?case
    by (rule checks_typedI, simp only: typecheck_expression.simps expression.case, erule check_method_call_typed) (use 8 in auto)
next
  case (9 t c)
  show ?case
    by (rule checks_typedI, simp only: typecheck_expression.simps expression.case, erule check_enum_inject_typed) simp
next
  case (10 t c e)
  show ?case
    by (rule checks_typedI, simp only: typecheck_expression.simps expression.case, erule check_enum_inject_typed) (use 10 in auto)
next
  case (11 e arms)
  show ?case
    by (rule checks_typedI, simp only: typecheck_expression.simps expression.case, erule check_match_with_typed) (use 11 in auto)
next
  case (15 a t es)
  show ?case
    by (rule checks_typedI, simp only: typecheck_expression.simps expression.case, erule check_new_array_typed) (use 15 in auto)
next
  case (16 es)
  show ?case
    by (rule checks_typedI, simp only: typecheck_expression.simps expression.case, erule check_tuple_typed) (use 16 in auto)
qed (rule checks_typedI, simp only: typecheck_expression.simps expression.case,
    (auto simp: check_unary_def check_binary_def check_question_mark_def check_named_def check_field_accessor_def
      check_lit_def Let_def check_array_index_def check_integer_casting_def
      elim!: tc_bind_someE split: option.split_asm if_split_asm prod.split_asm; blast dest: checks_typedD)[1])+

section \<open>Properties\<close>

definition seq_context :: var_context where
  "seq_context = \<lparr>vc_vars = fmupd 3 ((Consumed, T_Seq T_UInt8), ''s'', False) fmempty, vc_mutable_vars = fmempty\<rparr>"

definition seq_tuple :: expression where
  "seq_tuple = E_Tuple [E_Named (Local (LocalIdent 3 ''s'' False)), E_Lit (L_Bool True)]"

lemma seq_tuple_checks:
  "typecheck_expression 1 alias_example None seq_tuple None seq_context =
    Ok (seq_tuple, (Consumed, T_Tuple [T_Seq T_UInt8, T_Bool]), \<lparr>vc_vars = fmempty, vc_mutable_vars = fmempty\<rparr>) False"
  by (simp add: seq_tuple_def seq_context_def typecheck_expression.simps check_tuple_def tuple_expected_def
      check_tuple_arg_def check_named_def check_lit_def concretize_literal_def tc_return_def vc_change_def map_union_def
      machine_integers_def fmdrop_fmupd_same)



definition option_u8 :: base_typ where
  "option_u8 = T_Named (TopLevelIdent ''Option'' K_Type) (Some [T_UInt8])"

definition option_context :: "base_typ \<Rightarrow> var_context" where
  "option_context t = \<lparr>vc_vars = fmupd 3 ((Consumed, t), ''x'', False) fmempty, vc_mutable_vars = fmempty\<rparr>"

definition option_alias :: top_level_context where
  "option_alias = \<lparr>ctx_functions = [], ctx_consts = Map.empty,
     ctx_typ_dict = [TopLevelIdent ''O'' K_Type \<mapsto> ((Consumed, option_u8), D_Alias)]\<rparr>"


end
