(* ===== verification/Linear_Use.thy ===== *)
theory Linear_Use
  imports Typecheck_Expression
begin

text \<open>
  Linearity of the type checker of expressions. Fix a variable \<open>x\<close>. The paths of an expression are the
  sequences of uses of \<open>x\<close> that an evaluation from left to right can make: a \<open>Use\<close> borrows it, a \<open>Move\<close>
  consumes it, a \<open>Assign\<close> gives it a new value (assignments, in statements only). \<open>run\<close> executes a path
  on the availability of \<open>x\<close> and fails when \<open>x\<close> is used or moved after a move.

  The lemmas show for every arm of the checker that the paths of an accepted expression run without
  failure whenever \<open>x\<close> is available if it is in the context before, and that \<open>x\<close> is available afterwards if it is in
  the context after the check.
\<close>

section \<open>Paths\<close>

datatype event = Use | Move | Assign

fun run :: "event list \<Rightarrow> bool \<Rightarrow> bool option" where
  "run [] a = Some a"
| "run (Use # p) a = (if a then run p a else None)"
| "run (Move # p) a = (if a then run p False else None)"
| "run (Assign # p) a = run p True"

definition paths_seq :: "event list list \<Rightarrow> event list list \<Rightarrow> event list list" where
  "paths_seq ps qs = concat (map (\<lambda>p. map ((@) p) qs) ps)"

fun names_var :: "usize \<Rightarrow> ident \<Rightarrow> bool" where
  "names_var x (Local li) \<longleftrightarrow> li_id li = x"
| "names_var x y \<longleftrightarrow> False"

definition event_paths :: "event \<Rightarrow> usize \<Rightarrow> ident \<Rightarrow> event list list" where
  "event_paths v x y = (if names_var x y then [[v]] else [[]])"

text \<open>
  A borrowed variable is used and not moved; the selector of a method call counts as a use when it
  is a variable, since the method may borrow it implicitly.
\<close>

fun use_paths :: "usize \<Rightarrow> expression \<Rightarrow> event list list" where
  "use_paths x (E_Named y) = event_paths Use x y"
| "use_paths x e = [[]]"

fun paths :: "usize \<Rightarrow> expression \<Rightarrow> event list list" where
  "paths x (E_Unary op e t) = paths x e"
| "paths x (E_Binary op e1 e2 t) = paths_seq (paths x e1) (paths x e2)"
| "paths x (E_InlineConditional e1 e2 e3) = paths_seq (paths x e1) (paths x e2 @ paths x e3)"
| "paths x (E_QuestionMark e t) = paths x e"
| "paths x (E_MonadicLet c bs e p) = [[]]"
| "paths x (E_Named y) = event_paths Move x y"
| "paths x (E_FuncCall p f args ts) = foldr paths_seq
     (map (\<lambda>a. if snd a = Borrowed \<and> is_named (fst a) then use_paths x (fst a) else paths x (fst a)) args) [[]]"
| "paths x (E_MethodCall sel t f args ts) =
     paths_seq (if is_named (fst sel) then use_paths x (fst sel) else paths x (fst sel)) (foldr paths_seq
     (map (\<lambda>a. if snd a = Borrowed \<and> is_named (fst a) then use_paths x (fst a) else paths x (fst a)) args) [[]])"
| "paths x (E_EnumInject t c None) = [[]]"
| "paths x (E_EnumInject t c (Some e)) = paths x e"
| "paths x (E_MatchWith e arms) = paths_seq (paths x e) (concat (map (\<lambda>a. paths x (snd a)) arms))"
| "paths x (E_FieldAccessor e i) = paths x e"
| "paths x (E_Lit l) = [[]]"
| "paths x (E_ArrayIndex y e t) = paths_seq (event_paths Use x y) (paths x e)"
| "paths x (E_NewArray a t es) = foldr paths_seq (map (paths x) es) [[]]"
| "paths x (E_Tuple es) = foldr paths_seq (map (paths x) es) [[]]"
| "paths x (E_IntegerCasting e t o1) = paths x e"

section \<open>Contexts and paths\<close>

text \<open>
  \<open>linear_in\<close>: if \<open>x\<close> is in the context, it is owned and its type is not \<open>Copy\<close>. \<open>use_ok\<close> relates the
  contexts before and after the check of code with the paths \<open>P\<close>.
\<close>

definition in_vars :: "usize \<Rightarrow> var_context \<Rightarrow> bool" where
  "in_vars x vc \<longleftrightarrow> fmlookup (vc_vars vc) x \<noteq> None"

definition linear_in :: "nat \<Rightarrow> top_level_context \<Rightarrow> usize \<Rightarrow> var_context \<Rightarrow> bool" where
  "linear_in n tlc x vc \<longleftrightarrow> (\<forall>v. fmlookup (vc_vars vc) x = Some v \<longrightarrow>
     fst (fst v) = Consumed \<and> (\<exists>r. is_copy n tlc (snd (fst v)) = Ok False r))"

definition path_safe :: "bool \<Rightarrow> bool \<Rightarrow> event list \<Rightarrow> bool" where
  "path_safe i j p \<longleftrightarrow> (\<forall>a. (i \<longrightarrow> a) \<longrightarrow> (\<exists>b. run p a = Some b \<and> (j \<longrightarrow> b)))"

definition use_ok :: "nat \<Rightarrow> top_level_context \<Rightarrow> usize \<Rightarrow> event list list \<Rightarrow> var_context \<Rightarrow> var_context \<Rightarrow> bool" where
  "use_ok n tlc x P vc vc' \<longleftrightarrow> vars_sub vc' vc
     \<and> (linear_in n tlc x vc \<longrightarrow> (\<forall>p \<in> set P. path_safe (in_vars x vc) (in_vars x vc') p))"

lemma run_append: "run (p @ q) a = Option.bind (run p a) (run q)"
  by (induction p a rule: run.induct) auto

lemma path_safe_append: "path_safe i j p \<Longrightarrow> path_safe j k q \<Longrightarrow> path_safe i k (p @ q)"
  unfolding path_safe_def run_append by (metis bind.bind_lunit)

lemma run_mono: "run p a = Some b \<Longrightarrow> (a \<longrightarrow> a') \<Longrightarrow> \<exists>b'. run p a' = Some b' \<and> (b \<longrightarrow> b')"
  by (induction p a arbitrary: a' rule: run.induct) (auto split: if_splits)

lemma path_safe_Nil: "(j \<longrightarrow> i) \<Longrightarrow> path_safe i j []"
  by (auto simp: path_safe_def)

lemma path_safe_mono: "path_safe i j p \<Longrightarrow> (i \<longrightarrow> i') \<Longrightarrow> (j' \<longrightarrow> j) \<Longrightarrow> path_safe i' j' p"
  by (auto simp: path_safe_def)

lemma set_paths_seq: "set (paths_seq ps qs) = {p @ q | p q. p \<in> set ps \<and> q \<in> set qs}"
  by (auto simp: paths_seq_def)

lemma vars_sub_in: "vars_sub a b \<Longrightarrow> in_vars x a \<Longrightarrow> in_vars x b"
  by (auto simp: in_vars_def dest: vars_subD)

lemma linear_in_mono: "vars_sub a b \<Longrightarrow> linear_in n tlc x b \<Longrightarrow> linear_in n tlc x a"
  by (auto simp: linear_in_def dest: vars_subD)

lemma use_ok_skip: "use_ok n tlc x [[]] vc vc"
  by (simp add: use_ok_def path_safe_Nil)

lemma use_ok_seq:
  assumes "use_ok n tlc x P a b" "use_ok n tlc x Q b c"
  shows "use_ok n tlc x (paths_seq P Q) a c"
  using assms linear_in_mono vars_sub_trans
  by (fastforce simp: use_ok_def set_paths_seq intro: path_safe_append)

text \<open>The event of naming the variable: a move, or a use when it is borrowed.\<close>

lemma use_ok_borrow: "use_ok n tlc x (event_paths Move x y) a b \<Longrightarrow> use_ok n tlc x (event_paths Use x y) a a"
  by (auto simp: use_ok_def event_paths_def path_safe_def split: if_splits)

lemma use_ok_move_use: "use_ok n tlc x (event_paths Move x y) a b \<Longrightarrow> use_ok n tlc x (event_paths Use x y) a b"
  by (auto simp: use_ok_def event_paths_def path_safe_def split: if_splits)

lemma in_vars_intersection: "in_vars x (vc_intersection a b) \<longleftrightarrow> in_vars x a \<and> in_vars x b"
  by (auto simp: in_vars_def vc_defs split: if_splits)

text \<open>One arm of a match: \<open>a\<close> is the context before the arms, \<open>p\<close> that of the pattern.\<close>

lemma use_ok_arm:
  assumes "use_ok n tlc x P a acc" "use_ok n tlc x Q (vc_union a p) b" "\<not> in_vars x p"
  shows "use_ok n tlc x (P @ Q) a (vc_intersection acc b)"
proof -
  have l: "fmlookup (vc_vars (vc_union a p)) x = fmlookup (vc_vars a) x"
    using assms(3) unfolding in_vars_def
    by (cases "fmlookup (vc_vars a) x"; cases "fmlookup (vc_vars p) x") (auto simp: vc_defs fmlookup_dom_iff)
  then have "in_vars x (vc_union a p) = in_vars x a" "linear_in n tlc x (vc_union a p) = linear_in n tlc x a"
    by (simp_all add: in_vars_def linear_in_def)
  then show ?thesis
    using assms(1,2) by (auto simp: use_ok_def in_vars_intersection intro: vars_sub_intersectionI path_safe_mono)
qed

lemma use_ok_branch:
  assumes "use_ok n tlc x P a b" "use_ok n tlc x Q a c"
  shows "use_ok n tlc x (P @ Q) a (vc_intersection (vc_intersection a b) c)"
  using assms by (auto simp: use_ok_def in_vars_intersection intro!: vars_sub_intersectionI intro: path_safe_mono)

section \<open>The arms respect linearity\<close>

lemma check_vec_use:
  assumes "check_vec f ps s = Ok (ys, s') False"
    and "\<And>p s y s'. p \<in> set ps \<Longrightarrow> f p s = (Ok y False, s') \<Longrightarrow> use_ok n tlc x (P p) (ctx s) (ctx s')"
  shows "use_ok n tlc x (foldr paths_seq (map P ps) [[]]) (ctx s) (ctx s')"
  using assms
proof (induction ps arbitrary: s ys)
  case (Cons p ps)
  then obtain y s1 ys1 where "f p s = (Ok y False, s1)" and rest: "check_vec f ps s1 = Ok (ys1, s') False"
    by (auto simp: check_vec_Cons_clean simp del: check_vec.simps)
  then have "use_ok n tlc x (P p) (ctx s) (ctx s1)"
    using Cons.prems(2) by simp
  moreover have "use_ok n tlc x (foldr paths_seq (map P ps) [[]]) (ctx s1) (ctx s')"
    using Cons.IH [OF rest] Cons.prems(2) by simp
  ultimately show ?case using use_ok_seq by fastforce
qed (simp add: use_ok_skip)

text \<open>The specification of the recursive call on the expression \<open>e\<close>.\<close>

definition checks_use :: "nat \<Rightarrow> top_level_context \<Rightarrow> usize \<Rightarrow> check_fun \<Rightarrow> expression \<Rightarrow> bool" where
  "checks_use n tlc x rec e \<longleftrightarrow> (\<forall>ex vc e' t vc'. rec e ex vc = Ok (e', t, vc') False \<longrightarrow>
     use_ok n tlc x (paths x e) vc vc')"

lemma checks_useD: "checks_use n tlc x rec e \<Longrightarrow> rec e ex vc = Ok (e', t, vc') False \<Longrightarrow>
    use_ok n tlc x (paths x e) vc vc'"
  unfolding checks_use_def by blast

lemma checks_useI:
  assumes "\<And>ex vc e' t vc'. rec e ex vc = Ok (e', t, vc') False \<Longrightarrow> use_ok n tlc x (paths x e) vc vc'"
  shows "checks_use n tlc x rec e"
  unfolding checks_use_def using assms by blast

named_theorems arm_use \<open>the arms of the checker respect linearity\<close>

lemma check_question_mark_use [arm_use]:
  assumes "check_question_mark n tlc ret rec qe ex vc = Ok (e', t, vc') False" "checks_use n tlc x rec qe"
  shows "use_ok n tlc x (paths x qe) vc vc'"
  using assms by (auto simp: check_question_mark_def tc_bind_clean split: option.splits dest!: checks_useD)

lemma check_field_accessor_use [arm_use]:
  assumes "check_field_accessor tlc rec e i vc = Ok (e', t, vc') False" "checks_use n tlc x rec e"
  shows "use_ok n tlc x (paths x e) vc vc'"
  using assms by (auto simp: check_field_accessor_def tc_bind_clean split: if_splits dest: checks_useD)

lemma check_unary_use [arm_use]:
  assumes "check_unary rec op e vc = Ok (e', t, vc') False" "checks_use n tlc x rec e"
  shows "use_ok n tlc x (paths x e) vc vc'"
  using assms by (auto simp: check_unary_def tc_bind_clean dest: checks_useD)

lemma check_lit_use [arm_use]:
  assumes "check_lit l ex vc = Ok (e', t, vc') False"
  shows "use_ok n tlc x [[]] vc vc'"
  using assms by (auto simp: check_lit_def Let_def tc_bind_clean use_ok_skip)

lemma check_integer_casting_use [arm_use]:
  assumes "check_integer_casting n' tlc' rec e t1 vc = Ok (e', t, vc') False" "checks_use n tlc x rec e"
  shows "use_ok n tlc x (paths x e) vc vc'"
  using assms by (auto simp: check_integer_casting_def tc_bind_clean split: if_splits dest: checks_useD)

lemma check_binary_use [arm_use]:
  assumes "check_binary n' tlc' rec op e1 e2 vc = Ok (e', t, vc') False"
    and "checks_use n tlc x rec e1" "checks_use n tlc x rec e2"
  shows "use_ok n tlc x (paths_seq (paths x e1) (paths x e2)) vc vc'"
  using assms by (auto simp: check_binary_def tc_bind_clean dest!: checks_useD intro: use_ok_seq)

lemma check_inline_conditional_use [arm_use]:
  assumes "check_inline_conditional n' tlc' rec e1 e2 e3 ex vc = Ok (e', t, vc') False"
    and "checks_use n tlc x rec e1" "checks_use n tlc x rec e2" "checks_use n tlc x rec e3"
  shows "use_ok n tlc x (paths_seq (paths x e1) (paths x e2 @ paths x e3)) vc vc'"
  using assms
  by (auto simp: check_inline_conditional_def tc_bind_clean dest!: checks_useD intro!: use_ok_seq use_ok_branch)

lemma check_named_use [arm_use]:
  assumes "check_named n tlc y vc = Ok (e', t, vc') False"
  shows "use_ok n tlc x (event_paths Move x y) vc vc'"
proof (cases y)
  case (Local li)
  with assms obtain v where v: "fmlookup (vc_vars vc) (li_id li) = Some v"
    by (auto simp: check_named_def split: option.splits)
  show ?thesis
  proof (cases "fst (fst v) = Consumed \<and> (\<exists>r. is_copy n tlc (snd (fst v)) = Ok False r)")
    case True
    with assms Local v have "vc' = vc\<lparr>vc_vars := fmdrop (li_id li) (vc_vars vc)\<rparr>"
      by (auto simp: check_named_def tc_bind_clean split: option.splits)
    with v Local show ?thesis
      by (cases v) (auto simp: use_ok_def in_vars_def event_paths_def path_safe_def intro!: vars_subI split: if_splits)
  next
    case False
    with assms Local v have "vc' = vc"
      by (fastforce simp: check_named_def tc_bind_clean split: option.splits if_splits)
    moreover have "linear_in n tlc x vc \<Longrightarrow> x \<noteq> li_id li"
      using False v unfolding linear_in_def by blast
    ultimately show ?thesis using v Local by (cases v) (auto simp: use_ok_def event_paths_def path_safe_def)
  qed
next
  case (TopLevel t)
  with assms have "vc' = vc"
    by (auto simp: check_named_def tc_bind_clean split: option.splits if_splits)
  with TopLevel show ?thesis by (simp add: use_ok_skip event_paths_def)
next
  case (Unresolved s)
  with assms show ?thesis by (simp add: check_named_def)
qed

lemma check_array_index_use [arm_use]:
  assumes "check_array_index n' tlc' rec y e vc = Ok (e', t, vc') False" "checks_use n tlc x rec e"
  shows "use_ok n tlc x (paths_seq (event_paths Use x y) (paths x e)) vc vc'"
proof (rule use_ok_seq)
  have "in_vars x vc" if "names_var x y"
    using that assms(1) by (cases y) (auto simp: check_array_index_def in_vars_def split: option.splits)
  then show "use_ok n tlc x (event_paths Use x y) vc vc"
    by (auto simp: use_ok_def event_paths_def path_safe_def)
  show "use_ok n tlc x (paths x e) vc vc'"
    using assms by (auto simp: check_array_index_def tc_bind_clean split: option.splits if_splits dest: checks_useD)
qed

lemma check_enum_inject_use [arm_use]:
  assumes "check_enum_inject n' tlc' rec b c p ex vc = Ok (e', t, vc') False"
    and "\<And>e. p = Some e \<Longrightarrow> checks_use n tlc x rec e"
  shows "use_ok n tlc x (paths x (E_EnumInject b c p)) vc vc'"
proof (cases p)
  case None
  with assms(1) have "vc' = vc"
    by (auto simp: check_enum_inject_def tc_bind_clean split: option.splits)
  with None show ?thesis by (simp add: use_ok_skip)
next
  case (Some e)
  note use = checks_useD [OF assms(2) [OF Some]]
  from assms(1) Some show ?thesis
    by (auto simp: check_enum_inject_def elim!: tc_bind_cleanE split: option.split_asm prod.split_asm dest!: use)
qed

lemma check_tuple_use [arm_use]:
  assumes "check_tuple rec es ex vc = Ok (e', t, vc') False" "\<And>e. e \<in> set es \<Longrightarrow> checks_use n tlc x rec e"
  shows "use_ok n tlc x (foldr paths_seq (map (paths x) es) [[]]) vc vc'"
proof -
  define ps where "ps = zip es (tuple_expected ex (length es))"
  have len: "map fst ps = es"
    by (auto simp: ps_def tuple_expected_def split: option.splits base_typ.splits)
  from assms(1) obtain ys where v: "check_vec (check_tuple_arg rec) ps vc = Ok (ys, vc') False"
    by (auto simp: check_tuple_def ps_def tc_bind_clean)
  have "use_ok n tlc x (foldr paths_seq (map (\<lambda>p. paths x (fst p)) ps) [[]]) vc vc'"
  proof (rule check_vec_use [OF v, where ctx = "\<lambda>vc. vc"])
    fix p s y s' assume p: "p \<in> set ps" and "check_tuple_arg rec p s = (Ok y False, s')"
    then obtain e1 t1 vc1 where r: "rec (fst p) (snd p) s = Ok (e1, t1, vc1) False" and s': "s' = vc_change s vc1"
      by (auto simp: check_tuple_arg_def closure_bind_clean split: prod.splits borrowing.splits)
    from p len have "fst p \<in> set es" by auto
    from checks_useD [OF assms(2) [OF this] r]
    show "use_ok n tlc x (paths x (fst p)) s s'"
      by (auto simp: s' use_ok_def in_vars_def vc_change_def vars_sub_def)
  qed
  moreover have "map (\<lambda>p. paths x (fst p)) ps = map (paths x) es"
    unfolding len [symmetric] by simp
  ultimately show ?thesis by simp
qed

lemma check_new_array_use [arm_use]:
  assumes "check_new_array n' tlc' rec a es vc = Ok (e', t, vc') False" "\<And>e. e \<in> set es \<Longrightarrow> checks_use n tlc x rec e"
  shows "use_ok n tlc x (foldr paths_seq (map (paths x) es) [[]]) vc vc'"
proof (cases a)
  case None
  with assms(1) obtain ys c where v: "check_vec (check_seq_element n' tlc' rec) es (None, vc) = Ok (ys, c, vc') False"
    by (auto simp: check_new_array_def tc_bind_clean split: option.splits)
  have "use_ok n tlc x (foldr paths_seq (map (paths x) es) [[]]) (snd (None :: base_typ option, vc)) (snd (c, vc'))"
    by (rule check_vec_use [OF v, where ctx = snd])
      (auto simp: check_seq_element_def closure_bind_clean split: option.splits borrowing.splits;
        blast intro: checks_useD [OF assms(2)])
  then show ?thesis by simp
next
  case (Some b)
  with assms(1) obtain ys c where v: "check_vec (check_array_element n' tlc' rec c) es vc = Ok (ys, vc') False"
    by (auto simp: check_new_array_def tc_bind_clean split: option.splits)
  show ?thesis
    by (rule check_vec_use [OF v, where ctx = "\<lambda>vc. vc"])
      (auto simp: check_array_element_def closure_bind_clean; blast intro: checks_useD [OF assms(2)])
qed

lemma check_arm_use:
  assumes "check_arm n' tlc' rec t_arg ex a arm (acc, out) = (Ok y False, acc', out')"
    and "checks_use n tlc x rec (snd arm)" "x \<notin> set (pattern_ids (fst arm))" "use_ok n tlc x P a acc"
  shows "use_ok n tlc x (P @ paths x (snd arm)) a acc'"
proof -
  obtain p e where arm: "arm = (p, e)" by fastforce
  from assms(1) obtain pvc p' e1 t1 vc1 where
      p: "typecheck_pattern n' tlc' p t_arg = Ok (pvc, p') False"
      and e: "rec e ex (vc_union a pvc) = Ok (e1, t1, vc1) False" and acc: "acc' = vc_intersection acc vc1"
    by (auto simp: check_arm_def arm closure_bind_clean)
  obtain b t where "t_arg = (b, t)" by fastforce
  with p have "binds_pattern b p (pvc, p')" by (auto intro: typecheck_pattern_binds)
  then have "\<not> in_vars x pvc"
    using assms(3) by (auto simp: binds_pattern_def arm in_vars_def fmlookup_dom_iff)
  from use_ok_arm [OF assms(4) checks_useD [OF assms(2) [unfolded arm snd_conv] e] this]
  show ?thesis by (simp add: arm acc)
qed

lemma check_arms_use:
  assumes "check_vec (check_arm n' tlc' rec t_arg ex a) arms (acc, out) = Ok (ys, acc', out') False"
    and "\<And>p. p \<in> set arms \<Longrightarrow> checks_use n tlc x rec (snd p) \<and> x \<notin> set (pattern_ids (fst p))"
    and "use_ok n tlc x P a acc"
  shows "use_ok n tlc x (P @ concat (map (\<lambda>p. paths x (snd p)) arms)) a acc'"
  using assms
proof (induction arms arbitrary: acc out ys P)
  case (Cons p arms)
  then obtain y acc1 out1 ys1 where
      p: "check_arm n' tlc' rec t_arg ex a p (acc, out) = (Ok y False, acc1, out1)"
      and rest: "check_vec (check_arm n' tlc' rec t_arg ex a) arms (acc1, out1) = Ok (ys1, acc', out') False"
    by (auto simp: check_vec_Cons_clean simp del: check_vec.simps)
  have "use_ok n tlc x (P @ paths x (snd p)) a acc1"
    using check_arm_use [OF p] Cons.prems by simp
  from Cons.IH [OF rest _ this] Cons.prems(2) show ?case
    by simp
qed simp

lemma check_match_with_use [arm_use]:
  assumes "check_match_with n' tlc' rec e arms ex vc = Ok (e', t, vc') False" "checks_use n tlc x rec e"
    and arms: "\<And>p. p \<in> set arms \<Longrightarrow> checks_use n tlc x rec (snd p) \<and> x \<notin> set (pattern_ids (fst p))"
  shows "use_ok n tlc x (paths_seq (paths x e) (concat (map (\<lambda>p. paths x (snd p)) arms))) vc vc'"
proof -
  from assms(1) obtain e1 t1 vc1 ys out where e: "rec e None vc = Ok (e1, t1, vc1) False"
      and a: "check_vec (check_arm n' tlc' rec t1 ex vc1) arms (vc1, None) = Ok (ys, vc', out) False"
    by (auto simp: check_match_with_def tc_bind_clean split: option.splits)
  have "use_ok n tlc x [] vc1 vc1" by (simp add: use_ok_def)
  from check_arms_use [OF a arms this] show ?thesis
    using use_ok_seq [OF checks_useD [OF assms(2) e]] by auto
qed

definition arg_paths :: "usize \<Rightarrow> expression \<times> borrowing \<Rightarrow> event list list" where
  "arg_paths x a = (if snd a = Borrowed \<and> is_named (fst a) then use_paths x (fst a) else paths x (fst a))"

lemma is_namedE:
  assumes "is_named e"
  obtains y where "e = E_Named y"
  using assms by (cases e) auto

lemma check_args_use:
  assumes "check_args n' tlc' rec ps vc ctx = Ok (as, ts, vc', ctx') False"
    and "\<And>p. p \<in> set ps \<Longrightarrow> checks_use n tlc x rec (fst (snd p))"
  shows "use_ok n tlc x (foldr paths_seq (map (arg_paths x \<circ> snd) ps) [[]]) vc vc'"
  using assms
proof (induction ps arbitrary: vc ctx as ts)
  case (Cons p ps)
  obtain sig_t e b where p: "p = (sig_t, e, b)" by (cases p) auto
  from Cons.prems(1) obtain e1 t1 vc1 vc2 ctx2 as1 ts1 where
      e: "rec e (Some (snd sig_t)) vc = Ok (e1, t1, vc1) False"
      and vc2: "vc2 = (if b = Borrowed \<and> is_named e then vc else vc1)"
      and rest: "check_args n' tlc' rec ps vc2 ctx2 = Ok (as1, ts1, vc', ctx') False"
    by (cases b) (auto simp: p tc_bind_clean split: borrowing.split_asm option.split_asm)
  have "use_ok n tlc x (paths x e) vc vc1"
    by (rule checks_useD [where rec = rec]) (use e Cons.prems(2) [of p] in \<open>auto simp: p\<close>)
  then have "use_ok n tlc x (arg_paths x (e, b)) vc vc2"
    by (auto simp: vc2 arg_paths_def elim!: is_namedE intro: use_ok_borrow)
  from use_ok_seq [OF this Cons.IH [OF rest]] Cons.prems(2) show ?case by (simp add: p)
qed (simp add: use_ok_skip)

lemma check_args_zip_use:
  assumes "check_args n' tlc' rec (zip sigs args) vc ctx = Ok (as, ts, vc', ctx') False" "length sigs = length args"
    and "\<And>a. a \<in> set args \<Longrightarrow> checks_use n tlc x rec (fst a)"
  shows "use_ok n tlc x (foldr paths_seq (map (arg_paths x) args) [[]]) vc vc'"
proof -
  have "checks_use n tlc x rec (fst (snd p))" if "p \<in> set (zip sigs args)" for p
    using assms(3) that by (metis in_set_zipE prod.collapse)
  moreover have "map (arg_paths x \<circ> snd) (zip sigs args) = map (arg_paths x) args"
    using assms(2) by (metis map_map map_snd_zip)
  ultimately show ?thesis
    using check_args_use [OF assms(1), of n tlc x] by simp
qed

lemma use_ok_update_mutable [simp]: "use_ok n tlc x P vc (update_mutable_vars mv vc') = use_ok n tlc x P vc vc'"
  by (simp add: use_ok_def update_mutable_vars_def Let_def in_vars_def vars_sub_def)

lemma check_func_call_use [arm_use]:
  assumes "check_func_call n' tlc' rec pre f args vc = Ok (e', t, vc') False"
    and "\<And>a. a \<in> set args \<Longrightarrow> checks_use n tlc x rec (fst a)"
  shows "use_ok n tlc x (foldr paths_seq (map (arg_paths x) args) [[]]) vc vc'"
proof -
  from assms(1) obtain sigs ctx as ts vc1 ctx1 mv where len: "length sigs = length args" and vc': "vc' = update_mutable_vars mv vc1"
      and a: "check_args n' tlc' rec (zip sigs args) vc ctx = Ok (as, ts, vc1, ctx1) False"
    by (auto simp: check_func_call_def tc_bind_clean split: if_split_asm)
  from check_args_zip_use [OF a len assms(2)] show ?thesis unfolding vc' by simp
qed

lemma path_safe_move_use: "path_safe i j (Move # p) \<Longrightarrow> path_safe i j (Use # p)"
proof -
  assume m: "path_safe i j (Move # p)"
  have "\<exists>b. run (Use # p) a = Some b \<and> (j \<longrightarrow> b)" if i: "i \<longrightarrow> a" for a
  proof -
    from m i obtain b where "run (Move # p) a = Some b" "j \<longrightarrow> b" unfolding path_safe_def by blast
    then have a: "a" "run p False = Some b" by (simp_all split: if_splits)
    from run_mono [OF a(2), of True] obtain b' where "run p True = Some b'" "b \<longrightarrow> b'" by auto
    with a \<open>j \<longrightarrow> b\<close> show ?thesis by auto
  qed
  then show ?thesis by (simp add: path_safe_def)
qed

lemma use_ok_selector:
  assumes "use_ok n tlc x (paths_seq (arg_paths x (e, b)) P) vc vc'"
  shows "use_ok n tlc x (paths_seq (if is_named e then use_paths x e else paths x e) P) vc vc'"
proof (cases "b = Consumed \<and> is_named e")
  case True
  then obtain y where e: "e = E_Named y" by (auto elim: is_namedE)
  with assms True show ?thesis
    by (auto simp: use_ok_def arg_paths_def event_paths_def set_paths_seq intro!: path_safe_move_use)
next
  case False
  with assms show ?thesis by (auto simp: arg_paths_def)
qed

lemma check_method_call_use [arm_use]:
  assumes "check_method_call n' tlc' rec sel f args vc = Ok (e', t, vc') False"
    and "checks_use n tlc x rec (fst sel)" "\<And>a. a \<in> set args \<Longrightarrow> checks_use n tlc x rec (fst a)"
  shows "use_ok n tlc x (paths_seq (if is_named (fst sel) then use_paths x (fst sel) else paths x (fst sel))
    (foldr paths_seq (map (arg_paths x) args) [[]])) vc vc'"
proof -
  from assms(1) obtain b sigs ctx as ts vc1 ctx1 mv where len: "length sigs = length ((fst sel, b) # args)"
      and vc': "vc' = update_mutable_vars mv vc1"
      and a: "check_args n' tlc' rec (zip sigs ((fst sel, b) # args)) vc ctx = Ok (as, ts, vc1, ctx1) False"
    by (auto simp: check_method_call_def Let_def elim!: tc_bind_cleanE split: if_split_asm list.split_asm prod.split_asm
        simp del: zip_Cons_Cons check_args.simps; metis length_Cons)
  have "use_ok n tlc x (foldr paths_seq (map (arg_paths x) ((fst sel, b) # args)) [[]]) vc vc1"
    by (rule check_args_zip_use [OF a len]) (use assms(2,3) in auto)
  then show ?thesis unfolding vc' use_ok_update_mutable
    by (intro use_ok_selector [where b = b]) simp
qed

lemma paths_args:
  "paths x (E_FuncCall p f args ts) = foldr paths_seq (map (arg_paths x) args) [[]]"
  "paths x (E_MethodCall sel t f args ts) =
     paths_seq (if is_named (fst sel) then use_paths x (fst sel) else paths x (fst sel))
       (foldr paths_seq (map (arg_paths x) args) [[]])"
  by (simp_all add: arg_paths_def [abs_def])

text \<open>Every expression whose patterns do not bind \<open>x\<close> again respects its linearity.\<close>

lemma typecheck_expression_use:
  "x \<notin> set (bound_ids e) \<Longrightarrow> checks_use n tlc x (typecheck_expression n tlc ret) e"
proof (induction e rule: bound_ids.induct)
  case (7 p f args ts)
  show ?case
    by (rule checks_useI, simp only: typecheck_expression.simps expression.case paths_args, erule check_func_call_use) (use 7 in auto)
next
  case (8 sel t f args ts)
  show ?case
    by (rule checks_useI, simp only: typecheck_expression.simps expression.case paths_args, erule check_method_call_use) (use 8 in auto)
next
  case (11 e arms)
  show ?case
    by (rule checks_useI, simp add: typecheck_expression.simps, erule check_match_with_use) (use 11 in auto)
qed (rule checks_useI, simp add: typecheck_expression.simps del: paths.simps(9,10),
    (erule arm_use; simp; fail)?)+

section \<open>Properties\<close>

text \<open>
  linearity. When an expression is accepted without an error, the context after it is part of the
  context before it; and for an owned variable whose type is not \<open>Copy\<close>, every path through the
  expression uses it only while it is available: starting from a value if it is in the context before,
  no use and no move follows a move, and it still has its value at the end if it is in the context after.
\<close>

theorem linear_variables_moved_once:
  assumes "typecheck_expression n tlc ret e ex vc = Ok (e', t, vc') False" "x \<notin> set (bound_ids e)"
    and "linear_in n tlc x vc"
  shows "vars_sub vc' vc \<and>
    list_all (\<lambda>p. \<exists>b. run p (in_vars x vc) = Some b \<and> (in_vars x vc' \<longrightarrow> b)) (paths x e)"
proof -
  have "use_ok n tlc x (paths x e) vc vc'"
    using checks_useD [OF typecheck_expression_use assms(1)] assms(2) by blast
  with assms(3) show ?thesis by (auto simp: use_ok_def path_safe_def list_all_iff)
qed

theorem linear_variables_moved_once_witness:
  "paths 3 seq_tuple = [[Move]] \<and> run [Move] True = Some False \<and>
   list_all (\<lambda>p. \<exists>b. run p (in_vars 3 seq_context) = Some b) (paths 3 seq_tuple) \<and>
   typecheck_expression 1 alias_example None (E_Tuple [seq_tuple, seq_tuple]) None seq_context = Err"
proof -
  have "linear_in 1 alias_example 3 seq_context"
    by (auto simp: linear_in_def seq_context_def tc_return_def machine_integers_def)
  from linear_variables_moved_once [OF seq_tuple_checks _ this]
  have "list_all (\<lambda>p. \<exists>b. run p (in_vars 3 seq_context) = Some b) (paths 3 seq_tuple)"
    by (auto simp: seq_tuple_def list_all_iff)
  moreover have "typecheck_expression 1 alias_example None (E_Tuple [seq_tuple, seq_tuple]) None seq_context = Err"
    by (simp add: seq_tuple_def seq_context_def typecheck_expression.simps check_tuple_def tuple_expected_def
      check_tuple_arg_def check_named_def check_lit_def concretize_literal_def tc_return_def vc_change_def map_union_def
      machine_integers_def fmdrop_fmupd_same)
  ultimately show ?thesis by (simp add: seq_tuple_def paths_seq_def event_paths_def)
qed

end
