(* ===== verification/Typecheck_Statement.thy ===== *)
theory Typecheck_Statement
  imports Linear_Use
begin

text \<open>
  Statements, blocks, items and programs of \<open>language/src/typechecker.rs\<close>: \<open>typecheck_expression_qm\<close>,
  \<open>typecheck_statement\<close>, \<open>typecheck_block\<close>, \<open>typecheck_item\<close> and \<open>typecheck_program\<close>. The counter of fresh
  variables of the elaboration is passed through. As for expressions, the arms with blocks in them
  take the recursive call as an argument.

  The lemmas show that a loop leaves every variable in place, and that an accepted block uses its
  linear variables only while they have a value, on every path and for any number of iterations of its loops.
\<close>

section \<open>Expressions with question marks\<close>

definition elaborate :: "nat \<Rightarrow> expression \<Rightarrow> (expression \<times> nat) tc" where
  "elaborate k e = (case eliminate_question_marks k e of None \<Rightarrow> Panic | Some r \<Rightarrow> tc_return r)"

definition typecheck_expression_qm :: "nat \<Rightarrow> top_level_context \<Rightarrow> base_typ option \<Rightarrow> expression \<Rightarrow>
    base_typ option \<Rightarrow> var_context \<Rightarrow> nat \<Rightarrow> (expression \<times> Typ \<times> carrier_typ option \<times> var_context \<times> nat) tc" where
  "typecheck_expression_qm n tlc ret e expected_type vc k =
     tc_bind (typecheck_expression n tlc ret e expected_type vc) (\<lambda>(e, ty, vctx).
     tc_bind (elaborate k e) (\<lambda>(e, k).
     tc_return (e, ty, monadic_carrier e, vctx, k)))"

definition typecheck_expression_no_qm :: "nat \<Rightarrow> top_level_context \<Rightarrow> base_typ option \<Rightarrow> expression \<Rightarrow>
    base_typ option \<Rightarrow> var_context \<Rightarrow> nat \<Rightarrow> (expression \<times> Typ \<times> var_context \<times> nat) tc" where
  "typecheck_expression_no_qm n tlc ret e expected_type vc k =
     tc_bind (typecheck_expression_qm n tlc ret e expected_type vc k) (\<lambda>(e, ty, carrier, vctx, k).
     case carrier of
       Some c \<Rightarrow> Err
     | None \<Rightarrow> tc_return (e, ty, vctx, k))"

section \<open>Statements without blocks\<close>

type_synonym checked_stmt = "statement \<times> Typ \<times> var_context \<times> var_set \<times> nat"

type_synonym check_stmt_fun = "statement \<Rightarrow> var_context \<Rightarrow> nat \<Rightarrow> checked_stmt tc"

type_synonym check_block_fun = "block \<Rightarrow> var_context \<Rightarrow> nat \<Rightarrow> (block \<times> var_context \<times> nat) tc"

definition fill_question_mark :: "var_context \<Rightarrow> question_mark_info \<Rightarrow> question_mark_info" where
  "fill_question_mark vc question_mark =
     map_option (\<lambda>(mut_vars, fun_dep). (translate_var_context_to_mut_vars vc, fun_dep)) question_mark"

definition check_let_binding :: "nat \<Rightarrow> top_level_context \<Rightarrow> base_typ \<Rightarrow> pattern \<Rightarrow> Typ option \<Rightarrow> expression \<Rightarrow>
    question_mark_info \<Rightarrow> var_context \<Rightarrow> nat \<Rightarrow> checked_stmt tc" where
  "check_let_binding n tlc return_typ pat t expr question_mark vc k =
     tc_bind (typecheck_expression_qm n tlc (Some return_typ) expr (map_option snd t) vc k)
       (\<lambda>(new_expr, expr_typ, carrier, new_vc, k).
     tc_bind (typecheck_question_mark n tlc (question_mark \<noteq> None) expr_typ return_typ) (\<lambda>expr_typ.
     tc_bind (case t of
         None \<Rightarrow> tc_return (Some expr_typ)
       | Some inner_typ \<Rightarrow>
           tc_bind (unify_types n tlc inner_typ expr_typ Map.empty) (\<lambda>r.
           if r = None then Err else tc_return t)) (\<lambda>t.
     tc_bind (typecheck_pattern n tlc pat expr_typ) (\<lambda>(pat_vc, pat).
     let ret_vc = vc_change vc (vc_union new_vc pat_vc);
         ret_vc = (case pat of
            P_IdentPat (Local x) True \<Rightarrow>
              (case t of
                 Some var \<Rightarrow> ret_vc\<lparr>vc_mutable_vars := fmupd (li_id x) (var, li_name x, False) (vc_mutable_vars ret_vc)\<rparr>
               | None \<Rightarrow> ret_vc)
          | _ \<Rightarrow> ret_vc)
     in tc_return (S_LetBinding pat t new_expr carrier (fill_question_mark ret_vc question_mark),
          (Consumed, UnitTyp), ret_vc, {||}, k)))))"

fun var_set_unit :: "ident \<Rightarrow> var_set tc" where
  "var_set_unit (Local x) = tc_return {|x|}"
| "var_set_unit x = Panic"

definition check_reassignment :: "nat \<Rightarrow> top_level_context \<Rightarrow> base_typ \<Rightarrow> ident \<Rightarrow> expression \<Rightarrow>
    question_mark_info \<Rightarrow> var_context \<Rightarrow> nat \<Rightarrow> checked_stmt tc" where
  "check_reassignment n tlc return_typ x e question_mark vc k =
     tc_bind (typecheck_expression_qm n tlc (Some return_typ) e None vc k)
       (\<lambda>(new_e, e_typ, carrier, new_vc, k).
     tc_bind (typecheck_question_mark n tlc (question_mark \<noteq> None) e_typ return_typ) (\<lambda>e_typ.
     tc_bind (find_typ x vc tlc) (\<lambda>r. case r of
       None \<Rightarrow> Err
     | Some x_typ \<Rightarrow>
         tc_bind (unify_types n tlc e_typ x_typ Map.empty) (\<lambda>r.
         if r = None then Err else
         tc_bind (add_var x x_typ new_vc) (\<lambda>ret_vc.
         tc_bind (var_set_unit x) (\<lambda>mutated.
         tc_return (S_Reassignment x (Some x_typ) new_e carrier (fill_question_mark ret_vc question_mark),
           (Consumed, UnitTyp), ret_vc, mutated, k)))))))"

definition check_array_update :: "nat \<Rightarrow> top_level_context \<Rightarrow> base_typ \<Rightarrow> ident \<Rightarrow> expression \<Rightarrow> expression \<Rightarrow>
    question_mark_info \<Rightarrow> var_context \<Rightarrow> nat \<Rightarrow> checked_stmt tc" where
  "check_array_update n tlc return_typ x e1 e2 question_mark vc k =
     tc_bind (typecheck_expression_qm n tlc (Some return_typ) e1 None vc k)
       (\<lambda>(new_e1, e1_t, carrier1, vc, k).
     tc_bind (typecheck_expression_qm n tlc (Some return_typ) e2 None vc k)
       (\<lambda>(new_e2, e2_t, carrier2, vc, k).
     tc_bind (typecheck_question_mark n tlc (question_mark \<noteq> None) e2_t return_typ) (\<lambda>e2_t.
     tc_bind (is_index n tlc (snd e1_t)) (\<lambda>idx.
     if \<not> idx then Err else
     tc_bind (find_typ x vc tlc) (\<lambda>r. case r of
       None \<Rightarrow> Err
     | Some x_typ \<Rightarrow>
         tc_bind (is_array n tlc x_typ) (\<lambda>(len, cell_t).
         tc_bind (unify_types n tlc e2_t (Consumed, cell_t) Map.empty) (\<lambda>r.
         if r = None then Err else
         tc_bind (if carrier1 \<noteq> None \<or> carrier2 \<noteq> None
           then early_return_type_from_return_type n tlc return_typ else tc_return None) (\<lambda>carrier.
         tc_bind (var_set_unit x) (\<lambda>mutated.
         tc_return (S_ArrayUpdate x new_e1 new_e2 carrier (fill_question_mark vc question_mark) (Some x_typ),
           (Consumed, UnitTyp), vc, mutated, k))))))))))"

definition check_return_exp :: "nat \<Rightarrow> top_level_context \<Rightarrow> base_typ \<Rightarrow> expression \<Rightarrow> var_context \<Rightarrow> nat \<Rightarrow>
    checked_stmt tc" where
  "check_return_exp n tlc return_typ e vc k =
     tc_bind (typecheck_expression_qm n tlc (Some return_typ) e (Some return_typ) vc k)
       (\<lambda>(new_e, e_t, carrier, vc, k).
     tc_return (S_ReturnExp new_e (Some e_t), e_t, vc, {||}, k))"

section \<open>Conditionals and loops\<close>

definition unit_block :: "block \<Rightarrow> unit tc" where
  "unit_block b =
     (case b_return_typ b of
        None \<Rightarrow> Panic
      | Some t \<Rightarrow> if t = (Consumed, UnitTyp) then tc_return () else Err)"

definition block_mutated :: "block \<Rightarrow> var_set" where
  "block_mutated b = (case b_mutated b of None \<Rightarrow> {||} | Some m \<Rightarrow> mi_vars m)"

definition check_conditional :: "nat \<Rightarrow> top_level_context \<Rightarrow> base_typ \<Rightarrow> check_block_fun \<Rightarrow> expression \<Rightarrow>
    block \<Rightarrow> block option \<Rightarrow> var_context \<Rightarrow> nat \<Rightarrow> checked_stmt tc" where
  "check_conditional n tlc return_typ rec cond b1 b2 original_vc k =
     tc_bind (typecheck_expression_no_qm n tlc (Some return_typ) cond None original_vc k)
       (\<lambda>(new_cond, cond_t, vc, k).
     tc_bind (unify_types_default_error_message n tlc cond_t (Consumed, T_Bool) Map.empty) (\<lambda>u.
     tc_bind (rec b1 vc k) (\<lambda>(new_b1, vc_b1, k).
     tc_bind (case b2 of
         None \<Rightarrow> tc_return (None, vc, k)
       | Some b2 \<Rightarrow> tc_bind (rec b2 vc k) (\<lambda>(new_b2, vc_b2, k). tc_return (Some new_b2, vc_b2, k)))
       (\<lambda>(new_b2, vc_b2, k).
     tc_bind (unit_block new_b1) (\<lambda>u.
     tc_bind (case new_b2 of None \<Rightarrow> tc_return () | Some new_b2 \<Rightarrow> unit_block new_b2) (\<lambda>u.
     let new_mutated = block_mutated new_b1 |\<union>| (case new_b2 of None \<Rightarrow> {||} | Some b \<Rightarrow> block_mutated b);
         mut_tuple = var_set_to_tuple new_mutated vc;
         ret_vc = vc_intersection (vc_intersection original_vc vc_b1) vc_b2
     in tc_bind (early_return_type_from_return_type n tlc return_typ) (\<lambda>early.
        tc_return (S_Conditional new_cond new_b1 new_b2 (Some (MutatedInfo early new_mutated mut_tuple)),
          (Consumed, UnitTyp), ret_vc, new_mutated, k))))))))"

definition usize_bound :: "nat \<Rightarrow> top_level_context \<Rightarrow> Typ \<Rightarrow> unit tc" where
  "usize_bound n tlc t =
     tc_bind (dealias_type n tlc (snd t)) (\<lambda>ty.
     if fst t = Consumed \<and> ty = T_Usize then tc_return () else Err)"

text \<open>
  \<open>HashMap::difference\<close> of the crate \<open>im\<close> is the symmetric difference; the loop in the code then keeps the
  variables of the original context.
\<close>

definition consumed_vars :: "var_context \<Rightarrow> var_context \<Rightarrow> usize fset" where
  "consumed_vars original_vc vc =
     ffilter (\<lambda>x. x |\<in>| fmdom (vc_vars original_vc))
       ((fmdom (vc_vars original_vc) |-| fmdom (vc_vars vc)) |\<union>| (fmdom (vc_vars vc) |-| fmdom (vc_vars original_vc)))"

definition check_for_loop :: "nat \<Rightarrow> top_level_context \<Rightarrow> base_typ \<Rightarrow> check_block_fun \<Rightarrow> ident option \<Rightarrow>
    expression \<Rightarrow> expression \<Rightarrow> block \<Rightarrow> var_context \<Rightarrow> nat \<Rightarrow> checked_stmt tc" where
  "check_for_loop n tlc return_typ rec x e1 e2 b original_vc k =
     tc_bind (typecheck_expression_no_qm n tlc (Some return_typ) e1 None original_vc k)
       (\<lambda>(new_e1, t_e1, vc, k).
     tc_bind (typecheck_expression_no_qm n tlc (Some return_typ) e2 None vc k) (\<lambda>(new_e2, t_e2, vc, k).
     tc_bind (usize_bound n tlc t_e1) (\<lambda>u.
     tc_bind (usize_bound n tlc t_e2) (\<lambda>u.
     tc_bind (case x of None \<Rightarrow> tc_return vc | Some x \<Rightarrow> add_var x (Consumed, T_Usize) vc) (\<lambda>vc.
     tc_bind (rec b vc k) (\<lambda>(new_b, vc, k).
     case b_mutated new_b of
       None \<Rightarrow> Panic
     | Some m \<Rightarrow>
         if consumed_vars original_vc vc \<noteq> {||} then Err
         else tc_return (S_ForLoop x new_e1 new_e2 new_b, (Consumed, UnitTyp),
           vc_intersection original_vc vc, mi_vars m, k)))))))"

section \<open>Blocks\<close>

text \<open>The loop over the statements of a block; every statement but the last has type unit.\<close>

fun check_stmts :: "check_stmt_fun \<Rightarrow> statement list \<Rightarrow> var_context \<Rightarrow> var_set \<Rightarrow> nat \<Rightarrow>
    (statement list \<times> Typ \<times> var_context \<times> var_set \<times> nat) tc" where
  "check_stmts rec [] vc mutated_vars k = tc_return ([], (Consumed, UnitTyp), vc, mutated_vars, k)"
| "check_stmts rec (s # ss) vc mutated_vars k =
     tc_bind (rec s vc k) (\<lambda>(new_stmt, stmt_typ, new_vc, new_mutated_vars, k).
     let vc = vc_change vc new_vc; mutated_vars = mutated_vars |\<union>| new_mutated_vars in
     if ss = [] then tc_return ([new_stmt], stmt_typ, vc, mutated_vars, k)
     else if stmt_typ = (Consumed, UnitTyp) then
       tc_bind (check_stmts rec ss vc mutated_vars k) (\<lambda>(new_stmts, return_typ, vc, mutated_vars, k).
       tc_return (new_stmt # new_stmts, return_typ, vc, mutated_vars, k))
     else Err)"

definition unwrap_bool :: "bool option \<Rightarrow> bool tc" where
  "unwrap_bool b = (case b of None \<Rightarrow> Panic | Some x \<Rightarrow> tc_return x)"

fun stmt_contains_question_mark :: "statement \<Rightarrow> bool tc" where
  "stmt_contains_question_mark (S_Reassignment x t e c q) = tc_return (q \<noteq> None)"
| "stmt_contains_question_mark (S_LetBinding p t e c q) = tc_return (q \<noteq> None)"
| "stmt_contains_question_mark (S_Conditional c then_b else_b m) =
     tc_bind (unwrap_bool (b_contains_question_mark then_b)) (\<lambda>q1.
     if q1 then tc_return True
     else (case else_b of
         None \<Rightarrow> tc_return False
       | Some else_b \<Rightarrow> unwrap_bool (b_contains_question_mark else_b)))"
| "stmt_contains_question_mark (S_ForLoop x e1 e2 loop_b) = unwrap_bool (b_contains_question_mark loop_b)"
| "stmt_contains_question_mark s = tc_return False"

text \<open>\<open>iter.any(f)\<close> stops at the first element that is true.\<close>

fun tc_any :: "('a \<Rightarrow> bool tc) \<Rightarrow> 'a list \<Rightarrow> bool tc" where
  "tc_any f [] = tc_return False"
| "tc_any f (x # xs) = tc_bind (f x) (\<lambda>b. if b then tc_return True else tc_any f xs)"

definition check_block :: "nat \<Rightarrow> top_level_context \<Rightarrow> base_typ \<Rightarrow> check_stmt_fun \<Rightarrow> block \<Rightarrow> var_context \<Rightarrow> nat \<Rightarrow>
    (block \<times> var_context \<times> nat) tc" where
  "check_block n tlc function_return_typ rec b original_vc k =
     tc_bind (check_stmts rec (b_stmts b) original_vc {||} k) (\<lambda>(new_stmts, return_typ, vc, mutated_vars, k).
     let mutated_vars = ffilter (\<lambda>v. li_id v |\<in>| fmdom (vc_vars original_vc)) mutated_vars;
         mut_tuple = var_set_to_tuple mutated_vars vc
     in tc_bind (tc_any stmt_contains_question_mark new_stmts) (\<lambda>contains_question_mark.
        let new_vc = vc_intersection vc original_vc in
        tc_bind (early_return_type_from_return_type n tlc function_return_typ) (\<lambda>early.
        tc_return (Block new_stmts (Some (MutatedInfo early mutated_vars mut_tuple)) (Some return_typ)
          (Some contains_question_mark) (translate_var_context_to_mut_vars new_vc)
          (b_function_dependencies b), new_vc, k))))"

section \<open>The recursion\<close>

lemma check_conditional_cong [fundef_cong]:
  assumes "n = n'" "tlc = tlc'" "t = t'" "c = c'" "b1 = b1'" "b2 = b2'" "vc = vc'" "k = k'"
    and "\<And>vc k. f b1' vc k = g b1' vc k" "\<And>b vc k. b2' = Some b \<Longrightarrow> f b vc k = g b vc k"
  shows "check_conditional n tlc t f c b1 b2 vc k = check_conditional n' tlc' t' g c' b1' b2' vc' k'"
  using assms by (cases b2') (simp_all add: check_conditional_def)

lemma check_for_loop_cong [fundef_cong]:
  assumes "n = n'" "tlc = tlc'" "t = t'" "x = x'" "e1 = e1'" "e2 = e2'" "b = b'" "vc = vc'" "k = k'"
    and "\<And>vc k. f b' vc k = g b' vc k"
  shows "check_for_loop n tlc t f x e1 e2 b vc k = check_for_loop n' tlc' t' g x' e1' e2' b' vc' k'"
  using assms by (simp add: check_for_loop_def)

lemma check_stmts_cong:
  assumes "\<And>s vc k. s \<in> set ss \<Longrightarrow> f s vc k = g s vc k"
  shows "check_stmts f ss vc m k = check_stmts g ss vc m k"
  using assms by (induction ss arbitrary: vc m k) (simp_all cong: if_cong add: Let_def)

lemma check_block_cong [fundef_cong]:
  assumes "n = n'" "tlc = tlc'" "t = t'" "b = b'" "vc = vc'" "k = k'"
    and "\<And>s vc k. s \<in> set (b_stmts b') \<Longrightarrow> f s vc k = g s vc k"
  shows "check_block n tlc t f b vc k = check_block n' tlc' t' g b' vc' k'"
  using assms check_stmts_cong [of "b_stmts b'" f g] by (simp add: check_block_def)

function typecheck_statement :: "nat \<Rightarrow> top_level_context \<Rightarrow> base_typ \<Rightarrow> statement \<Rightarrow> var_context \<Rightarrow> nat \<Rightarrow> checked_stmt tc"
  and typecheck_block :: "nat \<Rightarrow> top_level_context \<Rightarrow> base_typ \<Rightarrow> block \<Rightarrow> var_context \<Rightarrow> nat \<Rightarrow>
    (block \<times> var_context \<times> nat) tc" where
  "typecheck_statement n tlc return_typ s vc k =
     (case s of
        S_LetBinding pat t expr c question_mark \<Rightarrow> check_let_binding n tlc return_typ pat t expr question_mark vc k
      | S_Reassignment x t e c question_mark \<Rightarrow> check_reassignment n tlc return_typ x e question_mark vc k
      | S_ArrayUpdate x e1 e2 c question_mark t \<Rightarrow> check_array_update n tlc return_typ x e1 e2 question_mark vc k
      | S_ReturnExp e t \<Rightarrow> check_return_exp n tlc return_typ e vc k
      | S_Conditional cond b1 b2 m \<Rightarrow>
          check_conditional n tlc return_typ (typecheck_block n tlc return_typ) cond b1 b2 vc k
      | S_ForLoop x e1 e2 b \<Rightarrow> check_for_loop n tlc return_typ (typecheck_block n tlc return_typ) x e1 e2 b vc k)"
| "typecheck_block n tlc return_typ b vc k =
     check_block n tlc return_typ (typecheck_statement n tlc return_typ) b vc k"
  by pat_completeness auto

termination
  by (relation "measure (\<lambda>a. case a of Inl (n, tlc, t, s, vc, k) \<Rightarrow> size s | Inr (n, tlc, t, b, vc, k) \<Rightarrow> size b)")
    (auto simp: size_block_stmt)

declare typecheck_statement.simps [simp del] typecheck_block.simps [simp del]

section \<open>Items and programs\<close>

fun add_args :: "(ident \<times> Typ) list \<Rightarrow> var_context \<Rightarrow> var_context tc" where
  "add_args [] vc = tc_return vc"
| "add_args ((x, t) # args) vc = tc_bind (add_var x t vc) (add_args args)"

text \<open>The check of a size or length, an expression of type \<open>usize\<close>; a different type is reported only.\<close>

definition check_usize_expression :: "nat \<Rightarrow> top_level_context \<Rightarrow> expression \<Rightarrow> nat \<Rightarrow> (expression \<times> nat) tc" where
  "check_usize_expression n tlc e k =
     tc_bind (typecheck_expression_no_qm n tlc None e None vc_new k) (\<lambda>(new_e, t, vc, k).
     tc_bind (unify_types n tlc (Consumed, T_Usize) t Map.empty) (\<lambda>r.
     tc_bind (if r = None then tc_report else tc_return ()) (\<lambda>u.
     tc_return (new_e, k))))"

definition check_fn_decl :: "nat \<Rightarrow> top_level_context \<Rightarrow> top_level_ident \<Rightarrow> func_sig \<Rightarrow> block \<Rightarrow> nat \<Rightarrow>
    (item \<times> top_level_context \<times> nat) tc" where
  "check_fn_decl n tlc f sig b k =
     tc_bind (add_args (sig_args_of sig) vc_new) (\<lambda>vc.
     tc_bind (typecheck_block n tlc (sig_ret_of sig) b vc k) (\<lambda>(new_b, final_vc, k).
     case b_return_typ new_b of
       None \<Rightarrow> Panic
     | Some comp_ret_typ \<Rightarrow>
         tc_bind (unify_types n tlc comp_ret_typ (Consumed, sig_ret_of sig) Map.empty) (\<lambda>r.
         tc_bind (if r = None then tc_report else tc_return ()) (\<lambda>u.
         let new_sig = sig\<lparr>sig_mutable_vars := b_mutable_vars new_b\<rparr> in
         tc_return (I_FnDecl f new_sig new_b,
           tlc\<lparr>ctx_functions := functions_insert (Independent f) (F_Local new_sig) (ctx_functions tlc)\<rparr>, k)))))"

definition typecheck_item :: "nat \<Rightarrow> item \<Rightarrow> top_level_context \<Rightarrow> nat \<Rightarrow> (item \<times> top_level_context \<times> nat) tc" where
  "typecheck_item n i tlc k =
     (case i of
        I_NaturalIntegerDecl typ_ident sec canvas_size info \<Rightarrow>
          tc_bind (check_usize_expression n tlc canvas_size k) (\<lambda>(new_canvas_size, k).
          tc_return (I_NaturalIntegerDecl typ_ident sec new_canvas_size info, tlc, k))
      | I_AliasDecl x t \<Rightarrow> tc_return (i, tlc, k)
      | I_ImportedCrate x \<Rightarrow> tc_return (i, tlc, k)
      | I_EnumDecl x cases \<Rightarrow> tc_return (i, tlc, k)
      | I_FnDecl f sig b \<Rightarrow> check_fn_decl n tlc f sig b k
      | I_ArrayDecl x len cell_t index_typ \<Rightarrow>
          tc_bind (check_usize_expression n tlc len k) (\<lambda>(new_size, k).
          tc_return (I_ArrayDecl x new_size cell_t index_typ, tlc, k))
      | I_ConstDecl x t e \<Rightarrow>
          tc_bind (typecheck_expression_no_qm n tlc None e None vc_new k) (\<lambda>(new_e, new_t, vc, k).
          tc_bind (unify_types n tlc (Consumed, t) new_t Map.empty) (\<lambda>r.
          if r = None then Err else tc_return (I_ConstDecl x t new_e, tlc, k))))"

definition check_program_item :: "nat \<Rightarrow> item \<Rightarrow> top_level_context \<times> nat \<Rightarrow> item tc \<times> top_level_context \<times> nat" where
  "check_program_item n i s = (case s of (tlc, k) \<Rightarrow>
     closure_bind (typecheck_item n i tlc k) s (\<lambda>(new_i, tlc, k). (tc_return new_i, tlc, k)))"

definition typecheck_program :: "nat \<Rightarrow> item list \<Rightarrow> top_level_context \<Rightarrow> nat \<Rightarrow>
    (item list \<times> top_level_context \<times> nat) tc" where
  "typecheck_program n items tlc k = check_vec (check_program_item n) items (tlc, k)"

section \<open>Paths of statements\<close>

text \<open>
  The uses of the variable \<open>x\<close> by a statement, an inductive relation because a loop repeats its
  body any number of times. An assignment gives \<open>x\<close> a value after the right-hand side has been evaluated; an
  update of an array element uses the array. A path that ends early, at a question mark, is a
  prefix of a path.
\<close>

inductive stmt_path :: "usize \<Rightarrow> statement \<Rightarrow> event list \<Rightarrow> bool"
  and block_path :: "usize \<Rightarrow> block \<Rightarrow> event list \<Rightarrow> bool"
  and stmts_path :: "usize \<Rightarrow> statement list \<Rightarrow> event list \<Rightarrow> bool" for x where
  path_let: "p \<in> set (paths x e) \<Longrightarrow> stmt_path x (S_LetBinding pat t e c q) p"
| path_assign: "p \<in> set (paths x e) \<Longrightarrow> r \<in> set (event_paths Assign x y) \<Longrightarrow>
    stmt_path x (S_Reassignment y t e c q) (p @ r)"
| path_update: "p1 \<in> set (paths x e1) \<Longrightarrow> p2 \<in> set (paths x e2) \<Longrightarrow> r \<in> set (event_paths Use x y) \<Longrightarrow>
    stmt_path x (S_ArrayUpdate y e1 e2 c q t) (p1 @ p2 @ r)"
| path_return: "p \<in> set (paths x e) \<Longrightarrow> stmt_path x (S_ReturnExp e t) p"
| path_then: "p \<in> set (paths x e) \<Longrightarrow> block_path x b1 r \<Longrightarrow> stmt_path x (S_Conditional e b1 b2 m) (p @ r)"
| path_else: "p \<in> set (paths x e) \<Longrightarrow> block_path x b r \<Longrightarrow> stmt_path x (S_Conditional e b1 (Some b) m) (p @ r)"
| path_no_else: "p \<in> set (paths x e) \<Longrightarrow> stmt_path x (S_Conditional e b1 None m) p"
| path_for: "p1 \<in> set (paths x e1) \<Longrightarrow> p2 \<in> set (paths x e2) \<Longrightarrow> \<forall>r \<in> set rs. block_path x b r \<Longrightarrow>
    stmt_path x (S_ForLoop y e1 e2 b) (p1 @ p2 @ concat rs)"
| path_block: "stmts_path x (b_stmts b) p \<Longrightarrow> block_path x b p"
| path_Nil: "stmts_path x [] []"
| path_Cons: "stmt_path x s p \<Longrightarrow> stmts_path x ss r \<Longrightarrow> stmts_path x (s # ss) (p @ r)"

inductive_cases stmt_path_letE: "stmt_path x (S_LetBinding pat t e c q) p"
inductive_cases stmt_path_assignE: "stmt_path x (S_Reassignment y t e c q) p"
inductive_cases stmt_path_updateE: "stmt_path x (S_ArrayUpdate y e1 e2 c q t) p"
inductive_cases stmt_path_returnE: "stmt_path x (S_ReturnExp e t) p"
inductive_cases stmt_path_condE: "stmt_path x (S_Conditional e b1 b2 m) p"
inductive_cases stmt_path_forE: "stmt_path x (S_ForLoop y e1 e2 b) p"
inductive_cases block_pathE: "block_path x b p"
inductive_cases stmts_path_NilE: "stmts_path x [] p"
inductive_cases stmts_path_ConsE: "stmts_path x (s # ss) p"

section \<open>Statements respect linearity\<close>

definition stmt_ok :: "nat \<Rightarrow> top_level_context \<Rightarrow> usize \<Rightarrow> (event list \<Rightarrow> bool) \<Rightarrow> var_context \<Rightarrow> var_context \<Rightarrow> bool" where
  "stmt_ok n tlc x P vc vc' \<longleftrightarrow> (in_vars x vc' \<longrightarrow> in_vars x vc)
     \<and> (linear_in n tlc x vc \<longrightarrow> linear_in n tlc x vc' \<and> (\<forall>p. P p \<longrightarrow> path_safe (in_vars x vc) (in_vars x vc') p))"

lemma use_ok_stmt_ok: "use_ok n tlc x P vc vc' \<Longrightarrow> stmt_ok n tlc x (\<lambda>p. p \<in> set P) vc vc'"
  by (auto simp: use_ok_def stmt_ok_def intro: vars_sub_in linear_in_mono)

lemma stmt_ok_skip: "stmt_ok n tlc x (\<lambda>p. p = []) vc vc"
  by (simp add: stmt_ok_def path_safe_Nil)

lemma stmt_ok_seq:
  assumes "stmt_ok n tlc x P a b" "stmt_ok n tlc x Q b c"
  shows "stmt_ok n tlc x (\<lambda>r. \<exists>p q. P p \<and> Q q \<and> r = p @ q) a c"
  using assms by (auto simp: stmt_ok_def intro: path_safe_append)

lemma stmt_ok_weaken: "stmt_ok n tlc x P a b \<Longrightarrow> (\<And>p. Q p \<Longrightarrow> P p) \<Longrightarrow> stmt_ok n tlc x Q a b"
  by (auto simp: stmt_ok_def)

lemma stmt_ok_cong:
  assumes "stmt_ok n tlc x P a b" "fmlookup (vc_vars b') x = fmlookup (vc_vars b) x"
  shows "stmt_ok n tlc x P a b'"
  using assms(1) unfolding stmt_ok_def in_vars_def linear_in_def assms(2) .

lemma expression_qm_ok:
  assumes "typecheck_expression_qm n tlc ret e ex vc k = Ok (e', t, c, vc', k') False" "x \<notin> set (bound_ids e)"
  shows "stmt_ok n tlc x (\<lambda>p. p \<in> set (paths x e)) vc vc'"
proof -
  from assms(1) obtain e1 where "typecheck_expression n tlc ret e ex vc = Ok (e1, t, vc') False"
    by (auto simp: typecheck_expression_qm_def tc_bind_clean)
  from checks_useD [OF typecheck_expression_use [OF assms(2)] this] show ?thesis by (rule use_ok_stmt_ok)
qed

lemma expression_no_qm_ok:
  assumes "typecheck_expression_no_qm n tlc ret e ex vc k = Ok (e', t, vc', k') False" "x \<notin> set (bound_ids e)"
  shows "stmt_ok n tlc x (\<lambda>p. p \<in> set (paths x e)) vc vc'"
proof -
  from assms(1) obtain e1 c k1 where "typecheck_expression_qm n tlc ret e ex vc k = Ok (e1, t, c, vc', k1) False"
    by (auto simp: typecheck_expression_no_qm_def tc_bind_clean split: option.splits)
  from this assms(2) show ?thesis by (rule expression_qm_ok)
qed

lemma pattern_not_in:
  assumes "typecheck_pattern n tlc p t = Ok (vc, p') False" "x \<notin> set (pattern_ids p)"
  shows "\<not> in_vars x vc"
proof -
  obtain b t' where "t = (b, t')" by fastforce
  with assms(1) have "binds_pattern b p (vc, p')" by (auto intro: typecheck_pattern_binds)
  with assms(2) show ?thesis by (auto simp: binds_pattern_def in_vars_def fmlookup_dom_iff)
qed

lemma lookup_union_not_in: "\<not> in_vars x p \<Longrightarrow> fmlookup (vc_vars (vc_union a p)) x = fmlookup (vc_vars a) x"
  by (cases "fmlookup (vc_vars a) x"; cases "fmlookup (vc_vars p) x") (auto simp: vc_defs fmlookup_dom_iff in_vars_def)

lemma check_let_binding_ok:
  assumes "check_let_binding n tlc ret pat t e q vc k = Ok (s', t', vc', m, k') False"
    and "x \<notin> set (pattern_ids pat)" "x \<notin> set (bound_ids e)"
  shows "stmt_ok n tlc x (stmt_path x (S_LetBinding pat t e c q)) vc vc'"
proof -
  from assms(1) obtain e1 t1 c1 vc1 k1 t2 pvc p' where
      e: "typecheck_expression_qm n tlc (Some ret) e (map_option snd t) vc k = Ok (e1, t1, c1, vc1, k1) False"
      and p: "typecheck_pattern n tlc pat t2 = Ok (pvc, p') False"
      and vc': "vc_vars vc' = vc_vars (vc_union vc1 pvc)"
    unfolding check_let_binding_def
    by (elim tc_bind_cleanE; simp split: prod.split_asm; elim tc_bind_cleanE)
      (auto simp: Let_def vc_change_def split: prod.split_asm pattern.split_asm ident.split_asm bool.split_asm option.split_asm)
  have "fmlookup (vc_vars vc') x = fmlookup (vc_vars vc1) x"
    using lookup_union_not_in [OF pattern_not_in [OF p assms(2)]] by (simp add: vc')
  from stmt_ok_cong [OF expression_qm_ok [OF e assms(3)] this] show ?thesis
    by (rule stmt_ok_weaken) (auto elim: stmt_path_letE)
qed

lemma check_return_exp_ok:
  assumes "check_return_exp n tlc ret e vc k = Ok (s', t', vc', m, k') False" "x \<notin> set (bound_ids e)"
  shows "stmt_ok n tlc x (stmt_path x (S_ReturnExp e t)) vc vc'"
proof -
  from assms(1) obtain e1 t1 c1 k1 where
      e: "typecheck_expression_qm n tlc (Some ret) e (Some ret) vc k = Ok (e1, t1, c1, vc', k1) False"
    by (auto simp: check_return_exp_def tc_bind_clean)
  from expression_qm_ok [OF e assms(2)] show ?thesis
    by (rule stmt_ok_weaken) (auto elim: stmt_path_returnE)
qed

text \<open>An assignment puts the variable back with the type that it has in the context before.\<close>

lemma stmt_ok_assign:
  assumes "fmlookup (vc_vars vc) (li_id y) = Some (t, i)" "stmt_ok n tlc x P vc vc1"
    and "vc_vars vc2 = fmupd (li_id y) (t, j) (vc_vars vc1)"
  shows "stmt_ok n tlc x (\<lambda>r. \<exists>p q. P p \<and> q \<in> set (event_paths Assign x (Local y)) \<and> r = p @ q) vc vc2"
proof (cases "li_id y = x")
  case True
  have "linear_in n tlc x vc2" if "linear_in n tlc x vc"
    using that assms(1,3) True by (simp add: linear_in_def del: split_paired_All)
  moreover have "path_safe (in_vars x vc) True (p @ [Assign])" if "path_safe (in_vars x vc) b p" for b p
    by (rule path_safe_append [OF that]) (auto simp: path_safe_def)
  moreover have "in_vars x vc2" "in_vars x vc"
    using assms(1,3) True by (simp_all add: in_vars_def)
  ultimately show ?thesis
    using assms(2) True by (auto simp: stmt_ok_def event_paths_def)
next
  case False
  then have "fmlookup (vc_vars vc2) x = fmlookup (vc_vars vc1) x" using assms(3) by simp
  from stmt_ok_cong [OF assms(2) this] show ?thesis
    by (rule stmt_ok_weaken) (use False in \<open>auto simp: event_paths_def\<close>)
qed

lemma check_reassignment_ok:
  assumes "check_reassignment n tlc ret y e q vc k = Ok (s', t', vc', m, k') False" "x \<notin> set (bound_ids e)"
  shows "stmt_ok n tlc x (stmt_path x (S_Reassignment y t e c q)) vc vc'"
proof -
  from assms(1) obtain e1 t1 c1 vc1 k1 ty u where
      e: "typecheck_expression_qm n tlc (Some ret) e None vc k = Ok (e1, t1, c1, vc1, k1) False"
      and y: "find_typ y vc tlc = Ok (Some ty) False" and a: "add_var y ty vc1 = Ok vc' False"
    by (auto simp: check_reassignment_def tc_bind_clean split: option.split_asm if_split_asm)
  from a obtain li where li: "y = Local li" by (cases y) auto
  with y obtain i where "fmlookup (vc_vars vc) (li_id li) = Some (ty, i)"
    by (cases "fmlookup (vc_vars vc) (li_id li)") auto
  moreover have "\<exists>j. vc_vars vc' = fmupd (li_id li) (ty, j) (vc_vars vc1)" using a li by auto
  ultimately obtain j where "stmt_ok n tlc x (\<lambda>r. \<exists>p q. p \<in> set (paths x e) \<and> q \<in> set (event_paths Assign x (Local li)) \<and> r = p @ q) vc vc'"
    using stmt_ok_assign [OF _ expression_qm_ok [OF e assms(2)]] by blast
  then show ?thesis
    by (rule stmt_ok_weaken) (auto simp: li elim!: stmt_path_assignE)
qed

lemma check_array_update_ok:
  assumes "check_array_update n tlc ret y e1 e2 q vc k = Ok (s', t', vc', m, k') False"
    and "x \<notin> set (bound_ids e1)" "x \<notin> set (bound_ids e2)"
  shows "stmt_ok n tlc x (stmt_path x (S_ArrayUpdate y e1 e2 c q t)) vc vc'"
proof -
  from assms(1) obtain e1' t1 c1 vc1 k1 e2' t2 c2 k2 ty where
      e1: "typecheck_expression_qm n tlc (Some ret) e1 None vc k = Ok (e1', t1, c1, vc1, k1) False"
      and e2: "typecheck_expression_qm n tlc (Some ret) e2 None vc1 k1 = Ok (e2', t2, c2, vc', k2) False"
      and y: "find_typ y vc' tlc = Ok (Some ty) False"
    unfolding check_array_update_def
    by (elim tc_bind_cleanE; simp split: prod.split_asm; elim tc_bind_cleanE; simp split: prod.split_asm; elim tc_bind_cleanE)
      (auto simp: tc_bind_clean split: option.split_asm if_split_asm)
  have "in_vars x vc'" if "names_var x y" using that y by (cases y; cases "fmlookup (vc_vars vc') x") (auto simp: in_vars_def)
  then have "stmt_ok n tlc x (\<lambda>r. r \<in> set (event_paths Use x y)) vc' vc'"
    by (auto simp: stmt_ok_def event_paths_def path_safe_def)
  from stmt_ok_seq [OF expression_qm_ok [OF e1 assms(2)] stmt_ok_seq [OF expression_qm_ok [OF e2 assms(3)] this]]
  show ?thesis by (rule stmt_ok_weaken) (auto elim!: stmt_path_updateE)
qed

text \<open>The branches of a conditional, and the iterations of a loop.\<close>

lemma stmt_ok_intersection:
  assumes "stmt_ok n tlc x P a b"
  shows "stmt_ok n tlc x P a (vc_intersection (vc_intersection a b) c)"
    "stmt_ok n tlc x P a (vc_intersection (vc_intersection a c) b)"
proof -
  have "linear_in n tlc x (vc_intersection (vc_intersection a d) e)" if "linear_in n tlc x a" for d e
    using that by (auto simp: linear_in_def vc_defs split: if_splits)
  with assms show "stmt_ok n tlc x P a (vc_intersection (vc_intersection a b) c)"
    "stmt_ok n tlc x P a (vc_intersection (vc_intersection a c) b)"
    by (auto simp: stmt_ok_def in_vars_intersection intro: path_safe_mono)
qed

lemma stmt_ok_disj: "stmt_ok n tlc x P a b \<Longrightarrow> stmt_ok n tlc x Q a b \<Longrightarrow> stmt_ok n tlc x (\<lambda>p. P p \<or> Q p) a b"
  by (auto simp: stmt_ok_def)

lemma loop_path_safe:
  assumes "\<And>r. r \<in> set rs \<Longrightarrow> path_safe i i r"
  shows "path_safe i i (concat rs)"
  using assms by (induction rs) (auto intro: path_safe_Nil path_safe_append)

lemma stmt_ok_loop:
  assumes "stmt_ok n tlc x P a b" "stmt_ok n tlc x Q b c" "in_vars x a \<longrightarrow> in_vars x c"
  shows "stmt_ok n tlc x (\<lambda>r. \<exists>p rs. P p \<and> (\<forall>q \<in> set rs. Q q) \<and> r = p @ concat rs) a (vc_intersection a c)"
proof -
  have eq: "in_vars x b = in_vars x a" "in_vars x c = in_vars x a"
    using assms by (auto simp: stmt_ok_def)
  have "linear_in n tlc x (vc_intersection a c)" if "linear_in n tlc x a"
    using that by (auto simp: linear_in_def vc_defs split: if_splits)
  with assms(1,2) show ?thesis
    by (auto simp: stmt_ok_def in_vars_intersection eq intro!: path_safe_append loop_path_safe)
qed

definition checks_block :: "nat \<Rightarrow> top_level_context \<Rightarrow> usize \<Rightarrow> check_block_fun \<Rightarrow> block \<Rightarrow> bool" where
  "checks_block n tlc x rec b \<longleftrightarrow> (\<forall>vc k b' vc' k'. rec b vc k = Ok (b', vc', k') False \<longrightarrow>
     stmt_ok n tlc x (block_path x b) vc vc')"

lemma checks_blockD: "checks_block n tlc x rec b \<Longrightarrow> rec b vc k = Ok (b', vc', k') False \<Longrightarrow>
    stmt_ok n tlc x (block_path x b) vc vc'"
  unfolding checks_block_def by blast

lemma check_conditional_ok:
  assumes "check_conditional n tlc ret rec e b1 b2 vc k = Ok (s', t', vc', m', k') False"
    and "x \<notin> set (bound_ids e)" "checks_block n tlc x rec b1" "\<And>b. b2 = Some b \<Longrightarrow> checks_block n tlc x rec b"
  shows "stmt_ok n tlc x (stmt_path x (S_Conditional e b1 b2 m)) vc vc'"
proof -
  from assms(1) obtain e1 t1 vc1 k1 b1' vcb1 k2 b2' vcb2 k3 where
      e: "typecheck_expression_no_qm n tlc (Some ret) e None vc k = Ok (e1, t1, vc1, k1) False"
      and b1: "rec b1 vc1 k1 = Ok (b1', vcb1, k2) False"
      and b2: "(case b2 of None \<Rightarrow> tc_return (None, vc1, k2)
       | Some b2 \<Rightarrow> tc_bind (rec b2 vc1 k2) (\<lambda>(new_b2, vc_b2, k). tc_return (Some new_b2, vc_b2, k))) = Ok (b2', vcb2, k3) False"
      and vc': "vc' = vc_intersection (vc_intersection vc vcb1) vcb2"
    unfolding check_conditional_def
    by (elim tc_bind_cleanE; simp split: prod.split_asm; elim tc_bind_cleanE; simp split: prod.split_asm;
        elim tc_bind_cleanE; simp split: prod.split_asm; elim tc_bind_cleanE)
      (auto simp: tc_bind_clean Let_def split: prod.split_asm)
  define P2 where "P2 = (case b2 of None \<Rightarrow> (\<lambda>p. p = []) | Some b \<Rightarrow> block_path x b)"
  have "stmt_ok n tlc x P2 vc1 vcb2"
    using b2 assms(4) by (auto simp: P2_def stmt_ok_skip tc_bind_clean split: option.splits dest: checks_blockD)
  note branches = stmt_ok_intersection(1) [OF stmt_ok_seq [OF expression_no_qm_ok [OF e assms(2)] checks_blockD [OF assms(3) b1]]]
    stmt_ok_intersection(2) [OF stmt_ok_seq [OF expression_no_qm_ok [OF e assms(2)] this]]
  from stmt_ok_disj [OF branches] show ?thesis unfolding vc'
    by (rule stmt_ok_weaken) (auto simp: P2_def elim!: stmt_path_condE)
qed

lemma consumed_vars_none:
  assumes "consumed_vars a b = {||}" "fmlookup (vc_vars a) x \<noteq> None"
  shows "fmlookup (vc_vars b) x \<noteq> None"
proof
  assume "fmlookup (vc_vars b) x = None"
  with assms(2) have "x |\<in>| consumed_vars a b"
    by (cases "fmlookup (vc_vars a) x") (auto simp: consumed_vars_def fmdom_notI fmdomI)
  with assms(1) show False by simp
qed

lemma check_for_loop_ok:
  assumes "check_for_loop n tlc ret rec y e1 e2 b vc k = Ok (s', t', vc', m', k') False"
    and "x \<notin> set (bound_ids e1)" "x \<notin> set (bound_ids e2)" "checks_block n tlc x rec b"
    and "\<And>z. y = Some z \<Longrightarrow> x \<notin> set (ident_ids z)"
  shows "stmt_ok n tlc x (stmt_path x (S_ForLoop y e1 e2 b)) vc vc'"
proof -
  from assms(1) obtain e1' t1 vc1 k1 e2' t2 vc2 k2 vc3 b' vc4 k4 where
      e1: "typecheck_expression_no_qm n tlc (Some ret) e1 None vc k = Ok (e1', t1, vc1, k1) False"
      and e2: "typecheck_expression_no_qm n tlc (Some ret) e2 None vc1 k1 = Ok (e2', t2, vc2, k2) False"
      and y: "(case y of None \<Rightarrow> tc_return vc2 | Some z \<Rightarrow> add_var z (Consumed, T_Usize) vc2) = Ok vc3 False"
      and b: "rec b vc3 k2 = Ok (b', vc4, k4) False"
      and none: "consumed_vars vc vc4 = {||}" and vc': "vc' = vc_intersection vc vc4"
    unfolding check_for_loop_def
    by (elim tc_bind_cleanE; simp split: prod.split_asm; elim tc_bind_cleanE; simp split: prod.split_asm;
        elim tc_bind_cleanE; simp split: prod.split_asm; elim tc_bind_cleanE; simp split: prod.split_asm)
      (auto split: option.split_asm if_split_asm)
  have "fmlookup (vc_vars vc3) x = fmlookup (vc_vars vc2) x"
    using y assms(5) by (cases y; cases "the y") auto
  from stmt_ok_cong [OF stmt_ok_seq [OF expression_no_qm_ok [OF e1 assms(2)] expression_no_qm_ok [OF e2 assms(3)]] this]
  have pre: "stmt_ok n tlc x (\<lambda>r. \<exists>p q. p \<in> set (paths x e1) \<and> q \<in> set (paths x e2) \<and> r = p @ q) vc vc3" .
  have "in_vars x vc \<longrightarrow> in_vars x vc4"
    using none unfolding in_vars_def by (metis consumed_vars_none)
  from stmt_ok_loop [OF pre checks_blockD [OF assms(4) b] this] show ?thesis unfolding vc'
    by (rule stmt_ok_weaken) (fastforce elim!: stmt_path_forE)
qed

definition checks_stmt :: "nat \<Rightarrow> top_level_context \<Rightarrow> usize \<Rightarrow> check_stmt_fun \<Rightarrow> statement \<Rightarrow> bool" where
  "checks_stmt n tlc x rec s \<longleftrightarrow> (\<forall>vc k s' t' vc' m' k'. rec s vc k = Ok (s', t', vc', m', k') False \<longrightarrow>
     stmt_ok n tlc x (stmt_path x s) vc vc')"

lemma checks_stmtD: "checks_stmt n tlc x rec s \<Longrightarrow> rec s vc k = Ok (s', t', vc', m', k') False \<Longrightarrow>
    stmt_ok n tlc x (stmt_path x s) vc vc'"
  unfolding checks_stmt_def by blast

lemma checks_stmtI:
  assumes "\<And>vc k s' t' vc' m' k'. rec s vc k = Ok (s', t', vc', m', k') False \<Longrightarrow> stmt_ok n tlc x (stmt_path x s) vc vc'"
  shows "checks_stmt n tlc x rec s"
  unfolding checks_stmt_def using assms by blast

lemma stmt_ok_change: "stmt_ok n tlc x P a (vc_change c b) = stmt_ok n tlc x P a b"
  by (simp add: stmt_ok_def in_vars_def linear_in_def vc_change_def)

lemma check_stmts_ok:
  assumes "check_stmts rec ss vc m k = Ok (ss', t', vc', m', k') False"
    and "\<And>s. s \<in> set ss \<Longrightarrow> checks_stmt n tlc x rec s"
  shows "stmt_ok n tlc x (stmts_path x ss) vc vc'"
  using assms
proof (induction ss arbitrary: vc m k ss')
  case Nil
  then show ?case by (auto intro: stmt_ok_weaken [OF stmt_ok_skip] elim: stmts_path_NilE)
next
  case (Cons s ss)
  from Cons.prems(1) obtain s1 t1 vc1 m1 k1 where s: "rec s vc k = Ok (s1, t1, vc1, m1, k1) False"
    by (auto simp: tc_bind_clean)
  have "checks_stmt n tlc x rec s" using Cons.prems(2) by simp
  from checks_stmtD [OF this s] have first: "stmt_ok n tlc x (stmt_path x s) vc (vc_change vc vc1)"
    by (simp add: stmt_ok_change)
  have "stmt_ok n tlc x (stmts_path x ss) (vc_change vc vc1) vc'"
  proof (cases "ss = []")
    case True
    with Cons.prems(1) s have "vc' = vc_change vc vc1" by (auto simp: tc_return_def Let_def)
    then show ?thesis by (auto simp: True intro: stmt_ok_weaken [OF stmt_ok_skip] elim: stmts_path_NilE)
  next
    case False
    with Cons.prems(1) s obtain ss1 where
      "check_stmts rec ss (vc_change vc vc1) (m |\<union>| m1) k1 = Ok (ss1, t', vc', m', k') False"
      by (auto simp: tc_bind_clean tc_return_def Let_def split: if_split_asm tc.split_asm)
    then show ?thesis by (rule Cons.IH) (use Cons.prems(2) in auto)
  qed
  from stmt_ok_seq [OF first this] show ?case
    by (rule stmt_ok_weaken) (auto elim!: stmts_path_ConsE)
qed

lemma check_block_ok:
  assumes "check_block n' tlc' ret rec b vc k = Ok (b', vc', k') False"
    and "\<And>s. s \<in> set (b_stmts b) \<Longrightarrow> checks_stmt n tlc x rec s"
  shows "stmt_ok n tlc x (block_path x b) vc vc'"
proof -
  from assms(1) obtain ss t vc1 m k1 where ss: "check_stmts rec (b_stmts b) vc {||} k = Ok (ss, t, vc1, m, k1) False"
      and vc': "vc' = vc_intersection vc1 vc"
    by (auto simp: check_block_def tc_bind_clean Let_def)
  from check_stmts_ok [OF ss assms(2)] have ok: "stmt_ok n tlc x (stmts_path x (b_stmts b)) vc vc1" .
  have "linear_in n tlc x (vc_intersection vc1 vc)" if "linear_in n tlc x vc1"
    using that by (auto simp: linear_in_def vc_defs split: if_splits)
  with ok show ?thesis
    by (auto simp: vc' stmt_ok_def in_vars_intersection elim!: block_pathE intro: path_safe_mono)
qed

text \<open>Every statement and block that does not bind \<open>x\<close> again respects its linearity.\<close>

lemma typecheck_statement_use:
  "x \<notin> set (stmt_bound s) \<Longrightarrow> checks_stmt n tlc x (typecheck_statement n tlc ret) s"
  "x \<notin> set (block_bound b) \<Longrightarrow> checks_block n tlc x (typecheck_block n tlc ret) b"
proof (induction s and b rule: stmt_bound_block_bound.induct)
  case (1 pat t e c q)
  then show ?case by (auto intro!: checks_stmtI check_let_binding_ok simp: typecheck_statement.simps)
next
  case (2 y t e c q)
  then show ?case by (auto intro!: checks_stmtI check_reassignment_ok simp: typecheck_statement.simps)
next
  case (3 y e1 e2 c q t)
  then show ?case by (auto intro!: checks_stmtI check_array_update_ok simp: typecheck_statement.simps)
next
  case (4 e t)
  then show ?case by (auto intro!: checks_stmtI check_return_exp_ok simp: typecheck_statement.simps)
next
  case (5 e b1 m)
  then show ?case by (auto intro!: checks_stmtI check_conditional_ok simp: typecheck_statement.simps)
next
  case (6 e b1 b2 m)
  then show ?case by (auto intro!: checks_stmtI check_conditional_ok simp: typecheck_statement.simps)
next
  case (7 e1 e2 b)
  then show ?case by (auto intro!: checks_stmtI check_for_loop_ok simp: typecheck_statement.simps)
next
  case (8 y e1 e2 b)
  then show ?case by (auto intro!: checks_stmtI check_for_loop_ok simp: typecheck_statement.simps)
next
  case (9 ss m r c v d)
  show ?case unfolding checks_block_def typecheck_block.simps
    by (intro allI impI, erule check_block_ok) (use 9 in auto)
qed

lemma block_path_linear:
  assumes "typecheck_block n tlc ret b vc k = Ok (b', vc', k') False" "x \<notin> set (block_bound b)"
    and "linear_in n tlc x vc" "block_path x b p"
  shows "\<exists>a. run p (in_vars x vc) = Some a \<and> (in_vars x vc' \<longrightarrow> a)"
proof -
  from checks_blockD [OF typecheck_statement_use(2) assms(1)] assms(2)
  have "stmt_ok n tlc x (block_path x b) vc vc'" by blast
  with assms(3,4) show ?thesis by (auto simp: stmt_ok_def path_safe_def)
qed

section \<open>Properties\<close>


definition seq_var :: ident where
  "seq_var = Local (LocalIdent 3 ''s'' True)"

definition move_and_assign :: block where
  "move_and_assign = Block
     [S_Reassignment seq_var None (E_Named seq_var) None None,
      S_ReturnExp (E_Named seq_var) None]
     None None None smv_new {||}"

lemmas check_defs = typecheck_block.simps check_block_def typecheck_statement.simps check_let_binding_def
  check_reassignment_def check_for_loop_def check_return_exp_def typecheck_expression_qm_def typecheck_expression_no_qm_def
  elaborate_def typecheck_expression.simps check_named_def check_lit_def concretize_literal_def
  typecheck_question_mark_def tc_return_def consumed_alias_def unify_heads_def machine_integers_def
  early_return_type_from_return_type_def usize_bound_def consumed_vars_def

lemma ex_Not: "Ex Not"
  by (rule exI [of _ False]) simp

lemma move_and_assign_checks:
  "\<exists>b' vc' k'. typecheck_block 2 alias_example (T_Seq T_UInt8) move_and_assign seq_context 0 = Ok (b', vc', k') False"
  by (simp add: check_defs move_and_assign_def seq_var_def seq_context_def eval_nat_numeral vc_defs Let_def)


text \<open>
  C33: a loop that is accepted leaves the variables of its context as they are: in particular its body consumes
  none of them.
\<close>

theorem loops_keep_variables:
  assumes "typecheck_statement n tlc ret (S_ForLoop y e1 e2 b) vc k = Ok (s', t', vc', m', k') rep"
  shows "vc_vars vc' = vc_vars vc \<and> t' = (Consumed, UnitTyp)"
proof -
  from assms obtain vc4 where none: "consumed_vars vc vc4 = {||}" and vc': "vc' = vc_intersection vc vc4"
      and t': "t' = (Consumed, UnitTyp)"
    unfolding typecheck_statement.simps statement.case check_for_loop_def
    by (elim tc_bind_someE; simp split: prod.split_asm; elim tc_bind_someE; simp split: prod.split_asm;
        elim tc_bind_someE; simp split: prod.split_asm; elim tc_bind_someE; simp split: prod.split_asm)
      (auto split: option.split_asm if_split_asm)
  have "fmlookup (vc_vars vc') x = fmlookup (vc_vars vc) x" for x
    using consumed_vars_none [OF none, of x] by (cases "fmlookup (vc_vars vc) x") (auto simp: vc' vc_defs)
  with t' show ?thesis by (simp add: fmap_ext)
qed

lemma empty_loop_checks:
  "\<exists>s' t' vc' m' k'. typecheck_statement 2 alias_example UnitTyp
     (S_ForLoop None (E_Lit (L_Usize 0)) (E_Lit (L_Usize 5)) (Block [] None None None smv_new {||})) seq_context 0
   = Ok (s', t', vc', m', k') False"
  by (simp add: check_defs seq_context_def eval_nat_numeral vc_defs Let_def ex_Not, auto)

theorem loops_keep_variables_witness:
  "\<exists>s' vc' m' k'. typecheck_statement 2 alias_example UnitTyp
     (S_ForLoop None (E_Lit (L_Usize 0)) (E_Lit (L_Usize 5)) (Block [] None None None smv_new {||})) seq_context 0
   = Ok (s', (Consumed, UnitTyp), vc', m', k') False \<and> vc_vars vc' = vc_vars seq_context"
  using empty_loop_checks loops_keep_variables by blast

end
