(* ===== verification/Elab_Readback.thy ===== *)
theory Elab_Readback
  imports Elab_Monadic_Lets
begin

text \<open>
  What the elimination of question marks keeps. \<open>readback\<close> undoes it: it replaces every monadic variable by
  a question mark on the expression that is bound to it. The theorem is that reading an elaborated
  expression back gives the original one, up to the carriers of its question marks, which the
  elaboration moves into the monadic bindings.
\<close>

section \<open>Reading back\<close>

text \<open>
  The result of a match with a question mark in an arm is bound as it is, because its arms are
  monadic already; every other binding stands for a question mark.
\<close>

fun monadic_match :: "expression \<Rightarrow> bool" where
  "monadic_match (E_MatchWith e arms) = (\<exists>a \<in> set arms. monadic_carrier (snd a) \<noteq> None)"
| "monadic_match e = False"

definition bound_value :: "expression \<Rightarrow> expression \<Rightarrow> expression" where
  "bound_value e r = (if monadic_match e then r else E_QuestionMark r None)"

definition mvar_of :: "ident \<Rightarrow> nat option" where
  "mvar_of x = (case x of Local (LocalIdent i name m) \<Rightarrow> if name = ''mvar'' \<and> \<not> m then Some i else None | _ \<Rightarrow> None)"

type_synonym mvars = "nat \<rightharpoonup> expression"

definition read_ident :: "mvars \<Rightarrow> ident \<Rightarrow> expression" where
  "read_ident \<sigma> x = (case Option.bind (mvar_of x) \<sigma> of None \<Rightarrow> E_Named x | Some e \<Rightarrow> e)"

definition bind_mvar :: "ident \<Rightarrow> expression \<Rightarrow> mvars \<Rightarrow> mvars" where
  "bind_mvar x e \<sigma> = (case mvar_of x of None \<Rightarrow> \<sigma> | Some i \<Rightarrow> \<sigma>(i \<mapsto> e))"

function readback :: "mvars \<Rightarrow> expression \<Rightarrow> expression"
  and read_bindings :: "mvars \<Rightarrow> (ident \<times> expression) list \<Rightarrow> mvars" where
  "readback \<sigma> (E_Unary op e t) = E_Unary op (readback \<sigma> e) t"
| "readback \<sigma> (E_Binary op e1 e2 t) = E_Binary op (readback \<sigma> e1) (readback \<sigma> e2) t"
| "readback \<sigma> (E_InlineConditional e1 e2 e3) = E_InlineConditional (readback \<sigma> e1) (readback \<sigma> e2) (readback \<sigma> e3)"
| "readback \<sigma> (E_QuestionMark e t) = E_QuestionMark (readback \<sigma> e) None"
| "readback \<sigma> (E_MonadicLet c bs e p) = readback (read_bindings \<sigma> bs) e"
| "readback \<sigma> (E_Named x) = read_ident \<sigma> x"
| "readback \<sigma> (E_FuncCall p f args ts) = E_FuncCall p f (map (\<lambda>a. (readback \<sigma> (fst a), snd a)) args) ts"
| "readback \<sigma> (E_MethodCall sel t f args ts) =
     E_MethodCall (readback \<sigma> (fst sel), snd sel) t f (map (\<lambda>a. (readback \<sigma> (fst a), snd a)) args) ts"
| "readback \<sigma> (E_EnumInject t c None) = E_EnumInject t c None"
| "readback \<sigma> (E_EnumInject t c (Some e)) = E_EnumInject t c (Some (readback \<sigma> e))"
| "readback \<sigma> (E_MatchWith e arms) = E_MatchWith (readback \<sigma> e) (map (\<lambda>a. (fst a, readback \<sigma> (snd a))) arms)"
| "readback \<sigma> (E_FieldAccessor e i) = E_FieldAccessor (readback \<sigma> e) i"
| "readback \<sigma> (E_Lit l) = E_Lit l"
| "readback \<sigma> (E_ArrayIndex x e t) = E_ArrayIndex x (readback \<sigma> e) t"
| "readback \<sigma> (E_NewArray x t es) = E_NewArray x t (map (readback \<sigma>) es)"
| "readback \<sigma> (E_Tuple es) = E_Tuple (map (readback \<sigma>) es)"
| "readback \<sigma> (E_IntegerCasting e t o1) = E_IntegerCasting (readback \<sigma> e) t o1"
| "read_bindings \<sigma> [] = \<sigma>"
| "read_bindings \<sigma> ((x, e) # bs) = read_bindings (bind_mvar x (bound_value e (readback \<sigma> e)) \<sigma>) bs"
  by pat_completeness auto

termination
  by (relation "measure (\<lambda>a. case a of Inl (\<sigma>, e) \<Rightarrow> size e | Inr (\<sigma>, bs) \<Rightarrow> size_list (size_prod (\<lambda>x. 0) size) bs)")
    (auto simp: less_Suc_eq_le dest!: size_member)

text \<open>The original expression without the carriers, and the absence of variables that look like monadic ones.\<close>

fun strip :: "expression \<Rightarrow> expression" where
  "strip (E_Unary op e t) = E_Unary op (strip e) t"
| "strip (E_Binary op e1 e2 t) = E_Binary op (strip e1) (strip e2) t"
| "strip (E_InlineConditional e1 e2 e3) = E_InlineConditional (strip e1) (strip e2) (strip e3)"
| "strip (E_QuestionMark e t) = E_QuestionMark (strip e) None"
| "strip (E_FuncCall p f args ts) = E_FuncCall p f (map (\<lambda>a. (strip (fst a), snd a)) args) ts"
| "strip (E_MethodCall sel t f args ts) = E_MethodCall (strip (fst sel), snd sel) t f (map (\<lambda>a. (strip (fst a), snd a)) args) ts"
| "strip (E_EnumInject t c (Some e)) = E_EnumInject t c (Some (strip e))"
| "strip (E_MatchWith e arms) = E_MatchWith (strip e) (map (\<lambda>a. (fst a, strip (snd a))) arms)"
| "strip (E_FieldAccessor e i) = E_FieldAccessor (strip e) i"
| "strip (E_ArrayIndex x e t) = E_ArrayIndex x (strip e) t"
| "strip (E_NewArray x t es) = E_NewArray x t (map strip es)"
| "strip (E_Tuple es) = E_Tuple (map strip es)"
| "strip (E_IntegerCasting e t o1) = E_IntegerCasting (strip e) t o1"
| "strip e = e"

fun mvar_free :: "expression \<Rightarrow> bool" where
  "mvar_free (E_Unary op e t) = mvar_free e"
| "mvar_free (E_Binary op e1 e2 t) = (mvar_free e1 \<and> mvar_free e2)"
| "mvar_free (E_InlineConditional e1 e2 e3) = (mvar_free e1 \<and> mvar_free e2 \<and> mvar_free e3)"
| "mvar_free (E_QuestionMark e t) = mvar_free e"
| "mvar_free (E_MonadicLet c bs e p) = False"
| "mvar_free (E_Named x) = (mvar_of x = None)"
| "mvar_free (E_FuncCall p f args ts) = (\<forall>a \<in> set args. mvar_free (fst a))"
| "mvar_free (E_MethodCall sel t f args ts) = (mvar_free (fst sel) \<and> (\<forall>a \<in> set args. mvar_free (fst a)))"
| "mvar_free (E_EnumInject t c None) = True"
| "mvar_free (E_EnumInject t c (Some e)) = mvar_free e"
| "mvar_free (E_MatchWith e arms) = (mvar_free e \<and> (\<forall>a \<in> set arms. mvar_free (snd a)))"
| "mvar_free (E_FieldAccessor e i) = mvar_free e"
| "mvar_free (E_Lit l) = True"
| "mvar_free (E_ArrayIndex x e t) = mvar_free e"
| "mvar_free (E_NewArray x t es) = (\<forall>e \<in> set es. mvar_free e)"
| "mvar_free (E_Tuple es) = (\<forall>e \<in> set es. mvar_free e)"
| "mvar_free (E_IntegerCasting e t o1) = mvar_free e"

section \<open>Bindings and the numbers they use\<close>

text \<open>
  \<open>reads k k' lbs F\<close>: the bindings \<open>lbs\<close> use numbers from \<open>k\<close> up to \<open>k'\<close> only, and \<open>F\<close> holds in every
  assignment that has their values there.
\<close>

definition reads :: "nat \<Rightarrow> nat \<Rightarrow> (ident \<times> expression) list \<Rightarrow> (mvars \<Rightarrow> bool) \<Rightarrow> bool" where
  "reads k k' lbs F \<longleftrightarrow> k \<le> k' \<and> (\<forall>\<sigma> i. i < k \<or> k' \<le> i \<longrightarrow> read_bindings \<sigma> lbs i = \<sigma> i) \<and>
     (\<forall>\<sigma> \<sigma>'. (\<forall>i. k \<le> i \<and> i < k' \<longrightarrow> \<sigma>' i = read_bindings \<sigma> lbs i) \<longrightarrow> F \<sigma>')"

lemma read_bindings_append [simp]: "read_bindings \<sigma> (l1 @ l2) = read_bindings (read_bindings \<sigma> l1) l2"
  by (induction l1 arbitrary: \<sigma>) auto

lemma reads_Nil: "k \<le> k' \<Longrightarrow> (\<And>\<sigma>. F \<sigma>) \<Longrightarrow> reads k k' [] F"
  by (simp add: reads_def)

lemma reads_append:
  assumes "reads k k1 l1 F1" "reads k1 k2 l2 F2"
  shows "reads k k2 (l1 @ l2) (\<lambda>\<sigma>. F1 \<sigma> \<and> F2 \<sigma>)"
  unfolding reads_def
proof (intro conjI allI impI)
  show "k \<le> k2" using assms by (auto simp: reads_def)
  fix \<sigma> i assume "i < k \<or> k2 \<le> i"
  with assms show "read_bindings \<sigma> (l1 @ l2) i = \<sigma> i" by (auto simp: reads_def)
next
  fix \<sigma> \<sigma>' assume agree: "\<forall>i. k \<le> i \<and> i < k2 \<longrightarrow> \<sigma>' i = read_bindings \<sigma> (l1 @ l2) i"
  have "\<sigma>' i = read_bindings \<sigma> l1 i" if "k \<le> i \<and> i < k1" for i
    using agree that assms by (auto simp: reads_def)
  then show "F1 \<sigma>'" using assms(1) unfolding reads_def by blast
  have "\<sigma>' i = read_bindings (read_bindings \<sigma> l1) l2 i" if "k1 \<le> i \<and> i < k2" for i
    using agree that assms(1) by (auto simp: reads_def)
  then show "F2 \<sigma>'" using assms(2) unfolding reads_def by blast
qed

lemma reads_mono: "reads k k1 l F \<Longrightarrow> (\<And>\<sigma>. F \<sigma> \<Longrightarrow> F' \<sigma>) \<Longrightarrow> reads k k1 l F'"
  unfolding reads_def by blast

lemma reads_widen: "reads k k1 l F \<Longrightarrow> k1 \<le> k2 \<Longrightarrow> reads k k2 l F"
  unfolding reads_def by (meson less_le_trans order_trans)

lemma reads_le: "reads k k1 l F \<Longrightarrow> k \<le> k1"
  by (simp add: reads_def)

lemma mvar_of_mvar [simp]: "mvar_of (mvar k) = Some k"
  by (simp add: mvar_of_def mvar_def)

lemma reads_self: "reads k k1 l F \<Longrightarrow> F (read_bindings \<sigma> l)"
  unfolding reads_def by blast

lemma reads_snoc:
  assumes "reads k k1 l F" "\<And>\<sigma>. F \<sigma> \<Longrightarrow> bound_value e (readback \<sigma> e) = v"
  shows "reads k (Suc k1) (l @ [(mvar k1, e)]) (\<lambda>\<sigma>. \<sigma> k1 = Some v)"
  using assms(2) [OF reads_self [OF assms(1)]] assms(1)
  by (auto simp: reads_def bind_mvar_def)


section \<open>The elaboration can be read back\<close>

fun binds_of :: "expression \<Rightarrow> (ident \<times> expression) list" where
  "binds_of (E_MonadicLet c bs e p) = bs"
| "binds_of e = []"

fun body_of :: "expression \<Rightarrow> expression" where
  "body_of (E_MonadicLet c bs e p) = e"
| "body_of e = e"

definition lbinds :: "bindings \<Rightarrow> (ident \<times> expression) list" where
  "lbinds bs = (case bs of None \<Rightarrow> [] | Some (c, l) \<Rightarrow> l)"

definition elaborates :: "nat \<Rightarrow> nat \<Rightarrow> expression \<Rightarrow> expression \<Rightarrow> bool" where
  "elaborates k k' e r \<longleftrightarrow> reads k k' (binds_of r) (\<lambda>\<sigma>. readback \<sigma> (body_of r) = strip e) \<and> \<not> monadic_match (body_of r)"

lemma readback_body: "readback \<sigma> r = readback (read_bindings \<sigma> (binds_of r)) (body_of r)"
  by (cases r) simp_all

lemma elaborates_readback: "elaborates k k' e r \<Longrightarrow> readback \<sigma> r = strip e"
  unfolding elaborates_def by (subst readback_body) (erule conjE, rule reads_self)

lemma absorb_eq: "absorb bs r = (b, bs') \<Longrightarrow> b = body_of r \<and> lbinds bs' = lbinds bs @ binds_of r"
  by (cases r; cases bs) (auto simp: lbinds_def)

lemma lbinds_None [simp]: "lbinds None = []"
  by (simp add: lbinds_def)

text \<open>A node whose sub-expressions have been absorbed.\<close>

lemma elaborates_finish:
  assumes "reads k k' (lbinds bs) F" "\<And>\<sigma>. F \<sigma> \<Longrightarrow> readback \<sigma> node = strip e" "monadic_carrier node = None" "\<not> monadic_match node"
  shows "elaborates k k' e (finish bs w node)"
proof -
  have "binds_of node = []" "body_of node = node" using assms(3) by (cases node; simp)+
  then have "binds_of (finish bs w node) = lbinds bs" "body_of (finish bs w node) = node"
    by (auto simp: finish_def lbinds_def split: option.split)
  with assms(1,2,4) show ?thesis by (auto simp: elaborates_def intro: reads_mono)
qed

lemma readback_pure [simp]: "readback \<sigma> (pure_if_non_monadic c r) = readback \<sigma> r"
  by (cases r) (simp_all add: monadic_pure_def)

lemma monadic_pure_carrier [simp]: "monadic_carrier (pure_if_non_monadic c r) \<noteq> None"
  by (cases r) (simp_all add: monadic_pure_def)

lemma map_pair_zip:
  "length as = length bs \<Longrightarrow> map (\<lambda>a. (f (fst a), snd a)) (zip as bs) = zip (map f as) bs"
  "length as = length bs \<Longrightarrow> map (\<lambda>a. (fst a, f (snd a))) (zip as bs) = zip as (map f bs)"
  by (simp_all add: zip_map1 zip_map2 case_prod_beta)

lemma zip_args:
  assumes "map f es = map g (map fst args)"
  shows "map (\<lambda>a. (f (fst a), snd a)) (zip es (map snd args)) = map (\<lambda>a. (g (fst a), snd a)) args"
  using assms by (induction args arbitrary: es) auto

lemma zip_arms:
  assumes "map f es = map g (map snd arms)"
  shows "map (\<lambda>a. (fst a, f (snd a))) (zip (map fst arms) es) = map (\<lambda>a. (fst a, g (snd a))) arms"
  using assms by (induction arms arbitrary: es) auto

lemma read_ident_mvar: "\<sigma> k = Some v \<Longrightarrow> read_ident \<sigma> (mvar k) = v"
  by (simp add: read_ident_def)

text \<open>Which expressions become monadic bindings; that does not depend on the numbers of the variables.\<close>

fun hoists :: "expression \<Rightarrow> bool" where
  "hoists (E_Unary op e t) = hoists e"
| "hoists (E_Binary op e1 e2 t) = (hoists e1 \<or> hoists e2)"
| "hoists (E_InlineConditional e1 e2 e3) = hoists e1"
| "hoists (E_QuestionMark e t) = True"
| "hoists (E_FuncCall p f args ts) = (\<exists>a \<in> set args. hoists (fst a))"
| "hoists (E_MethodCall sel t f args ts) = (hoists (fst sel) \<or> (\<exists>a \<in> set args. hoists (fst a)))"
| "hoists (E_EnumInject t c (Some e)) = hoists e"
| "hoists (E_MatchWith e arms) = (hoists e \<or> (\<exists>a \<in> set arms. hoists (snd a)))"
| "hoists (E_FieldAccessor e i) = hoists e"
| "hoists (E_ArrayIndex x e t) = hoists e"
| "hoists (E_NewArray x t es) = (\<exists>e \<in> set es. hoists e)"
| "hoists (E_Tuple es) = (\<exists>e \<in> set es. hoists e)"
| "hoists (E_IntegerCasting e t o1) = hoists e"
| "hoists e = False"

lemma absorb_monadic: "absorb bs r = (b, bs') \<Longrightarrow> (bs' = None) = (bs = None \<and> monadic_carrier r = None)"
  by (cases r) auto

lemma finish_monadic [simp]: "monadic_carrier e = None \<Longrightarrow> (monadic_carrier (finish bs w e) = None) = (bs = None)"
  by (auto simp: finish_def split: option.split)

lemmas elim_splits = Option.bind_split_asm prod.split_asm option.split_asm

lemma eliminate_hoists:
  "eliminate_question_marks k e = Some (r, k') \<Longrightarrow> (monadic_carrier r = None) = (\<not> hoists e)"
  "elim_list k bs es = Some (rs, bs', k') \<Longrightarrow> (bs' = None) = (bs = None \<and> (\<forall>e \<in> set es. \<not> hoists e))"
  "elim_arms k es = Some (rs, k') \<Longrightarrow> (\<forall>r \<in> set rs. monadic_carrier r = None) = (\<forall>e \<in> set es. \<not> hoists e)"
  "find_arm k es = Some (c, k') \<Longrightarrow> (c = None) = (\<forall>e \<in> set es. \<not> hoists e)"
proof (induction k e and k bs es and k es and k es arbitrary: r k' and rs bs' k' and rs k' and c k'
    rule: eliminate_question_marks_elim_list_elim_arms_find_arm.induct)
  case (4 k e1 t)
  then show ?case by (auto split: elim_splits expression.split_asm)
next
  case (10 k e1 arms)
  from "10.prems" obtain r1 k1 b bs c k2 rs k3 where e: "eliminate_question_marks k e1 = Some (r1, k1)"
      and a: "absorb None r1 = (b, bs)" and f: "find_arm k1 (map snd arms) = Some (c, k2)"
      and r: "monadic_carrier r = None \<longleftrightarrow> c = None \<and> bs = None"
    by (auto split: elim_splits simp: finish_def split: option.splits)
  from "10.IH"(1) [OF e] "10.IH"(2) [OF e refl refl a [symmetric] f] absorb_monadic [OF a] show ?case by (auto simp: r)
next
  case (3 k op e1 e2 t)
  from "3.prems" obtain r1 k1 b1 bs1 r2 b2 bs2 where
      e: "eliminate_question_marks k e1 = Some (r1, k1)" "eliminate_question_marks k1 e2 = Some (r2, k')"
      and a: "absorb None r1 = (b1, bs1)" "absorb bs1 r2 = (b2, bs2)"
      and r: "r = finish bs2 True (E_Binary op b1 b2 t)"
    by (auto split: elim_splits)
  from "3.IH"(1) [OF e(1)] "3.IH"(2) [OF e(1) refl refl a(1) [symmetric] e(2)] absorb_monadic [OF a(1)] absorb_monadic [OF a(2)]
  show ?case by (auto simp: r)
next
  case (6 k sel t f args ts)
  from "6.prems" obtain r1 k1 b bs1 es bs where e: "eliminate_question_marks k (fst sel) = Some (r1, k1)"
      and a: "absorb None r1 = (b, bs1)" and l: "elim_list k1 bs1 (map fst args) = Some (es, bs, k')"
      and r: "r = finish bs True (E_MethodCall (b, snd sel) t f (zip es (map snd args)) ts)"
    by (auto split: elim_splits)
  from "6.IH"(1) [OF e] "6.IH"(2) [OF e refl refl a [symmetric] l] absorb_monadic [OF a] show ?case by (auto simp: r)
next
  case (9 k e1 e2 e3)
  from "9.prems" obtain r1 k1 b bs where e: "eliminate_question_marks k e1 = Some (r1, k1)"
      and a: "absorb None r1 = (b, bs)" and r: "monadic_carrier r = None \<longleftrightarrow> bs = None"
    by (auto split: elim_splits)
  from "9.IH"(1) [OF e] absorb_monadic [OF a] show ?case by (auto simp: r)
next
  case (19 k bs e es)
  from "19.prems" obtain r1 k1 b bs1 rs1 where e: "eliminate_question_marks k e = Some (r1, k1)" and a: "absorb bs r1 = (b, bs1)"
      and l: "elim_list k1 bs1 es = Some (rs1, bs', k')"
    by (auto split: elim_splits)
  from "19.IH"(1) [OF e] "19.IH"(2) [OF e refl refl a [symmetric] l] absorb_monadic [OF a] show ?case by auto
next
  case (21 k e es)
  from "21.prems" obtain r1 k1 rs1 where e: "eliminate_question_marks k e = Some (r1, k1)"
      and l: "elim_arms k1 es = Some (rs1, k')" and rs: "rs = r1 # rs1"
    by (auto split: elim_splits)
  from "21.IH"(1) [OF e] "21.IH"(2) [OF e refl l] show ?case by (auto simp: rs)
next
  case (23 k e es)
  then show ?case by (fastforce split: elim_splits)
qed (auto split: elim_splits dest: absorb_monadic)

lemma absorbed:
  assumes "elaborates k k' e r" "absorb None r = (b, bs)"
  shows "reads k k' (lbinds bs) (\<lambda>\<sigma>. readback \<sigma> b = strip e)"
  using assms(1) absorb_eq [OF assms(2)] by (simp add: elaborates_def)

lemma absorbed_next:
  assumes "reads k k1 (lbinds bs) F" "elaborates k1 k2 e r" "absorb bs r = (b, bs')"
  shows "reads k k2 (lbinds bs') (\<lambda>\<sigma>. F \<sigma> \<and> readback \<sigma> b = strip e)"
  using reads_append [OF assms(1) conjunct1 [OF assms(2) [unfolded elaborates_def]]] absorb_eq [OF assms(3)] by simp

lemma elaborates_leaf: "k \<le> k' \<Longrightarrow> (\<And>\<sigma>. readback \<sigma> e = strip e) \<Longrightarrow> monadic_carrier e = None \<Longrightarrow> \<not> monadic_match e \<Longrightarrow>
  elaborates k k' e e"
  using elaborates_finish [of k k' None "\<lambda>\<sigma>. True" e e True] by (auto simp: finish_def intro: reads_Nil)

lemma elaborates_le: "elaborates k k' e r \<Longrightarrow> k \<le> k'"
  by (auto simp: elaborates_def dest: reads_le)

lemma elaborates_question_mark:
  assumes "elaborates k k1 e r"
  shows "elaborates k (Suc k1) (E_QuestionMark e t) (E_MonadicLet c (binds_of r @ [(mvar k1, body_of r)]) (E_Named (mvar k1)) p)"
proof -
  have "bound_value (body_of r) (readback \<sigma> (body_of r)) = strip (E_QuestionMark e t)" if "readback \<sigma> (body_of r) = strip e" for \<sigma>
    using assms that by (simp add: bound_value_def elaborates_def)
  from reads_snoc [OF conjunct1 [OF assms [unfolded elaborates_def]] this] show ?thesis
    by (auto simp: elaborates_def read_ident_mvar intro: reads_mono)
qed

lemma elaborates_monadic_match:
  assumes "reads k k1 (lbinds bs) F" "monadic_match m" "\<And>\<sigma>. F \<sigma> \<Longrightarrow> readback \<sigma> m = strip e"
  shows "elaborates k (Suc k1) e (finish bs w (E_MonadicLet c [(mvar k1, m)] (E_Named (mvar k1)) p))"
proof (cases bs)
  case None
  have "bound_value m (readback \<sigma> m) = strip e" if "F \<sigma>" for \<sigma>
    using assms(2,3) that by (simp add: bound_value_def)
  from reads_snoc [OF assms(1) this] show ?thesis
    by (auto simp: elaborates_def finish_def None read_ident_mvar intro: reads_mono)
next
  case (Some a)
  obtain c0 l where a: "a = (c0, l)" by (cases a)
  have "readback \<sigma> (E_MonadicLet c [(mvar k1, m)] (E_Named (mvar k1)) p) = strip e" if "F \<sigma>" for \<sigma>
    using assms(2) assms(3) [OF that] by (simp add: bound_value_def bind_mvar_def read_ident_mvar)
  then have "reads k k1 l (\<lambda>\<sigma>. readback \<sigma> (E_MonadicLet c [(mvar k1, m)] (E_Named (mvar k1)) p) = strip e)"
    using assms(1) by (auto simp: Some a lbinds_def intro: reads_mono)
  then show ?thesis by (auto simp: elaborates_def finish_def Some a intro: reads_widen)
qed

lemma eliminate_readback:
  "eliminate_question_marks k e = Some (r, k') \<Longrightarrow> mvar_free e \<Longrightarrow> elaborates k k' e r"
  "elim_list k bs es = Some (rs, bs', k') \<Longrightarrow> \<forall>e \<in> set es. mvar_free e \<Longrightarrow>
     \<exists>l. lbinds bs' = lbinds bs @ l \<and> reads k k' l (\<lambda>\<sigma>. map (readback \<sigma>) rs = map strip es)"
  "elim_arms k es = Some (rs, k') \<Longrightarrow> \<forall>e \<in> set es. mvar_free e \<Longrightarrow> k \<le> k' \<and> (\<forall>\<sigma>. map (readback \<sigma>) rs = map strip es)"
  "find_arm k es = Some (c, k') \<Longrightarrow> \<forall>e \<in> set es. mvar_free e \<Longrightarrow> k \<le> k'"
proof (induction k e and k bs es and k es and k es arbitrary: r k' and rs bs' k' and rs k' and c k'
    rule: eliminate_question_marks_elim_list_elim_arms_find_arm.induct)
  case (2 k op e1 t)
  then obtain r1 b bs where e: "elaborates k k' e1 r1" and a: "absorb None r1 = (b, bs)"
      and r: "r = finish bs True (E_Unary op b t)"
    by (auto split: elim_splits)
  show ?case unfolding r by (rule elaborates_finish [OF absorbed [OF e a]]) simp_all
next
  case (3 k op e1 e2 t)
  from "3.prems" obtain r1 k1 b1 bs1 r2 b2 bs2 where
      e: "eliminate_question_marks k e1 = Some (r1, k1)" "eliminate_question_marks k1 e2 = Some (r2, k')"
      and a: "absorb None r1 = (b1, bs1)" "absorb bs1 r2 = (b2, bs2)"
      and r: "r = finish bs2 True (E_Binary op b1 b2 t)"
    by (auto split: elim_splits)
  from "3.IH"(1) [OF e(1)] "3.IH"(2) [OF e(1) refl refl a(1) [symmetric] e(2)] a "3.prems"(2)
  have e: "elaborates k k1 e1 r1" "elaborates k1 k' e2 r2" by auto
  show ?case unfolding r
    by (rule elaborates_finish [OF absorbed_next [OF absorbed [OF e(1) a(1)] e(2) a(2)]]) simp_all
next
  case (11 k e1 i)
  then obtain r1 b bs where e: "elaborates k k' e1 r1" and a: "absorb None r1 = (b, bs)"
      and r: "r = finish bs True (E_FieldAccessor b i)"
    by (auto split: elim_splits)
  show ?case unfolding r by (rule elaborates_finish [OF absorbed [OF e a]]) simp_all
next
  case (12 k x e1 t)
  then obtain r1 b bs where e: "elaborates k k' e1 r1" and a: "absorb None r1 = (b, bs)"
      and r: "r = finish bs True (E_ArrayIndex x b t)"
    by (auto split: elim_splits)
  show ?case unfolding r by (rule elaborates_finish [OF absorbed [OF e a]]) simp_all
next
  case (15 k e1 d t)
  then obtain r1 b bs where e: "elaborates k k' e1 r1" and a: "absorb None r1 = (b, bs)"
      and r: "r = finish bs True (E_IntegerCasting b d t)"
    by (auto split: elim_splits)
  show ?case unfolding r by (rule elaborates_finish [OF absorbed [OF e a]]) simp_all
next
  case (8 k t name e1)
  then obtain r1 b bs where e: "elaborates k k' e1 r1" and a: "absorb None r1 = (b, bs)"
      and r: "r = finish bs True (E_EnumInject t name (Some b))"
    by (auto split: elim_splits)
  show ?case unfolding r by (rule elaborates_finish [OF absorbed [OF e a]]) simp_all
next
  case (13 k x t args)
  then obtain es bs where l: "reads k k' (lbinds bs) (\<lambda>\<sigma>. map (readback \<sigma>) es = map strip args)"
      and r: "r = finish bs True (E_NewArray x t es)"
    by (fastforce split: elim_splits)
  show ?case unfolding r by (rule elaborates_finish [OF l]) simp_all
next
  case (14 k args)
  then obtain es bs where l: "reads k k' (lbinds bs) (\<lambda>\<sigma>. map (readback \<sigma>) es = map strip args)"
      and r: "r = finish bs True (E_Tuple es)"
    by (fastforce split: elim_splits)
  show ?case unfolding r by (rule elaborates_finish [OF l]) simp_all
next
  case (5 k p f args ts)
  then obtain es bs where l: "reads k k' (lbinds bs) (\<lambda>\<sigma>. map (readback \<sigma>) es = map strip (map fst args))"
      and r: "r = finish bs True (E_FuncCall p f (zip es (map snd args)) ts)"
    by (fastforce split: elim_splits)
  show ?case unfolding r by (rule elaborates_finish [OF l]) (simp_all add: zip_args del: map_map)
next
  case (6 k sel t f args ts)
  from "6.prems" obtain r1 k1 b bs1 es bs where e: "eliminate_question_marks k (fst sel) = Some (r1, k1)"
      and a: "absorb None r1 = (b, bs1)" and l: "elim_list k1 bs1 (map fst args) = Some (es, bs, k')"
      and r: "r = finish bs True (E_MethodCall (b, snd sel) t f (zip es (map snd args)) ts)"
    by (auto split: elim_splits)
  obtain l where l: "lbinds bs = lbinds bs1 @ l" "reads k1 k' l (\<lambda>\<sigma>. map (readback \<sigma>) es = map strip (map fst args))"
    using "6.IH"(2) [OF e refl refl a [symmetric] l] "6.prems"(2) by auto
  from "6.IH"(1) [OF e] "6.prems"(2) have e: "elaborates k k1 (fst sel) r1" by simp
  have "reads k k' (lbinds bs) (\<lambda>\<sigma>. readback \<sigma> b = strip (fst sel) \<and> map (readback \<sigma>) es = map strip (map fst args))"
    using reads_append [OF absorbed [OF e a] l(2)] by (simp only: l(1))
  then show ?case unfolding r by (rule elaborates_finish) (simp_all add: zip_args del: map_map)
next
  case (9 k e1 e2 e3)
  from "9.prems" obtain r1 k1 b bs r2 k2 r3 where e: "eliminate_question_marks k e1 = Some (r1, k1)"
        "eliminate_question_marks k1 e2 = Some (r2, k2)" "eliminate_question_marks k2 e3 = Some (r3, k')"
      and a: "absorb None r1 = (b, bs)"
      and r: "r = (case find_monadic_let_carrier [r2, r3] of
         Some carrier \<Rightarrow> finish bs False (E_InlineConditional b (pure_if_non_monadic carrier r2) (pure_if_non_monadic carrier r3))
       | None \<Rightarrow> finish bs True (E_InlineConditional b r2 r3))"
    by (auto split: elim_splits)
  from "9.IH"(1) [OF e(1)] "9.IH"(2) [OF e(1) refl refl a [symmetric] e(2)]
    "9.IH"(3) [OF e(1) refl refl a [symmetric] e(2) refl e(3)] "9.prems"(2)
  have e: "elaborates k k1 e1 r1" "elaborates k1 k2 e2 r2" "elaborates k2 k' e3 r3" by auto
  have "reads k k' (lbinds bs) (\<lambda>\<sigma>. readback \<sigma> b = strip e1)"
    using absorbed [OF e(1) a] elaborates_le [OF e(2)] elaborates_le [OF e(3)] by (auto intro: reads_widen)
  then show ?case unfolding r
    by (cases "find_monadic_let_carrier [r2, r3]")
      (auto intro!: elaborates_finish simp: elaborates_readback [OF e(2)] elaborates_readback [OF e(3)])
next
  case (10 k e1 arms)
  from "10.prems" obtain r1 k1 b bs c k2 rs k3 where e: "eliminate_question_marks k e1 = Some (r1, k1)"
      and a: "absorb None r1 = (b, bs)" and f: "find_arm k1 (map snd arms) = Some (c, k2)"
      and rs: "elim_arms k2 (map snd arms) = Some (rs, k3)"
      and r: "(r, k') = (case c of
         Some carrier \<Rightarrow> (finish bs False (E_MonadicLet carrier
              [(mvar k3, E_MatchWith b (zip (map fst arms) (map (pure_if_non_monadic carrier) rs)))]
              (E_Named (mvar k3)) True), Suc k3)
       | None \<Rightarrow> (finish bs True (E_MatchWith b (zip (map fst arms) rs)), k3))"
    by (auto split: elim_splits)
  have k: "k1 \<le> k2" using "10.IH"(2) [OF e refl refl a [symmetric] f] "10.prems"(2) by auto
  have arms: "k2 \<le> k3" "map (readback \<sigma>) rs = map strip (map snd arms)" for \<sigma>
    using "10.IH"(3) [OF e refl refl a [symmetric] f refl rs] "10.prems"(2) by auto
  have "reads k k3 (lbinds bs) (\<lambda>\<sigma>. readback \<sigma> b = strip e1)"
    using absorbed [OF "10.IH"(1) [OF e] a] k arms(1) "10.prems"(2) by (auto intro: reads_widen)
  note b = this
  show ?case
  proof (cases c)
    case None
    have "\<forall>r \<in> set rs. monadic_carrier r = None"
      using eliminate_hoists(3) [OF rs] eliminate_hoists(4) [OF f] None by simp
    then have "\<not> monadic_match (E_MatchWith b (zip (map fst arms) rs))"
      by (auto dest: set_zip_rightD)
    moreover have "r = finish bs True (E_MatchWith b (zip (map fst arms) rs))" "k' = k3" using r None by simp_all
    ultimately show ?thesis
      by (auto intro!: elaborates_finish [OF b] simp: zip_arms [OF arms(2)] simp del: map_map)
  next
    case (Some carrier)
    let ?m = "E_MatchWith b (zip (map fst arms) (map (pure_if_non_monadic carrier) rs))"
    have "arms \<noteq> []" using eliminate_hoists(4) [OF f] Some by auto
    moreover have "length rs = length arms" using map_eq_imp_length_eq [OF arms(2)] by simp
    ultimately have m: "monadic_match ?m" by (cases arms; cases rs) auto
    have "map (readback \<sigma>) (map (pure_if_non_monadic carrier) rs) = map strip (map snd arms)" for \<sigma>
      using arms(2) by (simp add: o_def)
    then have "readback \<sigma> ?m = strip (E_MatchWith e1 arms)" if "readback \<sigma> b = strip e1" for \<sigma>
      using that by (simp add: zip_arms del: map_map)
    from elaborates_monadic_match [OF b m this] r Some show ?thesis by simp
  qed
next
  case (4 k e1 t)
  from "4.prems" obtain r1 k1 where e: "eliminate_question_marks k e1 = Some (r1, k1)"
    by (auto split: elim_splits)
  with "4.IH" "4.prems"(2) have R: "elaborates k k1 e1 r1" by simp
  from "4.prems" e obtain c p where "r = E_MonadicLet c (binds_of r1 @ [(mvar k1, body_of r1)]) (E_Named (mvar k1)) p" "k' = Suc k1"
    by (cases r1) (auto split: option.split_asm)
  with elaborates_question_mark [OF R] show ?case by simp
next
  case (19 k bs e es)
  from "19.prems" obtain r1 k1 b bs1 rs1 where e: "eliminate_question_marks k e = Some (r1, k1)" and a: "absorb bs r1 = (b, bs1)"
      and l: "elim_list k1 bs1 es = Some (rs1, bs', k')" and rs: "rs = b # rs1"
    by (auto split: elim_splits)
  obtain l where l: "lbinds bs' = lbinds bs1 @ l" "reads k1 k' l (\<lambda>\<sigma>. map (readback \<sigma>) rs1 = map strip es)"
    using "19.IH"(2) [OF e refl refl a [symmetric] l] "19.prems"(2) by auto
  from "19.IH"(1) [OF e] "19.prems"(2) have e: "elaborates k k1 e r1" by simp
  have "reads k k' (binds_of r1 @ l) (\<lambda>\<sigma>. map (readback \<sigma>) rs = map strip (e # es))"
    using reads_append [OF conjunct1 [OF e [unfolded elaborates_def]] l(2)] absorb_eq [OF a] by (simp add: rs)
  with l(1) absorb_eq [OF a] show ?case by auto
next
  case (21 k e es)
  from "21.prems" obtain r1 k1 rs1 where e: "eliminate_question_marks k e = Some (r1, k1)"
      and l: "elim_arms k1 es = Some (rs1, k')" and rs: "rs = r1 # rs1"
    by (auto split: elim_splits)
  from "21.IH"(2) [OF e refl l] "21.prems"(2) have l: "k1 \<le> k'" "\<forall>\<sigma>. map (readback \<sigma>) rs1 = map strip es" by auto
  from "21.IH"(1) [OF e] "21.prems"(2) have e: "elaborates k k1 e r1" by simp
  show ?case using l elaborates_le [OF e] by (simp add: rs elaborates_readback [OF e])
next
  case (23 k e es)
  then show ?case by (fastforce split: elim_splits dest: elaborates_le)
qed (auto intro: elaborates_leaf reads_Nil simp: read_ident_def)

section \<open>Properties\<close>


definition match_example :: expression where
  "match_example = E_Binary B_Add (E_QuestionMark (E_Named (Local (LocalIdent 0 ''x'' False))) (Some (C_Option T_UInt8)))
     (E_MatchWith (E_Named (Local (LocalIdent 1 ''y'' False)))
        [(P_WildCard, E_QuestionMark (E_Named (Local (LocalIdent 2 ''z'' False))) (Some (C_Option T_UInt8)))]) None"


end
