(* ===== verification/Abstract_Integers.thy ===== *)
theory Abstract_Integers
  imports Seq "HOL-Library.Signed_Division"
begin

text \<open>
  \<open>utils/abstract-integers/src/abstract_int.rs\<close>: integers of a given number of bits, kept as the
  big-endian bytes of their absolute value with a sign. The macros take the number of bits and the
  flag for signed types; here these are the arguments \<open>bits\<close> and \<open>sg\<close>.

  The crate \<open>num_bigint\<close> is not part of the repository. \<open>BigInt\<close> is \<open>int\<close> and \<open>BigUint\<close> a non-negative \<open>int\<close>; the
  conversions to and from bytes and \<open>modpow\<close> are a parameter \<open>B\<close>, and \<open>bigint_spec\<close> is what its
  documentation says of them. The public and the secret types have the same operations, apart from those that only the
  public types have.

  The lemmas show that the operations of the unsigned types are the operations on integers when the result is in
  range and panic when it is not, and the round trips through bytes. Theorems state where the code departs
  from its documentation: \<open>from_le_bytes\<close> on short inputs, the masks of the comparisons, and
  \<open>from_be_bytes\<close> on values that do not fit.
\<close>

section \<open>The interface of the crate num_bigint\<close>

datatype sign = Sign_Minus | Sign_NoSign | Sign_Plus

fun sign_int :: "sign \<Rightarrow> int" where
  "sign_int Sign_Minus = - 1"
| "sign_int Sign_NoSign = 0"
| "sign_int Sign_Plus = 1"

record num_bigint =
  to_bytes_be :: "int \<Rightarrow> sign \<times> u8 list"
  to_bytes_le :: "int \<Rightarrow> sign \<times> u8 list"
  from_bytes_be :: "sign \<Rightarrow> u8 list \<Rightarrow> int"
  from_bytes_le :: "sign \<Rightarrow> u8 list \<Rightarrow> int"
  modpow :: "int \<Rightarrow> int \<Rightarrow> int \<Rightarrow> int option"

definition be_value :: "u8 list \<Rightarrow> int" where
  "be_value bs = foldl (\<lambda>a b. a * 256 + uint b) 0 bs"

text \<open>
  The bytes of an integer have no leading zero; those of zero are one zero byte. \<open>modpow\<close> panics on a negative
  exponent and on modulus zero.
\<close>

definition bigint_spec :: "num_bigint \<Rightarrow> bool" where
  "bigint_spec B \<longleftrightarrow>
     (\<forall>s bs. from_bytes_be B s bs = sign_int s * be_value bs) \<and>
     (\<forall>s bs. from_bytes_le B s bs = sign_int s * be_value (rev bs)) \<and>
     (\<forall>x. sign_int (fst (to_bytes_be B x)) = sgn x \<and> be_value (snd (to_bytes_be B x)) = \<bar>x\<bar> \<and>
        snd (to_bytes_be B x) \<noteq> [] \<and> (1 < length (snd (to_bytes_be B x)) \<longrightarrow> hd (snd (to_bytes_be B x)) \<noteq> 0)) \<and>
     (\<forall>x. to_bytes_le B x = (fst (to_bytes_be B x), rev (snd (to_bytes_be B x)))) \<and>
     (\<forall>x e m. modpow B x e m = (if e < 0 \<or> m = 0 then None else Some (x ^ nat e mod m)))"

section \<open>The type\<close>

record abs_int =
  ai_b :: "u8 list"
  ai_sign :: sign
  ai_signed :: bool

definition canvas_len :: "nat \<Rightarrow> nat" where
  "canvas_len bits = (bits + 7) div 8"

definition ai_max :: "nat \<Rightarrow> int" where
  "ai_max bits = 2 ^ bits - 1"

definition ai_from :: "num_bigint \<Rightarrow> nat \<Rightarrow> bool \<Rightarrow> int \<Rightarrow> abs_int option" where
  "ai_from B bits sg x = do {
     rust_assert (x \<le> ai_max bits);
     let (s, repr) = to_bytes_be B x;
     rust_assert (\<not> (s = Sign_Minus \<and> \<not> sg));
     rust_assert (length repr \<le> canvas_len bits);
     Some \<lparr>ai_b = replicate (canvas_len bits - length repr) 0 @ repr, ai_sign = s, ai_signed = sg\<rparr>
   }"

definition ai_into :: "num_bigint \<Rightarrow> abs_int \<Rightarrow> int" where
  "ai_into B self = from_bytes_be B (ai_sign self) (ai_b self)"

text \<open>\<open>Into<BigUint>\<close> ignores the sign.\<close>

definition ai_into_uint :: "num_bigint \<Rightarrow> abs_int \<Rightarrow> int" where
  "ai_into_uint B self = from_bytes_be B Sign_Plus (ai_b self)"

definition ai_default :: "nat \<Rightarrow> bool \<Rightarrow> abs_int" where
  "ai_default bits sg = \<lparr>ai_b = replicate (canvas_len bits) 0, ai_sign = Sign_Plus, ai_signed = sg\<rparr>"

definition ai_max_value :: "num_bigint \<Rightarrow> nat \<Rightarrow> bool \<Rightarrow> abs_int option" where
  "ai_max_value B bits sg = ai_from B bits sg (ai_max bits)"

definition ai_from_literal :: "num_bigint \<Rightarrow> nat \<Rightarrow> bool \<Rightarrow> u128 \<Rightarrow> abs_int option" where
  "ai_from_literal B bits sg x = do {
     rust_assert (uint x \<le> ai_max bits);
     ai_from B bits sg (uint x)
   }"

text \<open>The argument is an \<open>i128\<close> that is cast to \<open>u128\<close>.\<close>

definition ai_from_signed_literal :: "num_bigint \<Rightarrow> nat \<Rightarrow> bool \<Rightarrow> 128 word \<Rightarrow> abs_int option" where
  "ai_from_signed_literal B bits sg x = ai_from_literal B bits sg x"

definition ai_pow2 :: "num_bigint \<Rightarrow> nat \<Rightarrow> bool \<Rightarrow> usize \<Rightarrow> abs_int option" where
  "ai_pow2 B bits sg x = ai_from B bits sg (push_bit x 1)"

definition ai_bit :: "num_bigint \<Rightarrow> abs_int \<Rightarrow> usize \<Rightarrow> bool option" where
  "ai_bit B self i = do {
     rust_assert (i < length (ai_b self) * 8);
     let tmp = drop_bit i (ai_into B self);
     byte \<leftarrow> vec_get (snd (to_bytes_le B (tmp AND 1))) 0;
     Some (byte = 1)
   }"

section \<open>Operators\<close>

definition ai_add :: "num_bigint \<Rightarrow> nat \<Rightarrow> bool \<Rightarrow> abs_int \<Rightarrow> abs_int \<Rightarrow> abs_int option" where
  "ai_add B bits sg self rhs = do {
     let c = ai_into B self + ai_into B rhs;
     rust_assert (\<not> c > ai_max bits);
     ai_from B bits sg c
   }"

text \<open>\<open>checked_sub\<close> of \<open>BigInt\<close> always returns the difference; a negative one panics in the conversion.\<close>

definition ai_sub :: "num_bigint \<Rightarrow> nat \<Rightarrow> bool \<Rightarrow> abs_int \<Rightarrow> abs_int \<Rightarrow> abs_int option" where
  "ai_sub B bits sg self rhs = ai_from B bits sg (ai_into B self - ai_into B rhs)"

definition ai_mul :: "num_bigint \<Rightarrow> nat \<Rightarrow> bool \<Rightarrow> abs_int \<Rightarrow> abs_int \<Rightarrow> abs_int option" where
  "ai_mul B bits sg self rhs = do {
     let c = ai_into B self * ai_into B rhs;
     rust_assert (\<not> c > ai_max bits);
     ai_from B bits sg c
   }"

text \<open>Division and remainder of \<open>BigInt\<close> round towards zero.\<close>

definition ai_div :: "num_bigint \<Rightarrow> nat \<Rightarrow> bool \<Rightarrow> abs_int \<Rightarrow> abs_int \<Rightarrow> abs_int option" where
  "ai_div B bits sg self rhs = do {
     let b = ai_into B rhs;
     rust_assert (b \<noteq> 0);
     ai_from B bits sg (ai_into B self sdiv b)
   }"

definition ai_rem :: "num_bigint \<Rightarrow> nat \<Rightarrow> bool \<Rightarrow> abs_int \<Rightarrow> abs_int \<Rightarrow> abs_int option" where
  "ai_rem B bits sg self rhs = do {
     let b = ai_into B rhs;
     rust_assert (b \<noteq> 0);
     ai_from B bits sg (ai_into B self smod b)
   }"

definition ai_not :: "abs_int \<Rightarrow> abs_int option" where
  "ai_not self = None"

definition ai_bitor :: "num_bigint \<Rightarrow> nat \<Rightarrow> bool \<Rightarrow> abs_int \<Rightarrow> abs_int \<Rightarrow> abs_int option" where
  "ai_bitor B bits sg self rhs = ai_from B bits sg (ai_into B self OR ai_into B rhs)"

definition ai_bitxor :: "num_bigint \<Rightarrow> nat \<Rightarrow> bool \<Rightarrow> abs_int \<Rightarrow> abs_int \<Rightarrow> abs_int option" where
  "ai_bitxor B bits sg self rhs = ai_from B bits sg (ai_into B self XOR ai_into B rhs)"

definition ai_bitand :: "num_bigint \<Rightarrow> nat \<Rightarrow> bool \<Rightarrow> abs_int \<Rightarrow> abs_int \<Rightarrow> abs_int option" where
  "ai_bitand B bits sg self rhs = ai_from B bits sg (ai_into B self AND ai_into B rhs)"

definition ai_shr :: "num_bigint \<Rightarrow> nat \<Rightarrow> bool \<Rightarrow> abs_int \<Rightarrow> usize \<Rightarrow> abs_int option" where
  "ai_shr B bits sg self n = ai_from B bits sg (drop_bit n (ai_into B self))"

definition ai_shl :: "num_bigint \<Rightarrow> nat \<Rightarrow> bool \<Rightarrow> abs_int \<Rightarrow> usize \<Rightarrow> abs_int option" where
  "ai_shl B bits sg self n = ai_from B bits sg (push_bit n (ai_into B self))"

definition ai_eq :: "num_bigint \<Rightarrow> abs_int \<Rightarrow> abs_int \<Rightarrow> bool" where
  "ai_eq B self rhs \<longleftrightarrow> ai_into B self = ai_into B rhs"

definition ai_less :: "num_bigint \<Rightarrow> abs_int \<Rightarrow> abs_int \<Rightarrow> bool" where
  "ai_less B self rhs \<longleftrightarrow> ai_into B self < ai_into B rhs"

section \<open>Modular powers of the public types\<close>

definition ai_pow_felem :: "num_bigint \<Rightarrow> nat \<Rightarrow> bool \<Rightarrow> abs_int \<Rightarrow> abs_int \<Rightarrow> abs_int \<Rightarrow> abs_int option" where
  "ai_pow_felem B bits sg self ex modval = do {
     c \<leftarrow> modpow B (ai_into B self) (ai_into B ex) (ai_into B modval);
     ai_from B bits sg c
   }"

definition ai_inv :: "num_bigint \<Rightarrow> nat \<Rightarrow> bool \<Rightarrow> abs_int \<Rightarrow> abs_int \<Rightarrow> abs_int option" where
  "ai_inv B bits sg self modval = do {
     let m = ai_into B modval - 2;
     c \<leftarrow> modpow B (ai_into B self) m (ai_into B modval);
     ai_from B bits sg c
   }"

definition ai_pow :: "num_bigint \<Rightarrow> nat \<Rightarrow> bool \<Rightarrow> abs_int \<Rightarrow> u128 \<Rightarrow> abs_int \<Rightarrow> abs_int option" where
  "ai_pow B bits sg self ex modval = do {
     e \<leftarrow> ai_from B bits sg (uint ex);
     ai_pow_felem B bits sg self e modval
   }"

section \<open>Unsigned types\<close>

definition ai_hex_string_to_bytes :: "string \<Rightarrow> u8 list option" where
  "ai_hex_string_to_bytes s =
     (let s = (if length s mod 2 \<noteq> 0 then CHR ''0'' # s else s) in hex_string_to_bytes s)"

definition ai_from_hex :: "num_bigint \<Rightarrow> nat \<Rightarrow> string \<Rightarrow> abs_int option" where
  "ai_from_hex B bits s = do {
     bytes \<leftarrow> ai_hex_string_to_bytes s;
     ai_from B bits False (from_bytes_be B Sign_Plus bytes)
   }"

definition ai_from_be_bytes :: "nat \<Rightarrow> u8 list \<Rightarrow> abs_int option" where
  "ai_from_be_bytes bits v = do {
     rust_assert (length v \<le> canvas_len bits);
     Some \<lparr>ai_b = replicate (canvas_len bits - length v) 0 @ v, ai_sign = Sign_Plus, ai_signed = False\<rparr>
   }"

definition ai_from_le_bytes :: "num_bigint \<Rightarrow> nat \<Rightarrow> u8 list \<Rightarrow> abs_int option" where
  "ai_from_le_bytes B bits v = do {
     rust_assert (length v \<le> canvas_len bits);
     let repr = replicate (canvas_len bits - length v) 0 @ v;
     ai_from B bits False (from_bytes_le B Sign_Plus repr)
   }"

definition ai_to_be_bytes :: "abs_int \<Rightarrow> u8 list" where
  "ai_to_be_bytes self = ai_b self"

definition ai_to_le_bytes :: "num_bigint \<Rightarrow> nat \<Rightarrow> abs_int \<Rightarrow> u8 list option" where
  "ai_to_le_bytes B bits self = do {
     let x_s = snd (to_bytes_le B (from_bytes_be B Sign_Plus (ai_b self)));
     rust_assert (length x_s \<le> canvas_len bits);
     Some (x_s @ replicate (canvas_len bits - length x_s) 0)
   }"

definition ai_mask :: "num_bigint \<Rightarrow> nat \<Rightarrow> bool \<Rightarrow> abs_int option" where
  "ai_mask B bits c =
     (if c then do {
        one \<leftarrow> ai_from_literal B bits False 1;
        n \<leftarrow> usize_sub bits 1;
        x \<leftarrow> ai_shl B bits False one n;
        ai_sub B bits False x one
      } else Some (ai_default bits False))"

definition ai_comp_eq :: "num_bigint \<Rightarrow> nat \<Rightarrow> abs_int \<Rightarrow> abs_int \<Rightarrow> abs_int option" where
  "ai_comp_eq B bits self rhs = ai_mask B bits (ai_into B self = ai_into B rhs)"

definition ai_comp_ne :: "num_bigint \<Rightarrow> nat \<Rightarrow> abs_int \<Rightarrow> abs_int \<Rightarrow> abs_int option" where
  "ai_comp_ne B bits self rhs = ai_mask B bits (ai_into B self \<noteq> ai_into B rhs)"

definition ai_comp_gte :: "num_bigint \<Rightarrow> nat \<Rightarrow> abs_int \<Rightarrow> abs_int \<Rightarrow> abs_int option" where
  "ai_comp_gte B bits self rhs = ai_mask B bits (ai_into B self \<ge> ai_into B rhs)"

definition ai_comp_gt :: "num_bigint \<Rightarrow> nat \<Rightarrow> abs_int \<Rightarrow> abs_int \<Rightarrow> abs_int option" where
  "ai_comp_gt B bits self rhs = ai_mask B bits (ai_into B self > ai_into B rhs)"

definition ai_comp_lte :: "num_bigint \<Rightarrow> nat \<Rightarrow> abs_int \<Rightarrow> abs_int \<Rightarrow> abs_int option" where
  "ai_comp_lte B bits self rhs = ai_mask B bits (ai_into B self \<le> ai_into B rhs)"

definition ai_comp_lt :: "num_bigint \<Rightarrow> nat \<Rightarrow> abs_int \<Rightarrow> abs_int \<Rightarrow> abs_int option" where
  "ai_comp_lt B bits self rhs = ai_mask B bits (ai_into B self < ai_into B rhs)"

section \<open>Signed types\<close>

definition ai_from_hex_signed :: "num_bigint \<Rightarrow> nat \<Rightarrow> string \<Rightarrow> string \<Rightarrow> abs_int option" where
  "ai_from_hex_signed B bits sgn_str s = do {
     sign \<leftarrow> (if sgn_str = ''+'' then Some Sign_Plus else if sgn_str = ''-'' then Some Sign_Minus
              else if sgn_str = [] then Some Sign_NoSign else None);
     bytes \<leftarrow> ai_hex_string_to_bytes s;
     ai_from B bits True (from_bytes_be B sign bytes)
   }"

section \<open>Big-endian values\<close>

lemma be_value_Nil [simp]: "be_value [] = 0"
  by (simp add: be_value_def)

lemma be_value_snoc [simp]: "be_value (bs @ [b]) = be_value bs * 256 + uint b"
  by (simp add: be_value_def)

lemma be_value_append: "be_value (xs @ ys) = be_value xs * 256 ^ length ys + be_value ys"
proof (induction ys rule: rev_induct)
  case (snoc y ys)
  then show ?case by (simp only: append_assoc [symmetric] be_value_snoc) (simp add: algebra_simps)
qed simp

lemma be_value_Cons: "be_value (b # bs) = uint b * 256 ^ length bs + be_value bs"
  using be_value_append [of "[b]" bs] by (simp add: be_value_def)

lemma be_value_zeros [simp]: "be_value (replicate n 0) = 0"
  by (induction n) (simp_all add: be_value_Cons)

lemma be_value_pad [simp]: "be_value (replicate n 0 @ bs) = be_value bs"
  by (simp add: be_value_append)

lemma be_value_nonneg [simp]: "0 \<le> be_value bs"
  by (induction bs rule: rev_induct) simp_all

lemma uint_byte: "uint (b :: u8) < 256"
  using uint_bounded [of b] by simp

lemma be_value_less: "be_value bs < 256 ^ length bs"
proof (induction bs rule: rev_induct)
  case (snoc b bs)
  then have "be_value bs \<le> 256 ^ length bs - 1" by simp
  then show ?case using uint_byte [of b] by simp
qed simp

lemma be_value_ge:
  assumes "bs \<noteq> []" "hd bs \<noteq> 0"
  shows "256 ^ (length bs - 1) \<le> be_value bs"
proof -
  obtain b bs' where bs: "bs = b # bs'" "b \<noteq> 0" using assms by (cases bs) auto
  then have "1 \<le> uint b" using uint_nonnegative [of b] by (simp add: word_neq_0_conv word_less_def)
  then have "256 ^ length bs' \<le> uint b * 256 ^ length bs'" by (simp add: mult_le_cancel_right1)
  then show ?thesis by (simp add: bs be_value_Cons add_increasing2)
qed

lemma be_value_inj: "length xs = length ys \<Longrightarrow> be_value xs = be_value ys \<Longrightarrow> xs = ys"
proof (induction xs ys rule: list_induct2')
  case (4 x xs y ys)
  then have len: "length xs = length ys"
      and eq: "uint x * 256 ^ length ys + be_value xs = uint y * 256 ^ length ys + be_value ys"
    by (simp_all add: be_value_Cons)
  have "uint x = uint y \<and> be_value xs = be_value ys"
    using eq be_value_less [of xs] be_value_less [of ys] len
      div_mult_self3 [of "256 ^ length ys" "uint x" "be_value xs"] div_mult_self3 [of "256 ^ length ys" "uint y" "be_value ys"]
    by (metis add.commute add_left_imp_eq be_value_nonneg div_pos_pos_trivial mult.commute power_not_zero zero_neq_numeral add_0)
  with 4 len show ?case by (simp add: word_uint_eq_iff)
qed simp_all

section \<open>Values in range\<close>

lemma bigint_from [simp]: "bigint_spec B \<Longrightarrow> from_bytes_be B s bs = sign_int s * be_value bs"
  "bigint_spec B \<Longrightarrow> from_bytes_le B s bs = sign_int s * be_value (rev bs)"
  unfolding bigint_spec_def by blast+

lemma bigint_modpow: "bigint_spec B \<Longrightarrow> modpow B x e m = (if e < 0 \<or> m = 0 then None else Some (x ^ nat e mod m))"
  unfolding bigint_spec_def by blast

lemma bigint_to:
  assumes "bigint_spec B" "to_bytes_be B x = (s, bs)"
  shows "sign_int s = sgn x" "be_value bs = \<bar>x\<bar>" "bs \<noteq> []" "1 < length bs \<Longrightarrow> hd bs \<noteq> 0"
    "to_bytes_le B x = (s, rev bs)"
  using assms unfolding bigint_spec_def by (metis fst_conv snd_conv)+

definition ai_ok :: "nat \<Rightarrow> abs_int \<Rightarrow> bool" where
  "ai_ok bits self \<longleftrightarrow> length (ai_b self) = canvas_len bits \<and> \<not> ai_signed self \<and> ai_sign self \<noteq> Sign_Minus \<and>
     (ai_sign self = Sign_NoSign \<longrightarrow> be_value (ai_b self) = 0) \<and> be_value (ai_b self) \<le> ai_max bits"

definition ai_val :: "abs_int \<Rightarrow> int" where
  "ai_val self = be_value (ai_b self)"

lemma ai_into_val: "bigint_spec B \<Longrightarrow> ai_ok bits self \<Longrightarrow> ai_into B self = ai_val self"
  by (cases "ai_sign self") (auto simp: ai_into_def ai_ok_def ai_val_def)

lemma ai_into_uint_val: "bigint_spec B \<Longrightarrow> ai_into_uint B self = ai_val self"
  by (simp add: ai_into_uint_def ai_val_def)

lemma ai_val_bounds: "ai_ok bits self \<Longrightarrow> 0 \<le> ai_val self \<and> ai_val self \<le> ai_max bits"
  by (simp add: ai_ok_def ai_val_def)

text \<open>\<open>is_int bits x res\<close>: the result is the integer \<open>x\<close> when it is in range, and a panic when it is not.\<close>

definition is_int :: "nat \<Rightarrow> int \<Rightarrow> abs_int option \<Rightarrow> bool" where
  "is_int bits x res \<longleftrightarrow> (if 0 \<le> x \<and> x \<le> ai_max bits then \<exists>r. res = Some r \<and> ai_ok bits r \<and> ai_val r = x else res = None)"

lemma canvas_fits: "(2::int) ^ bits \<le> 256 ^ canvas_len bits"
proof -
  have "(256::int) ^ canvas_len bits = 2 ^ (8 * canvas_len bits)" by (simp add: power_mult)
  moreover have "bits \<le> 8 * canvas_len bits" by (simp add: canvas_len_def)
  ultimately show ?thesis by (simp add: power_increasing)
qed

lemma repr_fits:
  assumes "bigint_spec B" "to_bytes_be B x = (s, bs)" "0 \<le> x" "x < 256 ^ n" "0 < n"
  shows "length bs \<le> n"
proof (rule ccontr)
  assume "\<not> length bs \<le> n"
  then have "n \<le> length bs - 1" "1 < length bs" using assms(5) by auto
  then have "(256::int) ^ n \<le> 256 ^ (length bs - 1)" by (simp add: power_increasing)
  also have "\<dots> \<le> be_value bs" using bigint_to [OF assms(1,2)] \<open>1 < length bs\<close> by (intro be_value_ge) auto
  finally show False using bigint_to(2) [OF assms(1,2)] assms(3,4) by simp
qed

lemma ai_from_is_int:
  assumes "bigint_spec B" "0 < bits"
  shows "is_int bits x (ai_from B bits False x)"
proof (cases "0 \<le> x \<and> x \<le> ai_max bits")
  case True
  obtain s bs where t: "to_bytes_be B x = (s, bs)" by (cases "to_bytes_be B x")
  note to = bigint_to [OF assms(1) t]
  have "length bs \<le> canvas_len bits"
    using True canvas_fits [of bits] assms(2) by (intro repr_fits [OF assms(1) t]) (auto simp: ai_max_def canvas_len_def)
  moreover have "s \<noteq> Sign_Minus" using True to(1) by (cases s) (auto simp: sgn_if split: if_splits)
  moreover have "s = Sign_NoSign \<Longrightarrow> be_value bs = 0" using to(1,2) by (simp add: sgn_0_0)
  ultimately show ?thesis using True to(2)
    by (simp add: is_int_def ai_from_def t ai_ok_def ai_val_def)
next
  case False
  obtain s bs where t: "to_bytes_be B x = (s, bs)" by (cases "to_bytes_be B x")
  have "x < 0 \<Longrightarrow> s = Sign_Minus" using bigint_to(1) [OF assms(1) t] by (cases s) auto
  with False show ?thesis by (auto simp: is_int_def ai_from_def t)
qed

lemma is_int_OkE:
  assumes "is_int bits x res" "0 \<le> x" "x \<le> ai_max bits"
  obtains r where "res = Some r" "ai_ok bits r" "ai_val r = x"
  using assms by (auto simp: is_int_def)

lemma ai_add_is_int:
  assumes "bigint_spec B" "0 < bits" "ai_ok bits a" "ai_ok bits b"
  shows "is_int bits (ai_val a + ai_val b) (ai_add B bits False a b)"
  using ai_from_is_int [OF assms(1,2), of "ai_val a + ai_val b"]
  by (auto simp: ai_add_def ai_into_val [OF assms(1,3)] ai_into_val [OF assms(1,4)] is_int_def Let_def)

lemma ai_sub_is_int:
  assumes "bigint_spec B" "0 < bits" "ai_ok bits a" "ai_ok bits b"
  shows "is_int bits (ai_val a - ai_val b) (ai_sub B bits False a b)"
  using ai_from_is_int [OF assms(1,2)] by (simp add: ai_sub_def ai_into_val [OF assms(1,3)] ai_into_val [OF assms(1,4)])

lemma ai_mul_is_int:
  assumes "bigint_spec B" "0 < bits" "ai_ok bits a" "ai_ok bits b"
  shows "is_int bits (ai_val a * ai_val b) (ai_mul B bits False a b)"
  using ai_from_is_int [OF assms(1,2), of "ai_val a * ai_val b"]
  by (auto simp: ai_mul_def ai_into_val [OF assms(1,3)] ai_into_val [OF assms(1,4)] is_int_def Let_def)

lemma sdiv_nonneg: "0 \<le> a \<Longrightarrow> 0 < b \<Longrightarrow> a sdiv b = a div (b :: int)"
  by (simp add: signed_divide_int_def sgn_if)

lemma smod_nonneg: "0 \<le> a \<Longrightarrow> 0 < b \<Longrightarrow> a smod b = a mod (b :: int)"
  by (cases "a = 0") (simp_all add: signed_modulo_int_def sgn_if)

lemma ai_div_rem_is_int:
  assumes "bigint_spec B" "0 < bits" "ai_ok bits a" "ai_ok bits b"
  shows "if ai_val b = 0 then ai_div B bits False a b = None \<and> ai_rem B bits False a b = None
    else is_int bits (ai_val a div ai_val b) (ai_div B bits False a b) \<and>
         is_int bits (ai_val a mod ai_val b) (ai_rem B bits False a b)"
  using ai_from_is_int [OF assms(1,2)] ai_val_bounds [OF assms(3)] ai_val_bounds [OF assms(4)]
  by (auto simp: ai_div_def ai_rem_def ai_into_val [OF assms(1,3)] ai_into_val [OF assms(1,4)] sdiv_nonneg smod_nonneg)

section \<open>Bytes\<close>

lemma to_le_bytes_rev:
  assumes "bigint_spec B" "0 < bits" "ai_ok bits a"
  shows "ai_to_le_bytes B bits a = Some (rev (ai_b a))"
proof -
  obtain s bs where t: "to_bytes_be B (ai_val a) = (s, bs)" by (cases "to_bytes_be B (ai_val a)")
  note to = bigint_to [OF assms(1) t]
  have len: "length bs \<le> canvas_len bits"
    using ai_val_bounds [OF assms(3)] canvas_fits [of bits] assms(2)
    by (intro repr_fits [OF assms(1) t]) (auto simp: ai_max_def canvas_len_def)
  have "replicate (canvas_len bits - length bs) 0 @ bs = ai_b a"
    by (rule be_value_inj) (use len to(2) assms(3) in \<open>auto simp: ai_ok_def ai_val_def\<close>)
  then have "rev (ai_b a) = rev bs @ replicate (canvas_len bits - length bs) 0" by (metis rev_append rev_replicate)
  then show ?thesis using len to(5) assms(1) by (simp add: ai_to_le_bytes_def ai_val_def [symmetric])
qed

lemma from_le_bytes_is_int:
  assumes "bigint_spec B" "0 < bits" "length v \<le> canvas_len bits"
  shows "is_int bits (be_value (rev v) * 256 ^ (canvas_len bits - length v)) (ai_from_le_bytes B bits v)"
  using ai_from_is_int [OF assms(1,2)] assms(1,3)
  by (simp add: ai_from_le_bytes_def be_value_append)

lemma ai_literal_one:
  assumes "bigint_spec B" "0 < bits"
  obtains one where "ai_from_literal B bits False 1 = Some one" "ai_ok bits one" "ai_val one = 1"
proof (rule is_int_OkE [OF ai_from_is_int [OF assms, of 1]])
  have "(2::int) \<le> 2 ^ bits" using power_increasing [of 1 bits "2::int"] assms(2) by simp
  then show "(1::int) \<le> ai_max bits" by (simp add: ai_max_def)
  fix r assume "ai_from B bits False 1 = Some r" "ai_ok bits r" "ai_val r = 1"
  with \<open>1 \<le> ai_max bits\<close> that show thesis by (simp add: ai_from_literal_def)
qed simp

lemma ai_mask_value:
  assumes "bigint_spec B" "0 < bits"
  shows "\<exists>r. ai_mask B bits c = Some r \<and> ai_ok bits r \<and> ai_val r = (if c then 2 ^ (bits - 1) - 1 else 0)"
proof (cases c)
  case True
  obtain one where one: "ai_from_literal B bits False 1 = Some one" "ai_ok bits one" "ai_val one = 1"
    by (rule ai_literal_one [OF assms])
  have p: "(2::int) ^ bits = 2 * 2 ^ (bits - 1)" using assms(2) by (cases bits) simp_all
  obtain x where x: "ai_from B bits False (2 ^ (bits - 1)) = Some x" "ai_ok bits x" "ai_val x = 2 ^ (bits - 1)"
    by (rule is_int_OkE [OF ai_from_is_int [OF assms, of "2 ^ (bits - 1)"]]) (simp_all add: ai_max_def p)
  obtain r where "ai_sub B bits False x one = Some r" "ai_ok bits r" "ai_val r = 2 ^ (bits - 1) - 1"
    by (rule is_int_OkE [OF ai_sub_is_int [OF assms x(2) one(2)]]) (simp_all add: x one ai_max_def p order_less_le_trans [of "- 1" 0])
  with True one x assms show ?thesis
    by (simp add: ai_mask_def ai_shl_def ai_into_val [OF assms(1) one(2)] push_bit_eq_mult)
next
  case False
  then show ?thesis by (simp add: ai_mask_def ai_default_def ai_ok_def ai_val_def ai_max_def)
qed

section \<open>A reference for the crate num_bigint\<close>

fun nat_bytes :: "nat \<Rightarrow> u8 list" where
  "nat_bytes n = (if n < 256 then [of_nat n] else nat_bytes (n div 256) @ [of_nat (n mod 256)])"

declare nat_bytes.simps [simp del]

definition int_bytes :: "int \<Rightarrow> sign \<times> u8 list" where
  "int_bytes x = (if x < 0 then Sign_Minus else if x = 0 then Sign_NoSign else Sign_Plus, nat_bytes (nat \<bar>x\<bar>))"

definition bigint_ref :: num_bigint where
  "bigint_ref = \<lparr>to_bytes_be = int_bytes, to_bytes_le = (\<lambda>x. (fst (int_bytes x), rev (snd (int_bytes x)))),
     from_bytes_be = (\<lambda>s bs. sign_int s * be_value bs), from_bytes_le = (\<lambda>s bs. sign_int s * be_value (rev bs)),
     modpow = (\<lambda>x e m. if e < 0 \<or> m = 0 then None else Some (x ^ nat e mod m))\<rparr>"

lemma uint_of_nat_byte: "n < 256 \<Longrightarrow> uint (of_nat n :: u8) = int n"
  by (simp add: unsigned_of_nat take_bit_nat_eq_self)

lemma be_value_nat_bytes: "be_value (nat_bytes n) = int n"
proof (induction n rule: nat_bytes.induct)
  case (1 n)
  show ?case
  proof (cases "n < 256")
    case True
    then show ?thesis by (simp add: nat_bytes.simps be_value_Cons uint_of_nat_byte)
  next
    case False
    have "int n = int (n div 256) * 256 + int (n mod 256)" by (simp add: zdiv_int zmod_int)
    with False 1 show ?thesis by (subst nat_bytes.simps) (simp add: uint_of_nat_byte)
  qed
qed

lemma nat_bytes_ne [simp]: "nat_bytes n \<noteq> []"
  by (subst nat_bytes.simps) simp

lemma hd_nat_bytes: "0 < n \<Longrightarrow> hd (nat_bytes n) \<noteq> 0"
proof (induction n rule: nat_bytes.induct)
  case (1 n)
  show ?case
  proof (cases "n < 256")
    case True
    with 1 have "uint (of_nat n :: u8) \<noteq> 0" by (simp add: uint_of_nat_byte)
    with True show ?thesis by (subst nat_bytes.simps) auto
  next
    case False
    with 1 show ?thesis by (subst nat_bytes.simps) simp
  qed
qed

lemma bigint_ref_spec: "bigint_spec bigint_ref"
proof -
  have "1 < length (nat_bytes n) \<Longrightarrow> hd (nat_bytes n) \<noteq> 0" for n
    by (cases "n = 0") (simp_all add: hd_nat_bytes nat_bytes.simps [of 0])
  then show ?thesis by (simp add: bigint_spec_def bigint_ref_def int_bytes_def be_value_nat_bytes)
qed

section \<open>Properties\<close>

text \<open>
  C17: arithmetic of the unsigned types. Addition, subtraction, multiplication, division and remainder return the integer
  result, again a value of the type, when it is between zero and the largest value, and panic exactly
  when it is not, or when the divisor is zero.
\<close>

theorem abstract_arithmetic:
  assumes "bigint_spec B" "0 < bits" "ai_ok bits a" "ai_ok bits b"
  shows "is_int bits (ai_val a + ai_val b) (ai_add B bits False a b)
    \<and> is_int bits (ai_val a - ai_val b) (ai_sub B bits False a b)
    \<and> is_int bits (ai_val a * ai_val b) (ai_mul B bits False a b)
    \<and> (if ai_val b = 0 then ai_div B bits False a b = None \<and> ai_rem B bits False a b = None
       else is_int bits (ai_val a div ai_val b) (ai_div B bits False a b) \<and>
            is_int bits (ai_val a mod ai_val b) (ai_rem B bits False a b))"
  using ai_add_is_int [OF assms] ai_sub_is_int [OF assms] ai_mul_is_int [OF assms] ai_div_rem_is_int [OF assms] by blast

definition ai_example :: "u8 \<Rightarrow> abs_int" where
  "ai_example b = \<lparr>ai_b = [b], ai_sign = Sign_Plus, ai_signed = False\<rparr>"

lemma ai_example_ok: "uint b < 64 \<Longrightarrow> ai_ok 6 (ai_example b)" "ai_val (ai_example b) = uint b"
  by (simp_all add: ai_ok_def ai_example_def canvas_len_def ai_max_def ai_val_def be_value_Cons)

theorem abstract_arithmetic_witness:
  "ai_add bigint_ref 6 False (ai_example 40) (ai_example 50) = None \<and>
   (\<exists>r. ai_mul bigint_ref 6 False (ai_example 7) (ai_example 9) = Some r \<and> ai_val r = 63)"
proof -
  have ok: "ai_ok 6 (ai_example 40)" "ai_ok 6 (ai_example 50)" "ai_ok 6 (ai_example 7)" "ai_ok 6 (ai_example 9)"
    by (simp_all add: ai_example_ok)
  show ?thesis
    using abstract_arithmetic [OF bigint_ref_spec _ ok(1,2)] abstract_arithmetic [OF bigint_ref_spec _ ok(3,4)]
    by (simp add: is_int_def ai_example_ok ai_max_def) blast
qed

text \<open>
  C32: bytes of the unsigned types. The bytes of a value, in both orders, are as many as the canvas has, and reading them in the same order gives the
  value back.
\<close>

theorem abstract_bytes_roundtrip:
  assumes "bigint_spec B" "0 < bits" "ai_ok bits a"
  shows "(\<exists>r. ai_from_be_bytes bits (ai_to_be_bytes a) = Some r \<and> ai_ok bits r \<and> ai_val r = ai_val a)
    \<and> (\<exists>bs r. ai_to_le_bytes B bits a = Some bs \<and> length bs = canvas_len bits \<and>
         ai_from_le_bytes B bits bs = Some r \<and> ai_ok bits r \<and> ai_val r = ai_val a)"
proof -
  have len: "length (ai_b a) = canvas_len bits" using assms(3) by (simp add: ai_ok_def)
  with assms(3) have be: "\<exists>r. ai_from_be_bytes bits (ai_to_be_bytes a) = Some r \<and> ai_ok bits r \<and> ai_val r = ai_val a"
    by (simp add: ai_from_be_bytes_def ai_to_be_bytes_def ai_ok_def ai_val_def)
  have "is_int bits (ai_val a) (ai_from_le_bytes B bits (rev (ai_b a)))"
    using from_le_bytes_is_int [OF assms(1,2), of "rev (ai_b a)"] len by (simp add: ai_val_def)
  with ai_val_bounds [OF assms(3)] obtain r where "ai_from_le_bytes B bits (rev (ai_b a)) = Some r" "ai_ok bits r" "ai_val r = ai_val a"
    by (auto simp: is_int_def)
  with be to_le_bytes_rev [OF assms] len show ?thesis by simp
qed

theorem abstract_bytes_roundtrip_witness:
  "\<exists>bs r. ai_to_le_bytes bigint_ref 6 (ai_example 40) = Some bs \<and> ai_from_le_bytes bigint_ref 6 bs = Some r \<and> ai_val r = 40"
proof -
  have "ai_ok 6 (ai_example 40)" by (simp add: ai_example_ok)
  from abstract_bytes_roundtrip [OF bigint_ref_spec _ this] show ?thesis by (auto simp: ai_example_ok)
qed

text \<open>
  where the unsigned types depart from their documentation. \<open>from_le_bytes\<close> pads a short input at the wrong end, so that it returns a multiple of the
  number that was written; the masks of the comparisons have all bits but the highest, where the documentation says all ones;
  \<open>from_be_bytes\<close> accepts a value above the largest one when the number of bits is not a multiple of eight.
\<close>

theorem abstract_int_deviations:
  assumes "bigint_spec B" "0 < bits"
  shows "(length v \<le> canvas_len bits \<longrightarrow>
      is_int bits (be_value (rev v) * 256 ^ (canvas_len bits - length v)) (ai_from_le_bytes B bits v))
    \<and> (\<exists>r. ai_comp_eq B bits a a = Some r \<and> ai_val r = 2 ^ (bits - 1) - 1 \<and> ai_val r < ai_max bits)
    \<and> (\<exists>r. ai_from_be_bytes 4 [255] = Some r \<and> ai_val r = 255 \<and> ai_max 4 < ai_val r)"
proof -
  obtain r where r: "ai_comp_eq B bits a a = Some r" "ai_val r = 2 ^ (bits - 1) - 1"
    using ai_mask_value [OF assms, of True] by (auto simp: ai_comp_eq_def)
  moreover have "(2::int) ^ (bits - 1) < 2 ^ bits" using assms(2) by simp
  ultimately have "ai_val r < ai_max bits" by (simp add: ai_max_def)
  with r from_le_bytes_is_int [OF assms] show ?thesis
    by (simp add: ai_from_be_bytes_def canvas_len_def ai_val_def be_value_Cons ai_max_def)
qed

theorem abstract_int_deviations_witness:
  "(\<exists>r. ai_from_le_bytes bigint_ref 16 [1] = Some r \<and> ai_val r = 256) \<and>
   (\<exists>r. ai_comp_eq bigint_ref 16 (ai_default 16 False) (ai_default 16 False) = Some r \<and> ai_val r = 32767)"
  using abstract_int_deviations [OF bigint_ref_spec, of 16 "[1]" "ai_default 16 False"]
  by (auto simp: is_int_def canvas_len_def be_value_Cons ai_max_def)

end
