(* ===== verification/Nat_Mod.thy ===== *)
theory Nat_Mod
  imports Abstract_Integers
begin

text \<open>
  \<open>utils/abstract-integers/src/nat_mod.rs\<close>: natural numbers modulo a constant, on top of an unsigned abstract integer of \<open>bits\<close>
  bits. A value is the wrapped integer; the modulus \<open>mx\<close> is the expression \<open>$max\<close> of the macros. The secret and the public
  types share the ring operations; powers, inverses and division exist for the public types only.

  The lemmas show that the operations are those of the ring of residues and keep the values reduced, and that for a prime modulus
  \<open>inv\<close> returns the inverse (with a proof of Fermat's little theorem, on which the code relies). A
  theorem states that \<open>from_literal\<close> accepts the modulus itself and does not reduce it.
\<close>

section \<open>Conversions\<close>

definition nm_from :: "num_bigint \<Rightarrow> nat \<Rightarrow> abs_int \<Rightarrow> abs_int \<Rightarrow> abs_int option" where
  "nm_from B bits mx x = ai_rem B bits False x mx"

definition nm_from_hex :: "num_bigint \<Rightarrow> nat \<Rightarrow> abs_int \<Rightarrow> string \<Rightarrow> abs_int option" where
  "nm_from_hex B bits mx s = do { x \<leftarrow> ai_from_hex B bits s; nm_from B bits mx x }"

definition nm_from_be_bytes :: "num_bigint \<Rightarrow> nat \<Rightarrow> abs_int \<Rightarrow> u8 list \<Rightarrow> abs_int option" where
  "nm_from_be_bytes B bits mx v = do { x \<leftarrow> ai_from_be_bytes bits v; nm_from B bits mx x }"

definition nm_to_be_bytes :: "abs_int \<Rightarrow> u8 list" where
  "nm_to_be_bytes self = ai_to_be_bytes self"

definition nm_from_le_bytes :: "num_bigint \<Rightarrow> nat \<Rightarrow> abs_int \<Rightarrow> u8 list \<Rightarrow> abs_int option" where
  "nm_from_le_bytes B bits mx v = do { x \<leftarrow> ai_from_le_bytes B bits v; nm_from B bits mx x }"

definition nm_to_le_bytes :: "num_bigint \<Rightarrow> nat \<Rightarrow> abs_int \<Rightarrow> u8 list option" where
  "nm_to_le_bytes B bits self = ai_to_le_bytes B bits self"

definition nm_bit :: "num_bigint \<Rightarrow> abs_int \<Rightarrow> usize \<Rightarrow> bool option" where
  "nm_bit B self i = ai_bit B self i"

definition nm_from_literal :: "num_bigint \<Rightarrow> nat \<Rightarrow> abs_int \<Rightarrow> u128 \<Rightarrow> abs_int option" where
  "nm_from_literal B bits mx x = do {
     rust_assert (\<not> uint x > ai_into_uint B mx);
     ai_from B bits False (uint x)
   }"

text \<open>The argument is an \<open>i128\<close> that is cast to \<open>u128\<close>.\<close>

definition nm_from_signed_literal :: "num_bigint \<Rightarrow> nat \<Rightarrow> abs_int \<Rightarrow> 128 word \<Rightarrow> abs_int option" where
  "nm_from_signed_literal B bits mx x = nm_from_literal B bits mx x"

text \<open>The result of a computation in \<open>BigUint\<close>, converted to the base type and then reduced.\<close>

definition nm_into :: "num_bigint \<Rightarrow> nat \<Rightarrow> abs_int \<Rightarrow> int \<Rightarrow> abs_int option" where
  "nm_into B bits mx d = do { d \<leftarrow> ai_from B bits False d; nm_from B bits mx d }"

definition nm_comp_eq :: "num_bigint \<Rightarrow> nat \<Rightarrow> abs_int \<Rightarrow> abs_int \<Rightarrow> abs_int \<Rightarrow> abs_int option" where
  "nm_comp_eq B bits mx self rhs = do { x \<leftarrow> ai_comp_eq B bits self rhs; nm_from B bits mx x }"

definition nm_comp_ne :: "num_bigint \<Rightarrow> nat \<Rightarrow> abs_int \<Rightarrow> abs_int \<Rightarrow> abs_int \<Rightarrow> abs_int option" where
  "nm_comp_ne B bits mx self rhs = do { x \<leftarrow> ai_comp_ne B bits self rhs; nm_from B bits mx x }"

definition nm_comp_gte :: "num_bigint \<Rightarrow> nat \<Rightarrow> abs_int \<Rightarrow> abs_int \<Rightarrow> abs_int \<Rightarrow> abs_int option" where
  "nm_comp_gte B bits mx self rhs = do { x \<leftarrow> ai_comp_gte B bits self rhs; nm_from B bits mx x }"

definition nm_comp_gt :: "num_bigint \<Rightarrow> nat \<Rightarrow> abs_int \<Rightarrow> abs_int \<Rightarrow> abs_int \<Rightarrow> abs_int option" where
  "nm_comp_gt B bits mx self rhs = do { x \<leftarrow> ai_comp_gt B bits self rhs; nm_from B bits mx x }"

definition nm_comp_lte :: "num_bigint \<Rightarrow> nat \<Rightarrow> abs_int \<Rightarrow> abs_int \<Rightarrow> abs_int \<Rightarrow> abs_int option" where
  "nm_comp_lte B bits mx self rhs = do { x \<leftarrow> ai_comp_lte B bits self rhs; nm_from B bits mx x }"

definition nm_comp_lt :: "num_bigint \<Rightarrow> nat \<Rightarrow> abs_int \<Rightarrow> abs_int \<Rightarrow> abs_int \<Rightarrow> abs_int option" where
  "nm_comp_lt B bits mx self rhs = do { x \<leftarrow> ai_comp_lt B bits self rhs; nm_from B bits mx x }"

section \<open>Operators\<close>

definition nm_neg :: "num_bigint \<Rightarrow> nat \<Rightarrow> abs_int \<Rightarrow> abs_int \<Rightarrow> abs_int option" where
  "nm_neg B bits mx self = nm_into B bits mx (ai_into B mx - ai_into B self)"

text \<open>\<open>modulo\<close> of the secret types; the remainder of \<open>BigUint\<close> panics on zero.\<close>

definition nm_modulo :: "num_bigint \<Rightarrow> nat \<Rightarrow> abs_int \<Rightarrow> abs_int \<Rightarrow> abs_int \<Rightarrow> abs_int option" where
  "nm_modulo B bits mx self n = do {
     rust_assert (ai_into_uint B n \<noteq> 0);
     nm_into B bits mx (ai_into_uint B self mod ai_into_uint B n)
   }"

definition nm_add :: "num_bigint \<Rightarrow> nat \<Rightarrow> abs_int \<Rightarrow> abs_int \<Rightarrow> abs_int \<Rightarrow> abs_int option" where
  "nm_add B bits mx self rhs = do {
     let c = ai_into_uint B self + ai_into_uint B rhs;
     let max = ai_into_uint B mx;
     rust_assert (max \<noteq> 0);
     nm_into B bits mx (c mod max)
   }"

text \<open>A subtraction of \<open>BigUint\<close> panics on a negative result.\<close>

definition biguint_sub :: "int \<Rightarrow> int \<Rightarrow> int option" where
  "biguint_sub a b = (if b \<le> a then Some (a - b) else None)"

definition nm_sub :: "num_bigint \<Rightarrow> nat \<Rightarrow> abs_int \<Rightarrow> abs_int \<Rightarrow> abs_int \<Rightarrow> abs_int option" where
  "nm_sub B bits mx self rhs = do {
     let a = ai_into_uint B self;
     let b = ai_into_uint B rhs;
     let max = ai_into_uint B mx;
     c \<leftarrow> (if b > a then do { d \<leftarrow> biguint_sub max b; Some (d + a) } else biguint_sub a b);
     rust_assert (max \<noteq> 0);
     nm_into B bits mx (c mod max)
   }"

definition nm_mul :: "num_bigint \<Rightarrow> nat \<Rightarrow> abs_int \<Rightarrow> abs_int \<Rightarrow> abs_int \<Rightarrow> abs_int option" where
  "nm_mul B bits mx self rhs = do {
     let c = ai_into_uint B self * ai_into_uint B rhs;
     let max = ai_into_uint B mx;
     rust_assert (max \<noteq> 0);
     nm_into B bits mx (c mod max)
   }"

definition nm_rem :: "num_bigint \<Rightarrow> nat \<Rightarrow> abs_int \<Rightarrow> abs_int \<Rightarrow> abs_int \<Rightarrow> abs_int option" where
  "nm_rem B bits mx self rhs = do {
     let b = ai_into_uint B rhs;
     rust_assert (b \<noteq> 0);
     let c = ai_into_uint B self mod b;
     let max = ai_into_uint B mx;
     rust_assert (max \<noteq> 0);
     nm_into B bits mx (c mod max)
   }"

text \<open>\<open>not\<close> of the base type is not implemented.\<close>

definition nm_not :: "num_bigint \<Rightarrow> nat \<Rightarrow> abs_int \<Rightarrow> abs_int \<Rightarrow> abs_int option" where
  "nm_not B bits mx self = do { not_a \<leftarrow> ai_not self; nm_from B bits mx not_a }"

definition nm_bitor :: "num_bigint \<Rightarrow> nat \<Rightarrow> abs_int \<Rightarrow> abs_int \<Rightarrow> abs_int \<Rightarrow> abs_int option" where
  "nm_bitor B bits mx self rhs = do { x \<leftarrow> ai_bitor B bits False self rhs; nm_from B bits mx x }"

definition nm_bitxor :: "num_bigint \<Rightarrow> nat \<Rightarrow> abs_int \<Rightarrow> abs_int \<Rightarrow> abs_int \<Rightarrow> abs_int option" where
  "nm_bitxor B bits mx self rhs = do { x \<leftarrow> ai_bitxor B bits False self rhs; nm_from B bits mx x }"

definition nm_bitand :: "num_bigint \<Rightarrow> nat \<Rightarrow> abs_int \<Rightarrow> abs_int \<Rightarrow> abs_int \<Rightarrow> abs_int option" where
  "nm_bitand B bits mx self rhs = do { x \<leftarrow> ai_bitand B bits False self rhs; nm_from B bits mx x }"

definition nm_shr :: "num_bigint \<Rightarrow> nat \<Rightarrow> abs_int \<Rightarrow> abs_int \<Rightarrow> usize \<Rightarrow> abs_int option" where
  "nm_shr B bits mx self n = do { x \<leftarrow> ai_shr B bits False self n; nm_from B bits mx x }"

definition nm_shl :: "num_bigint \<Rightarrow> nat \<Rightarrow> abs_int \<Rightarrow> abs_int \<Rightarrow> usize \<Rightarrow> abs_int option" where
  "nm_shl B bits mx self n = do { x \<leftarrow> ai_shl B bits False self n; nm_from B bits mx x }"

definition nm_eq :: "num_bigint \<Rightarrow> abs_int \<Rightarrow> abs_int \<Rightarrow> bool" where
  "nm_eq B self other = ai_eq B self other"

section \<open>Powers and inverses\<close>

definition nm_inv :: "num_bigint \<Rightarrow> nat \<Rightarrow> abs_int \<Rightarrow> abs_int \<Rightarrow> abs_int option" where
  "nm_inv B bits mx self = do { x \<leftarrow> ai_inv B bits False self mx; nm_from B bits mx x }"

definition nm_div :: "num_bigint \<Rightarrow> nat \<Rightarrow> abs_int \<Rightarrow> abs_int \<Rightarrow> abs_int \<Rightarrow> abs_int option" where
  "nm_div B bits mx self rhs = do { x \<leftarrow> nm_inv B bits mx rhs; nm_mul B bits mx self x }"

definition nm_pow_felem :: "num_bigint \<Rightarrow> nat \<Rightarrow> abs_int \<Rightarrow> abs_int \<Rightarrow> abs_int \<Rightarrow> abs_int option" where
  "nm_pow_felem B bits mx self ex = do { x \<leftarrow> ai_pow_felem B bits False self ex mx; nm_from B bits mx x }"

definition nm_pow :: "num_bigint \<Rightarrow> nat \<Rightarrow> abs_int \<Rightarrow> abs_int \<Rightarrow> u128 \<Rightarrow> abs_int option" where
  "nm_pow B bits mx self ex = do { x \<leftarrow> ai_pow B bits False self ex mx; nm_from B bits mx x }"

definition nm_pow2 :: "num_bigint \<Rightarrow> nat \<Rightarrow> abs_int \<Rightarrow> usize \<Rightarrow> abs_int option" where
  "nm_pow2 B bits mx x = do { x \<leftarrow> ai_pow2 B bits False x; nm_from B bits mx x }"

section \<open>Residues\<close>

text \<open>\<open>residue x res\<close>: the result is the residue of \<open>x\<close>, reduced.\<close>

definition nm_ok :: "nat \<Rightarrow> abs_int \<Rightarrow> abs_int \<Rightarrow> bool" where
  "nm_ok bits mx self \<longleftrightarrow> ai_ok bits self \<and> ai_val self < ai_val mx"

definition residue :: "nat \<Rightarrow> abs_int \<Rightarrow> int \<Rightarrow> abs_int option \<Rightarrow> bool" where
  "residue bits mx x res \<longleftrightarrow> (\<exists>r. res = Some r \<and> nm_ok bits mx r \<and> ai_val r = x mod ai_val mx)"

text \<open>What a type of residues is given: the interface of the big integers, a size, and a positive modulus that fits.\<close>

definition nm_type :: "num_bigint \<Rightarrow> nat \<Rightarrow> abs_int \<Rightarrow> bool" where
  "nm_type B bits mx \<longleftrightarrow> bigint_spec B \<and> 0 < bits \<and> ai_ok bits mx \<and> 0 < ai_val mx"

lemma nm_from_residue:
  assumes "nm_type B bits mx" "ai_ok bits x"
  shows "residue bits mx (ai_val x) (nm_from B bits mx x)"
proof -
  have "is_int bits (ai_val x mod ai_val mx) (nm_from B bits mx x)"
    using ai_div_rem_is_int [of B bits x mx] assms by (auto simp: nm_type_def nm_from_def split: if_splits)
  moreover have "ai_val x mod ai_val mx < ai_val mx" "0 \<le> ai_val x mod ai_val mx" "ai_val mx \<le> ai_max bits"
    using assms ai_val_bounds [of bits mx] by (auto simp: nm_type_def)
  ultimately show ?thesis by (auto simp: residue_def nm_ok_def is_int_def)
qed

lemma nm_into_residue:
  assumes "nm_type B bits mx" "0 \<le> d" "d \<le> ai_val mx"
  shows "residue bits mx d (nm_into B bits mx d)"
proof -
  have "d \<le> ai_max bits" using assms ai_val_bounds [of bits mx] by (auto simp: nm_type_def)
  then obtain x where "ai_from B bits False d = Some x" "ai_ok bits x" "ai_val x = d"
    using ai_from_is_int [of B bits d] assms by (auto simp: nm_type_def is_int_def)
  with nm_from_residue [OF assms(1), of x] show ?thesis by (simp add: nm_into_def)
qed

lemma nm_into_mod:
  assumes "nm_type B bits mx"
  shows "residue bits mx c (nm_into B bits mx (c mod ai_val mx))"
  using nm_into_residue [OF assms, of "c mod ai_val mx"] assms by (simp add: nm_type_def residue_def less_imp_le)

lemma nm_uint: "nm_type B bits mx \<Longrightarrow> ai_into_uint B x = ai_val x"
  by (simp add: nm_type_def ai_into_uint_val)

lemma nm_add_residue:
  assumes "nm_type B bits mx"
  shows "residue bits mx (ai_val a + ai_val b) (nm_add B bits mx a b)"
  using nm_into_mod [OF assms] assms by (simp add: nm_add_def nm_uint [OF assms] nm_type_def)

lemma nm_mul_residue:
  assumes "nm_type B bits mx"
  shows "residue bits mx (ai_val a * ai_val b) (nm_mul B bits mx a b)"
  using nm_into_mod [OF assms] assms by (simp add: nm_mul_def nm_uint [OF assms] nm_type_def)

lemma nm_sub_residue:
  assumes "nm_type B bits mx" "ai_val b \<le> ai_val mx"
  shows "residue bits mx (ai_val a - ai_val b) (nm_sub B bits mx a b)"
proof -
  have "(ai_val mx - ai_val b + ai_val a) mod ai_val mx = (ai_val a - ai_val b) mod ai_val mx"
    by (metis add.commute add_diff_eq diff_add_eq mod_add_self1)
  with nm_into_mod [OF assms(1), of "ai_val mx - ai_val b + ai_val a"] nm_into_mod [OF assms(1), of "ai_val a - ai_val b"] assms
  show ?thesis by (auto simp: nm_sub_def nm_uint [OF assms(1)] biguint_sub_def nm_type_def residue_def Let_def)
qed

lemma nm_neg_residue:
  assumes "nm_type B bits mx" "nm_ok bits mx a"
  shows "residue bits mx (- ai_val a) (nm_neg B bits mx a)"
proof -
  have "residue bits mx (ai_val mx - ai_val a) (nm_into B bits mx (ai_val mx - ai_val a))"
    using nm_into_residue [OF assms(1), of "ai_val mx - ai_val a"] assms ai_val_bounds [of bits a] by (auto simp: nm_ok_def)
  moreover have "(ai_val mx - ai_val a) mod ai_val mx = (- ai_val a) mod ai_val mx"
    by (metis add_uminus_conv_diff mod_add_self1)
  ultimately show ?thesis
    using assms by (simp add: nm_neg_def residue_def nm_type_def nm_ok_def ai_into_val [of B bits])
qed

section \<open>Fermat's little theorem\<close>

definition prime_mod :: "int \<Rightarrow> bool" where
  "prime_mod p \<longleftrightarrow> 1 < p \<and> (\<forall>d. 1 < d \<and> d < p \<longrightarrow> \<not> d dvd p)"

lemma prime_mod_coprime:
  assumes "prime_mod p" "0 < a" "a < p"
  shows "coprime a p"
proof -
  have "gcd a p \<le> a" using assms(2) by (simp add: zdvd_imp_le)
  then have "gcd a p < p" using assms(3) by simp
  moreover have "gcd a p dvd p" by simp
  ultimately have "\<not> 1 < gcd a p" using assms(1) unfolding prime_mod_def by blast
  moreover have "0 < gcd a p" using assms(2) by simp
  ultimately have "gcd a p = 1" by linarith
  then show ?thesis by (simp add: coprime_iff_gcd_eq_1)
qed

lemma mult_permutes_residues:
  assumes "prime_mod p" "0 < a" "a < p"
  shows "(\<lambda>i. a * i mod p) ` {1..<p} = {1..<p}" "inj_on (\<lambda>i. a * i mod p) {1..<p}"
proof -
  have p: "1 < p" using assms(1) by (simp add: prime_mod_def)
  note co = prime_mod_coprime [OF assms]
  show inj: "inj_on (\<lambda>i. a * i mod p) {1..<p}"
  proof (rule inj_onI)
    fix i j assume ij: "i \<in> {1..<p}" "j \<in> {1..<p}" "a * i mod p = a * j mod p"
    then have "p dvd a * (i - j)" by (simp add: mod_eq_dvd_iff right_diff_distrib)
    then have "p dvd i - j" using co by (simp add: coprime_dvd_mult_right_iff coprime_commute)
    then show "i = j" using ij(1,2) by (metis atLeastLessThan_iff mod_eq_dvd_iff mod_pos_pos_trivial order_trans zero_le_one)
  qed
  have "(\<lambda>i. a * i mod p) ` {1..<p} \<subseteq> {1..<p}"
  proof (rule image_subsetI)
    fix i assume i: "i \<in> {1..<p}"
    have "\<not> p dvd a * i"
    proof
      assume "p dvd a * i"
      then have "p dvd i" using co by (simp add: coprime_dvd_mult_right_iff coprime_commute)
      with i show False using zdvd_imp_le [of p i] by auto
    qed
    then have "a * i mod p \<noteq> 0" by (simp add: dvd_eq_mod_eq_0)
    moreover have "0 \<le> a * i mod p" "a * i mod p < p" using p by simp_all
    ultimately show "a * i mod p \<in> {1..<p}" by simp
  qed
  with inj show "(\<lambda>i. a * i mod p) ` {1..<p} = {1..<p}" by (simp add: endo_inj_surj)
qed

lemma fermat:
  assumes "prime_mod p" "0 < a" "a < p"
  shows "a ^ nat (p - 1) mod p = 1"
proof -
  let ?S = "{1..<p}"
  have p: "1 < p" using assms(1) by (simp add: prime_mod_def)
  have "(\<Prod>i \<in> ?S. a * i mod p) = \<Prod>?S"
    using prod.reindex [OF mult_permutes_residues(2) [OF assms], of "\<lambda>x. x"] mult_permutes_residues(1) [OF assms] by simp
  then have "(\<Prod>i \<in> ?S. a * i) mod p = \<Prod>?S mod p" by (metis mod_prod_eq)
  moreover have "(\<Prod>i \<in> ?S. a * i) = a ^ nat (p - 1) * \<Prod>?S" by (simp add: prod.distrib)
  ultimately have "p dvd a ^ nat (p - 1) * \<Prod>?S - 1 * \<Prod>?S" by (simp add: mod_eq_dvd_iff)
  then have "p dvd (a ^ nat (p - 1) - 1) * \<Prod>?S" by (simp add: left_diff_distrib)
  moreover have "coprime p (\<Prod>?S)"
    using prime_mod_coprime [OF assms(1)] by (intro prod_coprime_right) (auto simp: coprime_commute)
  ultimately have "p dvd a ^ nat (p - 1) - 1" by (simp add: coprime_dvd_mult_left_iff)
  then show ?thesis using p by (metis mod_eq_dvd_iff mod_pos_pos_trivial zero_le_one)
qed

lemma nm_inv_residue:
  assumes "nm_type B bits mx" "2 \<le> ai_val mx" "nm_ok bits mx a"
  shows "residue bits mx (ai_val a ^ nat (ai_val mx - 2)) (nm_inv B bits mx a)"
proof -
  let ?c = "ai_val a ^ nat (ai_val mx - 2) mod ai_val mx"
  have v: "ai_into B a = ai_val a" "ai_into B mx = ai_val mx"
    using assms by (auto simp: nm_type_def nm_ok_def intro: ai_into_val)
  have "modpow B (ai_val a) (ai_val mx - 2) (ai_val mx) = Some ?c"
    using assms by (simp add: nm_type_def bigint_modpow)
  then have "nm_inv B bits mx a = nm_into B bits mx ?c"
    by (simp add: nm_inv_def ai_inv_def nm_into_def v)
  with nm_into_mod [OF assms(1)] show ?thesis by simp
qed

section \<open>Properties\<close>

text \<open>
  C16: the ring of residues. Addition, subtraction, multiplication and negation of reduced values never panic, return the
  residue of the integer result, and keep values reduced.
\<close>

theorem nat_mod_ring:
  assumes "nm_type B bits mx" "nm_ok bits mx a" "nm_ok bits mx b"
  shows "residue bits mx (ai_val a + ai_val b) (nm_add B bits mx a b)
    \<and> residue bits mx (ai_val a - ai_val b) (nm_sub B bits mx a b)
    \<and> residue bits mx (ai_val a * ai_val b) (nm_mul B bits mx a b)
    \<and> residue bits mx (- ai_val a) (nm_neg B bits mx a)"
  using nm_add_residue [OF assms(1)] nm_sub_residue [OF assms(1), of b a] nm_mul_residue [OF assms(1)]
    nm_neg_residue [OF assms(1,2)] assms(3) by (simp add: nm_ok_def)

lemma nm_example: "nm_type bigint_ref 6 (ai_example 13)" "uint b < 13 \<Longrightarrow> nm_ok 6 (ai_example 13) (ai_example b)"
  by (simp_all add: nm_type_def nm_ok_def bigint_ref_spec ai_example_ok)

theorem nat_mod_ring_witness:
  "\<exists>r. nm_sub bigint_ref 6 (ai_example 13) (ai_example 4) (ai_example 9) = Some r \<and> ai_val r = 8"
  using nat_mod_ring [OF nm_example(1) nm_example(2) [of 4] nm_example(2) [of 9]]
  by (auto simp: residue_def ai_example_ok)

text \<open>
  C15: the field of residues. For a prime modulus \<open>inv\<close> of a reduced value that is not zero returns its inverse, and
  division is multiplication by it.
\<close>

theorem nat_mod_inverse:
  assumes "nm_type B bits mx" "prime_mod (ai_val mx)" "nm_ok bits mx a" "ai_val a \<noteq> 0" "nm_ok bits mx b"
  shows "\<exists>r q. nm_inv B bits mx a = Some r \<and> nm_ok bits mx r \<and> ai_val a * ai_val r mod ai_val mx = 1 \<and>
    nm_div B bits mx b a = Some q \<and> nm_ok bits mx q \<and> ai_val q * ai_val a mod ai_val mx = ai_val b"
proof -
  let ?p = "ai_val mx" and ?a = "ai_val a" and ?b = "ai_val b"
  have p: "2 \<le> ?p" using assms(2) by (simp add: prime_mod_def)
  have a: "0 < ?a" "?a < ?p" and b: "0 \<le> ?b" "?b < ?p"
    using assms(3-5) ai_val_bounds [of bits a] ai_val_bounds [of bits b] by (auto simp: nm_ok_def)
  obtain r where r: "nm_inv B bits mx a = Some r" "nm_ok bits mx r" "ai_val r = ?a ^ nat (?p - 2) mod ?p"
    using nm_inv_residue [OF assms(1) p assms(3)] by (auto simp: residue_def)
  have "nat (?p - 1) = Suc (nat (?p - 2))" using p by simp
  then have inv: "?a * ai_val r mod ?p = 1"
    using fermat [OF assms(2) a] by (simp add: r(3) mod_mult_right_eq)
  obtain q where q: "nm_div B bits mx b a = Some q" "nm_ok bits mx q" "ai_val q = ?b * ai_val r mod ?p"
    using nm_mul_residue [OF assms(1), of b r] r(1) by (auto simp: residue_def nm_div_def)
  have "ai_val q * ?a mod ?p = ?b * (?a * ai_val r mod ?p) mod ?p"
    by (simp add: q(3) mod_simps ac_simps)
  also have "\<dots> = ?b" using b by (simp add: inv)
  finally show ?thesis using r inv q by blast
qed

lemma prime_mod_13: "prime_mod 13"
proof -
  have "\<not> d dvd 13" if "1 < d" "d < 13" for d :: int
  proof -
    from that have "d = 2 \<or> d = 3 \<or> d = 4 \<or> d = 5 \<or> d = 6 \<or> d = 7 \<or> d = 8 \<or> d = 9 \<or> d = 10 \<or> d = 11 \<or> d = 12"
      by presburger
    then show ?thesis by auto
  qed
  then show ?thesis by (simp add: prime_mod_def)
qed

theorem nat_mod_inverse_witness:
  "\<exists>r. nm_inv bigint_ref 6 (ai_example 13) (ai_example 5) = Some r \<and> 5 * ai_val r mod 13 = 1"
proof -
  have "prime_mod (ai_val (ai_example 13))" using prime_mod_13 by (simp add: ai_example_ok)
  from nat_mod_inverse [OF nm_example(1) this nm_example(2) [of 5] _ nm_example(2) [of 5]] show ?thesis
    by (auto simp: ai_example_ok)
qed

text \<open>
  \<open>from_literal\<close> accepts the modulus itself and keeps it as it is: the result is not reduced, it is not equal to the zero of
  the type, although it stands for zero, and adding zero to it gives a value that is equal to zero.
\<close>

theorem from_literal_not_reduced:
  assumes "nm_type B bits mx" "ai_val mx = uint (x :: u128)"
  shows "\<exists>r z s. nm_from_literal B bits mx x = Some r \<and> nm_from_literal B bits mx 0 = Some z \<and>
    ai_val r = ai_val mx \<and> \<not> nm_ok bits mx r \<and> \<not> nm_eq B r z \<and> nm_add B bits mx r z = Some s \<and> nm_eq B s z"
proof -
  have ok: "bigint_spec B" "0 < bits" "ai_ok bits mx" "0 < ai_val mx" using assms(1) by (simp_all add: nm_type_def)
  have max: "ai_val mx \<le> ai_max bits" using ai_val_bounds [OF ok(3)] by simp
  obtain r where r: "ai_from B bits False (ai_val mx) = Some r" "ai_ok bits r" "ai_val r = ai_val mx"
    using ai_from_is_int [OF ok(1,2), of "ai_val mx"] max ok(4) by (auto simp: is_int_def)
  obtain z where z: "ai_from B bits False 0 = Some z" "ai_ok bits z" "ai_val z = 0"
    using ai_from_is_int [OF ok(1,2), of 0] max ok(4) by (auto simp: is_int_def)
  obtain s where s: "nm_add B bits mx r z = Some s" "nm_ok bits mx s" "ai_val s = 0"
    using nm_add_residue [OF assms(1), of r z] r z by (auto simp: residue_def)
  have "ai_into B r = ai_val mx" "ai_into B z = 0" "ai_into B s = 0"
    using r z s ok(1) by (auto simp: nm_ok_def ai_into_val [of B bits])
  with r z s ok(4) assms(2) show ?thesis
    by (simp add: nm_from_literal_def ai_into_uint_val [OF ok(1)] nm_ok_def nm_eq_def ai_eq_def)
qed

theorem from_literal_not_reduced_witness:
  "\<exists>r. nm_from_literal bigint_ref 6 (ai_example 13) 13 = Some r \<and> ai_val r = 13"
  using from_literal_not_reduced [OF nm_example(1), of 13] by (auto simp: ai_example_ok)

end
