(* ===== verification/Math_Integers.thy ===== *)
theory Math_Integers
  imports Nat_Mod Machine_Integers
begin

text \<open>
  \<open>lib/src/math_integers.rs\<close>: the instances of the traits \<open>Integer\<close>, \<open>ModNumeric\<close> and \<open>Numeric\<close> for the abstract
  integers. The prefix \<open>mu_\<close> is \<open>unsigned_public_integer!\<close>, \<open>ms_\<close> is \<open>signed_public_integer!\<close>, \<open>mp_\<close> is
  \<open>public_nat_mod!\<close> and \<open>mn_\<close> is the secret \<open>nat_mod!\<close>. The macros \<open>unsigned_integer!\<close> and \<open>signed_integer!\<close> are left out: their
  arithmetic is that of the abstract integers and all else is \<open>unimplemented!()\<close>.

  As elsewhere the build is a debug build: \<open>debug_assert!\<close> and overflowing shifts panic.
\<close>

section \<open>Public unsigned integers\<close>

definition mu_ZERO :: "num_bigint \<Rightarrow> nat \<Rightarrow> abs_int option" where
  "mu_ZERO B bits = ai_from_literal B bits False 0"

definition mu_ONE :: "num_bigint \<Rightarrow> nat \<Rightarrow> abs_int option" where
  "mu_ONE B bits = ai_from_literal B bits False 1"

definition mu_TWO :: "num_bigint \<Rightarrow> nat \<Rightarrow> abs_int option" where
  "mu_TWO B bits = ai_from_literal B bits False 2"

text \<open>\<open>s.replace("0x", "")\<close>\<close>

fun remove_0x :: "string \<Rightarrow> string" where
  "remove_0x (c # d # s) = (if c = CHR ''0'' \<and> d = CHR ''x'' then remove_0x s else c # remove_0x (d # s))"
| "remove_0x s = s"

definition mu_from_hex_string :: "num_bigint \<Rightarrow> nat \<Rightarrow> string \<Rightarrow> abs_int option" where
  "mu_from_hex_string B bits s = ai_from_hex B bits (remove_0x s)"

definition mu_from_byte_seq_be :: "nat \<Rightarrow> 8 secret list \<Rightarrow> abs_int option" where
  "mu_from_byte_seq_be bits s = ai_from_be_bytes bits (map declassify s)"

definition mu_to_byte_seq_be :: "abs_int \<Rightarrow> 8 secret list" where
  "mu_to_byte_seq_be self = map classify (ai_to_be_bytes self)"

definition mu_get_bit :: "num_bigint \<Rightarrow> nat \<Rightarrow> abs_int \<Rightarrow> usize \<Rightarrow> abs_int option" where
  "mu_get_bit B bits self i = do {
     s \<leftarrow> ai_shr B bits False self i;
     one \<leftarrow> mu_ONE B bits;
     ai_bitand B bits False s one
   }"

text \<open>The literal \<open>!(1 << i)\<close> is a \<open>u128\<close>.\<close>

definition not_one_shl :: "usize \<Rightarrow> u128 option" where
  "not_one_shl i = do { rust_assert (i < 128); Some (NOT (push_bit i 1)) }"

definition mu_set_bit :: "num_bigint \<Rightarrow> nat \<Rightarrow> abs_int \<Rightarrow> abs_int \<Rightarrow> usize \<Rightarrow> abs_int option" where
  "mu_set_bit B bits self b i = do {
     one \<leftarrow> mu_ONE B bits;
     zero \<leftarrow> mu_ZERO B bits;
     rust_assert (ai_eq B b one \<or> ai_eq B b zero);
     l \<leftarrow> not_one_shl i;
     tmp1 \<leftarrow> ai_from_literal B bits False l;
     tmp2 \<leftarrow> ai_shl B bits False b i;
     s \<leftarrow> ai_bitand B bits False self tmp1;
     ai_bitor B bits False s tmp2
   }"

definition mu_set :: "num_bigint \<Rightarrow> nat \<Rightarrow> abs_int \<Rightarrow> usize \<Rightarrow> abs_int \<Rightarrow> usize \<Rightarrow> abs_int option" where
  "mu_set B bits self pos y yi = do {
     b \<leftarrow> mu_get_bit B bits y yi;
     mu_set_bit B bits self b pos
   }"

definition mu_rotate_left :: "num_bigint \<Rightarrow> nat \<Rightarrow> abs_int \<Rightarrow> usize \<Rightarrow> abs_int option" where
  "mu_rotate_left B bits self n = do {
     rust_assert (n < bits);
     l \<leftarrow> ai_shl B bits False self n;
     r \<leftarrow> ai_shr B bits False self (neg_amount bits n);
     ai_bitor B bits False l r
   }"

definition mu_rotate_right :: "num_bigint \<Rightarrow> nat \<Rightarrow> abs_int \<Rightarrow> usize \<Rightarrow> abs_int option" where
  "mu_rotate_right B bits self n = do {
     rust_assert (n < bits);
     r \<leftarrow> ai_shr B bits False self n;
     l \<leftarrow> ai_shl B bits False self (neg_amount bits n);
     ai_bitor B bits False r l
   }"

definition mu_sub_mod :: "num_bigint \<Rightarrow> nat \<Rightarrow> abs_int \<Rightarrow> abs_int \<Rightarrow> abs_int \<Rightarrow> abs_int option" where
  "mu_sub_mod B bits self rhs n = do { x \<leftarrow> ai_sub B bits False self rhs; ai_rem B bits False x n }"

definition mu_add_mod :: "num_bigint \<Rightarrow> nat \<Rightarrow> abs_int \<Rightarrow> abs_int \<Rightarrow> abs_int \<Rightarrow> abs_int option" where
  "mu_add_mod B bits self rhs n = do { x \<leftarrow> ai_add B bits False self rhs; ai_rem B bits False x n }"

definition mu_mul_mod :: "num_bigint \<Rightarrow> nat \<Rightarrow> abs_int \<Rightarrow> abs_int \<Rightarrow> abs_int \<Rightarrow> abs_int option" where
  "mu_mul_mod B bits self rhs n = do { x \<leftarrow> ai_mul B bits False self rhs; ai_rem B bits False x n }"

definition mu_pow_mod :: "num_bigint \<Rightarrow> nat \<Rightarrow> abs_int \<Rightarrow> abs_int \<Rightarrow> abs_int \<Rightarrow> abs_int option" where
  "mu_pow_mod B bits self ex n = ai_pow_felem B bits False self ex n"

definition mu_modulo :: "num_bigint \<Rightarrow> nat \<Rightarrow> abs_int \<Rightarrow> abs_int \<Rightarrow> abs_int option" where
  "mu_modulo B bits self n = ai_rem B bits False self n"

definition mu_max_val :: "num_bigint \<Rightarrow> nat \<Rightarrow> abs_int option" where
  "mu_max_val B bits = ai_max_value B bits False"

definition mu_exp :: "num_bigint \<Rightarrow> nat \<Rightarrow> abs_int \<Rightarrow> u32 \<Rightarrow> abs_int option" where
  "mu_exp B bits self ex = do { m \<leftarrow> mu_max_val B bits; ai_pow B bits False self (ucast ex) m }"

definition mu_pow_self :: "num_bigint \<Rightarrow> nat \<Rightarrow> abs_int \<Rightarrow> abs_int \<Rightarrow> abs_int option" where
  "mu_pow_self B bits self ex = do { m \<leftarrow> mu_max_val B bits; ai_pow_felem B bits False self ex m }"

definition mu_divide :: "num_bigint \<Rightarrow> nat \<Rightarrow> abs_int \<Rightarrow> abs_int \<Rightarrow> abs_int option" where
  "mu_divide B bits self rhs = ai_div B bits False self rhs"

definition mu_equal :: "num_bigint \<Rightarrow> abs_int \<Rightarrow> abs_int \<Rightarrow> bool" where
  "mu_equal B self other = ai_eq B self other"

definition mu_greater_than :: "num_bigint \<Rightarrow> abs_int \<Rightarrow> abs_int \<Rightarrow> bool" where
  "mu_greater_than B self other = ai_less B other self"

definition mu_greater_than_or_equal :: "num_bigint \<Rightarrow> abs_int \<Rightarrow> abs_int \<Rightarrow> bool" where
  "mu_greater_than_or_equal B self other = (\<not> ai_less B self other)"

definition mu_less_than :: "num_bigint \<Rightarrow> abs_int \<Rightarrow> abs_int \<Rightarrow> bool" where
  "mu_less_than B self other = ai_less B self other"

text \<open>The code is \<open>self >= other\<close>.\<close>

definition mu_less_than_or_equal :: "num_bigint \<Rightarrow> abs_int \<Rightarrow> abs_int \<Rightarrow> bool" where
  "mu_less_than_or_equal B self other = (\<not> ai_less B self other)"

definition mu_mask :: "num_bigint \<Rightarrow> nat \<Rightarrow> bool \<Rightarrow> abs_int option" where
  "mu_mask B bits c = (if c then mu_max_val B bits else ai_from_literal B bits False 0)"

definition mu_not_equal_bm :: "num_bigint \<Rightarrow> nat \<Rightarrow> abs_int \<Rightarrow> abs_int \<Rightarrow> abs_int option" where
  "mu_not_equal_bm B bits self other = mu_mask B bits (\<not> mu_equal B self other)"

definition mu_equal_bm :: "num_bigint \<Rightarrow> nat \<Rightarrow> abs_int \<Rightarrow> abs_int \<Rightarrow> abs_int option" where
  "mu_equal_bm B bits self other = mu_mask B bits (mu_equal B self other)"

definition mu_greater_than_bm :: "num_bigint \<Rightarrow> nat \<Rightarrow> abs_int \<Rightarrow> abs_int \<Rightarrow> abs_int option" where
  "mu_greater_than_bm B bits self other = mu_mask B bits (mu_greater_than B self other)"

definition mu_greater_than_or_equal_bm :: "num_bigint \<Rightarrow> nat \<Rightarrow> abs_int \<Rightarrow> abs_int \<Rightarrow> abs_int option" where
  "mu_greater_than_or_equal_bm B bits self other = mu_mask B bits (mu_greater_than_or_equal B self other)"

definition mu_less_than_bm :: "num_bigint \<Rightarrow> nat \<Rightarrow> abs_int \<Rightarrow> abs_int \<Rightarrow> abs_int option" where
  "mu_less_than_bm B bits self other = mu_mask B bits (mu_less_than B self other)"

definition mu_less_than_or_equal_bm :: "num_bigint \<Rightarrow> nat \<Rightarrow> abs_int \<Rightarrow> abs_int \<Rightarrow> abs_int option" where
  "mu_less_than_or_equal_bm B bits self other = mu_mask B bits (mu_less_than_or_equal B self other)"

section \<open>Public signed integers\<close>

definition ms_modulo :: "num_bigint \<Rightarrow> nat \<Rightarrow> abs_int \<Rightarrow> abs_int \<Rightarrow> abs_int option" where
  "ms_modulo B bits self n = ai_rem B bits True self n"

text \<open>\<open>while ret.less_than(Self::default()) { ret = ret + n; }\<close>; an iteration that never ends is \<open>None\<close>, as a panic is.\<close>

partial_function (option) ms_signed_modulo_loop :: "num_bigint \<Rightarrow> nat \<Rightarrow> abs_int \<Rightarrow> abs_int \<Rightarrow> abs_int option" where
  "ms_signed_modulo_loop B bits ret n =
     (if ai_less B ret (ai_default bits True)
      then Option.bind (ai_add B bits True ret n) (\<lambda>ret. ms_signed_modulo_loop B bits ret n)
      else Some ret)"

definition ms_signed_modulo :: "num_bigint \<Rightarrow> nat \<Rightarrow> abs_int \<Rightarrow> abs_int \<Rightarrow> abs_int option" where
  "ms_signed_modulo B bits self n = do { ret \<leftarrow> ms_modulo B bits self n; ms_signed_modulo_loop B bits ret n }"

definition ms_sub_mod :: "num_bigint \<Rightarrow> nat \<Rightarrow> abs_int \<Rightarrow> abs_int \<Rightarrow> abs_int \<Rightarrow> abs_int option" where
  "ms_sub_mod B bits self rhs n = do { x \<leftarrow> ai_sub B bits True self rhs; ms_signed_modulo B bits x n }"

definition ms_add_mod :: "num_bigint \<Rightarrow> nat \<Rightarrow> abs_int \<Rightarrow> abs_int \<Rightarrow> abs_int \<Rightarrow> abs_int option" where
  "ms_add_mod B bits self rhs n = do { x \<leftarrow> ai_add B bits True self rhs; ms_signed_modulo B bits x n }"

definition ms_mul_mod :: "num_bigint \<Rightarrow> nat \<Rightarrow> abs_int \<Rightarrow> abs_int \<Rightarrow> abs_int \<Rightarrow> abs_int option" where
  "ms_mul_mod B bits self rhs n = do { x \<leftarrow> ai_mul B bits True self rhs; ms_signed_modulo B bits x n }"

definition ms_pow_mod :: "num_bigint \<Rightarrow> nat \<Rightarrow> abs_int \<Rightarrow> abs_int \<Rightarrow> abs_int \<Rightarrow> abs_int option" where
  "ms_pow_mod B bits self ex n = do { x \<leftarrow> ai_pow_felem B bits True self ex n; ms_signed_modulo B bits x n }"

definition ms_max_val :: "num_bigint \<Rightarrow> nat \<Rightarrow> abs_int option" where
  "ms_max_val B bits = ai_max_value B bits True"

definition ms_exp :: "num_bigint \<Rightarrow> nat \<Rightarrow> abs_int \<Rightarrow> u32 \<Rightarrow> abs_int option" where
  "ms_exp B bits self ex = do { m \<leftarrow> ms_max_val B bits; ai_pow B bits True self (ucast ex) m }"

definition ms_pow_self :: "num_bigint \<Rightarrow> nat \<Rightarrow> abs_int \<Rightarrow> abs_int \<Rightarrow> abs_int option" where
  "ms_pow_self B bits self ex = do { m \<leftarrow> ms_max_val B bits; ai_pow_felem B bits True self ex m }"

definition ms_divide :: "num_bigint \<Rightarrow> nat \<Rightarrow> abs_int \<Rightarrow> abs_int \<Rightarrow> abs_int option" where
  "ms_divide B bits self rhs = ai_div B bits True self rhs"

definition ms_equal :: "num_bigint \<Rightarrow> abs_int \<Rightarrow> abs_int \<Rightarrow> bool" where
  "ms_equal B self other = ai_eq B self other"

definition ms_greater_than :: "num_bigint \<Rightarrow> abs_int \<Rightarrow> abs_int \<Rightarrow> bool" where
  "ms_greater_than B self other = ai_less B other self"

definition ms_greater_than_or_equal :: "num_bigint \<Rightarrow> abs_int \<Rightarrow> abs_int \<Rightarrow> bool" where
  "ms_greater_than_or_equal B self other = (\<not> ai_less B self other)"

definition ms_less_than :: "num_bigint \<Rightarrow> abs_int \<Rightarrow> abs_int \<Rightarrow> bool" where
  "ms_less_than B self other = ai_less B self other"

definition ms_less_than_or_equal :: "num_bigint \<Rightarrow> abs_int \<Rightarrow> abs_int \<Rightarrow> bool" where
  "ms_less_than_or_equal B self other = (\<not> ai_less B other self)"

definition ms_mask :: "num_bigint \<Rightarrow> nat \<Rightarrow> bool \<Rightarrow> abs_int option" where
  "ms_mask B bits c = (if c then ai_from_signed_literal B bits True (- 1) else ai_from_signed_literal B bits True 0)"

definition ms_not_equal_bm :: "num_bigint \<Rightarrow> nat \<Rightarrow> abs_int \<Rightarrow> abs_int \<Rightarrow> abs_int option" where
  "ms_not_equal_bm B bits self other = ms_mask B bits (\<not> ms_equal B self other)"

definition ms_equal_bm :: "num_bigint \<Rightarrow> nat \<Rightarrow> abs_int \<Rightarrow> abs_int \<Rightarrow> abs_int option" where
  "ms_equal_bm B bits self other = ms_mask B bits (ms_equal B self other)"

definition ms_greater_than_bm :: "num_bigint \<Rightarrow> nat \<Rightarrow> abs_int \<Rightarrow> abs_int \<Rightarrow> abs_int option" where
  "ms_greater_than_bm B bits self other = ms_mask B bits (ms_greater_than B self other)"

definition ms_greater_than_or_equal_bm :: "num_bigint \<Rightarrow> nat \<Rightarrow> abs_int \<Rightarrow> abs_int \<Rightarrow> abs_int option" where
  "ms_greater_than_or_equal_bm B bits self other = ms_mask B bits (ms_greater_than_or_equal B self other)"

definition ms_less_than_bm :: "num_bigint \<Rightarrow> nat \<Rightarrow> abs_int \<Rightarrow> abs_int \<Rightarrow> abs_int option" where
  "ms_less_than_bm B bits self other = ms_mask B bits (ms_less_than B self other)"

definition ms_less_than_or_equal_bm :: "num_bigint \<Rightarrow> nat \<Rightarrow> abs_int \<Rightarrow> abs_int \<Rightarrow> abs_int option" where
  "ms_less_than_or_equal_bm B bits self other = ms_mask B bits (ms_less_than_or_equal B self other)"

section \<open>Public residues\<close>

definition mp_ZERO :: "num_bigint \<Rightarrow> nat \<Rightarrow> abs_int \<Rightarrow> abs_int option" where
  "mp_ZERO B bits mx = nm_from_literal B bits mx 0"

definition mp_ONE :: "num_bigint \<Rightarrow> nat \<Rightarrow> abs_int \<Rightarrow> abs_int option" where
  "mp_ONE B bits mx = nm_from_literal B bits mx 1"

definition mp_from_byte_seq_be :: "num_bigint \<Rightarrow> nat \<Rightarrow> abs_int \<Rightarrow> 8 secret list \<Rightarrow> abs_int option" where
  "mp_from_byte_seq_be B bits mx s = do { x \<leftarrow> ai_from_be_bytes bits (map declassify s); nm_from B bits mx x }"

definition mp_to_byte_seq_be :: "abs_int \<Rightarrow> 8 secret list" where
  "mp_to_byte_seq_be self = map classify (nm_to_be_bytes self)"

definition mp_from_byte_seq_le :: "num_bigint \<Rightarrow> nat \<Rightarrow> abs_int \<Rightarrow> 8 secret list \<Rightarrow> abs_int option" where
  "mp_from_byte_seq_le B bits mx s = do { x \<leftarrow> ai_from_le_bytes B bits (map declassify s); nm_from B bits mx x }"

definition mp_to_byte_seq_le :: "num_bigint \<Rightarrow> nat \<Rightarrow> abs_int \<Rightarrow> 8 secret list option" where
  "mp_to_byte_seq_le B bits self = do { bs \<leftarrow> nm_to_le_bytes B bits self; Some (map classify bs) }"

definition mp_from_secret_literal :: "num_bigint \<Rightarrow> nat \<Rightarrow> abs_int \<Rightarrow> 128 secret \<Rightarrow> abs_int option" where
  "mp_from_secret_literal B bits mx x = do { y \<leftarrow> ai_from_literal B bits False (declassify x); nm_from B bits mx y }"

definition mp_get_bit :: "num_bigint \<Rightarrow> nat \<Rightarrow> abs_int \<Rightarrow> abs_int \<Rightarrow> usize \<Rightarrow> abs_int option" where
  "mp_get_bit B bits mx self i = do {
     s \<leftarrow> nm_shr B bits mx self i;
     one \<leftarrow> mp_ONE B bits mx;
     nm_bitand B bits mx s one
   }"

definition mp_set_bit :: "num_bigint \<Rightarrow> nat \<Rightarrow> abs_int \<Rightarrow> abs_int \<Rightarrow> abs_int \<Rightarrow> usize \<Rightarrow> abs_int option" where
  "mp_set_bit B bits mx self b i = do {
     one \<leftarrow> mp_ONE B bits mx;
     zero \<leftarrow> mp_ZERO B bits mx;
     rust_assert (nm_eq B b one \<or> nm_eq B b zero);
     l \<leftarrow> not_one_shl i;
     tmp1 \<leftarrow> nm_from_literal B bits mx l;
     tmp2 \<leftarrow> nm_shl B bits mx b i;
     s \<leftarrow> nm_bitand B bits mx self tmp1;
     nm_bitor B bits mx s tmp2
   }"

definition mp_set :: "num_bigint \<Rightarrow> nat \<Rightarrow> abs_int \<Rightarrow> abs_int \<Rightarrow> usize \<Rightarrow> abs_int \<Rightarrow> usize \<Rightarrow> abs_int option" where
  "mp_set B bits mx self pos y yi = do {
     b \<leftarrow> mp_get_bit B bits mx y yi;
     mp_set_bit B bits mx self b pos
   }"

definition mp_rotate_left :: "num_bigint \<Rightarrow> nat \<Rightarrow> abs_int \<Rightarrow> abs_int \<Rightarrow> usize \<Rightarrow> abs_int option" where
  "mp_rotate_left B bits mx self n = do {
     rust_assert (n < bits);
     l \<leftarrow> nm_shl B bits mx self n;
     r \<leftarrow> nm_shr B bits mx self (neg_amount bits n);
     nm_bitor B bits mx l r
   }"

definition mp_rotate_right :: "num_bigint \<Rightarrow> nat \<Rightarrow> abs_int \<Rightarrow> abs_int \<Rightarrow> usize \<Rightarrow> abs_int option" where
  "mp_rotate_right B bits mx self n = do {
     rust_assert (n < bits);
     r \<leftarrow> nm_shr B bits mx self n;
     l \<leftarrow> nm_shl B bits mx self (neg_amount bits n);
     nm_bitor B bits mx r l
   }"

definition mp_modulo :: "num_bigint \<Rightarrow> nat \<Rightarrow> abs_int \<Rightarrow> abs_int \<Rightarrow> abs_int \<Rightarrow> abs_int option" where
  "mp_modulo B bits mx self n = nm_rem B bits mx self n"

definition mp_divide :: "num_bigint \<Rightarrow> nat \<Rightarrow> abs_int \<Rightarrow> abs_int \<Rightarrow> abs_int \<Rightarrow> abs_int option" where
  "mp_divide B bits mx self rhs = nm_div B bits mx self rhs"

definition mp_pow_self :: "num_bigint \<Rightarrow> nat \<Rightarrow> abs_int \<Rightarrow> abs_int \<Rightarrow> abs_int \<Rightarrow> abs_int option" where
  "mp_pow_self B bits mx self ex = nm_pow_felem B bits mx self ex"

definition mp_max_val :: "num_bigint \<Rightarrow> nat \<Rightarrow> abs_int \<Rightarrow> abs_int option" where
  "mp_max_val B bits mx = do {
     one \<leftarrow> ai_from_literal B bits False 1;
     x \<leftarrow> ai_sub B bits False mx one;
     nm_from B bits mx x
   }"

text \<open>The modular operations ignore their modulus \<open>n\<close>.\<close>

definition mp_sub_mod :: "num_bigint \<Rightarrow> nat \<Rightarrow> abs_int \<Rightarrow> abs_int \<Rightarrow> abs_int \<Rightarrow> abs_int \<Rightarrow> abs_int option" where
  "mp_sub_mod B bits mx self rhs n = nm_sub B bits mx self rhs"

definition mp_add_mod :: "num_bigint \<Rightarrow> nat \<Rightarrow> abs_int \<Rightarrow> abs_int \<Rightarrow> abs_int \<Rightarrow> abs_int \<Rightarrow> abs_int option" where
  "mp_add_mod B bits mx self rhs n = nm_add B bits mx self rhs"

definition mp_mul_mod :: "num_bigint \<Rightarrow> nat \<Rightarrow> abs_int \<Rightarrow> abs_int \<Rightarrow> abs_int \<Rightarrow> abs_int \<Rightarrow> abs_int option" where
  "mp_mul_mod B bits mx self rhs n = nm_mul B bits mx self rhs"

definition mp_pow_mod :: "num_bigint \<Rightarrow> nat \<Rightarrow> abs_int \<Rightarrow> abs_int \<Rightarrow> abs_int \<Rightarrow> abs_int \<Rightarrow> abs_int option" where
  "mp_pow_mod B bits mx self ex n = nm_pow_felem B bits mx self ex"

definition mp_exp :: "num_bigint \<Rightarrow> nat \<Rightarrow> abs_int \<Rightarrow> abs_int \<Rightarrow> u32 \<Rightarrow> abs_int option" where
  "mp_exp B bits mx self ex = nm_pow B bits mx self (ucast ex)"

definition mp_inv :: "num_bigint \<Rightarrow> nat \<Rightarrow> abs_int \<Rightarrow> abs_int \<Rightarrow> abs_int \<Rightarrow> abs_int option" where
  "mp_inv B bits mx self n = nm_inv B bits mx self"

definition mp_mask :: "num_bigint \<Rightarrow> nat \<Rightarrow> abs_int \<Rightarrow> bool \<Rightarrow> abs_int option" where
  "mp_mask B bits mx c =
     (if c then do {
        one \<leftarrow> mp_ONE B bits mx;
        n \<leftarrow> usize_sub bits 1;
        x \<leftarrow> nm_shl B bits mx one n;
        nm_sub B bits mx x one
      } else mp_ZERO B bits mx)"

definition mp_not_equal_bm :: "num_bigint \<Rightarrow> nat \<Rightarrow> abs_int \<Rightarrow> abs_int \<Rightarrow> abs_int \<Rightarrow> abs_int option" where
  "mp_not_equal_bm B bits mx self other = mp_mask B bits mx (\<not> nm_eq B self other)"

definition mp_equal_bm :: "num_bigint \<Rightarrow> nat \<Rightarrow> abs_int \<Rightarrow> abs_int \<Rightarrow> abs_int \<Rightarrow> abs_int option" where
  "mp_equal_bm B bits mx self other = mp_mask B bits mx (nm_eq B self other)"

definition mp_greater_than_bm :: "num_bigint \<Rightarrow> nat \<Rightarrow> abs_int \<Rightarrow> abs_int \<Rightarrow> abs_int \<Rightarrow> abs_int option" where
  "mp_greater_than_bm B bits mx self other = mp_mask B bits mx (ai_less B other self)"

definition mp_greater_than_or_equal_bm :: "num_bigint \<Rightarrow> nat \<Rightarrow> abs_int \<Rightarrow> abs_int \<Rightarrow> abs_int \<Rightarrow> abs_int option" where
  "mp_greater_than_or_equal_bm B bits mx self other = mp_mask B bits mx (\<not> ai_less B self other)"

definition mp_less_than_bm :: "num_bigint \<Rightarrow> nat \<Rightarrow> abs_int \<Rightarrow> abs_int \<Rightarrow> abs_int \<Rightarrow> abs_int option" where
  "mp_less_than_bm B bits mx self other = mp_mask B bits mx (ai_less B self other)"

definition mp_less_than_or_equal_bm :: "num_bigint \<Rightarrow> nat \<Rightarrow> abs_int \<Rightarrow> abs_int \<Rightarrow> abs_int \<Rightarrow> abs_int option" where
  "mp_less_than_or_equal_bm B bits mx self other = mp_mask B bits mx (\<not> ai_less B other self)"

section \<open>Secret residues\<close>

text \<open>The comparisons declassify a mask and compare it with zero.\<close>

definition mask_set :: "num_bigint \<Rightarrow> abs_int option \<Rightarrow> bool option" where
  "mask_set B m = do { bm \<leftarrow> m; Some (ai_into B bm \<noteq> 0) }"

definition mn_equal :: "num_bigint \<Rightarrow> nat \<Rightarrow> abs_int \<Rightarrow> abs_int \<Rightarrow> abs_int \<Rightarrow> bool option" where
  "mn_equal B bits mx self other = mask_set B (nm_comp_eq B bits mx self other)"

definition mn_greater_than :: "num_bigint \<Rightarrow> nat \<Rightarrow> abs_int \<Rightarrow> abs_int \<Rightarrow> abs_int \<Rightarrow> bool option" where
  "mn_greater_than B bits mx self other = mask_set B (nm_comp_gt B bits mx self other)"

definition mn_greater_than_or_equal :: "num_bigint \<Rightarrow> nat \<Rightarrow> abs_int \<Rightarrow> abs_int \<Rightarrow> abs_int \<Rightarrow> bool option" where
  "mn_greater_than_or_equal B bits mx self other = mask_set B (nm_comp_gte B bits mx self other)"

definition mn_less_than :: "num_bigint \<Rightarrow> nat \<Rightarrow> abs_int \<Rightarrow> abs_int \<Rightarrow> abs_int \<Rightarrow> bool option" where
  "mn_less_than B bits mx self other = mask_set B (nm_comp_lt B bits mx self other)"

definition mn_less_than_or_equal :: "num_bigint \<Rightarrow> nat \<Rightarrow> abs_int \<Rightarrow> abs_int \<Rightarrow> abs_int \<Rightarrow> bool option" where
  "mn_less_than_or_equal B bits mx self other = mask_set B (nm_comp_lte B bits mx self other)"

definition mn_set_bit :: "num_bigint \<Rightarrow> nat \<Rightarrow> abs_int \<Rightarrow> abs_int \<Rightarrow> abs_int \<Rightarrow> usize \<Rightarrow> abs_int option" where
  "mn_set_bit B bits mx self b i = do {
     one \<leftarrow> nm_from_literal B bits mx 1;
     e1 \<leftarrow> mn_equal B bits mx b one;
     ok \<leftarrow> (if e1 then Some True else do { zero \<leftarrow> nm_from_literal B bits mx 0; mn_equal B bits mx b zero });
     rust_assert ok;
     l \<leftarrow> not_one_shl i;
     tmp1 \<leftarrow> nm_from_literal B bits mx l;
     tmp2 \<leftarrow> nm_shl B bits mx b i;
     s \<leftarrow> nm_bitand B bits mx self tmp1;
     nm_bitor B bits mx s tmp2
   }"

section \<open>Values of the bit operations\<close>

text \<open>\<open>is_val bits x res\<close>: the result is the integer \<open>x\<close>.\<close>

definition is_val :: "nat \<Rightarrow> int \<Rightarrow> abs_int option \<Rightarrow> bool" where
  "is_val bits x res \<longleftrightarrow> (\<exists>r. res = Some r \<and> ai_ok bits r \<and> ai_val r = x)"

lemma is_int_val: "is_int bits x res \<Longrightarrow> 0 \<le> x \<Longrightarrow> x \<le> ai_max bits \<Longrightarrow> is_val bits x res"
  by (simp add: is_int_def is_val_def)

lemma is_valE:
  assumes "is_val bits x res"
  obtains r where "res = Some r" "ai_ok bits r" "ai_val r = x"
  using assms by (auto simp: is_val_def)

lemma ai_val_less: "ai_ok bits a \<Longrightarrow> ai_val a < 2 ^ bits"
  using ai_val_bounds [of bits a] by (simp add: ai_max_def)

lemma div_power_le: "0 \<le> v \<Longrightarrow> v div 2 ^ n \<le> (v::int)"
  using int_div_less_self [of v "2 ^ n"] by (cases "v = 0 \<or> n = 0") (auto simp: less_imp_le)

lemma ai_shl_is_int:
  assumes "bigint_spec B" "0 < bits" "ai_ok bits a"
  shows "is_int bits (ai_val a * 2 ^ n) (ai_shl B bits False a n)"
  using ai_from_is_int [OF assms(1,2)] by (simp add: ai_shl_def ai_into_val [OF assms(1,3)] push_bit_eq_mult)

lemma ai_shr_is_val:
  assumes "bigint_spec B" "0 < bits" "ai_ok bits a"
  shows "is_val bits (ai_val a div 2 ^ n) (ai_shr B bits False a n)"
proof (rule is_int_val)
  show "is_int bits (ai_val a div 2 ^ n) (ai_shr B bits False a n)"
    using ai_from_is_int [OF assms(1,2)] by (simp add: ai_shr_def ai_into_val [OF assms(1,3)] drop_bit_eq_div)
  have "ai_val a div 2 ^ n \<le> ai_val a" using ai_val_bounds [OF assms(3)] by (intro div_power_le) simp
  then show "ai_val a div 2 ^ n \<le> ai_max bits" "0 \<le> ai_val a div 2 ^ n"
    using ai_val_bounds [OF assms(3)] by (auto simp: pos_imp_zdiv_nonneg_iff)
qed

lemma ai_bitand_is_val:
  assumes "bigint_spec B" "0 < bits" "ai_ok bits a" "ai_ok bits b"
  shows "is_val bits (ai_val a AND ai_val b) (ai_bitand B bits False a b)"
proof (rule is_int_val)
  show "is_int bits (ai_val a AND ai_val b) (ai_bitand B bits False a b)"
    using ai_from_is_int [OF assms(1,2)]
    by (simp add: ai_bitand_def ai_into_val [OF assms(1,3)] ai_into_val [OF assms(1,4)])
  show "ai_val a AND ai_val b \<le> ai_max bits" "0 \<le> ai_val a AND ai_val b"
    using ai_val_bounds [OF assms(3)] AND_upper1 [of "ai_val a" "ai_val b"] by auto
qed

lemma ai_bitor_is_val:
  assumes "bigint_spec B" "0 < bits" "ai_ok bits a" "ai_ok bits b"
  shows "is_val bits (ai_val a OR ai_val b) (ai_bitor B bits False a b)"
proof (rule is_int_val)
  show "is_int bits (ai_val a OR ai_val b) (ai_bitor B bits False a b)"
    using ai_from_is_int [OF assms(1,2)]
    by (simp add: ai_bitor_def ai_into_val [OF assms(1,3)] ai_into_val [OF assms(1,4)])
  show "ai_val a OR ai_val b \<le> ai_max bits" "0 \<le> ai_val a OR ai_val b"
    using ai_val_bounds [OF assms(3)] ai_val_bounds [OF assms(4)] OR_upper [of "ai_val a" bits "ai_val b"]
    by (auto simp: ai_max_def)
qed

lemma ai_literal_is_int:
  assumes "bigint_spec B" "0 < bits"
  shows "is_int bits (uint x) (ai_from_literal B bits False x)"
  using ai_from_is_int [OF assms, of "uint x"] by (auto simp: ai_from_literal_def is_int_def)

lemma ai_max_pos: "0 < bits \<Longrightarrow> 1 \<le> ai_max bits"
  using power_increasing [of 1 bits "2::int"] by (simp add: ai_max_def)

lemma mu_ONE_is_val: "bigint_spec B \<Longrightarrow> 0 < bits \<Longrightarrow> is_val bits 1 (mu_ONE B bits)"
  using ai_literal_is_int [of B bits 1] ai_max_pos [of bits] by (simp add: mu_ONE_def is_int_val)

lemma mu_ZERO_is_val: "bigint_spec B \<Longrightarrow> 0 < bits \<Longrightarrow> is_val bits 0 (mu_ZERO B bits)"
  using ai_literal_is_int [of B bits 0] ai_max_pos [of bits] by (simp add: mu_ZERO_def is_int_val)

lemma mu_max_val_is_val: "bigint_spec B \<Longrightarrow> 0 < bits \<Longrightarrow> is_val bits (ai_max bits) (mu_max_val B bits)"
  using ai_from_is_int [of B bits "ai_max bits"] ai_max_pos [of bits] by (simp add: mu_max_val_def ai_max_value_def is_int_val)

lemma mu_get_bit_is_val:
  assumes "bigint_spec B" "0 < bits" "ai_ok bits a"
  shows "is_val bits (ai_val a div 2 ^ i mod 2) (mu_get_bit B bits a i)"
proof -
  obtain s where s: "ai_shr B bits False a i = Some s" "ai_ok bits s" "ai_val s = ai_val a div 2 ^ i"
    by (rule is_valE [OF ai_shr_is_val [OF assms]])
  obtain one where one: "mu_ONE B bits = Some one" "ai_ok bits one" "ai_val one = 1"
    by (rule is_valE [OF mu_ONE_is_val [OF assms(1,2)]])
  from ai_bitand_is_val [OF assms(1,2) s(2) one(2)] show ?thesis
    by (simp add: mu_get_bit_def s one and_one_eq)
qed

text \<open>The literal of \<open>set_bit\<close> clears bit \<open>i\<close> and every bit from 128 on.\<close>

lemma not_one_shl_uint:
  assumes "i < 128"
  shows "\<exists>l. not_one_shl i = Some l \<and> uint l = 2 ^ 128 - 1 - 2 ^ i \<and> (\<forall>v. v AND uint l = unset_bit i (take_bit 128 v))"
proof (intro exI conjI allI)
  let ?l = "NOT (push_bit i 1) :: u128"
  show "not_one_shl i = Some ?l" using assms by (simp add: not_one_shl_def)
  have one: "uint (push_bit i 1 :: u128) = 2 ^ i"
    using assms by (intro bit_eqI) (auto simp: bit_simps simp flip: push_bit_of_1)
  have "(2::int) ^ i < 2 ^ 128" using assms by (intro power_strict_increasing) simp_all
  then have "(2 ^ 128 - 1 - 2 ^ i) mod (2::int) ^ 128 = 2 ^ 128 - 1 - 2 ^ i"
    by (intro mod_pos_pos_trivial) (simp_all add: order_less_le_trans [of "- 1" 0])
  moreover have "(2 ^ 128 - 1 - 2 ^ i) mod (2::int) ^ 128 = (- (2 ^ i) - 1) mod 2 ^ 128"
    by (simp add: mod_eq_dvd_iff)
  ultimately have "(- (2 ^ i) - 1) mod (2::int) ^ 128 = 2 ^ 128 - 1 - 2 ^ i" by simp
  then show "uint ?l = 2 ^ 128 - 1 - 2 ^ i"
    unfolding unsigned_not_eq one by (simp add: take_bit_eq_mod not_int_def)
  show "v AND uint ?l = unset_bit i (take_bit 128 v)" for v
    by (rule bit_eqI) (auto simp: bit_simps)
qed

lemma mu_set_bit_value:
  assumes "bigint_spec B" "0 < bits" "ai_ok bits a" "ai_ok bits b" "ai_val b = of_bool c" "i < bits"
  shows "if bits < 128 \<or> 128 \<le> i then mu_set_bit B bits a b i = None
    else is_val bits ((if c then set_bit else unset_bit) i (take_bit 128 (ai_val a))) (mu_set_bit B bits a b i)"
proof (cases "128 \<le> i")
  case False
  obtain one where one: "mu_ONE B bits = Some one" "ai_ok bits one" "ai_val one = 1"
    by (rule is_valE [OF mu_ONE_is_val [OF assms(1,2)]])
  obtain zero where zero: "mu_ZERO B bits = Some zero" "ai_ok bits zero" "ai_val zero = 0"
    by (rule is_valE [OF mu_ZERO_is_val [OF assms(1,2)]])
  have eq: "ai_eq B b one \<or> ai_eq B b zero"
    using assms(1,4,5) one(2,3) zero(2,3) by (cases c) (simp_all add: ai_eq_def ai_into_val [of B bits])
  obtain l where l: "not_one_shl i = Some l" "uint l = 2 ^ 128 - 1 - 2 ^ i" "\<And>v. v AND uint l = unset_bit i (take_bit 128 v)"
    using not_one_shl_uint [of i] False by auto
  show ?thesis
  proof (cases "bits < 128")
    case True
    then have "(2::int) ^ bits \<le> 2 ^ 127" "(2::int) ^ i \<le> 2 ^ 126"
      using assms(6) power_increasing [of bits 127 "2::int"] power_increasing [of i 126 "2::int"] by simp_all
    then have "ai_max bits < uint l" by (simp add: l(2) ai_max_def)
    then have "ai_from_literal B bits False l = None" by (simp add: ai_from_literal_def)
    with True show ?thesis by (simp add: mu_set_bit_def one zero eq l)
  next
    case big: False
    have "(2::int) ^ 128 \<le> 2 ^ bits" "(0::int) < 2 ^ i" using big power_increasing [of 128 bits "2::int"] by simp_all
    then have "uint l \<le> ai_max bits" unfolding l(2) ai_max_def by linarith
    then obtain t1 where t1: "ai_from_literal B bits False l = Some t1" "ai_ok bits t1" "ai_val t1 = uint l"
      using ai_literal_is_int [OF assms(1,2), of l] by (auto simp: is_int_def)
    have "(2::int) ^ i < 2 ^ bits" using assms(6) by simp
    then have "ai_val b * 2 ^ i \<le> ai_max bits" by (cases c) (simp_all add: assms(5) ai_max_def)
    then obtain t2 where t2: "ai_shl B bits False b i = Some t2" "ai_ok bits t2" "ai_val t2 = of_bool c * 2 ^ i"
      using ai_shl_is_int [OF assms(1,2,4), of i] by (auto simp: is_int_def assms(5))
    obtain s where s: "ai_bitand B bits False a t1 = Some s" "ai_ok bits s" "ai_val s = unset_bit i (take_bit 128 (ai_val a))"
      using ai_bitand_is_val [OF assms(1,2,3) t1(2)] by (auto simp: is_val_def t1 l(3))
    have "unset_bit i v OR of_bool c * 2 ^ i = (if c then set_bit i v else unset_bit i v)" for v :: int
      by (rule bit_eqI) (auto simp: bit_simps simp flip: push_bit_of_1)
    with ai_bitor_is_val [OF assms(1,2) s(2) t2(2)] big False show ?thesis
      by (cases c) (simp_all add: mu_set_bit_def one zero eq l(1) t1 t2 s)
  qed
qed (auto simp: mu_set_bit_def not_one_shl_def bind_eq_None_conv)

lemma small_div_power: "0 \<le> v \<Longrightarrow> v * 2 ^ n < 2 ^ (n + m) \<Longrightarrow> v div 2 ^ m = (0::int)"
  by (intro div_pos_pos_trivial) (simp_all add: power_add mult.commute)

lemma mu_rotations_value:
  assumes "bigint_spec B" "ai_ok bits a" "bits = 2 ^ k" "k \<le> 31" "n < bits"
  shows "is_int bits (ai_val a * 2 ^ n) (mu_rotate_left B bits a n)"
    "is_int bits (ai_val a * 2 ^ ((bits - n) mod bits)) (mu_rotate_right B bits a n)"
proof -
  have pos: "0 < bits" using assms(5) by simp
  have rot: "is_int bits (ai_val a * 2 ^ m)
      (do { l \<leftarrow> ai_shl B bits False a m; r \<leftarrow> ai_shr B bits False a m'; ai_bitor B bits False l r })"
    if "m + m' = bits \<or> m = 0 \<and> m' = 0" for m m'
  proof -
    obtain r where r: "ai_shr B bits False a m' = Some r" "ai_ok bits r" "ai_val r = ai_val a div 2 ^ m'"
      by (rule is_valE [OF ai_shr_is_val [OF assms(1) pos assms(2)]])
    show ?thesis
    proof (cases "ai_val a * 2 ^ m \<le> ai_max bits")
      case True
      then obtain l where l: "ai_shl B bits False a m = Some l" "ai_ok bits l" "ai_val l = ai_val a * 2 ^ m"
        using ai_shl_is_int [OF assms(1) pos assms(2), of m] ai_val_bounds [OF assms(2)] by (auto simp: is_int_def)
      have "ai_val l OR ai_val r = ai_val a * 2 ^ m"
        using that True ai_val_bounds [OF assms(2)] small_div_power [of "ai_val a" m m']
        by (auto simp: l r ai_max_def)
      with ai_bitor_is_val [OF assms(1) pos l(2) r(2)] show ?thesis
        using l(2,3) ai_val_bounds [OF l(2)] by (auto simp: l r is_val_def is_int_def)
    qed (use ai_shl_is_int [OF assms(1) pos assms(2), of m] in \<open>auto simp: is_int_def\<close>)
  qed
  have amt: "neg_amount bits n = (bits - n) mod bits" using assms by (intro neg_amount_eq [of _ k]) simp_all
  have am: "n + (bits - n) mod bits = bits \<or> n = 0 \<and> (bits - n) mod bits = 0"
    using assms(5) by (cases "n = 0") simp_all
  show "is_int bits (ai_val a * 2 ^ n) (mu_rotate_left B bits a n)"
    using rot [OF am] assms(5) by (simp add: mu_rotate_left_def amt)
  have am': "(bits - n) mod bits + n = bits \<or> (bits - n) mod bits = 0 \<and> n = 0" using am by auto
  have comm: "ai_bitor B bits False x y = ai_bitor B bits False y x" for x y by (simp add: ai_bitor_def or.commute)
  show "is_int bits (ai_val a * 2 ^ ((bits - n) mod bits)) (mu_rotate_right B bits a n)"
    using rot [OF am'] assms(5)
    by (cases "ai_shr B bits False a n"; cases "ai_shl B bits False a ((bits - n) mod bits)")
      (simp_all add: mu_rotate_right_def amt comm)
qed

section \<open>Values of the numeric operations\<close>

text \<open>\<open>mod_result bits c n res\<close>: the residue of \<open>c\<close>, with a panic when \<open>c\<close> is out of range or \<open>n\<close> is zero.\<close>

definition mod_result :: "nat \<Rightarrow> int \<Rightarrow> int \<Rightarrow> abs_int option \<Rightarrow> bool" where
  "mod_result bits c n res \<longleftrightarrow>
     (if 0 \<le> c \<and> c \<le> ai_max bits \<and> n \<noteq> 0 then is_val bits (c mod n) res else res = None)"

lemma ai_rem_mod_result:
  assumes "bigint_spec B" "0 < bits" "ai_ok bits n" "is_int bits c x"
  shows "mod_result bits c (ai_val n) (x \<bind> (\<lambda>x. ai_rem B bits False x n))"
proof (cases "0 \<le> c \<and> c \<le> ai_max bits")
  case True
  then obtain r where r: "x = Some r" "ai_ok bits r" "ai_val r = c" using assms(4) by (auto simp: is_int_def)
  have "c mod ai_val n \<le> c" if "ai_val n \<noteq> 0"
    using True ai_val_bounds [OF assms(3)] that by (intro zmod_le_nonneg_dividend) simp
  moreover have "0 \<le> c mod ai_val n" if "ai_val n \<noteq> 0" using that ai_val_bounds [OF assms(3)] by simp
  ultimately show ?thesis
    using ai_div_rem_is_int [OF assms(1,2) r(2) assms(3)] True r(3)
    by (auto simp: r(1) mod_result_def intro!: is_int_val split: if_splits)
qed (use assms(4) in \<open>auto simp: is_int_def mod_result_def\<close>)

lemma ai_pow_felem_mod:
  assumes "bigint_spec B" "0 < bits" "ai_ok bits a" "ai_ok bits e" "ai_ok bits n" "ai_val n \<noteq> 0"
  shows "is_val bits (ai_val a ^ nat (ai_val e) mod ai_val n) (ai_pow_felem B bits False a e n)"
proof -
  let ?c = "ai_val a ^ nat (ai_val e) mod ai_val n"
  have n: "0 < ai_val n" "ai_val n \<le> ai_max bits" using ai_val_bounds [OF assms(5)] assms(6) by simp_all
  have "ai_pow_felem B bits False a e n = ai_from B bits False ?c"
    using ai_val_bounds [OF assms(4)] n
    by (simp add: ai_pow_felem_def bigint_modpow [OF assms(1)] ai_into_val [OF assms(1,3)] ai_into_val [OF assms(1,4)] ai_into_val [OF assms(1,5)])
  moreover have "?c \<le> ai_max bits" using pos_mod_bound [OF n(1), of "ai_val a ^ nat (ai_val e)"] n(2) by linarith
  ultimately show ?thesis using is_int_val [OF ai_from_is_int [OF assms(1,2), of ?c]] n by simp
qed

lemma mu_exp_value:
  assumes "bigint_spec B" "0 < bits" "ai_ok bits a"
  shows "if uint e \<le> ai_max bits then is_val bits (ai_val a ^ unat e mod ai_max bits) (mu_exp B bits a e)
    else mu_exp B bits a e = None"
proof -
  obtain m where m: "mu_max_val B bits = Some m" "ai_ok bits m" "ai_val m = ai_max bits"
    by (rule is_valE [OF mu_max_val_is_val [OF assms(1,2)]])
  have u: "uint (ucast e :: u128) = uint e" using uint_bounded [of e] by (simp add: unsigned_ucast_eq take_bit_int_eq_self_iff)
  have i: "is_int bits (uint e) (ai_from B bits False (uint e))" by (rule ai_from_is_int [OF assms(1,2)])
  show ?thesis
  proof (cases "uint e \<le> ai_max bits")
    case True
    then obtain x where x: "ai_from B bits False (uint e) = Some x" "ai_ok bits x" "ai_val x = uint e"
      using i by (auto simp: is_int_def)
    with ai_pow_felem_mod [OF assms x(2) m(2)] True m ai_max_pos [OF assms(2)] show ?thesis
      by (simp add: mu_exp_def ai_pow_def u)
  qed (use i in \<open>auto simp: mu_exp_def ai_pow_def u m is_int_def\<close>)
qed

lemma mu_mask_value:
  assumes "bigint_spec B" "0 < bits"
  shows "is_val bits (if c then ai_max bits else 0) (mu_mask B bits c)"
  using mu_max_val_is_val [OF assms] mu_ZERO_is_val [OF assms] by (simp add: mu_mask_def mu_ZERO_def)

section \<open>Signed values\<close>

definition si_val :: "abs_int \<Rightarrow> int" where
  "si_val self = sign_int (ai_sign self) * be_value (ai_b self)"

definition si_ok :: "nat \<Rightarrow> abs_int \<Rightarrow> bool" where
  "si_ok bits self \<longleftrightarrow> length (ai_b self) = canvas_len bits \<and> ai_signed self \<and> si_val self \<le> ai_max bits"

lemma ai_into_si: "bigint_spec B \<Longrightarrow> ai_into B self = si_val self"
  by (simp add: ai_into_def si_val_def)

lemma ai_from_signed:
  assumes "bigint_spec B" "0 < bits"
  shows "if x \<le> ai_max bits \<and> \<bar>x\<bar> < 256 ^ canvas_len bits
    then \<exists>r. ai_from B bits True x = Some r \<and> si_ok bits r \<and> si_val r = x else ai_from B bits True x = None"
proof -
  obtain s bs where t: "to_bytes_be B x = (s, bs)" by (cases "to_bytes_be B x")
  note to = bigint_to [OF assms(1) t]
  have fits: "length bs \<le> canvas_len bits \<longleftrightarrow> \<bar>x\<bar> < 256 ^ canvas_len bits"
  proof
    assume "length bs \<le> canvas_len bits"
    then have "(256::int) ^ length bs \<le> 256 ^ canvas_len bits" by (simp add: power_increasing)
    then show "\<bar>x\<bar> < 256 ^ canvas_len bits" using be_value_less [of bs] to(2) by linarith
  next
    assume small: "\<bar>x\<bar> < 256 ^ canvas_len bits"
    show "length bs \<le> canvas_len bits"
    proof (rule ccontr)
      assume "\<not> length bs \<le> canvas_len bits"
      moreover have "0 < canvas_len bits" using assms(2) by (simp add: canvas_len_def)
      ultimately have "canvas_len bits \<le> length bs - 1" "1 < length bs" by auto
      then have "(256::int) ^ canvas_len bits \<le> 256 ^ (length bs - 1)" by (simp add: power_increasing)
      also have "\<dots> \<le> be_value bs" using to(3,4) \<open>1 < length bs\<close> by (intro be_value_ge) auto
      finally show False using to(2) small by simp
    qed
  qed
  have "sign_int s * be_value bs = x" using to(1,2) by (simp add: mult.commute abs_mult_sgn)
  then show ?thesis
    using fits by (auto simp: ai_from_def t si_ok_def si_val_def)
qed

lemma canvas_bound: "ai_max bits < 256 ^ canvas_len bits"
  using canvas_fits [of bits] by (simp add: ai_max_def)

lemma ms_mask_value:
  assumes "bigint_spec B" "0 < bits"
  shows "\<exists>r. ms_mask B bits c = (if c then (if bits < 128 then None else Some r) else Some r) \<and>
    si_val r = (if c \<and> 128 \<le> bits then 2 ^ 128 - 1 else 0)"
proof -
  obtain z where z: "ai_from B bits True 0 = Some z" "si_val z = 0"
    using ai_from_signed [OF assms, of 0] ai_max_pos [OF assms(2)] by auto
  have ones: "uint (- 1 :: u128) = 2 ^ 128 - 1" by (simp add: unsigned_minus_1_eq_mask mask_eq_exp_minus_1)
  show ?thesis
  proof (cases "bits < 128")
    case True
    then have "(2::int) ^ bits \<le> 2 ^ 127" using power_increasing [of bits 127 "2::int"] by simp
    then show ?thesis using True z ai_max_pos [OF assms(2)]
      by (intro exI [of _ z]) (auto simp: ms_mask_def ai_from_signed_literal_def ai_from_literal_def ai_max_def ones)
  next
    case False
    then have "(2::int) ^ 128 \<le> 2 ^ bits" using power_increasing [of 128 bits "2::int"] by simp
    then have le: "(2::int) ^ 128 - 1 \<le> ai_max bits" by (simp add: ai_max_def)
    obtain r where "ai_from B bits True (2 ^ 128 - 1) = Some r" "si_val r = 2 ^ 128 - 1"
      using ai_from_signed [OF assms, of "2 ^ 128 - 1"] le order_le_less_trans [OF le canvas_bound [of bits]] by auto
    then show ?thesis using False z le ai_max_pos [OF assms(2)]
      by (cases c) (auto simp: ms_mask_def ai_from_signed_literal_def ai_from_literal_def ones)
  qed
qed

lemma smod_bounds: "0 < n \<Longrightarrow> \<bar>a smod n\<bar> < (n::int)"
  by (cases "0 \<le> a") (auto simp: signed_modulo_int_def sgn_if)

lemma smod_to_mod:
  assumes "0 < n"
  shows "(if a smod n < 0 then a smod n + n else a smod n) = a mod (n::int)"
proof (cases "0 \<le> a")
  case True
  then show ?thesis using assms pos_mod_sign [OF assms, of a] by (auto simp: smod_nonneg not_less simp del: pos_mod_sign)
next
  case False
  then have "a smod n = - (- a mod n)" using assms by (simp add: signed_modulo_int_def)
  then show ?thesis
    using zmod_zminus1_eq_if [of "- a" n] le_less [THEN iffD1, OF pos_mod_sign [OF assms], of "- a"] by auto
qed

lemma ms_signed_modulo_value:
  assumes "bigint_spec B" "0 < bits" "si_ok bits n" "0 < si_val n"
  shows "\<exists>r. ms_signed_modulo B bits a n = Some r \<and> si_ok bits r \<and> si_val r = si_val a mod si_val n"
proof -
  let ?x = "si_val a smod si_val n"
  have n: "si_val n \<le> ai_max bits" using assms(3) by (simp add: si_ok_def)
  have in_range: "\<exists>r. ai_from B bits True x = Some r \<and> si_ok bits r \<and> si_val r = x" if "\<bar>x\<bar> \<le> si_val n" for x
    using ai_from_signed [OF assms(1,2), of x] that n canvas_bound [of bits] by (auto split: if_splits)
  have zero: "si_val (ai_default bits True) = 0" by (simp add: si_val_def ai_default_def)
  obtain r where r: "ms_modulo B bits a n = Some r" "si_ok bits r" "si_val r = ?x"
    using in_range [of ?x] smod_bounds [OF assms(4), of "si_val a"] assms(1,4)
    by (auto simp: ms_modulo_def ai_rem_def ai_into_si)
  note sm = smod_to_mod [OF assms(4), of "si_val a"]
  have bound: "0 \<le> si_val a mod si_val n" "si_val a mod si_val n < si_val n" using assms(4) by simp_all
  show ?thesis
  proof (cases "?x < 0")
    case True
    then obtain q where q: "ai_add B bits True r n = Some q" "si_ok bits q" "si_val q = si_val a mod si_val n"
      using in_range [of "si_val a mod si_val n"] sm bound n by (auto simp: ai_add_def ai_into_si assms(1) r)
    then have "ms_signed_modulo_loop B bits q n = Some q"
      using bound by (subst ms_signed_modulo_loop.simps) (simp add: ai_less_def ai_into_si assms(1) zero)
    then have "ms_signed_modulo_loop B bits r n = Some q"
      using True q(1) by (subst ms_signed_modulo_loop.simps) (simp add: ai_less_def ai_into_si assms(1) zero r)
    with r q show ?thesis by (simp add: ms_signed_modulo_def)
  next
    case False
    then have "ms_signed_modulo_loop B bits r n = Some r"
      by (subst ms_signed_modulo_loop.simps) (simp add: ai_less_def ai_into_si assms(1) zero r)
    with r sm False show ?thesis by (simp add: ms_signed_modulo_def)
  qed
qed

lemma ms_signed_modulo_loop_stays_negative:
  assumes "bigint_spec B" "0 < bits" "ms_signed_modulo_loop B bits ret n = Some r"
  shows "si_val n \<le> 0 \<Longrightarrow> 0 \<le> si_val ret"
  using assms(1,2)
proof (induction rule: ms_signed_modulo_loop.raw_induct [OF _ assms(3)])
  case (1 loop B bits ret n r)
  have zero: "si_val (ai_default bits True) = 0" by (simp add: si_val_def ai_default_def)
  show ?case
  proof (rule ccontr)
    assume neg: "\<not> 0 \<le> si_val ret"
    then obtain q where q: "ai_add B bits True ret n = Some q" "loop B bits q n = Some r"
      using "1.hyps" "1.prems" by (auto simp: ai_less_def ai_into_si zero bind_eq_Some_conv)
    then have "ai_from B bits True (si_val ret + si_val n) = Some q"
      using "1.prems" by (simp add: ai_add_def ai_into_si bind_eq_Some_conv Let_def split: if_splits)
    then have "si_val q = si_val ret + si_val n"
      using ai_from_signed [of B bits "si_val ret + si_val n"] "1.prems" by (auto split: if_splits)
    with "1.IH" [OF q(2)] "1.prems" neg show False by simp
  qed
qed

section \<open>Residues\<close>

lemma nm_mask_residue:
  assumes "nm_type B bits mx"
  shows "residue bits mx (if c then 2 ^ (bits - 1) - 1 else 0) (do { x \<leftarrow> ai_mask B bits c; nm_from B bits mx x })"
proof -
  obtain r where "ai_mask B bits c = Some r" "ai_ok bits r" "ai_val r = (if c then 2 ^ (bits - 1) - 1 else 0)"
    using ai_mask_value [of B bits c] assms by (auto simp: nm_type_def)
  with nm_from_residue [OF assms, of r] show ?thesis by simp
qed

lemma mask_set_residue:
  assumes "nm_type B bits mx" "residue bits mx (if c then k else 0) res"
  shows "mask_set B res = Some (c \<and> \<not> ai_val mx dvd k)"
proof -
  obtain r where r: "res = Some r" "ai_ok bits r" "ai_val r = (if c then k else 0) mod ai_val mx"
    using assms(2) by (auto simp: residue_def nm_ok_def)
  then show ?thesis using assms(1) by (auto simp: mask_set_def nm_type_def ai_into_val [of B bits] dvd_eq_mod_eq_0)
qed

lemma nm_literal_small:
  assumes "nm_type B bits mx" "uint x < ai_val mx"
  shows "\<exists>r. nm_from_literal B bits mx x = Some r \<and> nm_ok bits mx r \<and> ai_val r = uint x"
proof -
  have "uint x \<le> ai_max bits" using assms ai_val_bounds [of bits mx] by (simp add: nm_type_def)
  with ai_from_is_int [of B bits "uint x"] assms show ?thesis
    by (auto simp: nm_from_literal_def nm_type_def ai_into_uint_val nm_ok_def is_int_def)
qed

lemma mp_mask_residue:
  assumes "nm_type B bits mx" "2 \<le> ai_val mx"
  shows "residue bits mx (if c then 2 ^ (bits - 1) - 1 else 0) (mp_mask B bits mx c)"
proof (cases c)
  case True
  have ok: "bigint_spec B" "0 < bits" using assms(1) by (simp_all add: nm_type_def)
  obtain one where one: "mp_ONE B bits mx = Some one" "nm_ok bits mx one" "ai_val one = 1"
    using nm_literal_small [OF assms(1), of 1] assms(2) by (auto simp: mp_ONE_def)
  have "(2::int) ^ (bits - 1) \<le> ai_max bits" using ok(2) power_strict_increasing [of "bits - 1" bits "2::int"] by (simp add: ai_max_def)
  then obtain s where s: "ai_shl B bits False one (bits - 1) = Some s" "ai_ok bits s" "ai_val s = 2 ^ (bits - 1)"
    using ai_shl_is_int [OF ok, of one "bits - 1"] one by (auto simp: nm_ok_def is_int_def)
  then obtain x where x: "nm_shl B bits mx one (bits - 1) = Some x" "nm_ok bits mx x" "ai_val x = 2 ^ (bits - 1) mod ai_val mx"
    using nm_from_residue [OF assms(1) s(2)] by (auto simp: nm_shl_def residue_def)
  from nm_sub_residue [OF assms(1), of one x] show ?thesis
    using True ok one x assms(2) by (simp add: mp_mask_def residue_def mod_simps)
next
  case False
  then show ?thesis using nm_literal_small [OF assms(1), of 0] assms by (auto simp: mp_mask_def mp_ZERO_def residue_def)
qed

lemma mp_get_bit_value:
  assumes "nm_type B bits mx" "2 \<le> ai_val mx" "nm_ok bits mx a"
  shows "\<exists>r. mp_get_bit B bits mx a i = Some r \<and> nm_ok bits mx r \<and> ai_val r = ai_val a div 2 ^ i mod 2"
proof -
  have ok: "bigint_spec B" "0 < bits" and a: "ai_ok bits a" "ai_val a < ai_val mx" "0 \<le> ai_val a"
    using assms(1,3) ai_val_bounds [of bits a] by (simp_all add: nm_type_def nm_ok_def)
  obtain one where one: "mp_ONE B bits mx = Some one" "ai_ok bits one" "ai_val one = 1"
    using nm_literal_small [OF assms(1), of 1] assms(2) by (auto simp: mp_ONE_def nm_ok_def)
  obtain s where s: "ai_shr B bits False a i = Some s" "ai_ok bits s" "ai_val s = ai_val a div 2 ^ i"
    by (rule is_valE [OF ai_shr_is_val [OF ok a(1)]])
  obtain t where t: "nm_shr B bits mx a i = Some t" "ai_ok bits t" "ai_val t = ai_val a div 2 ^ i mod ai_val mx"
    using nm_from_residue [OF assms(1) s(2)] s by (auto simp: nm_shr_def residue_def nm_ok_def)
  have "ai_val a div 2 ^ i \<le> ai_val a" using a(3) by (rule div_power_le)
  then have "ai_val t = ai_val a div 2 ^ i" using a(2,3) t(3) by (simp add: pos_imp_zdiv_nonneg_iff)
  moreover obtain u where "ai_bitand B bits False t one = Some u" "ai_ok bits u" "ai_val u = ai_val t AND 1"
    using ai_bitand_is_val [OF ok t(2) one(2)] one(3) by (auto simp: is_val_def)
  moreover note nm_from_residue [OF assms(1), of u]
  ultimately show ?thesis using one t assms(2) by (auto simp: mp_get_bit_def nm_bitand_def residue_def and_one_eq)
qed

section \<open>Properties\<close>

text \<open>
  bits of the public unsigned integers. \<open>get_bit\<close> returns the bit. \<open>set_bit\<close> on a bit of the value panics for every type of fewer than 128 bits and for
  every bit from 128 on, because its literal is a \<open>u128\<close>; otherwise it sets the bit, but clears the bits of the value
  from 128 on. So only the types of exactly 128 bits have a \<open>set_bit\<close> that sets one bit.
\<close>

theorem math_bit_operations:
  assumes "bigint_spec B" "0 < bits" "ai_ok bits a" "ai_ok bits b" "ai_val b = of_bool c"
  shows "is_val bits (ai_val a div 2 ^ i mod 2) (mu_get_bit B bits a i)
    \<and> (i < bits \<longrightarrow>
        (if bits < 128 \<or> 128 \<le> i then mu_set_bit B bits a b i = None
         else is_val bits ((if c then set_bit else unset_bit) i (take_bit 128 (ai_val a))) (mu_set_bit B bits a b i)))"
  using mu_get_bit_is_val [OF assms(1-3)] mu_set_bit_value [OF assms] by blast

theorem math_bit_operations_witness:
  "mu_set_bit bigint_ref 6 (ai_example 40) (ai_example 1) 2 = None \<and>
   (\<exists>r. mu_get_bit bigint_ref 6 (ai_example 40) 3 = Some r \<and> ai_val r = 1)"
proof -
  have "ai_ok 6 (ai_example 40)" "ai_ok 6 (ai_example 1)" "ai_val (ai_example 1) = of_bool True"
    by (simp_all add: ai_example_ok)
  note t = math_bit_operations [OF bigint_ref_spec _ this]
  from t [of 2] t [of 3] show ?thesis by (auto simp: is_val_def ai_example_ok)
qed

text \<open>
  the rotations of the public unsigned integers never carry a bit around. For a size that is a power of two, rotating by \<open>n\<close> to the left
  returns the value shifted by \<open>n\<close>, and to the right the value shifted left by the complementary amount, when that fits; they panic
  whenever a bit would have to move to the other end.
\<close>

theorem math_rotations_panic:
  assumes "bigint_spec B" "ai_ok bits a" "bits = 2 ^ k" "k \<le> 31" "n < bits"
  shows "is_int bits (ai_val a * 2 ^ n) (mu_rotate_left B bits a n)
    \<and> is_int bits (ai_val a * 2 ^ ((bits - n) mod bits)) (mu_rotate_right B bits a n)"
  using mu_rotations_value [OF assms] by blast

theorem math_rotations_panic_witness:
  "mu_rotate_left bigint_ref 8 (ai_example 128) 1 = None \<and> mu_rotate_right bigint_ref 8 (ai_example 2) 1 = None"
proof -
  have ok: "ai_ok 8 (ai_example b)" for b using uint_byte [of b] by (simp add: ai_ok_def ai_example_def canvas_len_def ai_max_def be_value_Cons)
  show ?thesis
    using math_rotations_panic [OF bigint_ref_spec ok [of 128], of 3 1] math_rotations_panic [OF bigint_ref_spec ok [of 2], of 3 1]
    by (simp add: is_int_def ai_example_ok ai_max_def)
qed

text \<open>
  modular arithmetic of the public unsigned integers. \<open>add_mod\<close>, \<open>sub_mod\<close> and \<open>mul_mod\<close> return the residue when the intermediate
  result is in range and panic when it is not, in particular for a negative difference; \<open>pow_mod\<close> returns the residue of the power. \<open>exp\<close> returns
  the power modulo the largest value, not modulo the number of values: the largest value to the power one is zero.
\<close>

theorem math_modular_arithmetic:
  assumes "bigint_spec B" "0 < bits" "ai_ok bits a" "ai_ok bits b" "ai_ok bits n"
  shows "mod_result bits (ai_val a + ai_val b) (ai_val n) (mu_add_mod B bits a b n)
    \<and> mod_result bits (ai_val a - ai_val b) (ai_val n) (mu_sub_mod B bits a b n)
    \<and> mod_result bits (ai_val a * ai_val b) (ai_val n) (mu_mul_mod B bits a b n)
    \<and> (ai_val n \<noteq> 0 \<longrightarrow> is_val bits (ai_val a ^ nat (ai_val b) mod ai_val n) (mu_pow_mod B bits a b n))
    \<and> (if uint e \<le> ai_max bits then is_val bits (ai_val a ^ unat e mod ai_max bits) (mu_exp B bits a e)
       else mu_exp B bits a e = None)"
  unfolding mu_add_mod_def mu_sub_mod_def mu_mul_mod_def mu_pow_mod_def
  using ai_rem_mod_result [OF assms(1,2,5)] ai_add_is_int [OF assms(1-4)] ai_sub_is_int [OF assms(1-4)] ai_mul_is_int [OF assms(1-4)]
    ai_pow_felem_mod [OF assms] mu_exp_value [OF assms(1-3)] by blast

theorem math_modular_arithmetic_witness:
  "mu_sub_mod bigint_ref 6 (ai_example 2) (ai_example 3) (ai_example 5) = None \<and>
   (\<exists>r. mu_exp bigint_ref 6 (ai_example 63) 1 = Some r \<and> ai_val r = 0)"
proof -
  have ok: "ai_ok 6 (ai_example 2)" "ai_ok 6 (ai_example 3)" "ai_ok 6 (ai_example 5)" "ai_ok 6 (ai_example 63)"
    by (simp_all add: ai_example_ok)
  show ?thesis
    using math_modular_arithmetic [OF bigint_ref_spec _ ok(1-3), of 1] math_modular_arithmetic [OF bigint_ref_spec _ ok(4,2,3), of 1]
    by (auto simp: mod_result_def is_val_def ai_example_ok ai_max_def)
qed

text \<open>
  comparisons of the public unsigned integers. The comparisons are those of the values, except \<open>less_than_or_equal\<close>, which is greater or
  equal. The masks are the largest value when the comparison returns true and zero when it returns false.
\<close>

theorem math_comparisons:
  assumes "bigint_spec B" "0 < bits" "ai_ok bits a" "ai_ok bits b"
  shows "mu_equal B a b = (ai_val a = ai_val b) \<and> mu_greater_than B a b = (ai_val a > ai_val b)
    \<and> mu_greater_than_or_equal B a b = (ai_val a \<ge> ai_val b) \<and> mu_less_than B a b = (ai_val a < ai_val b)
    \<and> mu_less_than_or_equal B a b = (ai_val a \<ge> ai_val b)
    \<and> is_val bits (if ai_val a = ai_val b then ai_max bits else 0) (mu_equal_bm B bits a b)
    \<and> is_val bits (if ai_val a \<noteq> ai_val b then ai_max bits else 0) (mu_not_equal_bm B bits a b)
    \<and> is_val bits (if ai_val a > ai_val b then ai_max bits else 0) (mu_greater_than_bm B bits a b)
    \<and> is_val bits (if ai_val a \<ge> ai_val b then ai_max bits else 0) (mu_greater_than_or_equal_bm B bits a b)
    \<and> is_val bits (if ai_val a < ai_val b then ai_max bits else 0) (mu_less_than_bm B bits a b)
    \<and> is_val bits (if ai_val a \<ge> ai_val b then ai_max bits else 0) (mu_less_than_or_equal_bm B bits a b)"
proof -
  have v: "ai_into B a = ai_val a" "ai_into B b = ai_val b" using ai_into_val assms by blast+
  have e: "mu_equal B a b = (ai_val a = ai_val b)" "mu_greater_than B a b = (ai_val a > ai_val b)"
    "mu_greater_than_or_equal B a b = (ai_val a \<ge> ai_val b)" "mu_less_than B a b = (ai_val a < ai_val b)"
    "mu_less_than_or_equal B a b = (ai_val a \<ge> ai_val b)"
    by (auto simp: mu_equal_def mu_greater_than_def mu_greater_than_or_equal_def mu_less_than_def mu_less_than_or_equal_def
        ai_eq_def ai_less_def v)
  show ?thesis
    unfolding e mu_equal_bm_def mu_not_equal_bm_def mu_greater_than_bm_def mu_greater_than_or_equal_bm_def mu_less_than_bm_def
      mu_less_than_or_equal_bm_def
    by (intro conjI refl mu_mask_value [OF assms(1,2)])
qed

theorem math_comparisons_witness:
  "\<not> mu_less_than_or_equal bigint_ref (ai_example 2) (ai_example 3) \<and>
   (\<exists>r. mu_less_than_bm bigint_ref 6 (ai_example 2) (ai_example 3) = Some r \<and> ai_val r = 63)"
proof -
  have "ai_ok 6 (ai_example 2)" "ai_ok 6 (ai_example 3)" by (simp_all add: ai_example_ok)
  from math_comparisons [OF bigint_ref_spec _ this] show ?thesis by (auto simp: is_val_def ai_example_ok ai_max_def)
qed

text \<open>
  C31: \<open>signed_modulo\<close> of the public signed integers. For a positive modulus the loop ends and the result is the residue between zero and the
  modulus, also of a negative value. When the modulus is not positive and the truncated remainder is negative there is no
  result: the loop goes on until it panics, or forever.
\<close>

theorem signed_modulo_correct:
  assumes "bigint_spec B" "0 < bits" "si_ok bits n"
  shows "(0 < si_val n \<longrightarrow>
      (\<exists>r. ms_signed_modulo B bits a n = Some r \<and> si_ok bits r \<and> si_val r = si_val a mod si_val n))
    \<and> (si_val n \<le> 0 \<and> si_val a smod si_val n < 0 \<longrightarrow> ms_signed_modulo B bits a n = None)"
proof (intro conjI impI)
  assume "0 < si_val n"
  then show "\<exists>r. ms_signed_modulo B bits a n = Some r \<and> si_ok bits r \<and> si_val r = si_val a mod si_val n"
    by (rule ms_signed_modulo_value [OF assms])
next
  assume n: "si_val n \<le> 0 \<and> si_val a smod si_val n < 0"
  show "ms_signed_modulo B bits a n = None"
  proof (rule ccontr)
    assume "ms_signed_modulo B bits a n \<noteq> None"
    then obtain ret r where ret: "ms_modulo B bits a n = Some ret" "ms_signed_modulo_loop B bits ret n = Some r"
      by (auto simp: ms_signed_modulo_def bind_eq_Some_conv)
    then have "si_val ret = si_val a smod si_val n"
      using ai_from_signed [OF assms(1,2), of "si_val a smod si_val n"]
      by (auto simp: ms_modulo_def ai_rem_def ai_into_si assms(1) Let_def split: if_splits)
    with ms_signed_modulo_loop_stays_negative [OF assms(1,2) ret(2)] n show False by simp
  qed
qed

definition si_example :: "sign \<Rightarrow> u8 \<Rightarrow> abs_int" where
  "si_example s b = \<lparr>ai_b = [b], ai_sign = s, ai_signed = True\<rparr>"

theorem signed_modulo_correct_witness:
  "(\<exists>r. ms_signed_modulo bigint_ref 6 (si_example Sign_Minus 7) (si_example Sign_Plus 5) = Some r \<and> si_val r = 3) \<and>
   ms_signed_modulo bigint_ref 6 (si_example Sign_Minus 7) (si_example Sign_Minus 5) = None"
proof -
  have ok: "si_ok 6 (si_example Sign_Plus 5)" "si_ok 6 (si_example Sign_Minus 5)"
    by (simp_all add: si_ok_def si_example_def si_val_def canvas_len_def ai_max_def be_value_Cons)
  have v: "si_val (si_example Sign_Plus 5) = 5" "si_val (si_example Sign_Minus 5) = - 5" "si_val (si_example Sign_Minus 7) = - 7"
    by (simp_all add: si_example_def si_val_def be_value_Cons)
  show ?thesis
    using signed_modulo_correct [OF bigint_ref_spec _ ok(1), of "si_example Sign_Minus 7"]
      signed_modulo_correct [OF bigint_ref_spec _ ok(2), of "si_example Sign_Minus 7"]
    by (auto simp: v signed_modulo_int_def)
qed

text \<open>
  masks of the public signed integers. The mask of a true comparison is made from the literal minus one, which is cast to \<open>u128\<close>: for types of fewer
  than 128 bits it panics, for the others it is the positive number \<open>2 ^ 128 - 1\<close> and not minus one. The mask of a false comparison is zero.
\<close>

theorem signed_masks:
  assumes "bigint_spec B" "0 < bits"
  shows "(\<exists>r. ms_equal_bm B bits a b = (if si_val a = si_val b then (if bits < 128 then None else Some r) else Some r) \<and>
       si_val r = (if si_val a = si_val b \<and> 128 \<le> bits then 2 ^ 128 - 1 else 0))
    \<and> (\<exists>r. ms_less_than_bm B bits a b = (if si_val a < si_val b then (if bits < 128 then None else Some r) else Some r) \<and>
       si_val r = (if si_val a < si_val b \<and> 128 \<le> bits then 2 ^ 128 - 1 else 0))"
proof -
  have "\<exists>r. ms_mask B bits c = (if c then (if bits < 128 then None else Some r) else Some r) \<and>
      si_val r = (if c \<and> 128 \<le> bits then 2 ^ 128 - 1 else 0)" for c
    by (rule ms_mask_value [OF assms])
  then show ?thesis
    by (simp only: ms_equal_bm_def ms_equal_def ai_eq_def ms_less_than_bm_def ms_less_than_def ai_less_def ai_into_si [OF assms(1)])
qed

theorem signed_masks_witness:
  "ms_equal_bm bigint_ref 6 (si_example Sign_Plus 5) (si_example Sign_Plus 5) = None \<and>
   (\<exists>r. ms_less_than_bm bigint_ref 6 (si_example Sign_Plus 5) (si_example Sign_Plus 5) = Some r \<and> si_val r = 0)"
  using signed_masks [OF bigint_ref_spec, of 6 "si_example Sign_Plus 5" "si_example Sign_Plus 5"] by auto

text \<open>
  comparisons of residues. The masks of the public type are zero when the comparison is false and otherwise the residue of the number with
  all bits but the highest. The comparisons of the secret type test such a mask: they are right unless the modulus divides that number;
  then each of them always returns false, also on equal values.
\<close>

theorem nat_mod_comparisons:
  assumes "nm_type B bits mx" "2 \<le> ai_val mx" "nm_ok bits mx a" "nm_ok bits mx b"
  defines "k \<equiv> 2 ^ (bits - 1) - 1" and "lost \<equiv> ai_val mx dvd 2 ^ (bits - 1) - 1"
  shows "residue bits mx (if ai_val a = ai_val b then k else 0) (mp_equal_bm B bits mx a b)
    \<and> residue bits mx (if ai_val a < ai_val b then k else 0) (mp_less_than_bm B bits mx a b)
    \<and> residue bits mx (if ai_val a \<le> ai_val b then k else 0) (mp_less_than_or_equal_bm B bits mx a b)
    \<and> mn_equal B bits mx a b = Some (ai_val a = ai_val b \<and> \<not> lost)
    \<and> mn_greater_than B bits mx a b = Some (ai_val a > ai_val b \<and> \<not> lost)
    \<and> mn_greater_than_or_equal B bits mx a b = Some (ai_val a \<ge> ai_val b \<and> \<not> lost)
    \<and> mn_less_than B bits mx a b = Some (ai_val a < ai_val b \<and> \<not> lost)
    \<and> mn_less_than_or_equal B bits mx a b = Some (ai_val a \<le> ai_val b \<and> \<not> lost)"
proof -
  have v: "ai_into B a = ai_val a" "ai_into B b = ai_val b"
    using assms by (auto simp: nm_type_def nm_ok_def intro: ai_into_val)
  note m = mask_set_residue [OF assms(1) nm_mask_residue [OF assms(1)], folded k_def]
  show ?thesis
    unfolding mn_equal_def mn_greater_than_def mn_greater_than_or_equal_def mn_less_than_def mn_less_than_or_equal_def
      nm_comp_eq_def nm_comp_gt_def nm_comp_gte_def nm_comp_lt_def nm_comp_lte_def
      ai_comp_eq_def ai_comp_gt_def ai_comp_gte_def ai_comp_lt_def ai_comp_lte_def m
      mp_equal_bm_def mp_less_than_bm_def mp_less_than_or_equal_bm_def nm_eq_def ai_eq_def ai_less_def v not_less
    using mp_mask_residue [OF assms(1,2), folded k_def] by (simp add: lost_def k_def)
qed

theorem nat_mod_comparisons_witness:
  "mn_equal bigint_ref 8 (ai_example 127) (ai_example 5) (ai_example 5) = Some False \<and>
   mn_equal bigint_ref 6 (ai_example 13) (ai_example 5) (ai_example 5) = Some True"
proof -
  have ty: "nm_type bigint_ref 8 (ai_example 127)" "nm_ok 8 (ai_example 127) (ai_example 5)"
    by (simp_all add: nm_type_def nm_ok_def bigint_ref_spec ai_ok_def ai_example_def canvas_len_def ai_max_def ai_val_def be_value_Cons)
  show ?thesis
    using nat_mod_comparisons [OF ty(1) _ ty(2) ty(2)] nat_mod_comparisons [OF nm_example(1) _ nm_example(2) [of 5] nm_example(2) [of 5]]
    by (simp add: ai_example_ok)
qed

end
