(* ===== verification/Signed_Integers.thy ===== *)
theory Signed_Integers
  imports Machine_Integers Nat_Mod "HOL-Library.Signed_Division"
begin

text \<open>
  The signed public machine integers of \<open>lib/src/machine_integers.rs\<close> (\<open>implement_public_signed_mi!\<close> and the parts of \<open>implement_public_mi!\<close> that depend on the sign), the dictionary
  of the traits with the modular operations, and the inverse modulo \<open>n\<close> of \<open>lib/src/math_util/mod.rs\<close>. The crate \<open>num_bigint\<close>, on which \<open>pow_mod\<close> rests, is the parameter \<open>B\<close> of \<open>Abstract_Integers\<close>.

  The locale \<open>modular_integer\<close> states what the generic code of the library expects of an integer type: the operations on the numbers \<open>mk z\<close> for \<open>z\<close> between zero and a bound are those on
  the integers as long as the results stay below the bound. It is interpreted on the signed and on the unsigned public integers, and the inverse is proved in it.
\<close>

section \<open>Signed public integers\<close>

abbreviation sfits :: "'a::len itself \<Rightarrow> int \<Rightarrow> bool" where
  "sfits w z \<equiv> - (2 ^ (LENGTH('a) - 1)) \<le> z \<and> z < 2 ^ (LENGTH('a) - 1)"

text \<open>An operation whose result is computed exactly and panics when it does not fit.\<close>

definition schecked :: "int \<Rightarrow> 'a::len word option" where
  "schecked z = (if sfits TYPE('a) z then Some (word_of_int z) else None)"

definition ps_add :: "'a::len word \<Rightarrow> 'a word \<Rightarrow> 'a word option" where
  [mi_defs]: "ps_add x y = schecked (sint x + sint y)"

definition ps_sub :: "'a::len word \<Rightarrow> 'a word \<Rightarrow> 'a word option" where
  [mi_defs]: "ps_sub x y = schecked (sint x - sint y)"

definition ps_mul :: "'a::len word \<Rightarrow> 'a word \<Rightarrow> 'a word option" where
  [mi_defs]: "ps_mul x y = schecked (sint x * sint y)"

text \<open>Division truncates towards zero; the least value divided by \<open>-1\<close> overflows, and so does its remainder.\<close>

definition ps_div :: "'a::len word \<Rightarrow> 'a word \<Rightarrow> 'a word option" where
  [mi_defs]: "ps_div x y = (if y = 0 then None else schecked (sint x sdiv sint y))"

definition ps_rem :: "'a::len word \<Rightarrow> 'a word \<Rightarrow> 'a word option" where
  [mi_defs]: "ps_rem x y = (if y = 0 then None else do { q :: 'a word \<leftarrow> schecked (sint x sdiv sint y); schecked (sint x smod sint y) })"

definition ps_wrap_div :: "'a::len word \<Rightarrow> 'a word \<Rightarrow> 'a word option" where
  [mi_defs]: "ps_wrap_div x y = (if y = 0 then None else Some (word_of_int (sint x sdiv sint y)))"

definition ps_shr :: "'a::len word \<Rightarrow> usize \<Rightarrow> 'a word option" where
  [mi_defs]: "ps_shr x n = (if n < LENGTH('a) then Some (signed_drop_bit n x) else None)"

definition ps_get_bit :: "'a::len word \<Rightarrow> usize \<Rightarrow> 'a word option" where
  [mi_defs]: "ps_get_bit self i = do { s \<leftarrow> ps_shr self i; Some (s AND 1) }"

definition ps_set :: "'a::len word \<Rightarrow> usize \<Rightarrow> 'a word \<Rightarrow> usize \<Rightarrow> 'a word option" where
  [mi_defs]: "ps_set self pos y yi = do { b \<leftarrow> ps_get_bit y yi; pu_set_bit self b pos }"

definition ps_rotate_left :: "'a::len word \<Rightarrow> usize \<Rightarrow> 'a word option" where
  [mi_defs]: "ps_rotate_left self n = do {
     rust_assert (n < LENGTH('a));
     l \<leftarrow> pu_shl self n;
     r \<leftarrow> ps_shr self (neg_amount LENGTH('a) n);
     Some (l OR r)
   }"

definition ps_rotate_right :: "'a::len word \<Rightarrow> usize \<Rightarrow> 'a word option" where
  [mi_defs]: "ps_rotate_right self n = do {
     rust_assert (n < LENGTH('a));
     r \<leftarrow> ps_shr self n;
     l \<leftarrow> pu_shl self (neg_amount LENGTH('a) n);
     Some (r OR l)
   }"

text \<open>\<open>self.pow(exp)\<close> panics when the power does not fit.\<close>

definition ps_exp :: "'a::len word \<Rightarrow> u32 \<Rightarrow> 'a word option" where
  [mi_defs]: "ps_exp x e = schecked (sint x ^ unat e)"

definition ps_absolute :: "'a::len word \<Rightarrow> 'a word option" where
  [mi_defs]: "ps_absolute x = schecked \<bar>sint x\<bar>"

text \<open>\<open>while ret.less_than(ZERO) { ret = ret + n; }\<close>\<close>

partial_function (option) ps_signed_modulo_loop :: "'a::len word \<Rightarrow> 'a word \<Rightarrow> 'a word option" where
  "ps_signed_modulo_loop ret n = (if sint ret < 0 then ps_add ret n \<bind> (\<lambda>ret. ps_signed_modulo_loop ret n) else Some ret)"

definition ps_signed_modulo :: "'a::len word \<Rightarrow> 'a word \<Rightarrow> 'a word option" where
  "ps_signed_modulo self n = do { ret \<leftarrow> ps_rem self n; ps_signed_modulo_loop ret n }"

definition ps_sub_mod :: "'a::len word \<Rightarrow> 'a word \<Rightarrow> 'a word \<Rightarrow> 'a word option" where
  "ps_sub_mod self rhs n = do { d \<leftarrow> ps_sub self rhs; ps_signed_modulo d n }"

definition ps_add_mod :: "'a::len word \<Rightarrow> 'a word \<Rightarrow> 'a word \<Rightarrow> 'a word option" where
  "ps_add_mod self rhs n = do { d \<leftarrow> ps_add self rhs; ps_signed_modulo d n }"

definition ps_mul_mod :: "'a::len word \<Rightarrow> 'a word \<Rightarrow> 'a word \<Rightarrow> 'a word option" where
  "ps_mul_mod self rhs n = do { d \<leftarrow> ps_mul self rhs; ps_signed_modulo d n }"

text \<open>The power is computed by \<open>BigInt::modpow\<close>, printed and read again.\<close>

definition ps_pow_mod :: "num_bigint \<Rightarrow> 'a::len word \<Rightarrow> 'a word \<Rightarrow> 'a word \<Rightarrow> 'a word option" where
  "ps_pow_mod B self e n = do { r \<leftarrow> modpow B (sint self) (sint e) (sint n); schecked r }"

definition ps_greater_than_or_equal_bm :: "'a::len word \<Rightarrow> 'a word \<Rightarrow> 'a word" where
  [mi_defs]: "ps_greater_than_or_equal_bm self other = (if sint self \<ge> sint other then - 1 else 0)"

section \<open>The dictionary\<close>

record 't integer = "'t numeric" +
  n_divide :: "'t \<Rightarrow> 't \<Rightarrow> 't option"
  n_modulo :: "'t \<Rightarrow> 't \<Rightarrow> 't option"
  n_signed_modulo :: "'t \<Rightarrow> 't \<Rightarrow> 't option"
  n_absolute :: "'t \<Rightarrow> 't option"
  n_sub_mod :: "'t \<Rightarrow> 't \<Rightarrow> 't \<Rightarrow> 't option"
  n_add_mod :: "'t \<Rightarrow> 't \<Rightarrow> 't \<Rightarrow> 't option"
  n_mul_mod :: "'t \<Rightarrow> 't \<Rightarrow> 't \<Rightarrow> 't option"
  n_pow_mod :: "'t \<Rightarrow> 't \<Rightarrow> 't \<Rightarrow> 't option"

definition signed_integer :: "num_bigint \<Rightarrow> 'a::len word integer" where
  "signed_integer B = \<lparr> n_default = 0, ZERO = 0, ONE = 1, TWO = 2, NUM_BITS = LENGTH('a),
     n_add = ps_add, n_sub = ps_sub, n_mul = ps_mul, n_xor = (XOR), n_and = (AND),
     n_shl = pu_shl, get_bit = ps_get_bit, n_set_bit = pu_set_bit, n_set = ps_set,
     wrap_add = (+), wrap_sub = (-), wrap_mul = (*),
     equal_fn = (=), greater_than = (\<lambda>x y. sint x > sint y), less_than = (\<lambda>x y. sint x < sint y),
     greater_than_or_equal_bm = ps_greater_than_or_equal_bm,
     n_divide = ps_div, n_modulo = ps_rem, n_signed_modulo = ps_signed_modulo, n_absolute = ps_absolute,
     n_sub_mod = ps_sub_mod, n_add_mod = ps_add_mod, n_mul_mod = ps_mul_mod, n_pow_mod = ps_pow_mod B \<rparr>"

text \<open>\<open>pow_mod\<close> of the unsigned public integers is \<open>unimplemented!()\<close>; \<open>signed_modulo\<close> and \<open>modulo\<close> are the same there.\<close>

definition pu_divide :: "'a::len word \<Rightarrow> 'a word \<Rightarrow> 'a word option" where
  [mi_defs]: "pu_divide x y = (if y = 0 then None else Some (x div y))"

definition unsigned_integer :: "'a::len word integer" where
  "unsigned_integer = \<lparr> n_default = 0, ZERO = 0, ONE = 1, TWO = 2, NUM_BITS = LENGTH('a),
     n_add = pu_add, n_sub = pu_sub, n_mul = pu_mul, n_xor = (XOR), n_and = (AND),
     n_shl = pu_shl, get_bit = pu_get_bit, n_set_bit = pu_set_bit, n_set = pu_set,
     wrap_add = (+), wrap_sub = (-), wrap_mul = (*),
     equal_fn = (=), greater_than = (\<lambda>x y. x > y), less_than = (<),
     greater_than_or_equal_bm = pu_greater_than_or_equal_bm,
     n_divide = pu_divide, n_modulo = pu_rem, n_signed_modulo = pu_rem, n_absolute = Some,
     n_sub_mod = pu_sub_mod, n_add_mod = pu_add_mod, n_mul_mod = pu_mul_mod, n_pow_mod = (\<lambda>x e n. None) \<rparr>"

section \<open>The inverse modulo n\<close>

text \<open>\<open>while tmp_r.less_than(tmp_prod) { tmp_r = tmp_r + n; }\<close>\<close>

partial_function (option) add_until :: "'t integer \<Rightarrow> 't \<Rightarrow> 't \<Rightarrow> 't \<Rightarrow> 't option" where
  "add_until T tmp_prod n tmp = (if less_than T tmp tmp_prod then n_add T tmp n \<bind> (\<lambda>tmp. add_until T tmp_prod n tmp) else Some tmp)"

definition euclid_step :: "'t integer \<Rightarrow> 't \<Rightarrow> 't \<times> 't \<times> 't \<times> 't \<Rightarrow> ('t \<times> 't \<times> 't \<times> 't) option" where
  "euclid_step T n = (\<lambda>(t, r, new_t, new_r). do {
     q \<leftarrow> n_divide T r new_r;
     tmp_prod \<leftarrow> n_mul T q new_r;
     tmp_r \<leftarrow> add_until T tmp_prod n r;
     new_r' \<leftarrow> n_sub T tmp_r tmp_prod;
     tmp_prod \<leftarrow> n_mul T q new_t;
     tmp_t \<leftarrow> add_until T tmp_prod n t;
     new_t' \<leftarrow> n_sub T tmp_t tmp_prod;
     Some (new_t, new_r, new_t', new_r')
   })"

partial_function (option) euclid_loop :: "'t integer \<Rightarrow> 't \<Rightarrow> 't \<times> 't \<times> 't \<times> 't \<Rightarrow> ('t \<times> 't \<times> 't \<times> 't) option" where
  "euclid_loop T n s = (if \<not> equal_fn T (snd (snd (snd s))) (ZERO T) then euclid_step T n s \<bind> euclid_loop T n else Some s)"

definition extended_euclid_invert :: "'t integer \<Rightarrow> 't \<Rightarrow> 't \<Rightarrow> bool \<Rightarrow> 't option" where
  "extended_euclid_invert T x n signed' = do {
     (t, r, new_t, new_r) \<leftarrow> euclid_loop T n (ZERO T, n, ONE T, x);
     rust_assert (\<not> (greater_than T r (ONE T) \<and> \<not> equal_fn T x (ZERO T)));
     if less_than T t (ZERO T) then (if signed' then n_absolute T t else n_add T t n) else Some t
   }"

text \<open>\<open>inv\<close> of the trait.\<close>

definition n_inv :: "'t integer \<Rightarrow> 't \<Rightarrow> 't \<Rightarrow> 't option" where
  "n_inv T self n = extended_euclid_invert T self n False"

lemma mod_mult_diff: "(a mod n * x - c) mod n = (a * x - c) mod (n :: int)"
  by (metis mod_diff_left_eq mod_mult_left_eq)

section \<open>What the generic code expects of an integer type\<close>

locale modular_integer =
  fixes T :: "'t integer" and mk :: "int \<Rightarrow> 't" and M :: int
  assumes const_eqs: "n_default T = mk 0" "ZERO T = mk 0" "ONE T = mk 1" "TWO T = mk 2"
    and bound: "2 \<le> M"
    and eq_iff: "0 \<le> a \<Longrightarrow> a \<le> M \<Longrightarrow> 0 \<le> b \<Longrightarrow> b \<le> M \<Longrightarrow> equal_fn T (mk a) (mk b) \<longleftrightarrow> a = b"
    and lt_iff: "0 \<le> a \<Longrightarrow> a \<le> M \<Longrightarrow> 0 \<le> b \<Longrightarrow> b \<le> M \<Longrightarrow> less_than T (mk a) (mk b) \<longleftrightarrow> a < b"
    and gt_iff: "0 \<le> a \<Longrightarrow> a \<le> M \<Longrightarrow> 0 \<le> b \<Longrightarrow> b \<le> M \<Longrightarrow> greater_than T (mk a) (mk b) \<longleftrightarrow> b < a"
    and add: "0 \<le> a \<Longrightarrow> 0 \<le> b \<Longrightarrow> a + b \<le> M \<Longrightarrow> n_add T (mk a) (mk b) = Some (mk (a + b))"
    and sub: "0 \<le> b \<Longrightarrow> b \<le> a \<Longrightarrow> a \<le> M \<Longrightarrow> n_sub T (mk a) (mk b) = Some (mk (a - b))"
    and mul: "0 \<le> a \<Longrightarrow> a \<le> M \<Longrightarrow> 0 \<le> b \<Longrightarrow> b \<le> M \<Longrightarrow> a * b \<le> M \<Longrightarrow> n_mul T (mk a) (mk b) = Some (mk (a * b))"
    and divide: "0 \<le> a \<Longrightarrow> a \<le> M \<Longrightarrow> 0 < b \<Longrightarrow> b \<le> M \<Longrightarrow> n_divide T (mk a) (mk b) = Some (mk (a div b))"
    and modulo_eq: "0 \<le> a \<Longrightarrow> a \<le> M \<Longrightarrow> 0 < n \<Longrightarrow> n \<le> M \<Longrightarrow> n_modulo T (mk a) (mk n) = Some (mk (a mod n))"
    and signed_modulo_eq: "0 \<le> a \<Longrightarrow> a \<le> M \<Longrightarrow> 0 < n \<Longrightarrow> n \<le> M \<Longrightarrow> n_signed_modulo T (mk a) (mk n) = Some (mk (a mod n))"
    and sub_mod: "0 \<le> a \<Longrightarrow> a < n \<Longrightarrow> 0 \<le> b \<Longrightarrow> b < n \<Longrightarrow> 2 * n \<le> M \<Longrightarrow> n_sub_mod T (mk a) (mk b) (mk n) = Some (mk ((a - b) mod n))"
    and add_mod: "0 \<le> a \<Longrightarrow> 0 \<le> b \<Longrightarrow> a + b \<le> M \<Longrightarrow> 0 < n \<Longrightarrow> n \<le> M \<Longrightarrow> n_add_mod T (mk a) (mk b) (mk n) = Some (mk ((a + b) mod n))"
begin

text \<open>The loops that make a subtraction possible: they end, on the first sum that is large enough.\<close>

lemma add_until:
  assumes "0 \<le> a" "a \<le> M" "0 \<le> p" "0 < n" "p + n \<le> M"
  shows "\<exists>k. 0 \<le> k \<and> p \<le> a + k * n \<and> a + k * n \<le> max a (p + n - 1) \<and> add_until T (mk p) (mk n) (mk a) = Some (mk (a + k * n))"
  using assms
proof (induction "nat (p - a)" arbitrary: a rule: less_induct)
  case less
  have u: "add_until T (mk p) (mk n) (mk a) = (if a < p then n_add T (mk a) (mk n) \<bind> add_until T (mk p) (mk n) else Some (mk a))"
    using less.prems by (simp add: add_until.simps [of T "mk p" "mk n" "mk a"] lt_iff)
  show ?case
  proof (cases "a < p")
    case True
    then obtain k where "0 \<le> k" "p \<le> (a + n) + k * n" "(a + n) + k * n \<le> max (a + n) (p + n - 1)"
      "add_until T (mk p) (mk n) (mk (a + n)) = Some (mk ((a + n) + k * n))"
      using less.hyps [of "a + n"] less.prems by auto
    then show ?thesis using True less.prems u add [of a n] by (intro exI [of _ "k + 1"]) (auto simp: algebra_simps)
  next
    case False
    then show ?thesis using less.prems u by (intro exI [of _ 0]) auto
  qed
qed

lemma add_until_done:
  assumes "0 \<le> p" "p \<le> a" "a \<le> M"
  shows "add_until T (mk p) (mk n) (mk a) = Some (mk a)"
  using assms by (simp add: add_until.simps [of T "mk p" "mk n" "mk a"] lt_iff)

lemma euclid_step:
  assumes n: "0 < n" "n * n \<le> M" and r: "0 < b" "b \<le> r" "r \<le> n" and t: "0 \<le> t" "t < n" "0 \<le> u" "u < n"
  shows "euclid_step T (mk n) (mk t, mk r, mk u, mk b) = Some (mk u, mk b, mk ((t - r div b * u) mod n), mk (r mod b))"
proof -
  let ?q = "r div b" and ?p = "r div b * u"
  have "n \<le> n * n" using n by simp
  then have nM: "n \<le> M" using n(2) by (rule order_trans)
  have q: "0 \<le> ?q" "?q \<le> n" using r by (auto simp: pos_imp_zdiv_nonneg_iff intro: order_trans [OF zdiv_mono2 [of r 1 b, simplified]])
  have p: "0 \<le> ?p" "?p + n \<le> M"
  proof -
    show "0 \<le> ?p" using q t by simp
    have "?p \<le> n * (n - 1)" using q t n by (intro mult_mono) auto
    then show "?p + n \<le> M" using n by (simp add: algebra_simps)
  qed
  have rest: "r - ?q * b = r mod b" by (simp add: minus_div_mult_eq_mod)
  have "0 \<le> r - ?q * b" unfolding rest using r by simp
  then have qb: "?q * b \<le> r" "0 \<le> ?q * b" using r q by simp_all
  obtain k where k: "?p \<le> t + k * n" "t + k * n \<le> max t (?p + n - 1)" "add_until T (mk ?p) (mk n) (mk t) = Some (mk (t + k * n))"
    using add_until [of t ?p n] t p n nM by auto
  have "(t + k * n - ?p) mod n = (t - ?p) mod n" by (simp add: algebra_simps) (metis add_diff_eq diff_add_eq mod_mult_self1)
  moreover have "0 \<le> t + k * n - ?p" "t + k * n - ?p < n" using k p t by auto
  ultimately have v: "t + k * n - ?p = (t - ?p) mod n" by (metis mod_pos_pos_trivial)
  show ?thesis using q p qb r t nM k
    by (simp add: euclid_step_def divide mul add_until_done sub v rest)
qed

text \<open>The loop keeps \<open>t x\<close> and \<open>r\<close> congruent and the greatest common divisor; it ends because the remainders decrease.\<close>

lemma euclid_loop:
  assumes n: "0 < n" "n * n \<le> M" and r: "0 \<le> b" "b < r" "r \<le> n" and t: "0 \<le> t" "t < n" "0 \<le> u" "u < n"
    and inv: "n dvd t * x - r" "n dvd u * x - b"
  shows "\<exists>t' u'. 0 \<le> t' \<and> t' < n \<and> n dvd t' * x - gcd r b \<and> euclid_loop T (mk n) (mk t, mk r, mk u, mk b) = Some (mk t', mk (gcd r b), mk u', mk 0)"
  using r t inv
proof (induction "nat b" arbitrary: t r u b rule: less_induct)
  case less
  have "n \<le> n * n" using n by simp
  then have nM: "n \<le> M" using n(2) by (rule order_trans)
  have unf: "euclid_loop T (mk n) (mk t, mk r, mk u, mk b) =
      (if b \<noteq> 0 then euclid_step T (mk n) (mk t, mk r, mk u, mk b) \<bind> euclid_loop T (mk n) else Some (mk t, mk r, mk u, mk b))"
    using less.prems nM by (simp add: euclid_loop.simps [of T "mk n" "(mk t, mk r, mk u, mk b)"] const_eqs eq_iff)
  show ?case
  proof (cases "b = 0")
    case True
    then show ?thesis using less.prems unf by auto
  next
    case False
    let ?v = "(t - r div b * u) mod n"
    have "n dvd (t * x - r) - r div b * (u * x - b)" using less.prems by simp
    moreover have "(t * x - r) - r div b * (u * x - b) = (t - r div b * u) * x - r mod b"
      by (simp add: algebra_simps minus_div_mult_eq_mod [symmetric])
    ultimately have "n dvd (t - r div b * u) * x - r mod b" by simp
    then have "n dvd ?v * x - r mod b" by (simp only: dvd_eq_mod_eq_0 mod_mult_diff)
    moreover have "gcd b (r mod b) = gcd r b" by (simp add: gcd_red_int [symmetric])
    ultimately obtain t' u' where "0 \<le> t'" "t' < n" "n dvd t' * x - gcd r b"
      "euclid_loop T (mk n) (mk u, mk b, mk ?v, mk (r mod b)) = Some (mk t', mk (gcd r b), mk u', mk 0)"
      using less.hyps [of "r mod b" b u ?v] less.prems False n by auto
    then show ?thesis using unf False euclid_step [OF n, of b r t u] less.prems by auto
  qed
qed

lemma extended_euclid_invert:
  assumes x: "0 < x" "x < n" "coprime x n" and n: "n * n \<le> M"
  shows "\<exists>t. 0 \<le> t \<and> t < n \<and> x * t mod n = 1 \<and> extended_euclid_invert T (mk x) (mk n) signed' = Some (mk t)"
proof -
  have "n \<le> n * n" using x by simp
  then have nM: "n \<le> M" using n by (rule order_trans)
  obtain t u where t: "0 \<le> t" "t < n" "n dvd t * x - gcd n x" and l: "euclid_loop T (mk n) (mk 0, mk n, mk 1, mk x) = Some (mk t, mk (gcd n x), mk u, mk 0)"
    using euclid_loop [of n x n 0 1 x] x n by auto
  have g: "gcd n x = 1" using x(3) by (metis coprime_commute coprime_iff_gcd_eq_1)
  have "x * t mod n = 1" using t(3) x unfolding g by (metis mod_eq_dvd_iff mod_pos_pos_trivial mult.commute zero_le_one less_le_trans int_one_le_iff_zero_less order_le_less_trans)
  then show ?thesis using t l x nM bound by (auto simp: extended_euclid_invert_def const_eqs g gt_iff lt_iff)
qed

end

section \<open>The machine integers as instances\<close>

lemma uint_of_int: "0 \<le> a \<Longrightarrow> a < 2 ^ LENGTH('a) \<Longrightarrow> uint (word_of_int a :: 'a::len word) = a"
  by (simp add: uint_word_of_int take_bit_int_eq_self)

lemma unat_of_int: "0 \<le> a \<Longrightarrow> a < 2 ^ LENGTH('a) \<Longrightarrow> unat (word_of_int a :: 'a::len word) = nat a"
  by (simp only: unat_eq_nat_uint uint_of_int)

lemma sint_of_int: "sfits TYPE('a) a \<Longrightarrow> sint (word_of_int a :: 'a::len word) = a"
  by (simp add: sint_sbintrunc' signed_take_bit_int_eq_self)

lemma pu_mk:
  fixes a b :: int
  assumes "0 \<le> a" "0 \<le> b" "a < 2 ^ LENGTH('a)" "b < 2 ^ LENGTH('a)"
  shows "a + b < 2 ^ LENGTH('a) \<Longrightarrow> pu_add (word_of_int a :: 'a::len word) (word_of_int b) = Some (word_of_int (a + b))"
    and "b \<le> a \<Longrightarrow> pu_sub (word_of_int a :: 'a::len word) (word_of_int b) = Some (word_of_int (a - b))"
    and "a * b < 2 ^ LENGTH('a) \<Longrightarrow> pu_mul (word_of_int a :: 'a::len word) (word_of_int b) = Some (word_of_int (a * b))"
    and "0 < b \<Longrightarrow> pu_divide (word_of_int a :: 'a::len word) (word_of_int b) = Some (word_of_int (a div b))"
    and "0 < b \<Longrightarrow> pu_rem (word_of_int a :: 'a::len word) (word_of_int b) = Some (word_of_int (a mod b))"
proof -
  let ?a = "word_of_int a :: 'a word" and ?b = "word_of_int b :: 'a word"
  note u = uint_of_int [OF assms(1,3)] uint_of_int [OF assms(2,4)] and n = unat_of_int [OF assms(1,3)] unat_of_int [OF assms(2,4)]
  have nz: "?b \<noteq> 0" if "0 < b" using u(2) that by (metis less_irrefl unsigned_0)
  show "a + b < 2 ^ LENGTH('a) \<Longrightarrow> pu_add ?a ?b = Some (word_of_int (a + b))"
    using assms by (simp add: pu_add_def n nat_add_distrib [symmetric] nat_less_iff)
  show "b \<le> a \<Longrightarrow> pu_sub ?a ?b = Some (word_of_int (a - b))"
    by (simp add: pu_sub_def word_le_def u)
  show "a * b < 2 ^ LENGTH('a) \<Longrightarrow> pu_mul ?a ?b = Some (word_of_int (a * b))"
    using assms by (simp add: pu_mul_def n nat_mult_distrib [symmetric] nat_less_iff)
  show "0 < b \<Longrightarrow> pu_divide ?a ?b = Some (word_of_int (a div b))" using nz by (simp add: pu_divide_def word_div_def u)
  show "0 < b \<Longrightarrow> pu_rem ?a ?b = Some (word_of_int (a mod b))" using nz by (simp add: pu_rem_def word_mod_def u)
qed

lemma pu_sub_mod_mk:
  assumes "0 \<le> a" "a < n" "0 \<le> b" "b < n" "2 * n \<le> 2 ^ LENGTH('a) - 1"
  shows "pu_sub_mod (word_of_int a :: 'a::len word) (word_of_int b) (word_of_int n) = Some (word_of_int ((a - b) mod n))"
proof -
  have lt: "(word_of_int c :: 'a word) < word_of_int b \<longleftrightarrow> c < b" if "0 \<le> c" "c < 2 * n" for c
    using that assms by (simp add: word_less_def uint_of_int)
  have nz: "(word_of_int n :: 'a word) \<noteq> 0" using uint_of_int [of n, where 'a = 'a] assms by auto
  let ?c = "if a < b then a + n else a"
  have "pu_sub_mod_loop (word_of_int a :: 'a word) (word_of_int b) (word_of_int n) = Some (word_of_int ?c)"
    using assms nz lt [of a] lt [of "a + n"]
    by (simp add: pu_sub_mod_loop.simps [of "word_of_int a"] pu_sub_mod_loop.simps [of "word_of_int a + word_of_int n"] pu_mk)
  moreover have "(?c - b) mod n = (a - b) mod n" by (simp add: diff_add_eq [symmetric])
  moreover have "0 \<le> ?c - b" "?c - b < 2 * n" using assms by auto
  ultimately show ?thesis using assms by (simp only: pu_sub_mod_def Option.bind.bind_lunit pu_mk(2)) (simp add: pu_mk)
qed

lemma pu_add_mod_mk:
  assumes "0 \<le> a" "0 \<le> b" "a + b < 2 ^ LENGTH('a)" "0 < n" "n < 2 ^ LENGTH('a)"
  shows "pu_add_mod (word_of_int a :: 'a::len word) (word_of_int b) (word_of_int n) = Some (word_of_int ((a + b) mod n))"
  using assms pu_mk(1) [of a b, where 'a = 'a] pu_mk(5) [of "a + b" n, where 'a = 'a] by (simp add: pu_add_mod_def)

lemma sdiv_pos: "0 \<le> a \<Longrightarrow> 0 < b \<Longrightarrow> a sdiv b = a div (b :: int)"
  by (simp add: signed_divide_int_def zsgn_def)

lemma ps_mk:
  fixes a b :: int
  assumes "sfits TYPE('a) a" "sfits TYPE('a) b"
  shows "sfits TYPE('a) (a + b) \<Longrightarrow> ps_add (word_of_int a :: 'a::len word) (word_of_int b) = Some (word_of_int (a + b))"
    and "sfits TYPE('a) (a - b) \<Longrightarrow> ps_sub (word_of_int a :: 'a::len word) (word_of_int b) = Some (word_of_int (a - b))"
    and "sfits TYPE('a) (a * b) \<Longrightarrow> ps_mul (word_of_int a :: 'a::len word) (word_of_int b) = Some (word_of_int (a * b))"
    and "0 \<le> a \<Longrightarrow> 0 < b \<Longrightarrow> ps_div (word_of_int a :: 'a::len word) (word_of_int b) = Some (word_of_int (a div b))"
    and "0 < b \<Longrightarrow> ps_rem (word_of_int a :: 'a::len word) (word_of_int b) = Some (word_of_int (a smod b))"
proof -
  let ?a = "word_of_int a :: 'a word" and ?b = "word_of_int b :: 'a word"
  note i = sint_of_int [OF assms(1)] sint_of_int [OF assms(2)]
  have nz: "?b \<noteq> 0" if "0 < b" using i(2) that by auto
  show "sfits TYPE('a) (a + b) \<Longrightarrow> ps_add ?a ?b = Some (word_of_int (a + b))" by (simp add: ps_add_def schecked_def i)
  show "sfits TYPE('a) (a - b) \<Longrightarrow> ps_sub ?a ?b = Some (word_of_int (a - b))" by (simp add: ps_sub_def schecked_def i)
  show "sfits TYPE('a) (a * b) \<Longrightarrow> ps_mul ?a ?b = Some (word_of_int (a * b))" by (simp add: ps_mul_def schecked_def i)
  have q: "sfits TYPE('a) (a sdiv b)" if b: "0 < b"
  proof (cases "0 \<le> a")
    case True
    then have "0 \<le> a sdiv b" "a sdiv b \<le> a" using sdiv_pos [OF True b] zdiv_mono2 [of a 1 b] b by (simp_all add: pos_imp_zdiv_nonneg_iff)
    then show ?thesis using assms(1) by (auto intro: order_trans [OF _ \<open>0 \<le> a sdiv b\<close>] le_less_trans)
  next
    case False
    then have "a sdiv b = - (- a div b)" using sdiv_pos [of "- a" b] minus_sdiv_eq [of "- a" b] b by simp
    then have "a sdiv b \<le> 0" "a \<le> a sdiv b" using False zdiv_mono2 [of "- a" 1 b] b by (simp_all add: pos_imp_zdiv_nonneg_iff)
    then show ?thesis using assms(1) by (meson order_trans le_less_trans zero_less_power zero_less_numeral)
  qed
  have m: "sfits TYPE('a) (a smod b)" if b: "0 < b"
    using smod_int_range [of b a] assms(2) b by auto
  show "ps_div ?a ?b = Some (word_of_int (a div b))" if "0 \<le> a" "0 < b"
  proof -
    show ?thesis using nz q sdiv_pos [OF that] that by (simp add: ps_div_def schecked_def i)
  qed
  show "ps_rem ?a ?b = Some (word_of_int (a smod b))" if "0 < b" using nz q m that by (simp add: ps_rem_def schecked_def i)
qed

lemma ps_signed_modulo_mk:
  assumes "sfits TYPE('a) a" "0 < n" "sfits TYPE('a) n" "0 \<le> a \<or> - n < a"
  shows "ps_signed_modulo (word_of_int a :: 'a::len word) (word_of_int n) = Some (word_of_int (a mod n))"
proof -
  have unf: "ps_signed_modulo (word_of_int a :: 'a word) (word_of_int n) = ps_signed_modulo_loop (word_of_int (a smod n)) (word_of_int n)"
    using ps_mk(5) [OF assms(1,3,2)] by (simp add: ps_signed_modulo_def)
  have stop: "ps_signed_modulo_loop (word_of_int c :: 'a word) (word_of_int n) = Some (word_of_int c)" if "0 \<le> c" "c < n" for c
    using that assms sint_of_int [of c, where 'a = 'a] by (subst ps_signed_modulo_loop.simps) (simp add: less_le_trans)
  show ?thesis
  proof (cases "0 \<le> a")
    case True
    then show ?thesis using unf stop [of "a mod n"] assms(2) by (simp add: smod_mod_positive)
  next
    case False
    then have a: "- n < a" "a < 0" using assms(4) by auto
    then have "a smod n = a" using assms(2) by (simp add: smod_int_alt_def zsgn_def)
    moreover have "a mod n = a + n" using a mod_add_self2 [of a n] by (simp add: mod_pos_pos_trivial del: mod_add_self2)
    moreover have "ps_signed_modulo_loop (word_of_int a :: 'a word) (word_of_int n) = ps_signed_modulo_loop (word_of_int (a + n)) (word_of_int n)"
      using a assms ps_mk(1) [OF assms(1,3)] sint_of_int [OF assms(1)] by (subst ps_signed_modulo_loop.simps) auto
    ultimately show ?thesis using unf stop [of "a + n"] a by simp
  qed
qed

locale modular_field = modular_integer +
  assumes pow_mod: "0 \<le> a \<Longrightarrow> a < n \<Longrightarrow> 2 \<le> n \<Longrightarrow> n \<le> M \<Longrightarrow> n_pow_mod T (mk a) (mk (n - 2)) (mk n) = Some (mk (a ^ nat (n - 2) mod n))"
begin

lemma pow_inverse:
  assumes "prime_mod n" "n \<le> M" "0 < a" "a < n"
  shows "\<exists>u. 0 < u \<and> u < n \<and> a * u mod n = 1 \<and> n_pow_mod T (mk a) (mk (n - 2)) (mk n) = Some (mk u)"
proof -
  have n: "1 < n" using assms(1) by (simp add: prime_mod_def)
  let ?u = "a ^ nat (n - 2) mod n"
  have "a * ?u mod n = a ^ Suc (nat (n - 2)) mod n" by (simp add: mod_mult_right_eq)
  also have "Suc (nat (n - 2)) = nat (n - 1)" using n by simp
  finally have u: "a * ?u mod n = 1" using fermat [OF assms(1,3,4)] by simp
  then have "?u \<noteq> 0" by (metis mod_0 mult_zero_right zero_neq_one)
  moreover have "0 \<le> ?u" and un: "?u < n" using n by simp_all
  ultimately have "0 < ?u" by (metis order_le_less)
  then show ?thesis using u un pow_mod [of a n] assms n by (intro exI [of _ ?u]) auto
qed

end

lemma uint_eq_mk: "0 \<le> a \<Longrightarrow> a < 2 ^ LENGTH('a) \<Longrightarrow> 0 \<le> b \<Longrightarrow> b < 2 ^ LENGTH('a) \<Longrightarrow> (word_of_int a :: 'a::len word) = word_of_int b \<longleftrightarrow> a = b"
  by (metis uint_of_int)

lemma unsigned_modular:
  assumes "2 \<le> LENGTH('a::len)"
  shows "modular_integer (unsigned_integer :: 'a word integer) word_of_int (2 ^ LENGTH('a) - 1)"
proof
  show "2 \<le> (2 :: int) ^ LENGTH('a) - 1" using power_increasing [OF assms, of "2 :: int"] by simp
qed (simp_all add: unsigned_integer_def pu_mk uint_eq_mk word_less_def uint_of_int pu_sub_mod_mk pu_add_mod_mk)

lemma sint_eq_mk: "sfits TYPE('a) a \<Longrightarrow> sfits TYPE('a) b \<Longrightarrow> (word_of_int a :: 'a::len word) = word_of_int b \<longleftrightarrow> a = b"
  by (metis sint_of_int)

lemma minus_power_le: "0 \<le> a \<Longrightarrow> - (2 ^ k) \<le> (a :: int)"
  by (rule order_trans [of _ 0]) simp_all

lemma signed_modular:
  assumes "3 \<le> LENGTH('a::len)" "bigint_spec B"
  shows "modular_field (signed_integer B :: 'a word integer) word_of_int (2 ^ (LENGTH('a) - 1) - 1)"
proof
  let ?M = "2 ^ (LENGTH('a) - 1) - 1 :: int"
  show M: "2 \<le> ?M" using power_increasing [of 2 "LENGTH('a) - 1" "2 :: int"] assms(1) by simp
  have pos: "sfits TYPE('a) a" if "0 \<le> a" "a \<le> ?M" for a using that by (auto intro: order_trans [OF _ that(1)])
  have neg: "sfits TYPE('a) (a - b)" if "0 \<le> a" "a < n" "0 \<le> b" "b < n" "2 * n \<le> ?M" for a b n using that M by auto
  show "n_pow_mod (signed_integer B :: 'a word integer) (word_of_int a) (word_of_int (n - 2)) (word_of_int n) = Some (word_of_int (a ^ nat (n - 2) mod n))"
    if "0 \<le> a" "a < n" "2 \<le> n" "n \<le> ?M" for a n
  proof -
    have "a ^ nat (n - 2) mod n < n" "0 \<le> a ^ nat (n - 2) mod n" using that by simp_all
    then have "sfits TYPE('a) (a ^ nat (n - 2) mod n)" using that(4) by (intro pos) linarith+
    moreover have "modpow B a (n - 2) n = Some (a ^ nat (n - 2) mod n)" using bigint_modpow [OF assms(2), of a "n - 2" n] that by simp
    moreover have "sint (word_of_int a :: 'a word) = a" "sint (word_of_int (n - 2) :: 'a word) = n - 2" "sint (word_of_int n :: 'a word) = n"
      using that pos [of a] pos [of "n - 2"] pos [of n] by (simp_all only: sint_of_int)
    ultimately show ?thesis by (simp only: signed_integer_def integer.simps ps_pow_mod_def Option.bind.bind_lunit schecked_def if_True simp_thms)
  qed
  show "n_sub_mod (signed_integer B :: 'a word integer) (word_of_int a) (word_of_int b) (word_of_int n) = Some (word_of_int ((a - b) mod n))"
    if "0 \<le> a" "a < n" "0 \<le> b" "b < n" "2 * n \<le> ?M" for a b n
    using that pos [of a] pos [of b] pos [of n] neg [OF that] ps_signed_modulo_mk [of "a - b" n, where 'a = 'a] ps_mk(2) [of a b, where 'a = 'a]
    by (simp add: signed_integer_def ps_sub_mod_def)
  show "n_add_mod (signed_integer B :: 'a word integer) (word_of_int a) (word_of_int b) (word_of_int n) = Some (word_of_int ((a + b) mod n))"
    if "0 \<le> a" "0 \<le> b" "a + b \<le> ?M" "0 < n" "n \<le> ?M" for a b n
    using that pos [of a] pos [of b] pos [of n] pos [of "a + b"] ps_signed_modulo_mk [of "a + b" n, where 'a = 'a] ps_mk(1) [of a b, where 'a = 'a]
    by (simp add: signed_integer_def ps_add_mod_def)
  show "n_add (signed_integer B :: 'a word integer) (word_of_int a) (word_of_int b) = Some (word_of_int (a + b))"
    if "0 \<le> a" "0 \<le> b" "a + b \<le> ?M" for a b
    using that pos [of a] pos [of b] pos [of "a + b"] ps_mk(1) [of a b, where 'a = 'a] by (simp add: signed_integer_def)
  show "n_sub (signed_integer B :: 'a word integer) (word_of_int a) (word_of_int b) = Some (word_of_int (a - b))"
    if "0 \<le> b" "b \<le> a" "a \<le> ?M" for a b
    using that pos [of a] pos [of b] pos [of "a - b"] ps_mk(2) [of a b, where 'a = 'a] by (simp add: signed_integer_def)
  show "n_mul (signed_integer B :: 'a word integer) (word_of_int a) (word_of_int b) = Some (word_of_int (a * b))"
    if "0 \<le> a" "a \<le> ?M" "0 \<le> b" "b \<le> ?M" "a * b \<le> ?M" for a b
    using that pos [of a] pos [of b] pos [of "a * b"] ps_mk(3) [of a b, where 'a = 'a] by (simp add: signed_integer_def)
qed (simp_all add: signed_integer_def ps_mk sint_eq_mk sint_of_int ps_signed_modulo_mk smod_mod_positive minus_power_le)

interpretation u32: modular_integer "unsigned_integer :: 32 word integer" word_of_int "2 ^ 32 - 1"
  using unsigned_modular [where 'a = 32] by simp

interpretation u64: modular_integer "unsigned_integer :: 64 word integer" word_of_int "2 ^ 64 - 1"
  using unsigned_modular [where 'a = 64] by simp

interpretation u128: modular_integer "unsigned_integer :: 128 word integer" word_of_int "2 ^ 128 - 1"
  using unsigned_modular [where 'a = 128] by simp

interpretation i64: modular_field "signed_integer bigint_ref :: 64 word integer" word_of_int "2 ^ 63 - 1"
  using signed_modular [where 'a = 64, OF _ bigint_ref_spec] by simp

interpretation i128: modular_field "signed_integer bigint_ref :: 128 word integer" word_of_int "2 ^ 127 - 1"
  using signed_modular [where 'a = 128, OF _ bigint_ref_spec] by simp

section \<open>The inverse\<close>

lemma inverse_unique:
  fixes x :: int
  assumes "0 \<le> s" "s < n" "0 \<le> t" "t < n" "x * s mod n = 1" "x * t mod n = 1"
  shows "s = t"
proof -
  have "s mod n = s * (x * t mod n) mod n" by (simp add: assms(6))
  also have "\<dots> = t * (x * s mod n) mod n" by (simp add: mod_mult_right_eq mult.left_commute mult.commute)
  finally show ?thesis using assms by simp
qed



text \<open>
  The rotations of the signed integers shift with the sign: the bits of a negative number that leave on one side come back as ones.
\<close>

lemma signed_rotate_left_sign: "ps_rotate_left (128 :: 8 word) 1 = Some 255 \<and> word_rotl 1 (128 :: 8 word) = 1"
  by code_simp

end
