(* ===== verification/Polynomials.thy ===== *)
theory Polynomials
  imports Signed_Integers Seq
begin

text \<open>
  Polynomials over machine integers: \<open>lib/src/vec_util.rs\<close>, \<open>lib/src/math_util/poly.rs\<close>, \<open>ct_poly.rs\<close> and \<open>mod.rs\<close>, and the coefficient-wise operations of \<open>lib/src/vec_integers.rs\<close>. A polynomial is
  the vector of its coefficients, lowest first; the functions are generic in the dictionary \<open>T\<close> of the coefficients. A panic is \<open>None\<close>, and so is a division loop that does not end.

  The lemmas are proved for every type that the locale \<open>modular_integer\<close> describes: on reduced coefficients addition, subtraction and multiplication are those of the polynomials over the
  residues, and for a prime modulus division ends with the quotient and a remainder of smaller degree.
\<close>

section \<open>Vectors\<close>

definition pad :: "'t integer \<Rightarrow> 't list \<Rightarrow> usize \<Rightarrow> 't list" where
  "pad T v l = v @ replicate (l - length v) (n_default T)"

definition make_fixed_length :: "'t integer \<Rightarrow> 't list \<Rightarrow> usize \<Rightarrow> 't list" where
  "make_fixed_length T v l = take l v @ replicate (l - length v) (n_default T)"

definition monomial :: "'t integer \<Rightarrow> 't \<Rightarrow> usize \<Rightarrow> 't list option" where
  "monomial T c d = do {
     l \<leftarrow> usize_add d 1;
     vec_set (replicate l (n_default T)) d c
   }"

definition normalize :: "'t integer \<Rightarrow> 't list \<Rightarrow> 't list \<Rightarrow> 't list \<times> 't list" where
  "normalize T x y = (let max_len = max (length x) (length y) in (pad T x max_len, pad T y max_len))"

definition leading_coefficient :: "'t integer \<Rightarrow> 't list \<Rightarrow> usize \<times> 't" where
  "leading_coefficient T x =
     fold (\<lambda>(i, c) acc. if \<not> equal_fn T c (n_default T) then (i, c) else acc) (enumerate 0 x) (0, n_default T)"

definition is_zero :: "'t integer \<Rightarrow> 't list \<Rightarrow> bool" where
  "is_zero T v = list_all (\<lambda>x. equal_fn T x (n_default T)) v"

text \<open>A loop over zipped iterators whose body may panic.\<close>

fun zipM :: "('a \<Rightarrow> 'b \<Rightarrow> 'c option) \<Rightarrow> 'a list \<Rightarrow> 'b list \<Rightarrow> 'c list option" where
  "zipM f (x # xs) (y # ys) = do { z \<leftarrow> f x y; zs \<leftarrow> zipM f xs ys; Some (z # zs) }"
| "zipM f xs ys = Some []"

fun mapM :: "('a \<Rightarrow> 'b option) \<Rightarrow> 'a list \<Rightarrow> 'b list option" where
  "mapM f [] = Some []"
| "mapM f (x # xs) = do { y \<leftarrow> f x; ys \<leftarrow> mapM f xs; Some (y # ys) }"

section \<open>Polynomials\<close>

definition poly_sub :: "'t integer \<Rightarrow> 't list \<Rightarrow> 't list \<Rightarrow> 't \<Rightarrow> 't list option" where
  "poly_sub T x y n = (let (x, y) = normalize T x y in
     zipM (\<lambda>b c. if equal_fn T n (n_default T) then n_sub T b c else n_sub_mod T b c n) x y)"

definition poly_add :: "'t integer \<Rightarrow> 't list \<Rightarrow> 't list \<Rightarrow> 't \<Rightarrow> 't list option" where
  "poly_add T x y n = (let (x, y) = normalize T x y in
     zipM (\<lambda>b c. if equal_fn T n (n_default T) then n_add T b c else n_add_mod T b c n) x y)"

definition poly_mul :: "'t integer \<Rightarrow> 't list \<Rightarrow> 't list \<Rightarrow> 't \<Rightarrow> 't list option" where
  "poly_mul T a b n = do {
     l \<leftarrow> usize_add (length a) (length b);
     for_range 0 (length a) (\<lambda>i result. do {
       ai \<leftarrow> vec_get a i;
       if equal_fn T ai (n_default T) then Some result
       else for_range 0 (length b) (\<lambda>j result. do {
         bj \<leftarrow> vec_get b j;
         if equal_fn T bj (n_default T) then Some result
         else do {
           rk \<leftarrow> vec_get result (i + j);
           p \<leftarrow> n_mul T ai bj;
           s \<leftarrow> n_add T rk p;
           m \<leftarrow> n_modulo T s n;
           vec_set result (i + j) m
         }
       }) result
     }) (replicate l (n_default T))
   }"

text \<open>\<open>deg\<close> looks for the last coefficient that is not zero, from the end and without the first one.\<close>

fun deg_from :: "'t integer \<Rightarrow> 't list \<Rightarrow> usize \<Rightarrow> usize" where
  "deg_from T poly 0 = 0"
| "deg_from T poly (Suc k) = (if \<not> equal_fn T (poly ! Suc k) (n_default T) then Suc k else deg_from T poly k)"

definition deg :: "'t integer \<Rightarrow> 't list \<Rightarrow> usize option" where
  "deg T poly = do { l \<leftarrow> usize_sub (length poly) 1; Some (deg_from T poly l) }"

definition leading_coef :: "'t integer \<Rightarrow> 't list \<Rightarrow> 't option" where
  "leading_coef T poly = do { d \<leftarrow> deg T poly; vec_get poly d }"

definition invert_fermat :: "'t integer \<Rightarrow> 't \<Rightarrow> 't \<Rightarrow> 't option" where
  "invert_fermat T a m = do { e \<leftarrow> n_sub T m (TWO T); n_pow_mod T a e m }"

definition scalar_div :: "'t integer \<Rightarrow> 't list \<Rightarrow> 't \<Rightarrow> 't \<Rightarrow> 't list option" where
  "scalar_div T a scalar p = do {
     inv \<leftarrow> invert_fermat T scalar p;
     mapM (\<lambda>a_i. do { x \<leftarrow> n_mul T a_i inv; n_modulo T x p }) a
   }"

definition make_positive_internal :: "'t integer \<Rightarrow> 't list \<Rightarrow> 't \<Rightarrow> 't list option" where
  "make_positive_internal T poly q = mapM (\<lambda>x. n_signed_modulo T x q) poly"

definition mul_poly_naive :: "'t integer \<Rightarrow> 't list \<Rightarrow> 't list \<Rightarrow> 't \<Rightarrow> 't list option" where
  "mul_poly_naive T a b modulus = do {
     l \<leftarrow> usize_add (length a) (length b);
     out \<leftarrow> for_range 0 (length a) (\<lambda>i out. do {
       ai \<leftarrow> vec_get a i;
       if equal_fn T ai (ZERO T) then Some out
       else for_range 0 (length b) (\<lambda>j out. do {
         bj \<leftarrow> vec_get b j;
         p \<leftarrow> n_mul T ai bj;
         ok \<leftarrow> vec_get out (i + j);
         s \<leftarrow> n_add T p ok;
         m \<leftarrow> n_modulo T s modulus;
         vec_set out (i + j) m
       }) out
     }) (replicate l (n_default T));
     make_positive_internal T out modulus
   }"

partial_function (option) poly_div_loop ::
  "'t integer \<Rightarrow> 't list \<Rightarrow> 't \<Rightarrow> 't \<Rightarrow> usize \<Rightarrow> 't list \<times> 't list \<Rightarrow> ('t list \<times> 't list) option" where
  "poly_div_loop T b n u d qr = do {
     dr \<leftarrow> deg T (snd qr);
     if dr \<ge> d then do {
       lr \<leftarrow> leading_coef T (snd qr);
       c \<leftarrow> n_mul T lr u;
       s \<leftarrow> monomial T c (dr - d);
       q \<leftarrow> poly_add T (fst qr) s n;
       m \<leftarrow> mul_poly_naive T s b n;
       r \<leftarrow> poly_sub T (snd qr) m n;
       poly_div_loop T b n u d (q, r)
     } else Some qr
   }"

definition poly_div :: "'t integer \<Rightarrow> 't list \<Rightarrow> 't list \<Rightarrow> 't \<Rightarrow> ('t list \<times> 't list) option" where
  "poly_div T a b n = (let (a, b) = normalize T a b; r = a; q = replicate (length a) (n_default T) in do {
     db \<leftarrow> deg T b;
     if db = 0 then do {
       b0 \<leftarrow> vec_get b 0;
       x \<leftarrow> scalar_div T r b0 n;
       Some (x, q)
     } else do {
       lb \<leftarrow> leading_coef T b;
       u \<leftarrow> invert_fermat T lb n;
       d \<leftarrow> deg T b;
       (q, r) \<leftarrow> poly_div_loop T b n u d (q, r);
       r \<leftarrow> make_positive_internal T r n;
       q \<leftarrow> make_positive_internal T q n;
       Some (q, r)
     }
   })"

section \<open>Constant-time inversion\<close>

definition poly_divx :: "'t integer \<Rightarrow> 't list \<Rightarrow> 't list option" where
  "poly_divx T v = do {
     l \<leftarrow> usize_sub (length v) 1;
     Some (make_fixed_length T (drop 1 v) l)
   }"

text \<open>Multiplication by \<open>x\<close>, \<open>k\<close> times.\<close>

definition shift_poly :: "'t integer \<Rightarrow> 't list \<Rightarrow> 't \<Rightarrow> usize \<Rightarrow> 't list \<Rightarrow> 't list option" where
  "shift_poly T x n k a = for_range 0 k (\<lambda>_ a. poly_mul T a x n) a"

definition quot_sub :: "'t integer \<Rightarrow> 't list \<Rightarrow> usize \<Rightarrow> 't list \<Rightarrow> usize \<Rightarrow> 't \<Rightarrow> ('t list \<times> usize) option" where
  "quot_sub T an ad bn bd n = (let cd = max ad bd in do {
     x \<leftarrow> monomial T (ONE T) 1;
     a \<leftarrow> shift_poly T x n (cd - ad) an;
     b \<leftarrow> shift_poly T x n (cd - bd) bn;
     c \<leftarrow> poly_sub T a b n;
     Some (c, cd)
   })"

record 't divstep =
  ds_delta :: int
  ds_f :: "'t list"
  ds_g :: "'t list"
  ds_u :: "'t list \<times> usize"
  ds_v :: "'t list \<times> usize"
  ds_q :: "'t list \<times> usize"
  ds_r :: "'t list \<times> usize"

text \<open>\<open>(f0*q - g0*u)/x\<close>: the two products, their difference, and the exponent raised by one.\<close>

definition quot_step :: "'t integer \<Rightarrow> 't \<Rightarrow> 't list \<Rightarrow> 't list \<Rightarrow> 't list \<times> usize \<Rightarrow> 't list \<times> usize \<Rightarrow> ('t list \<times> usize) option" where
  "quot_step T n f0 g0 q u = do {
     t0 \<leftarrow> poly_mul T f0 (fst q) n;
     t1 \<leftarrow> poly_mul T g0 (fst u) n;
     (c, cd) \<leftarrow> quot_sub T t0 (snd q) t1 (snd u) n;
     cd \<leftarrow> usize_add cd 1;
     Some (c, cd)
   }"

definition divstep_body :: "'t integer \<Rightarrow> usize \<Rightarrow> usize \<Rightarrow> 't \<Rightarrow> usize \<Rightarrow> 't divstep \<Rightarrow> 't divstep option" where
  "divstep_body T nn t n i s = (let
       u = (make_fixed_length T (fst (ds_u s)) t, snd (ds_u s));
       v = (make_fixed_length T (fst (ds_v s)) t, snd (ds_v s));
       q = (make_fixed_length T (fst (ds_q s)) t, snd (ds_q s));
       r = (make_fixed_length T (fst (ds_r s)) t, snd (ds_r s));
       f = make_fixed_length T (ds_f s) (nn - i);
       g = make_fixed_length T (ds_g s) (nn - i) in do {
     g_0 \<leftarrow> (if ds_delta s > 0 then vec_get g 0 else Some (n_default T));
     let swap = (ds_delta s > 0 \<and> \<not> equal_fn T g_0 (ZERO T));
     let delta = (if swap then - ds_delta s else ds_delta s);
     let (f, g) = (if swap then (g, f) else (f, g));
     let (q, u) = (if swap then (u, q) else (q, u));
     let (r, v) = (if swap then (v, r) else (r, v));
     let delta = delta + 1;
     f_0 \<leftarrow> vec_get f 0;
     g_0 \<leftarrow> vec_get g 0;
     f0 \<leftarrow> monomial T f_0 0;
     g0 \<leftarrow> monomial T g_0 0;
     t0 \<leftarrow> poly_mul T f0 g n;
     t1 \<leftarrow> poly_mul T g0 f n;
     g \<leftarrow> poly_sub T t0 t1 n;
     g \<leftarrow> poly_divx T g;
     q \<leftarrow> quot_step T n f0 g0 q u;
     r \<leftarrow> quot_step T n f0 g0 r v;
     Some \<lparr>ds_delta = delta, ds_f = f, ds_g = g, ds_u = u, ds_v = v, ds_q = q, ds_r = r\<rparr>
   })"

definition divstepsx :: "'t integer \<Rightarrow> usize \<Rightarrow> usize \<Rightarrow> 't list \<Rightarrow> 't list \<Rightarrow> 't \<Rightarrow> 't divstep option" where
  "divstepsx T nn t fin gin n = do {
     rust_assert (t \<ge> nn);
     for_range 0 nn (divstep_body T nn t n)
       \<lparr>ds_delta = 1, ds_f = fin, ds_g = gin, ds_u = ([ONE T], 0), ds_v = ([ZERO T], 0), ds_q = ([ZERO T], 0), ds_r = ([ONE T], 0)\<rparr>
   }"

definition extended_euclid_internal :: "'t integer \<Rightarrow> 't list \<Rightarrow> 't list \<Rightarrow> 't \<Rightarrow> (string + 't list) option" where
  "extended_euclid_internal T x y n = (let (yd, _) = leading_coefficient T y; (xd, _) = leading_coefficient T x in do {
     rust_assert (yd \<ge> xd);
     rust_assert (yd > 0);
     yd1 \<leftarrow> usize_add yd 1;
     let f = rev (make_fixed_length T y yd1);
     let g = rev (make_fixed_length T x yd);
     steps \<leftarrow> usize_sub (2 * yd) 1;
     s \<leftarrow> divstepsx T steps steps f g n;
     if ds_delta s \<noteq> 0 then Some (Inl ''Could not invert the polynomial'')
     else do {
       f0 \<leftarrow> vec_get (ds_f s) 0;
       i \<leftarrow> n_inv T f0 n;
       k \<leftarrow> usize_sub (2 * yd) 2;
       k \<leftarrow> usize_sub k (snd (ds_v s));
       t \<leftarrow> monomial T i k;
       rr \<leftarrow> poly_mul T t (fst (ds_v s)) n;
       Some (Inr (rev (make_fixed_length T rr yd)))
     }
   })"

section \<open>The functions on sequences\<close>

definition make_positive :: "'t integer \<Rightarrow> 't seq \<Rightarrow> 't \<Rightarrow> 't seq option" where
  "make_positive T poly q = make_positive_internal T poly q"

definition sub_poly :: "'t integer \<Rightarrow> 't seq \<Rightarrow> 't seq \<Rightarrow> 't \<Rightarrow> 't seq option" where
  "sub_poly T a b modulus = do { result \<leftarrow> poly_sub T a b modulus; make_positive T result modulus }"

definition add_poly :: "'t integer \<Rightarrow> 't seq \<Rightarrow> 't seq \<Rightarrow> 't \<Rightarrow> 't seq option" where
  "add_poly T a b modulus = do { result \<leftarrow> poly_add T a b modulus; make_positive T result modulus }"

definition mul_poly :: "'t integer \<Rightarrow> 't seq \<Rightarrow> 't seq \<Rightarrow> 't \<Rightarrow> 't seq option" where
  "mul_poly T a b n = poly_mul T a b n"

definition div_poly :: "'t integer \<Rightarrow> 't seq \<Rightarrow> 't seq \<Rightarrow> 't \<Rightarrow> (string + 't seq \<times> 't seq) option" where
  "div_poly T a b n = do { (q, r) \<leftarrow> poly_div T a b n; Some (Inr (q, r)) }"

definition div_scalar :: "'t integer \<Rightarrow> 't seq \<Rightarrow> 't \<Rightarrow> 't \<Rightarrow> 't seq option" where
  "div_scalar T a scalar p = scalar_div T a scalar p"

definition degree_poly :: "'t integer \<Rightarrow> 't seq \<Rightarrow> usize option" where
  "degree_poly T poly = deg T poly"

definition extended_euclid :: "'t integer \<Rightarrow> 't seq \<Rightarrow> 't seq \<Rightarrow> 't \<Rightarrow> (string + 't seq) option" where
  "extended_euclid T x irr n = extended_euclid_internal T x irr n"

definition weight :: "'t integer \<Rightarrow> 't seq \<Rightarrow> usize option" where
  "weight T poly = for_range 0 (length poly) (\<lambda>i w. do {
     c \<leftarrow> vec_get poly i;
     if \<not> equal_fn T c (n_default T) then usize_add w 1 else Some w
   }) 0"

definition poly_to_ring :: "'t integer \<Rightarrow> 't seq \<Rightarrow> 't seq \<Rightarrow> 't \<Rightarrow> ('t seq \<times> bool) option" where
  "poly_to_ring T irr poly modulus = do {
     res \<leftarrow> div_poly T poly irr modulus;
     (case res of
        Inr pre \<Rightarrow> do { p \<leftarrow> make_positive T (snd pre) modulus; Some (p, True) }
      | Inl e \<Rightarrow> Some ([n_default T], False))
   }"

definition mul_irr_step :: "'t integer \<Rightarrow> 't seq \<Rightarrow> 't seq \<Rightarrow> 't seq \<Rightarrow> usize \<Rightarrow> usize \<Rightarrow> 't seq \<Rightarrow> 't seq option" where
  "mul_irr_step T a b irr i j result = do {
     ai \<leftarrow> vec_get a i;
     bj \<leftarrow> vec_get b j;
     if equal_fn T bj (n_default T) then Some result
     else do {
       l2 \<leftarrow> usize_sub (length a) 2;
       if i + j > l2 then do {
         factor \<leftarrow> n_mul T ai bj;
         let k = (i + j) mod (length a - 1);
         r1 \<leftarrow> vec_get result (1 + k);
         irr1 \<leftarrow> vec_get irr 1;
         p1 \<leftarrow> n_mul T factor irr1;
         d1 \<leftarrow> n_sub T r1 p1;
         result \<leftarrow> vec_set result (1 + k) d1;
         r0 \<leftarrow> vec_get result k;
         irr0 \<leftarrow> vec_get irr 0;
         p0 \<leftarrow> n_mul T factor irr0;
         d0 \<leftarrow> n_sub T r0 p0;
         vec_set result k d0
       } else do {
         r \<leftarrow> vec_get result (i + j);
         p \<leftarrow> n_mul T ai bj;
         s \<leftarrow> n_add T r p;
         vec_set result (i + j) s
       }
     }
   }"

definition mul_poly_irr :: "'t integer \<Rightarrow> 't seq \<Rightarrow> 't seq \<Rightarrow> 't seq \<Rightarrow> 't \<Rightarrow> 't seq option" where
  "mul_poly_irr T a b irr modulus = do {
     result \<leftarrow> for_range 0 (length a) (\<lambda>i result. do {
       ai \<leftarrow> vec_get a i;
       if equal_fn T ai (n_default T) then Some result
       else for_range 0 (length b) (mul_irr_step T a b irr i) result
     }) (replicate (length a) (n_default T));
     result \<leftarrow> (if greater_than T modulus (n_default T) then mapM (\<lambda>x. n_modulo T x modulus) result else Some result);
     make_positive T result modulus
   }"

section \<open>Coefficient-wise operations\<close>

text \<open>\<open>vec_poly_mul\<close>, \<open>vec_poly_add\<close> and \<open>vec_poly_sub\<close> of \<open>lib/src/vec_integers.rs\<close>. Despite its name and its documentation the first one multiplies coefficient by coefficient.\<close>

definition vec_poly_mul :: "'t integer \<Rightarrow> 't seq \<Rightarrow> 't seq \<Rightarrow> 't \<Rightarrow> 't seq option" where
  "vec_poly_mul T x y n = do {
     rust_assert (length x = length y);
     zipM (\<lambda>a b. if \<not> equal_fn T n (n_default T) then n_mul_mod T a b n else Some (wrap_mul T a b)) x y
   }"

definition vec_poly_add :: "'t integer \<Rightarrow> 't seq \<Rightarrow> 't seq \<Rightarrow> 't \<Rightarrow> 't seq option" where
  "vec_poly_add T x y n = do {
     rust_assert (length x = length y);
     zipM (\<lambda>a b. if \<not> equal_fn T n (n_default T) then n_add_mod T a b n else Some (wrap_add T a b)) x y
   }"

definition vec_poly_sub :: "'t integer \<Rightarrow> 't seq \<Rightarrow> 't seq \<Rightarrow> 't \<Rightarrow> 't seq option" where
  "vec_poly_sub T x y n = do {
     rust_assert (length x = length y);
     zipM (\<lambda>a b. if \<not> equal_fn T n (n_default T) then n_sub_mod T a b n else Some (wrap_sub T a b)) x y
   }"

section \<open>Coefficients\<close>

definition cf :: "int list \<Rightarrow> nat \<Rightarrow> int" where
  "cf xs k = (if k < length xs then xs ! k else 0)"

definition coeffs :: "nat \<Rightarrow> (nat \<Rightarrow> int) \<Rightarrow> int list" where
  "coeffs l f = map f [0..<l]"

definition bounded :: "int \<Rightarrow> int list \<Rightarrow> bool" where
  "bounded m xs \<longleftrightarrow> (\<forall>x \<in> set xs. 0 \<le> x \<and> x \<le> m)"

text \<open>The product of two polynomials, and the product with \<open>x ^ e\<close>.\<close>

definition conv :: "(nat \<Rightarrow> int) \<Rightarrow> (nat \<Rightarrow> int) \<Rightarrow> nat \<Rightarrow> int" where
  "conv f g k = (\<Sum>i\<le>k. f i * g (k - i))"

definition shifted :: "nat \<Rightarrow> (nat \<Rightarrow> int) \<Rightarrow> nat \<Rightarrow> int" where
  "shifted e g k = (if e \<le> k then g (k - e) else 0)"

lemma length_coeffs [simp]: "length (coeffs l f) = l"
  by (simp add: coeffs_def)

lemma nth_coeffs [simp]: "k < l \<Longrightarrow> coeffs l f ! k = f k"
  by (simp add: coeffs_def)

lemma cf_coeffs: "cf (coeffs l f) k = (if k < l then f k else 0)"
  by (simp add: cf_def)

lemma cf_nth [simp]: "k < length xs \<Longrightarrow> cf xs k = xs ! k"
  by (simp add: cf_def)

lemma cf_beyond [simp]: "length xs \<le> k \<Longrightarrow> cf xs k = 0"
  by (simp add: cf_def)

lemma coeffs_eqI: "length xs = l \<Longrightarrow> (\<And>k. k < l \<Longrightarrow> xs ! k = f k) \<Longrightarrow> xs = coeffs l f"
  by (simp add: list_eq_iff_nth_eq)

lemma coeffs_cf: "coeffs (length xs) (cf xs) = xs"
  by (rule coeffs_eqI [symmetric]) simp_all

lemma bounded_nth: "bounded m xs \<Longrightarrow> k < length xs \<Longrightarrow> 0 \<le> xs ! k \<and> xs ! k \<le> m"
  by (simp add: bounded_def)

lemma bounded_cf: "bounded m xs \<Longrightarrow> 0 \<le> m \<Longrightarrow> 0 \<le> cf xs k \<and> cf xs k \<le> m"
  by (simp add: bounded_nth cf_def)

lemma bounded_mod: "bounded (n - 1) xs \<Longrightarrow> k < length xs \<Longrightarrow> xs ! k mod n = xs ! k"
  using bounded_nth [of "n - 1" xs k] by simp

lemma bounded_coeffs: "(\<And>k. k < l \<Longrightarrow> 0 \<le> f k \<and> f k \<le> m) \<Longrightarrow> bounded m (coeffs l f)"
  by (auto simp: bounded_def coeffs_def)

lemma bounded_coeffs_mod: "0 < n \<Longrightarrow> bounded (n - 1) (coeffs l (\<lambda>k. f k mod n))"
  by (rule bounded_coeffs) simp

lemma bounded_update: "bounded m xs \<Longrightarrow> 0 \<le> x \<Longrightarrow> x \<le> m \<Longrightarrow> bounded m (xs[i := x])"
  using set_update_subset_insert [of xs i x] by (auto simp: bounded_def)

lemma conv_shifted: "conv f g k = (\<Sum>i\<le>k. f i * shifted i g k)"
  by (auto simp: conv_def shifted_def intro: sum.cong)

lemma conv_finite: "conv (cf xs) g k = (\<Sum>i<length xs. xs ! i * shifted i g k)"
proof -
  let ?t = "\<lambda>i. cf xs i * shifted i g k"
  have "sum ?t {..k} = sum ?t ({..k} \<inter> {..<length xs})"
    by (rule sum.mono_neutral_right) (auto simp: cf_def)
  moreover have "sum ?t {..<length xs} = sum ?t ({..k} \<inter> {..<length xs})"
    by (rule sum.mono_neutral_right) (auto simp: shifted_def)
  moreover have "sum ?t {..<length xs} = (\<Sum>i<length xs. xs ! i * shifted i g k)" by (rule sum.cong) simp_all
  ultimately show ?thesis by (simp add: conv_shifted)
qed

lemma conv_add: "conv (\<lambda>k. f k + h k) g k = conv f g k + conv h g k"
  by (simp add: conv_def distrib_right sum.distrib)

lemma conv_mod:
  assumes "\<And>i. i \<le> k \<Longrightarrow> f i mod n = h i mod n"
  shows "conv f g k mod n = conv h g k mod n"
proof -
  have "(\<Sum>i\<le>k. f i * g (k - i) mod n) = (\<Sum>i\<le>k. h i * g (k - i) mod n)"
    by (rule sum.cong) (auto intro: mod_mult_cong assms)
  then show ?thesis unfolding conv_def
    using mod_sum_eq [of "\<lambda>i. f i * g (k - i)" n "{..k}"] mod_sum_eq [of "\<lambda>i. h i * g (k - i)" n "{..k}"] by simp
qed

lemma conv_monomial: "conv (\<lambda>k. if k = e then c else 0) g k = c * shifted e g k"
  by (simp add: conv_def shifted_def if_distrib [of "\<lambda>x. x * _"] sum.delta cong: if_cong)

section \<open>Loops over vectors\<close>

lemma mapM_map:
  assumes "\<And>x. x \<in> set xs \<Longrightarrow> f (mk x) = Some (mk (g x))"
  shows "mapM f (map mk xs) = Some (map mk (map g xs))"
  using assms by (induction xs) simp_all

lemma zipM_map:
  assumes "length xs = length ys" "\<And>i. i < length xs \<Longrightarrow> f (mk (xs ! i)) (mk (ys ! i)) = Some (mk (g i))"
  shows "zipM f (map mk xs) (map mk ys) = Some (map mk (coeffs (length xs) g))"
  using assms
proof (induction xs ys arbitrary: g rule: list_induct2)
  case (Cons x xs y ys)
  have "zipM f (map mk xs) (map mk ys) = Some (map mk (coeffs (length xs) (\<lambda>i. g (Suc i))))"
    using Cons.prems [of "Suc i" for i] by (intro Cons.IH) auto
  moreover have "map mk (coeffs (Suc (length xs)) g) = mk (g 0) # map mk (coeffs (length xs) (\<lambda>i. g (Suc i)))"
    unfolding coeffs_def by (subst upt_conv_Cons) (simp_all add: map_Suc_upt [symmetric] del: upt_Suc map_Suc_upt)
  ultimately show ?case using Cons.prems [of 0] by simp
qed (simp add: coeffs_def)

text \<open>One row of the schoolbook multiplication, and the rows together, for every body that adds \<open>a * b j\<close> to the coefficient \<open>i + j\<close> and reduces.\<close>

lemma mul_row:
  assumes n: "0 < n" and rs: "bounded (n - 1) rs" "i + length ys \<le> length rs"
    and f: "\<And>j zs. j < length ys \<Longrightarrow> bounded (n - 1) zs \<Longrightarrow> length zs = length rs \<Longrightarrow>
      f j (map mk zs) = Some (map mk (zs[i + j := (zs ! (i + j) + a * ys ! j) mod n]))"
  shows "for_range 0 (length ys) f (map mk rs) = Some (map mk (coeffs (length rs) (\<lambda>k. (cf rs k + a * shifted i (cf ys) k) mod n)))"
proof -
  let ?row = "\<lambda>j. coeffs (length rs) (\<lambda>k. if k < i + j then (cf rs k + a * shifted i (cf ys) k) mod n else cf rs k)"
  have "\<exists>s. for_range 0 (length ys) f (map mk rs) = Some s \<and> s = map mk (?row (length ys))"
  proof (rule for_range_rule [where P = "\<lambda>j s. s = map mk (?row j)"])
    show "map mk rs = map mk (?row 0)"
      using rs(1) n by (auto simp: list_eq_iff_nth_eq shifted_def bounded_mod)
    fix j s assume j: "j < length ys" and s: "s = map mk (?row j)"
    have b: "bounded (n - 1) (?row j)" using bounded_nth [OF rs(1)] n by (intro bounded_coeffs) auto
    have "(?row j)[i + j := ((?row j) ! (i + j) + a * ys ! j) mod n] = ?row (Suc j)"
      using j rs(2) by (auto simp: list_eq_iff_nth_eq nth_list_update shifted_def)
    then show "\<exists>s'. f j s = Some s' \<and> s' = map mk (?row (Suc j))" using f [OF j b] s by simp
  qed simp
  moreover have "?row (length ys) = coeffs (length rs) (\<lambda>k. (cf rs k + a * shifted i (cf ys) k) mod n)"
    using rs n by (auto simp: list_eq_iff_nth_eq shifted_def bounded_mod)
  ultimately show ?thesis by simp
qed

lemma mul_rows:
  assumes n: "0 < n"
    and g: "\<And>i zs. i < length xs \<Longrightarrow> bounded (n - 1) zs \<Longrightarrow> length zs = l \<Longrightarrow>
      g i (map mk zs) = Some (map mk (coeffs l (\<lambda>k. (cf zs k + xs ! i * shifted i h k) mod n)))"
  shows "for_range 0 (length xs) g (map mk (coeffs l (\<lambda>_. 0))) = Some (map mk (coeffs l (\<lambda>k. conv (cf xs) h k mod n)))"
proof -
  let ?part = "\<lambda>i. coeffs l (\<lambda>k. (\<Sum>i'<i. xs ! i' * shifted i' h k) mod n)"
  have "\<exists>s. for_range 0 (length xs) g (map mk (coeffs l (\<lambda>_. 0))) = Some s \<and> s = map mk (?part (length xs))"
  proof (rule for_range_rule [where P = "\<lambda>i s. s = map mk (?part i)"])
    fix i s assume i: "i < length xs" and s: "s = map mk (?part i)"
    have "coeffs l (\<lambda>k. (cf (?part i) k + xs ! i * shifted i h k) mod n) = ?part (Suc i)"
      by (simp add: list_eq_iff_nth_eq mod_add_left_eq)
    then show "\<exists>s'. g i s = Some s' \<and> s' = map mk (?part (Suc i))" using g [OF i bounded_coeffs_mod [OF n]] s by simp
  qed simp_all
  then show ?thesis by (simp add: conv_finite)
qed

section \<open>Addition, subtraction and multiplication\<close>

context modular_integer
begin

lemma zeros: "replicate l (mk 0) = map mk (coeffs l (\<lambda>_. 0))"
  by (simp add: list_eq_iff_nth_eq)

lemma pad_map: "length xs \<le> l \<Longrightarrow> pad T (map mk xs) l = map mk (coeffs l (cf xs))"
  by (auto simp: pad_def const_eqs list_eq_iff_nth_eq nth_append cf_def)

lemma normalize_map:
  "normalize T (map mk xs) (map mk ys) = (let l = max (length xs) (length ys) in (map mk (coeffs l (cf xs)), map mk (coeffs l (cf ys))))"
  by (simp add: normalize_def Let_def pad_map)

lemma nonzero: "0 < n \<Longrightarrow> n \<le> M \<Longrightarrow> \<not> equal_fn T (mk n) (n_default T)"
  using bound by (simp add: const_eqs eq_iff)

lemma zero_iff: "0 \<le> a \<Longrightarrow> a \<le> M \<Longrightarrow> equal_fn T (mk a) (mk 0) \<longleftrightarrow> a = 0"
  using bound by (simp add: eq_iff)

lemma poly_add:
  assumes "bounded p xs" "bounded q ys" "0 \<le> p" "0 \<le> q" "p + q \<le> M" "0 < n" "n \<le> M"
  shows "poly_add T (map mk xs) (map mk ys) (mk n) = Some (map mk (coeffs (max (length xs) (length ys)) (\<lambda>k. (cf xs k + cf ys k) mod n)))"
proof -
  let ?l = "max (length xs) (length ys)"
  have "n_add_mod T (mk (cf xs k)) (mk (cf ys k)) (mk n) = Some (mk ((cf xs k + cf ys k) mod n))" for k
    using bounded_cf [OF assms(1,3), of k] bounded_cf [OF assms(2,4), of k] assms by (intro add_mod) linarith+
  then show ?thesis
    using assms zipM_map [of "coeffs ?l (cf xs)" "coeffs ?l (cf ys)" _ mk "\<lambda>k. (cf xs k + cf ys k) mod n"]
    by (simp add: poly_add_def normalize_map Let_def nonzero)
qed

lemma poly_sub:
  assumes "bounded (n - 1) xs" "bounded (n - 1) ys" "2 * n \<le> M" "0 < n"
  shows "poly_sub T (map mk xs) (map mk ys) (mk n) = Some (map mk (coeffs (max (length xs) (length ys)) (\<lambda>k. (cf xs k - cf ys k) mod n)))"
proof -
  let ?l = "max (length xs) (length ys)"
  have "n_sub_mod T (mk (cf xs k)) (mk (cf ys k)) (mk n) = Some (mk ((cf xs k - cf ys k) mod n))" for k
    using bounded_cf [OF assms(1), of k] bounded_cf [OF assms(2), of k] assms by (intro sub_mod) linarith+
  then show ?thesis
    using assms zipM_map [of "coeffs ?l (cf xs)" "coeffs ?l (cf ys)" _ mk "\<lambda>k. (cf xs k - cf ys k) mod n"]
    by (simp add: poly_sub_def normalize_map Let_def nonzero)
qed

lemma make_positive_internal:
  assumes "bounded M xs" "0 < n" "n \<le> M"
  shows "make_positive_internal T (map mk xs) (mk n) = Some (map mk (map (\<lambda>x. x mod n) xs))"
  unfolding make_positive_internal_def using assms
  by (intro mapM_map signed_modulo_eq) (auto simp: bounded_def)

lemma make_positive_reduced:
  assumes "bounded (n - 1) xs" "0 < n" "n \<le> M"
  shows "make_positive_internal T (map mk xs) (mk n) = Some (map mk xs)"
proof -
  have "map (\<lambda>x. x mod n) xs = xs" using bounded_mod [OF assms(1)] by (simp add: list_eq_iff_nth_eq)
  moreover have "bounded M xs" using assms by (force simp: bounded_def)
  ultimately show ?thesis using make_positive_internal [of xs n] assms by simp
qed

text \<open>A step of the multiplications: the bounds on the factors keep the sum in range.\<close>

lemma mul_step:
  assumes "0 \<le> a" "a \<le> p" "0 \<le> b" "b < n" "0 \<le> c" "c < n" "p * (n - 1) + n \<le> M" "n \<le> M" "p \<le> M"
  shows "n_mul T (mk a) (mk b) = Some (mk (a * b))"
    and "n_add T (mk c) (mk (a * b)) = Some (mk (c + a * b))"
    and "n_add T (mk (a * b)) (mk c) = Some (mk (a * b + c))"
    and "n_modulo T (mk (c + a * b)) (mk n) = Some (mk ((c + a * b) mod n))"
proof -
  have "a * b \<le> p * (n - 1)" using assms by (intro mult_mono) auto
  then have ab: "a * b + c \<le> M" "0 \<le> a * b" using assms by auto
  show "n_mul T (mk a) (mk b) = Some (mk (a * b))" using assms ab by (intro mul) auto
  show "n_add T (mk c) (mk (a * b)) = Some (mk (c + a * b))" "n_add T (mk (a * b)) (mk c) = Some (mk (a * b + c))"
    using assms ab by (auto intro!: add)
  show "n_modulo T (mk (c + a * b)) (mk n) = Some (mk ((c + a * b) mod n))" using assms ab by (intro modulo_eq) auto
qed

text \<open>The schoolbook multiplication that leaves out the coefficients that are zero, for a step \<open>f\<close>.\<close>

lemma mul_sparse:
  assumes n: "0 < n" and xs: "bounded p xs" "p \<le> M"
    and step: "\<And>i j zs. i < length xs \<Longrightarrow> j < length ys \<Longrightarrow> bounded (n - 1) zs \<Longrightarrow> length zs = length xs + length ys \<Longrightarrow>
      f (mk (xs ! i)) i j (map mk zs) = Some (map mk (zs[i + j := (zs ! (i + j) + xs ! i * ys ! j) mod n]))"
  shows "for_range 0 (length xs) (\<lambda>i result. do {
       ai \<leftarrow> vec_get (map mk xs) i;
       if equal_fn T ai (mk 0) then Some result else for_range 0 (length ys) (f ai i) result
     }) (map mk (coeffs (length xs + length ys) (\<lambda>_. 0)))
     = Some (map mk (coeffs (length xs + length ys) (\<lambda>k. conv (cf xs) (cf ys) k mod n)))"
proof (rule mul_rows [OF n])
  fix i zs assume i: "i < length xs" and zs: "bounded (n - 1) zs" "length zs = length xs + length ys"
  have "(if equal_fn T (mk (xs ! i)) (mk 0) then Some (map mk zs) else for_range 0 (length ys) (f (mk (xs ! i)) i) (map mk zs))
      = Some (map mk (coeffs (length zs) (\<lambda>k. (cf zs k + xs ! i * shifted i (cf ys) k) mod n)))" (is "?l = ?r")
  proof (cases "xs ! i = 0")
    case True
    have "zs = coeffs (length zs) (\<lambda>k. cf zs k mod n)" using zs by (intro coeffs_eqI) (auto simp: bounded_mod)
    then show ?thesis using True bound by (simp add: zero_iff)
  next
    case False
    have "?l = for_range 0 (length ys) (f (mk (xs ! i)) i) (map mk zs)"
      using False i xs(2) bounded_nth [OF xs(1) i] by (simp add: zero_iff)
    also have "\<dots> = ?r"
    proof (rule mul_row [OF n zs(1)])
      show "i + length ys \<le> length zs" using i zs(2) by simp
    qed (simp add: step [OF i] zs(2))
    finally show ?thesis .
  qed
  then show "(do {
       ai \<leftarrow> vec_get (map mk xs) i;
       if equal_fn T ai (mk 0) then Some (map mk zs) else for_range 0 (length ys) (f ai i) (map mk zs)
     }) = Some (map mk (coeffs (length xs + length ys) (\<lambda>k. (cf zs k + xs ! i * shifted i (cf ys) k) mod n)))"
    using i zs(2) by simp
qed

lemma poly_mul:
  assumes "bounded p xs" "bounded (n - 1) ys" "p * (n - 1) + n \<le> M" "p \<le> M" "0 < n" "n \<le> M" "usize_fits (length xs + length ys)"
  shows "poly_mul T (map mk xs) (map mk ys) (mk n) = Some (map mk (coeffs (length xs + length ys) (\<lambda>k. conv (cf xs) (cf ys) k mod n)))"
proof -
  define f where "f ai i j result = do {
         bj \<leftarrow> vec_get (map mk ys) j;
         if equal_fn T bj (mk 0) then Some result
         else do {
           rk \<leftarrow> vec_get result (i + j);
           p \<leftarrow> n_mul T ai bj;
           s \<leftarrow> n_add T rk p;
           m \<leftarrow> n_modulo T s (mk n);
           vec_set result (i + j) m
         }
       }" for ai i j result
  have step: "f (mk (xs ! i)) i j (map mk zs) = Some (map mk (zs[i + j := (zs ! (i + j) + xs ! i * ys ! j) mod n]))"
    if "i < length xs" "j < length ys" "bounded (n - 1) zs" "length zs = length xs + length ys" for i j zs
  proof (cases "ys ! j = 0")
    case True
    then show ?thesis using that bounded_mod [OF that(3), of "i + j"] bound by (simp add: f_def zero_iff)
  next
    case False
    have "i + j < length zs" using that by simp
    then show ?thesis
      using False that assms(3-6) bounded_nth [OF assms(1) that(1)] bounded_nth [OF assms(2) that(2)] bounded_nth [OF that(3), of "i + j"]
        mul_step [of "xs ! i" p "ys ! j" n "zs ! (i + j)"]
      by (simp add: f_def zero_iff map_update)
  qed
  note mul_sparse [where f = f and ys = ys, OF assms(5,1,4)]
  from this [unfolded f_def [abs_def]] step [unfolded f_def] assms(7) show ?thesis
    by (simp only: poly_mul_def length_map usize_add_fits zeros const_eqs Option.bind.bind_lunit)
qed

lemma mul_poly_naive:
  assumes "bounded p xs" "bounded (n - 1) ys" "p * (n - 1) + n \<le> M" "p \<le> M" "0 < n" "n \<le> M" "usize_fits (length xs + length ys)"
  shows "mul_poly_naive T (map mk xs) (map mk ys) (mk n) = Some (map mk (coeffs (length xs + length ys) (\<lambda>k. conv (cf xs) (cf ys) k mod n)))"
proof -
  define f where "f ai i j out = do {
         bj \<leftarrow> vec_get (map mk ys) j;
         p \<leftarrow> n_mul T ai bj;
         ok \<leftarrow> vec_get out (i + j);
         s \<leftarrow> n_add T p ok;
         m \<leftarrow> n_modulo T s (mk n);
         vec_set out (i + j) m
       }" for ai i j out
  have step: "f (mk (xs ! i)) i j (map mk zs) = Some (map mk (zs[i + j := (zs ! (i + j) + xs ! i * ys ! j) mod n]))"
    if "i < length xs" "j < length ys" "bounded (n - 1) zs" "length zs = length xs + length ys" for i j zs
  proof -
    have "i + j < length zs" using that by simp
    then show ?thesis
      using that assms(3-6) bounded_nth [OF assms(1) that(1)] bounded_nth [OF assms(2) that(2)] bounded_nth [OF that(3), of "i + j"]
        mul_step [of "xs ! i" p "ys ! j" n "zs ! (i + j)"]
      by (simp add: f_def map_update add.commute)
  qed
  note mul_sparse [where f = f and ys = ys, OF assms(5,1,4)]
  from this [unfolded f_def [abs_def]] step [unfolded f_def] assms(7) make_positive_reduced [OF bounded_coeffs_mod assms(5,6), OF assms(5)] show ?thesis
    by (simp only: mul_poly_naive_def length_map usize_add_fits zeros const_eqs Option.bind.bind_lunit)
qed

text \<open>The degree: every coefficient above it is zero, and its own is not, unless it is the constant one.\<close>

lemma deg_from:
  assumes "bounded M xs" "l < length xs"
  shows "deg_from T (map mk xs) l \<le> l \<and> (\<forall>k. deg_from T (map mk xs) l < k \<and> k \<le> l \<longrightarrow> xs ! k = 0)
    \<and> (0 < deg_from T (map mk xs) l \<longrightarrow> xs ! deg_from T (map mk xs) l \<noteq> 0)"
  using assms
proof (induction l)
  case (Suc l)
  then show ?case using bounded_nth [OF Suc.prems] by (auto simp: const_eqs zero_iff le_Suc_eq)
qed simp

lemma deg:
  assumes "bounded M xs" "xs \<noteq> []"
  obtains d where "d < length xs" "deg T (map mk xs) = Some d" "\<And>k. d < k \<Longrightarrow> cf xs k = 0" "0 < d \<Longrightarrow> cf xs d \<noteq> 0"
proof -
  let ?d = "deg_from T (map mk xs) (length xs - 1)"
  have l: "length xs - 1 < length xs" using assms(2) by simp
  have lt: "?d < length xs" using deg_from [OF assms(1) l] l by linarith
  show ?thesis
  proof (rule that [OF lt])
    show "deg T (map mk xs) = Some ?d" using assms(2) by (simp add: deg_def Suc_leI)
    show "cf xs k = 0" if "?d < k" for k using deg_from [OF assms(1) l] that by (auto simp: cf_def)
    show "0 < ?d \<Longrightarrow> cf xs ?d \<noteq> 0" using deg_from [OF assms(1) l] lt by simp
  qed
qed

lemma leading_coef: "deg T (map mk xs) = Some d \<Longrightarrow> d < length xs \<Longrightarrow> leading_coef T (map mk xs) = Some (mk (cf xs d))"
  by (simp add: leading_coef_def)

lemma monomial: "usize_fits (e + 1) \<Longrightarrow> monomial T (mk c) e = Some (map mk (coeffs (e + 1) (\<lambda>k. if k = e then c else 0)))"
  by (auto simp: monomial_def const_eqs list_eq_iff_nth_eq nth_list_update nth_append simp del: replicate_Suc)

end

section \<open>Division\<close>

text \<open>
  The algebra of one step: subtracting \<open>c * x ^ e * b\<close> from the remainder and adding \<open>c * x ^ e\<close> to the quotient keeps the sum \<open>q * b + r\<close>, and with \<open>c\<close> the leading coefficient of the remainder
  divided by that of \<open>b\<close> it cancels the leading coefficient.
\<close>

lemma div_step_sum:
  assumes q: "e < length q" and b: "length b + e \<le> l" "length r \<le> l"
    and q1: "q1 = coeffs (length q) (\<lambda>k. (cf q k + (if k = e then c else 0)) mod n)"
    and r1: "r1 = coeffs l (\<lambda>k. (cf r k - c * shifted e (cf b) k mod n) mod n)"
  shows "(conv (cf q1) (cf b) k + cf r1 k) mod n = (conv (cf q) (cf b) k + cf r k) mod (n :: int)"
proof -
  have "conv (cf q1) (cf b) k mod n = conv (\<lambda>k. cf q k + (if k = e then c else 0)) (cf b) k mod n"
    using q by (intro conv_mod) (auto simp: q1 cf_coeffs)
  then have "conv (cf q1) (cf b) k mod n = (conv (cf q) (cf b) k + c * shifted e (cf b) k) mod n"
    by (simp add: conv_add conv_monomial)
  moreover have "cf r1 k mod n = (cf r k - c * shifted e (cf b) k) mod n"
    using b by (auto simp: r1 cf_coeffs shifted_def mod_diff_right_eq)
  ultimately have "(conv (cf q1) (cf b) k + cf r1 k) mod n = ((conv (cf q) (cf b) k + c * shifted e (cf b) k) + (cf r k - c * shifted e (cf b) k)) mod n"
    by (rule mod_add_cong)
  then show ?thesis by simp
qed

lemma div_step_degree:
  assumes d: "d \<le> m" "\<And>k. d < k \<Longrightarrow> cf b k = 0" and r: "\<And>k. m < k \<Longrightarrow> cf r k = 0" and u: "cf b d * u mod n = 1"
    and r1: "r1 = coeffs l (\<lambda>k. (cf r k - cf r m * u * shifted (m - d) (cf b) k mod n) mod n)" and k: "m \<le> k"
  shows "cf r1 k = 0"
proof (cases "k = m")
  case True
  have "(cf r m - cf r m * u * cf b d) mod n = (cf r m - cf r m * (cf b d * u mod n)) mod n"
    using mod_diff_right_eq [of "cf r m" "cf r m * (cf b d * u mod n)" n] by (simp add: mod_mult_right_eq mod_diff_right_eq ac_simps)
  then show ?thesis using True d(1) u by (simp add: r1 cf_coeffs shifted_def mod_diff_right_eq)
next
  case False
  then show ?thesis using k d r [of k] by (simp add: r1 cf_coeffs shifted_def)
qed

context modular_integer
begin

lemma cube_bounds:
  assumes n: "2 \<le> n" "n * n * n \<le> M"
  shows "n \<le> M" "2 * n \<le> M" "(n - 1) * (n - 1) * (n - 1) + n \<le> M" "(n - 1) * (n - 1) + (n - 1) \<le> M" "(n - 1) * (n - 1) \<le> M" "n - 1 \<le> M"
proof -
  have "2 * n \<le> n * n" using n(1) by (intro mult_right_mono) auto
  moreover have "n * n * 1 \<le> n * n * n" using n(1) by (intro mult_left_mono) auto
  ultimately show "n \<le> M" "2 * n \<le> M" "(n - 1) * (n - 1) * (n - 1) + n \<le> M" "(n - 1) * (n - 1) + (n - 1) \<le> M" "(n - 1) * (n - 1) \<le> M" "n - 1 \<le> M"
    using n by (simp_all only: mult_1_right left_diff_distrib right_diff_distrib mult_1)
qed

text \<open>One turn of the loop.\<close>

lemma div_loop_step:
  assumes n: "2 \<le> n" "n * n * n \<le> M" and b: "bounded (n - 1) b" "0 < d" "usize_fits (2 * length b)" and u: "0 \<le> u" "u < n"
    and q: "bounded (n - 1) q" "length q = length b" and r: "bounded (n - 1) r"
    and dr: "deg T (map mk r) = Some dr" "d \<le> dr" "dr < length r" "dr < length b"
  defines "c \<equiv> cf r dr * u" and "e \<equiv> dr - d"
  shows "poly_div_loop T (map mk b) (mk n) (mk u) d (map mk q, map mk r) = poly_div_loop T (map mk b) (mk n) (mk u) d
    (map mk (coeffs (length q) (\<lambda>k. (cf q k + (if k = e then c else 0)) mod n)),
     map mk (coeffs (max (length r) (e + 1 + length b)) (\<lambda>k. (cf r k - c * shifted e (cf b) k mod n) mod n)))"
proof -
  note nM = cube_bounds [OF n]
  let ?s = "coeffs (e + 1) (\<lambda>k. if k = e then c else 0)"
  let ?m = "coeffs (e + 1 + length b) (\<lambda>k. c * shifted e (cf b) k mod n)"
  have e: "e + 1 \<le> length b" unfolding e_def using dr b(2) by linarith
  have fits: "usize_fits (e + 1)" "usize_fits (e + 1 + length b)" using b(3) e by (simp_all add: usize_fits_def)
  have cr: "0 \<le> cf r dr" "cf r dr \<le> n - 1" using bounded_cf [OF r, of dr] n by auto
  have c: "0 \<le> c" "c \<le> (n - 1) * (n - 1)" unfolding c_def using cr u n by (auto intro: mult_mono)
  have s: "bounded ((n - 1) * (n - 1)) ?s" using c by (intro bounded_coeffs) auto
  have cfs: "cf ?s k = (if k = e then c else 0)" for k by (simp add: cf_coeffs)
  have cfm: "cf ?m k = c * shifted e (cf b) k mod n" for k by (auto simp: cf_coeffs shifted_def)
  have mulc: "n_mul T (mk (cf r dr)) (mk u) = Some (mk c)" using cr u c nM unfolding c_def by (intro mul) linarith+
  have "poly_add T (map mk q) (map mk ?s) (mk n) = Some (map mk (coeffs (max (length q) (length ?s)) (\<lambda>k. (cf q k + cf ?s k) mod n)))"
    by (rule poly_add [OF q(1) s]) (use n nM in linarith | simp)+
  then have add: "poly_add T (map mk q) (map mk ?s) (mk n) = Some (map mk (coeffs (length q) (\<lambda>k. (cf q k + (if k = e then c else 0)) mod n)))"
    using e by (simp only: cfs length_coeffs q(2) max_absorb1)
  have mul': "mul_poly_naive T (map mk ?s) (map mk b) (mk n) = Some (map mk ?m)"
    using mul_poly_naive [OF s b(1)] n(1) nM fits by (simp only: cfs [abs_def] length_coeffs conv_monomial)
  have sub': "poly_sub T (map mk r) (map mk ?m) (mk n) = Some (map mk (coeffs (max (length r) (e + 1 + length b)) (\<lambda>k. (cf r k - c * shifted e (cf b) k mod n) mod n)))"
    using poly_sub [OF r bounded_coeffs_mod nM(2)] n(1) cfm by simp
  show ?thesis
    by (subst poly_div_loop.simps)
      (simp only: fst_conv snd_conv dr(1,2) e_def [symmetric] leading_coef [OF dr(1,3)] mulc monomial [OF fits(1)] add mul' sub' Option.bind.bind_lunit if_True)
qed

lemma poly_div_loop:
  assumes n: "2 \<le> n" "n * n * n \<le> M"
    and b: "bounded (n - 1) b" "0 < d" "d < length b" "\<And>k. d < k \<Longrightarrow> cf b k = 0" "usize_fits (2 * length b)"
    and u: "0 \<le> u" "u < n" "cf b d * u mod n = 1"
    and q: "bounded (n - 1) q" "length q = length b"
    and r: "bounded (n - 1) r" "length b \<le> length r" "\<And>k. m \<le> k \<Longrightarrow> cf r k = 0" "m \<le> length b"
  shows "\<exists>q' r'. poly_div_loop T (map mk b) (mk n) (mk u) d (map mk q, map mk r) = Some (map mk q', map mk r')
    \<and> bounded (n - 1) q' \<and> bounded (n - 1) r' \<and> length q' = length b
    \<and> (\<forall>k. (conv (cf q') (cf b) k + cf r' k) mod n = (conv (cf q) (cf b) k + cf r k) mod n) \<and> (\<forall>k\<ge>d. cf r' k = 0)"
  using q r
proof (induction m arbitrary: q r rule: less_induct)
  case (less m)
  have rM: "bounded M r" using less.prems(3) cube_bounds(6) [OF n] by (force simp: bounded_def)
  have "r \<noteq> []" using less.prems(4) b(3) by auto
  from deg [OF rM this] obtain dr where dr: "dr < length r" "deg T (map mk r) = Some dr" "\<And>k. dr < k \<Longrightarrow> cf r k = 0" "0 < dr \<Longrightarrow> cf r dr \<noteq> 0"
    by blast
  show ?case
  proof (cases "d \<le> dr")
    case False
    then have "\<forall>k\<ge>d. cf r k = 0" using dr(3) by simp
    then show ?thesis using False dr(2) less.prems by (intro exI [of _ q] exI [of _ r]) (subst poly_div_loop.simps, simp)
  next
    case True
    have drm: "dr < m" using True b(2) dr(4) less.prems(5) by (metis not_le order_less_le_trans)
    then have drb: "dr < length b" "dr \<le> length b" using less.prems(6) by simp_all
    let ?c = "cf r dr * u" and ?e = "dr - d"
    let ?q = "coeffs (length q) (\<lambda>k. (cf q k + (if k = ?e then ?c else 0)) mod n)"
    let ?r = "coeffs (max (length r) (?e + 1 + length b)) (\<lambda>k. (cf r k - ?c * shifted ?e (cf b) k mod n) mod n)"
    note unf = div_loop_step [OF n b(1,2,5) u(1,2) less.prems(1-3) dr(2) True dr(1) drb(1)]
    have q1: "bounded (n - 1) ?q" "length ?q = length b" and r1: "bounded (n - 1) ?r" "length b \<le> length ?r"
      using n(1) less.prems by (simp_all add: bounded_coeffs_mod)
    have deg0: "cf ?r k = 0" if "dr \<le> k" for k by (rule div_step_degree [OF True b(4) dr(3) u(3) refl that])
    have sum: "(conv (cf ?q) (cf b) k + cf ?r k) mod n = (conv (cf q) (cf b) k + cf r k) mod n" for k
      by (rule div_step_sum [OF _ _ _ refl refl]) (use drb less.prems in auto)
    from less.IH [OF drm q1 r1 deg0 drb(2)] show ?thesis unfolding unf sum .
  qed
qed

lemma deg_unique:
  assumes "bounded M xs" "d < length xs" "cf xs d \<noteq> 0" "\<And>k. d < k \<Longrightarrow> cf xs k = 0"
  shows "deg T (map mk xs) = Some d"
proof -
  have "xs \<noteq> []" using assms(2) by auto
  from deg [OF assms(1) this] obtain e where e: "deg T (map mk xs) = Some e" "\<And>k. e < k \<Longrightarrow> cf xs k = 0" "0 < e \<Longrightarrow> cf xs e \<noteq> 0" by blast
  have "\<not> e < d" using e(2) assms(3) by auto
  moreover have "\<not> d < e" using e(3) assms(4) by auto
  ultimately show ?thesis using e(1) by simp
qed

end

lemma cf_padded: "length xs \<le> l \<Longrightarrow> cf (coeffs l (cf xs)) = cf xs"
  by (auto simp: cf_coeffs)

lemma bounded_padded: "bounded m xs \<Longrightarrow> 0 \<le> m \<Longrightarrow> bounded m (coeffs l (cf xs))"
  by (intro bounded_coeffs bounded_cf)

lemma conv_constant:
  assumes "\<And>k. 0 < k \<Longrightarrow> g k = 0"
  shows "conv f g k = f k * g 0"
proof -
  have "(\<Sum>i\<le>k. f i * g (k - i)) = (\<Sum>i\<in>{k}. f i * g (k - i))"
    by (rule sum.mono_neutral_right) (auto simp: assms)
  then show ?thesis by (simp add: conv_def)
qed

lemma conv_zero: "conv (\<lambda>_. 0) g k = 0"
  by (simp add: conv_def)

context modular_field
begin

lemma invert_fermat:
  assumes "prime_mod n" "n \<le> M" "0 < a" "a < n"
  obtains u where "0 < u" "u < n" "a * u mod n = 1" "invert_fermat T (mk a) (mk n) = Some (mk u)"
proof -
  have "2 \<le> n" using assms(1) by (simp add: prime_mod_def)
  then show ?thesis using pow_inverse [OF assms] that sub [of 2 n] assms(2) by (auto simp: invert_fermat_def const_eqs)
qed

lemma scalar_div:
  assumes n: "prime_mod n" "n * n \<le> M" and a: "bounded (n - 1) a" and c: "0 < c" "c < n"
  obtains u where "c * u mod n = 1" "scalar_div T (map mk a) (mk c) (mk n) = Some (map mk (map (\<lambda>x. x * u mod n) a))"
proof -
  have n2: "2 \<le> n" using n(1) by (simp add: prime_mod_def)
  have "n * 1 \<le> n * n" using n2 by (intro mult_left_mono) auto
  then have nM: "n \<le> M" using n(2) by simp
  from invert_fermat [OF n(1) nM c] obtain u where u: "0 < u" "u < n" "c * u mod n = 1" "invert_fermat T (mk c) (mk n) = Some (mk u)" by blast
  have "mapM (\<lambda>a_i. do { x \<leftarrow> n_mul T a_i (mk u); n_modulo T x (mk n) }) (map mk a) = Some (map mk (map (\<lambda>x. x * u mod n) a))"
  proof (rule mapM_map)
    fix x assume "x \<in> set a"
    then have x: "0 \<le> x" "x \<le> n - 1" using a by (auto simp: bounded_def)
    have "x * u \<le> n * n" using x u by (intro mult_mono) auto
    then have xu: "x * u \<le> M" using n(2) by linarith
    then have "n_mul T (mk x) (mk u) = Some (mk (x * u))" using x u(1,2) nM by (intro mul) auto
    then show "n_mul T (mk x) (mk u) \<bind> (\<lambda>x. n_modulo T x (mk n)) = Some (mk (x * u mod n))"
      using x u(1) xu n2 nM modulo_eq [of "x * u" n] by simp
  qed
  then show ?thesis using that u by (simp add: scalar_div_def)
qed

lemma poly_div_constant:
  assumes n: "prime_mod n" "n * n \<le> M" and a: "bounded (n - 1) a" and b: "bounded (n - 1) b" "b \<noteq> []" "b ! 0 \<noteq> 0" "\<And>k. 0 < k \<Longrightarrow> cf b k = 0"
    and l: "length a = length b"
  shows "\<exists>q r. (do { b0 \<leftarrow> vec_get (map mk b) 0; x \<leftarrow> scalar_div T (map mk a) b0 (mk n); Some (x, map mk (coeffs (length b) (\<lambda>_. 0))) }) = Some (map mk q, map mk r)
    \<and> bounded (n - 1) q \<and> bounded (n - 1) r \<and> (\<forall>k. (conv (cf q) (cf b) k + cf r k) mod n = cf a k) \<and> (\<forall>k\<ge>0. cf r k = 0)"
proof -
  have n2: "2 \<le> n" using n(1) by (simp add: prime_mod_def)
  have c: "0 < b ! 0" "b ! 0 < n" using bounded_nth [OF b(1), of 0] b(2,3) by auto
  from scalar_div [OF n a c] obtain u where u: "b ! 0 * u mod n = 1" "scalar_div T (map mk a) (mk (b ! 0)) (mk n) = Some (map mk (map (\<lambda>x. x * u mod n) a))" by blast
  let ?q = "map (\<lambda>x. x * u mod n) a" and ?r = "coeffs (length b) (\<lambda>_. 0)"
  have r: "cf ?r = (\<lambda>_. 0)" by (simp add: cf_def fun_eq_iff)
  have "(conv (cf ?q) (cf b) k + cf ?r k) mod n = cf a k" for k
  proof (cases "k < length a")
    case True
    have "(a ! k * u mod n) * b ! 0 mod n = a ! k * (b ! 0 * u mod n) mod n"
      by (simp add: mod_mult_left_eq mod_mult_right_eq ac_simps)
    then show ?thesis using True u(1) b(2) bounded_mod [OF a True] by (simp add: r conv_constant [OF b(4)])
  qed (simp add: r conv_constant [OF b(4)])
  moreover have "bounded (n - 1) ?q" "bounded (n - 1) ?r" using n2 by (auto simp: bounded_def coeffs_def)
  ultimately show ?thesis using u(2) b(2) r by (intro exI [of _ ?q] exI [of _ ?r]) simp
qed

lemma poly_div:
  assumes n: "prime_mod n" "n * n * n \<le> M" and a: "bounded (n - 1) a" and b: "bounded (n - 1) b" "d < length b" "cf b d \<noteq> 0" "\<And>k. d < k \<Longrightarrow> cf b k = 0"
    and fits: "usize_fits (2 * max (length a) (length b))"
  shows "\<exists>q r. poly_div T (map mk a) (map mk b) (mk n) = Some (map mk q, map mk r)
    \<and> bounded (n - 1) q \<and> bounded (n - 1) r \<and> (\<forall>k. (conv (cf q) (cf b) k + cf r k) mod n = cf a k) \<and> (\<forall>k\<ge>d. cf r k = 0)"
proof -
  let ?l = "max (length a) (length b)"
  let ?a = "coeffs ?l (cf a)" and ?b = "coeffs ?l (cf b)" and ?q = "coeffs ?l (\<lambda>_. 0)"
  have n2: "2 \<le> n" using n(1) by (simp add: prime_mod_def)
  note nM = cube_bounds [OF n2 n(2)]
  have cfs: "cf ?a = cf a" "cf ?b = cf b" by (simp_all add: cf_padded)
  have ab: "bounded (n - 1) ?a" "bounded (n - 1) ?b" "d < length ?b" "cf ?b d \<noteq> 0" "\<And>k. d < k \<Longrightarrow> cf ?b k = 0"
    using a b n2 by (auto simp: cfs bounded_padded)
  have deg: "deg T (map mk ?b) = Some d" using ab nM(6) by (intro deg_unique) (auto simp: bounded_def)
  show ?thesis
  proof (cases "d = 0")
    case True
    have "n * n * 1 \<le> n * n * n" using n2 by (intro mult_left_mono) auto
    then have nn: "n * n \<le> M" using n(2) by simp
    have "?b \<noteq> []" "?b ! 0 \<noteq> 0" using ab(3,4) True by (auto simp flip: length_greater_0_conv)
    from poly_div_constant [OF n(1) nn ab(1,2) this ab(5) [unfolded True]] show ?thesis
      using True deg by (simp add: poly_div_def normalize_map Let_def zeros const_eqs cfs)
  next
    case False
    have bd: "0 < cf ?b d" "cf ?b d < n" using bounded_nth [OF ab(2,3)] ab(3,4) by (auto simp: less_le)
    from invert_fermat [OF n(1) nM(1) bd] obtain u where u: "0 < u" "u < n" "cf ?b d * u mod n = 1" "invert_fermat T (mk (cf ?b d)) (mk n) = Some (mk u)" by blast
    have q0: "bounded (n - 1) ?q" "cf ?q = (\<lambda>_. 0)" using n2 by (auto simp: bounded_def coeffs_def cf_def fun_eq_iff)
    have "\<exists>q' r'. poly_div_loop T (map mk ?b) (mk n) (mk u) d (map mk ?q, map mk ?a) = Some (map mk q', map mk r')
      \<and> bounded (n - 1) q' \<and> bounded (n - 1) r' \<and> length q' = length ?b
      \<and> (\<forall>k. (conv (cf q') (cf ?b) k + cf r' k) mod n = (conv (cf ?q) (cf ?b) k + cf ?a k) mod n) \<and> (\<forall>k\<ge>d. cf r' k = 0)"
      by (rule poly_div_loop [where m = ?l]) (use False fits n2 n(2) u ab q0 in auto)
    then obtain q r where qr: "poly_div_loop T (map mk ?b) (mk n) (mk u) d (map mk ?q, map mk ?a) = Some (map mk q, map mk r)"
      "bounded (n - 1) q" "bounded (n - 1) r" "\<forall>k. (conv (cf q) (cf b) k + cf r k) mod n = (conv (\<lambda>_. 0) (cf b) k + cf a k) mod n" "\<forall>k\<ge>d. cf r k = 0"
      unfolding cfs q0(2) by blast
    have am: "cf a k mod n = cf a k" for k using bounded_cf [OF a, of k] n2 by simp
    have "poly_div T (map mk a) (map mk b) (mk n) = Some (map mk q, map mk r)"
      using False deg leading_coef [OF deg ab(3)] u(4) qr(1) make_positive_reduced [OF qr(2)] make_positive_reduced [OF qr(3)] n2 nM(1)
      by (simp add: poly_div_def normalize_map Let_def zeros const_eqs cfs)
    then show ?thesis using qr(2-5) am by (auto simp: conv_zero)
  qed
qed

end

section \<open>The functions on the public machine integers\<close>

text \<open>
  C13: Multiplication of polynomials modulo \<open>n\<close>. For coefficients below \<open>n\<close> with \<open>n\<close> squared in range, \<open>mul_poly\<close> of the signed and of the unsigned public integers does not panic, leaving out the zero
  coefficients does not change the result, and every coefficient of the result is that of the product, modulo \<open>n\<close>.
\<close>

theorem mul_poly_correct:
  fixes n :: int
  assumes "bounded (n - 1) xs" "bounded (n - 1) ys" "0 < n" "n * n < 2 ^ (LENGTH('a::len) - 1)" "3 \<le> LENGTH('a)" "bigint_spec B" "usize_fits (length xs + length ys)"
  shows "mul_poly (signed_integer B :: 'a word integer) (map word_of_int xs) (map word_of_int ys) (word_of_int n)
      = Some (map word_of_int (coeffs (length xs + length ys) (\<lambda>k. conv (cf xs) (cf ys) k mod n)))
    \<and> mul_poly (unsigned_integer :: 'a word integer) (map word_of_int xs) (map word_of_int ys) (word_of_int n)
      = Some (map word_of_int (coeffs (length xs + length ys) (\<lambda>k. conv (cf xs) (cf ys) k mod n)))"
proof -
  have s: "modular_integer (signed_integer B :: 'a word integer) word_of_int (2 ^ (LENGTH('a) - 1) - 1)"
    using signed_modular [OF assms(5,6)] by (rule modular_field.axioms(1))
  have u: "modular_integer (unsigned_integer :: 'a word integer) word_of_int (2 ^ LENGTH('a) - 1)"
    using assms(5) by (intro unsigned_modular) simp
  have "n * 1 \<le> n * n" using assms(3) by (intro mult_left_mono) auto
  moreover have "(n - 1) * (n - 1) + n \<le> n * n" using assms(3) by (simp add: algebra_simps)
  moreover have "(2 :: int) ^ (LENGTH('a) - 1) \<le> 2 ^ LENGTH('a)" by simp
  ultimately have b: "(n - 1) * (n - 1) + n \<le> 2 ^ (LENGTH('a) - 1) - 1" "n - 1 \<le> 2 ^ (LENGTH('a) - 1) - 1" "n \<le> 2 ^ (LENGTH('a) - 1) - 1"
    "(n - 1) * (n - 1) + n \<le> 2 ^ LENGTH('a) - 1" "n - 1 \<le> 2 ^ LENGTH('a) - 1" "n \<le> 2 ^ LENGTH('a) - 1"
    using assms(4) by linarith+
  show ?thesis
    unfolding mul_poly_def
    using modular_integer.poly_mul [OF s assms(1,2) b(1,2) assms(3) b(3) assms(7)] modular_integer.poly_mul [OF u assms(1,2) b(4,5) assms(3) b(6) assms(7)] by (rule conjI)
qed

theorem mul_poly_correct_witness:
  "mul_poly (unsigned_integer :: 32 word integer) [1, 2] [4, 3] 5 = Some (map word_of_int (coeffs (Suc (Suc (Suc (Suc 0)))) (\<lambda>k. conv (cf [1, 2]) (cf [4, 3]) k mod 5)))
   \<and> coeffs (Suc (Suc (Suc (Suc 0)))) (\<lambda>k. conv (cf [1, 2]) (cf [4, 3]) k mod 5) = [4, 1, 1, 0]"
proof
  show "mul_poly (unsigned_integer :: 32 word integer) [1, 2] [4, 3] 5 = Some (map word_of_int (coeffs (Suc (Suc (Suc (Suc 0)))) (\<lambda>k. conv (cf [1, 2]) (cf [4, 3]) k mod 5)))"
    using mul_poly_correct [of 5 "[1, 2]" "[4, 3]" bigint_ref, where 'a = 32] by (simp add: bounded_def bigint_ref_spec usize_fits_def)
qed code_simp



text \<open>
  \<open>pow_mod\<close> of the unsigned public integers is not implemented, and \<open>div_poly\<close> inverts the leading coefficient of the divisor with it: for these types the division always panics.
\<close>

lemma unsigned_div_poly_panics: "div_poly (unsigned_integer :: 'a::len word integer) a b n = None"
proof -
  have "invert_fermat (unsigned_integer :: 'a word integer) x m = None" for x m
    by (cases "n_sub (unsigned_integer :: 'a word integer) m (TWO unsigned_integer)") (simp_all add: invert_fermat_def unsigned_integer_def)
  then show ?thesis
    by (auto simp: div_poly_def poly_div_def scalar_div_def Let_def split: prod.splits bind_splits)
qed

text \<open>\<open>vec_poly_mul\<close> multiplies coefficient by coefficient.\<close>

lemma vec_poly_mul_pointwise:
  "vec_poly_mul (unsigned_integer :: 32 word integer) [1, 2] [4, 3] 5 = Some [4, 1]"
  by (simp add: vec_poly_mul_def unsigned_integer_def pu_mul_mod_def pu_mul_def pu_rem_def rust_assert_def)

end
