(* ===== verification/Stream_Cipher.thy ===== *)
theory Stream_Cipher
  imports Arrays
begin

text \<open>
  What the stream ciphers of \<open>examples\<close> share: the exclusive or of byte strings, and the loop that encrypts a message block by block with a function \<open>ks\<close> from block numbers to key blocks of \<open>c\<close> bytes.
  ChaCha20 and the counter mode of AES are instances.
\<close>

definition xor_bytes :: "u8 list \<Rightarrow> u8 list \<Rightarrow> u8 list" where
  "xor_bytes xs ys = map2 (XOR) xs ys"

lemma length_xor_bytes [simp]: "length (xor_bytes xs ys) = min (length xs) (length ys)"
  by (simp add: xor_bytes_def)

lemma xor_bytes_append:
  "length xs = length ys \<Longrightarrow> xor_bytes (xs @ xs') (ys @ ys') = xor_bytes xs ys @ xor_bytes xs' ys'"
  by (simp add: xor_bytes_def)

lemma take_xor_bytes: "take n (xor_bytes xs ys) = xor_bytes (take n xs) (take n ys)"
  by (simp add: xor_bytes_def take_map take_zip)

lemma drop_xor_bytes: "drop n (xor_bytes xs ys) = xor_bytes (drop n xs) (drop n ys)"
  by (simp add: xor_bytes_def drop_map drop_zip)

lemma xor_bytes_twice: "length xs \<le> length ys \<Longrightarrow> xor_bytes (xor_bytes xs ys) ys = xs"
  by (intro nth_equalityI) (simp_all add: xor_bytes_def xor.assoc)

lemma xor_bytes_take: "xor_bytes xs (take (length xs) ys) = xor_bytes xs ys"
  by (intro nth_equalityI) (simp_all add: xor_bytes_def)

section \<open>Key streams\<close>

definition key_stream :: "(nat \<Rightarrow> u8 list) \<Rightarrow> nat \<Rightarrow> u8 list" where
  "key_stream ks n = concat (map ks [0..<n])"

lemma key_stream_Suc: "key_stream ks (Suc n) = key_stream ks n @ ks n"
  by (simp add: key_stream_def)

lemma length_key_stream: "(\<And>i. length (ks i) = c) \<Longrightarrow> length (key_stream ks n) = c * n"
  by (induction n) (simp_all add: key_stream_def)

lemma key_stream_block:
  assumes "\<And>i. length (ks i) = c" "i < n"
  shows "take c (drop (c * i) (key_stream ks n)) = ks i"
proof -
  have "[0..<n] = [0..<i] @ i # [Suc i..<n]" 
    using upt_add_eq_append [of 0 i "n - i"] upt_conv_Cons [OF assms(2)] assms(2) by simp
  then have "key_stream ks n = key_stream ks i @ ks i @ concat (map ks [Suc i..<n])"
    by (simp add: key_stream_def)
  then show ?thesis by (simp add: length_key_stream [of ks, OF assms(1)] assms(1))
qed

lemma key_stream_xor_block:
  assumes "\<And>i. length (ks i) = c" "i \<le> length m div c"
  shows "take c (drop (c * i) (xor_bytes m (key_stream ks (Suc (length m div c))))) = xor_bytes (take c (drop (c * i) m)) (ks i)"
  using key_stream_block [of ks, OF assms(1), of i "Suc (length m div c)"] assms(2) by (simp add: drop_xor_bytes take_xor_bytes)

lemma length_stream_xor:
  assumes "\<And>i. length (ks i) = c" "0 < c"
  shows "length (xor_bytes m (key_stream ks (Suc (length m div c)))) = length m"
proof -
  have "length m mod c \<le> c" using assms(2) by (simp add: less_imp_le)
  then have "length m \<le> c * Suc (length m div c)" using mult_div_mod_eq [of c "length m"] unfolding mult_Suc_right by linarith
  then show ?thesis by (simp add: length_key_stream [of ks, OF assms(1)])
qed

text \<open>
  The loop over the full blocks, with the state of the loop given by \<open>e i s\<close> for the output \<open>s\<close> before block \<open>i\<close>, and the last block. \<open>n\<close> is the number of full blocks.
\<close>

lemma stream_loop:
  assumes ks: "\<And>i. length (ks i) = c" "0 < c" and len: "length s_init = length m"
    and body: "\<And>i s. i < length m div c \<Longrightarrow> c * i + c \<le> length m \<Longrightarrow> length s = length m \<Longrightarrow>
      body i (e i s) = Some (e (Suc i) (take (c * i) s @ xor_bytes (take c (drop (c * i) m)) (ks i) @ drop (c * i + c) s))"
  shows "\<exists>s. for_range 0 (length m div c) body (e 0 s_init) = Some (e (length m div c) s) \<and> length s = length m \<and>
    take (c * (length m div c)) s = take (c * (length m div c)) (xor_bytes m (key_stream ks (Suc (length m div c))))"
proof -
  let ?n = "length m div c" and ?x = "xor_bytes m (key_stream ks (Suc (length m div c)))"
  have "\<exists>t. for_range 0 ?n body (e 0 s_init) = Some t \<and> (\<exists>s. t = e ?n s \<and> length s = length m \<and> take (c * ?n) s = take (c * ?n) ?x)"
  proof (rule for_range_rule [where P = "\<lambda>i t. \<exists>s. t = e i s \<and> length s = length m \<and> take (c * i) s = take (c * i) ?x"])
    show "\<exists>s. e 0 s_init = e 0 s \<and> length s = length m \<and> take (c * 0) s = take (c * 0) ?x" using len by auto
    fix i t assume i: "i < ?n" and t: "\<exists>s. t = e i s \<and> length s = length m \<and> take (c * i) s = take (c * i) ?x"
    then obtain s where s: "t = e i s" "length s = length m" "take (c * i) s = take (c * i) ?x" by blast
    have "c * Suc i \<le> c * ?n" using i by (intro mult_le_mono2) simp
    then have le: "c * i + c \<le> length m" using times_div_less_eq_dividend [of c "length m"] unfolding mult_Suc_right by linarith
    let ?b = "xor_bytes (take c (drop (c * i) m)) (ks i)"
    let ?s = "take (c * i) s @ ?b @ drop (c * i + c) s"
    have lb: "length ?b = c" using le by (simp add: ks(1))
    have "take (c * Suc i) ?x = take (c * i) ?x @ take c (drop (c * i) ?x)"
      unfolding mult_Suc_right add.commute [of c] by (rule take_add)
    then have "take (c * Suc i) ?x = take (c * i) s @ ?b" using key_stream_xor_block [of ks, OF ks(1), of i m] i s(3) by simp
    moreover have "take (c * Suc i) ?s = take (c * i) s @ ?b" using s(2) le lb by simp
    moreover have "length ?s = length m" using s(2) le lb by (simp del: length_xor_bytes)
    moreover have "body i t = Some (e (Suc i) ?s)" using body [OF i le s(2)] s(1) by simp
    ultimately show "\<exists>t'. body i t = Some t' \<and> (\<exists>s. t' = e (Suc i) s \<and> length s = length m \<and> take (c * Suc i) s = take (c * Suc i) ?x)"
      by (metis (no_types, lifting))
  qed simp
  then show ?thesis by blast
qed

lemma stream_last:
  assumes ks: "\<And>i. length (ks i) = c" "0 < c" and fits: "usize_fits (length m + c)"
    and s: "length s = length m" "take (c * (length m div c)) s = take (c * (length m div c)) (xor_bytes m (key_stream ks (Suc (length m div c))))"
  defines "n \<equiv> length m div c" and "x \<equiv> xor_bytes m (key_stream ks (Suc (length m div c)))"
  shows "length (drop (c * n) m) < c"
    and "drop (c * n) m = [] \<Longrightarrow> s = x"
    and "seq_get_remainder_chunk m c = Some (drop (c * n) m)"
    and "drop (c * n) m \<noteq> [] \<Longrightarrow> seq_set_chunk s c n (xor_bytes (drop (c * n) m) (ks n)) = Some x"
proof -
  have lx: "length x = length m" unfolding x_def by (rule length_stream_xor [of ks, OF ks])
  show ll: "length (drop (c * n) m) < c" unfolding n_def using ks(2) by (simp add: minus_mult_div_eq_mod)
  show "s = x" if "drop (c * n) m = []" using that s lx by (simp add: n_def x_def)
  show "seq_get_remainder_chunk m c = Some (drop (c * n) m)" unfolding n_def by (rule seq_get_remainder_chunk_eq [OF ks(2) fits])
  have um: "usize_fits (length m)" using fits by (rule usize_fits_mono) simp
  have le: "c * n \<le> length m" unfolding n_def by (rule times_div_less_eq_dividend)
  let ?b = "xor_bytes (drop (c * n) m) (ks n)"
  have lb: "length ?b = length m - c * n" using ll by (simp add: ks(1))
  have "drop (c * n) x = ?b"
    using key_stream_xor_block [of ks, OF ks(1), of n m] ll lx by (simp add: n_def x_def take_all)
  then have "take (c * n) s @ ?b = x" using s(2) unfolding n_def x_def by (metis append_take_drop_id)
  moreover have "seq_set_chunk s c n ?b = Some (take (c * n) s @ ?b)" if "drop (c * n) m \<noteq> []"
    using fits s(1) le lb ll that ks(2) by (subst seq_set_chunk_eq) (auto intro: usize_fits_mono [OF um])
  ultimately show "seq_set_chunk s c n ?b = Some x" if "drop (c * n) m \<noteq> []" using that by simp
qed

end
