(* ===== verification/Aes.thy ===== *)
theory Aes
  imports Stream_Cipher
begin

text \<open>
  \<open>examples/aes/src/aes.rs\<close>: the block cipher AES and its counter mode over the arrays and sequences of the library. A panic is \<open>None\<close>; a \<open>Result\<close> is a sum with the error on the left.

  The lemmas show that the encryption of a block is that of FIPS 197, with the table of the code as the S-box of the standard, that it is a permutation of the blocks for every key, and that the
  counter mode is the exclusive or with its key stream and its own inverse.
\<close>

section \<open>Results\<close>

text \<open>The operator \<open>?\<close>, the method \<open>unwrap\<close>, and a loop whose body may return early with an error.\<close>

definition try_bind :: "('e + 'a) option \<Rightarrow> ('a \<Rightarrow> ('e + 'b) option) \<Rightarrow> ('e + 'b) option" where
  "try_bind r f = do { x \<leftarrow> r; (case x of Inl e \<Rightarrow> Some (Inl e) | Inr a \<Rightarrow> f a) }"

definition result_unwrap :: "('e + 'a) option \<Rightarrow> 'a option" where
  "result_unwrap r = do { x \<leftarrow> r; (case x of Inl e \<Rightarrow> None | Inr a \<Rightarrow> Some a) }"

definition for_try :: "nat \<Rightarrow> nat \<Rightarrow> (nat \<Rightarrow> 's \<Rightarrow> ('e + 's) option) \<Rightarrow> 's \<Rightarrow> ('e + 's) option" where
  "for_try lo hi f s = for_range lo hi (\<lambda>i r. case r of Inl e \<Rightarrow> Some (Inl e) | Inr s \<Rightarrow> f i s) (Inr s)"

section \<open>Constants\<close>

definition AES_BLOCKSIZE :: usize where
  [simp]: "AES_BLOCKSIZE = 16"

definition KEY_LENGTH :: usize where
  [simp]: "KEY_LENGTH = 4"

definition ROUNDS :: usize where
  [simp]: "ROUNDS = 10"

definition KEY_SCHEDULE_LENGTH :: usize where
  [simp]: "KEY_SCHEDULE_LENGTH = 176"

definition ITERATIONS :: usize where
  [simp]: "ITERATIONS = 40"

definition INVALID_KEY_EXPANSION_INDEX :: u8 where
  "INVALID_KEY_EXPANSION_INDEX = 1"

definition SBOX :: "8 secret array" where
  "SBOX =
    [0x63, 0x7C, 0x77, 0x7B, 0xF2, 0x6B, 0x6F, 0xC5, 0x30, 0x01, 0x67, 0x2B, 0xFE, 0xD7, 0xAB, 0x76,
     0xCA, 0x82, 0xC9, 0x7D, 0xFA, 0x59, 0x47, 0xF0, 0xAD, 0xD4, 0xA2, 0xAF, 0x9C, 0xA4, 0x72, 0xC0,
     0xB7, 0xFD, 0x93, 0x26, 0x36, 0x3F, 0xF7, 0xCC, 0x34, 0xA5, 0xE5, 0xF1, 0x71, 0xD8, 0x31, 0x15,
     0x04, 0xC7, 0x23, 0xC3, 0x18, 0x96, 0x05, 0x9A, 0x07, 0x12, 0x80, 0xE2, 0xEB, 0x27, 0xB2, 0x75,
     0x09, 0x83, 0x2C, 0x1A, 0x1B, 0x6E, 0x5A, 0xA0, 0x52, 0x3B, 0xD6, 0xB3, 0x29, 0xE3, 0x2F, 0x84,
     0x53, 0xD1, 0x00, 0xED, 0x20, 0xFC, 0xB1, 0x5B, 0x6A, 0xCB, 0xBE, 0x39, 0x4A, 0x4C, 0x58, 0xCF,
     0xD0, 0xEF, 0xAA, 0xFB, 0x43, 0x4D, 0x33, 0x85, 0x45, 0xF9, 0x02, 0x7F, 0x50, 0x3C, 0x9F, 0xA8,
     0x51, 0xA3, 0x40, 0x8F, 0x92, 0x9D, 0x38, 0xF5, 0xBC, 0xB6, 0xDA, 0x21, 0x10, 0xFF, 0xF3, 0xD2,
     0xCD, 0x0C, 0x13, 0xEC, 0x5F, 0x97, 0x44, 0x17, 0xC4, 0xA7, 0x7E, 0x3D, 0x64, 0x5D, 0x19, 0x73,
     0x60, 0x81, 0x4F, 0xDC, 0x22, 0x2A, 0x90, 0x88, 0x46, 0xEE, 0xB8, 0x14, 0xDE, 0x5E, 0x0B, 0xDB,
     0xE0, 0x32, 0x3A, 0x0A, 0x49, 0x06, 0x24, 0x5C, 0xC2, 0xD3, 0xAC, 0x62, 0x91, 0x95, 0xE4, 0x79,
     0xE7, 0xC8, 0x37, 0x6D, 0x8D, 0xD5, 0x4E, 0xA9, 0x6C, 0x56, 0xF4, 0xEA, 0x65, 0x7A, 0xAE, 0x08,
     0xBA, 0x78, 0x25, 0x2E, 0x1C, 0xA6, 0xB4, 0xC6, 0xE8, 0xDD, 0x74, 0x1F, 0x4B, 0xBD, 0x8B, 0x8A,
     0x70, 0x3E, 0xB5, 0x66, 0x48, 0x03, 0xF6, 0x0E, 0x61, 0x35, 0x57, 0xB9, 0x86, 0xC1, 0x1D, 0x9E,
     0xE1, 0xF8, 0x98, 0x11, 0x69, 0xD9, 0x8E, 0x94, 0x9B, 0x1E, 0x87, 0xE9, 0xCE, 0x55, 0x28, 0xDF,
     0x8C, 0xA1, 0x89, 0x0D, 0xBF, 0xE6, 0x42, 0x68, 0x41, 0x99, 0x2D, 0x0F, 0xB0, 0x54, 0xBB, 0x16]"

definition RCON :: "8 secret array" where
  "RCON = [0x8d, 0x01, 0x02, 0x04, 0x08, 0x10, 0x20, 0x40, 0x80, 0x1b, 0x36, 0x6c, 0xd8, 0xab, 0x4d]"

section \<open>The rounds\<close>

definition sub_bytes :: "8 secret array \<Rightarrow> 8 secret array option" where
  "sub_bytes state = for_range 0 AES_BLOCKSIZE (\<lambda>i st. do {
     x \<leftarrow> vec_get state i;
     y \<leftarrow> vec_get SBOX (unat (declassify x));
     vec_set st i y
   }) state"

definition shift_row :: "usize \<Rightarrow> usize \<Rightarrow> 8 secret array \<Rightarrow> 8 secret array option" where
  "shift_row i shift state = do {
     x \<leftarrow> vec_get state (i + 4 * (shift mod 4));
     out \<leftarrow> vec_set state i x;
     x \<leftarrow> vec_get state (i + 4 * ((shift + 1) mod 4));
     out \<leftarrow> vec_set out (i + 4) x;
     x \<leftarrow> vec_get state (i + 4 * ((shift + 2) mod 4));
     out \<leftarrow> vec_set out (i + 8) x;
     x \<leftarrow> vec_get state (i + 4 * ((shift + 3) mod 4));
     vec_set out (i + 12) x
   }"

definition shift_rows :: "8 secret array \<Rightarrow> 8 secret array option" where
  "shift_rows state = do {
     state \<leftarrow> shift_row 1 1 state;
     state \<leftarrow> shift_row 2 2 state;
     shift_row 3 3 state
   }"

definition xtime :: "8 secret \<Rightarrow> 8 secret" where
  "xtime x = (let x1 = secret_shl x 1; x7 = secret_shr x 7; x71 = secret_and x7 0x01; x711b = secret_mul x71 0x1b in secret_xor x1 x711b)"

definition mix_column :: "usize \<Rightarrow> 8 secret array \<Rightarrow> 8 secret array option" where
  "mix_column c state = (let i0 = 4 * c in do {
     s0 \<leftarrow> vec_get state i0;
     s1 \<leftarrow> vec_get state (i0 + 1);
     s2 \<leftarrow> vec_get state (i0 + 2);
     s3 \<leftarrow> vec_get state (i0 + 3);
     let tmp = secret_xor (secret_xor (secret_xor s0 s1) s2) s3;
     st \<leftarrow> vec_set state i0 (secret_xor (secret_xor s0 tmp) (xtime (secret_xor s0 s1)));
     st \<leftarrow> vec_set st (i0 + 1) (secret_xor (secret_xor s1 tmp) (xtime (secret_xor s1 s2)));
     st \<leftarrow> vec_set st (i0 + 2) (secret_xor (secret_xor s2 tmp) (xtime (secret_xor s2 s3)));
     vec_set st (i0 + 3) (secret_xor (secret_xor s3 tmp) (xtime (secret_xor s3 s0)))
   })"

definition mix_columns :: "8 secret array \<Rightarrow> 8 secret array option" where
  "mix_columns state = do {
     state \<leftarrow> mix_column 0 state;
     state \<leftarrow> mix_column 1 state;
     state \<leftarrow> mix_column 2 state;
     mix_column 3 state
   }"

definition add_round_key :: "8 secret array \<Rightarrow> 8 secret array \<Rightarrow> 8 secret array option" where
  "add_round_key state key = for_range 0 AES_BLOCKSIZE (\<lambda>i out. do {
     x \<leftarrow> vec_get out i;
     k \<leftarrow> vec_get key i;
     vec_set out i (secret_xor x k)
   }) state"

definition aes_enc :: "8 secret array \<Rightarrow> 8 secret array \<Rightarrow> 8 secret array option" where
  "aes_enc state round_key = do {
     state \<leftarrow> sub_bytes state;
     state \<leftarrow> shift_rows state;
     state \<leftarrow> mix_columns state;
     add_round_key state round_key
   }"

definition aes_enc_last :: "8 secret array \<Rightarrow> 8 secret array \<Rightarrow> 8 secret array option" where
  "aes_enc_last state round_key = do {
     state \<leftarrow> sub_bytes state;
     state \<leftarrow> shift_rows state;
     add_round_key state round_key
   }"

definition rounds_aes :: "8 secret array \<Rightarrow> 8 secret seq \<Rightarrow> 8 secret array option" where
  "rounds_aes state key = do {
     n \<leftarrow> seq_num_chunks key AES_BLOCKSIZE;
     for_range 0 n (\<lambda>i out. do {
       (_, key_block) \<leftarrow> seq_get_chunk key AES_BLOCKSIZE i;
       k \<leftarrow> array_from_seq AES_BLOCKSIZE key_block;
       aes_enc out k
     }) state
   }"

definition block_cipher_aes :: "8 secret array \<Rightarrow> 8 secret seq \<Rightarrow> usize \<Rightarrow> 8 secret array option" where
  "block_cipher_aes input key nr = do {
     k0 \<leftarrow> array_from_slice_range AES_BLOCKSIZE key (0, 16);
     e \<leftarrow> usize_mul nr 16;
     k \<leftarrow> seq_from_slice_range key (16, e);
     kn \<leftarrow> array_from_slice AES_BLOCKSIZE key e 16;
     state \<leftarrow> add_round_key input k0;
     state \<leftarrow> rounds_aes state k;
     aes_enc_last state kn
   }"

section \<open>The key schedule\<close>

definition rotate_word :: "8 secret array \<Rightarrow> 8 secret array option" where
  "rotate_word w = do {
     w1 \<leftarrow> vec_get w 1;
     w2 \<leftarrow> vec_get w 2;
     w3 \<leftarrow> vec_get w 3;
     w0 \<leftarrow> vec_get w 0;
     Some [w1, w2, w3, w0]
   }"

definition slice_word :: "8 secret array \<Rightarrow> 8 secret array option" where
  "slice_word w = do {
     w0 \<leftarrow> vec_get w 0;
     s0 \<leftarrow> vec_get SBOX (unat (declassify w0));
     w1 \<leftarrow> vec_get w 1;
     s1 \<leftarrow> vec_get SBOX (unat (declassify w1));
     w2 \<leftarrow> vec_get w 2;
     s2 \<leftarrow> vec_get SBOX (unat (declassify w2));
     w3 \<leftarrow> vec_get w 3;
     s3 \<leftarrow> vec_get SBOX (unat (declassify w3));
     Some [s0, s1, s2, s3]
   }"

definition aes_keygen_assist :: "8 secret array \<Rightarrow> 8 secret \<Rightarrow> 8 secret array option" where
  "aes_keygen_assist w rcon = do {
     k \<leftarrow> rotate_word w;
     k \<leftarrow> slice_word k;
     k0 \<leftarrow> vec_get k 0;
     vec_set k 0 (secret_xor k0 rcon)
   }"

definition key_expansion_word :: "8 secret array \<Rightarrow> 8 secret array \<Rightarrow> usize \<Rightarrow> usize \<Rightarrow> usize \<Rightarrow> (u8 + 8 secret array) option" where
  "key_expansion_word w0 w1 i nk nr = do {
     n \<leftarrow> usize_add nr 1;
     n \<leftarrow> usize_mul 4 n;
     if i < n then do {
       q \<leftarrow> usize_div i nk;
       k \<leftarrow> (if i mod nk = 0 then do { rc \<leftarrow> vec_get RCON q; aes_keygen_assist w1 rc }
             else if nk > 6 \<and> i mod nk = 4 then slice_word w1 else Some w1);
       k \<leftarrow> for_range 0 4 (\<lambda>i k. do {
         x \<leftarrow> vec_get k i;
         y \<leftarrow> vec_get w0 i;
         vec_set k i (secret_xor x y)
       }) k;
       Some (Inr k)
     } else Some (Inl INVALID_KEY_EXPANSION_INDEX)
   }"

definition key_expansion_aes :: "8 secret seq \<Rightarrow> usize \<Rightarrow> usize \<Rightarrow> usize \<Rightarrow> usize \<Rightarrow> usize \<Rightarrow> (u8 + 8 secret seq) option" where
  "key_expansion_aes key nk nr key_schedule_length key_length iterations = do {
     key_ex \<leftarrow> seq_update_start (seq_new key_schedule_length) key;
     for_try 0 iterations (\<lambda>j key_ex. do {
       i \<leftarrow> usize_add j key_length;
       p0 \<leftarrow> usize_mul 4 (i - key_length);
       w0 \<leftarrow> array_from_slice 4 key_ex p0 4;
       p \<leftarrow> usize_mul 4 i;
       p1 \<leftarrow> usize_sub p 4;
       w1 \<leftarrow> array_from_slice 4 key_ex p1 4;
       try_bind (key_expansion_word w0 w1 i nk nr) (\<lambda>word. do {
         key_ex \<leftarrow> seq_update key_ex p word;
         Some (Inr key_ex)
       })
     }) key_ex
   }"

section \<open>Blocks and messages\<close>

definition aes_encrypt_block ::
  "8 secret seq \<Rightarrow> 8 secret array \<Rightarrow> usize \<Rightarrow> usize \<Rightarrow> usize \<Rightarrow> usize \<Rightarrow> usize \<Rightarrow> (u8 + 8 secret array) option" where
  "aes_encrypt_block k input nk nr key_schedule_length key_length iterations =
     try_bind (key_expansion_aes k nk nr key_schedule_length key_length iterations) (\<lambda>key_ex. do {
       b \<leftarrow> block_cipher_aes input key_ex nr;
       Some (Inr b)
     })"

definition aes128_encrypt_block :: "8 secret array \<Rightarrow> 8 secret array \<Rightarrow> 8 secret array option" where
  "aes128_encrypt_block k input = do {
     k \<leftarrow> seq_from_seq k;
     result_unwrap (aes_encrypt_block k input KEY_LENGTH ROUNDS KEY_SCHEDULE_LENGTH KEY_LENGTH ITERATIONS)
   }"

definition aes_ctr_key_block ::
  "host \<Rightarrow> 8 secret seq \<Rightarrow> 8 secret array \<Rightarrow> 32 secret \<Rightarrow> usize \<Rightarrow> usize \<Rightarrow> usize \<Rightarrow> usize \<Rightarrow> usize \<Rightarrow> (u8 + 8 secret array) option" where
  "aes_ctr_key_block h k n c nk nr key_schedule_length key_length iterations = do {
     input \<leftarrow> array_update AES_BLOCKSIZE (array_new AES_BLOCKSIZE) 0 n;
     bs \<leftarrow> word_to_be_bytes h c;
     input \<leftarrow> array_update AES_BLOCKSIZE input 12 bs;
     aes_encrypt_block k input nk nr key_schedule_length key_length iterations
   }"

definition xor_block :: "8 secret array \<Rightarrow> 8 secret array \<Rightarrow> 8 secret array option" where
  "xor_block block key_block = for_range 0 AES_BLOCKSIZE (\<lambda>i out. do {
     x \<leftarrow> vec_get out i;
     k \<leftarrow> vec_get key_block i;
     vec_set out i (secret_xor x k)
   }) block"

definition aes_counter_mode ::
  "host \<Rightarrow> 8 secret seq \<Rightarrow> 8 secret array \<Rightarrow> 32 secret \<Rightarrow> 8 secret seq \<Rightarrow> usize \<Rightarrow> usize \<Rightarrow> usize \<Rightarrow> usize \<Rightarrow> usize \<Rightarrow> (u8 + 8 secret seq) option" where
  "aes_counter_mode h key nonce counter msg nk nr key_schedule_length key_length iterations = do {
     n_blocks \<leftarrow> seq_num_exact_chunks msg AES_BLOCKSIZE;
     try_bind (for_try 0 n_blocks (\<lambda>i (blocks_out, ctr). do {
       msg_block \<leftarrow> seq_get_exact_chunk msg AES_BLOCKSIZE i;
       try_bind (aes_ctr_key_block h key nonce ctr nk nr key_schedule_length key_length iterations) (\<lambda>key_block. do {
         b \<leftarrow> array_from_seq AES_BLOCKSIZE msg_block;
         x \<leftarrow> xor_block b key_block;
         blocks_out \<leftarrow> seq_set_chunk blocks_out AES_BLOCKSIZE i x;
         Some (Inr (blocks_out, secret_add ctr 1))
       })
     }) (seq_new (seq_len msg), counter)) (\<lambda>(blocks_out, ctr). do {
       last_block \<leftarrow> seq_get_remainder_chunk msg AES_BLOCKSIZE;
       let last_block_len = seq_len last_block;
       if last_block_len \<noteq> 0 then do {
         last_block \<leftarrow> array_update_start AES_BLOCKSIZE (array_new AES_BLOCKSIZE) last_block;
         try_bind (aes_ctr_key_block h key nonce ctr nk nr key_schedule_length key_length iterations) (\<lambda>key_block. do {
           x \<leftarrow> xor_block last_block key_block;
           x \<leftarrow> array_slice_range x (0, last_block_len);
           blocks_out \<leftarrow> seq_set_chunk blocks_out AES_BLOCKSIZE n_blocks x;
           Some (Inr blocks_out)
         })
       } else Some (Inr blocks_out)
     })
   }"

definition aes128_encrypt :: "host \<Rightarrow> 8 secret array \<Rightarrow> 8 secret array \<Rightarrow> 32 secret \<Rightarrow> 8 secret seq \<Rightarrow> 8 secret seq option" where
  "aes128_encrypt h key nonce counter msg = do {
     k \<leftarrow> seq_from_seq key;
     result_unwrap (aes_counter_mode h k nonce counter msg KEY_LENGTH ROUNDS KEY_SCHEDULE_LENGTH KEY_LENGTH ITERATIONS)
   }"

definition aes128_decrypt :: "host \<Rightarrow> 8 secret array \<Rightarrow> 8 secret array \<Rightarrow> 32 secret \<Rightarrow> 8 secret seq \<Rightarrow> 8 secret seq option" where
  "aes128_decrypt h key nonce counter ctxt = do {
     k \<leftarrow> seq_from_seq key;
     result_unwrap (aes_counter_mode h k nonce counter ctxt KEY_LENGTH ROUNDS KEY_SCHEDULE_LENGTH KEY_LENGTH ITERATIONS)
   }"

section \<open>The S-box of the standard\<close>

text \<open>Multiplication in the field of FIPS 197, section 4, the affine map of section 5.1.1, and the S-box: the affine image of the inverse.\<close>

definition gf_times_x :: "u8 \<Rightarrow> u8" where
  "gf_times_x a = (if bit a 7 then push_bit 1 a XOR 0x1b else push_bit 1 a)"

fun gf_mul :: "nat \<Rightarrow> u8 \<Rightarrow> u8 \<Rightarrow> u8" where
  "gf_mul 0 a b = 0"
| "gf_mul (Suc n) a b = (if bit b 0 then a else 0) XOR gf_mul n (gf_times_x a) (drop_bit 1 b)"

definition rotl8 :: "nat \<Rightarrow> u8 \<Rightarrow> u8" where
  "rotl8 n y = push_bit n y OR drop_bit (8 - n) y"

definition sbox_affine :: "u8 \<Rightarrow> u8" where
  "sbox_affine y = y XOR rotl8 1 y XOR rotl8 2 y XOR rotl8 3 y XOR rotl8 4 y XOR 0x63"

definition fips_sbox :: "(u8 \<Rightarrow> u8) \<Rightarrow> bool" where
  "fips_sbox S \<longleftrightarrow> (\<forall>x. \<exists>y. (if x = 0 then y = 0 else gf_mul 8 x y = 1) \<and> S x = sbox_affine y)"

definition sbox :: "u8 \<Rightarrow> u8" where
  "sbox x = SBOX ! unat x"

text \<open>The same on integers, for evaluation.\<close>

definition int_times_x :: "int \<Rightarrow> int" where
  "int_times_x a = (if bit a 7 then take_bit 8 (push_bit 1 a) XOR 0x1b else take_bit 8 (push_bit 1 a))"

fun int_mul :: "nat \<Rightarrow> int \<Rightarrow> int \<Rightarrow> int" where
  "int_mul 0 a b = 0"
| "int_mul (Suc n) a b = (if bit b 0 then a else 0) XOR int_mul n (int_times_x a) (drop_bit 1 b)"

definition int_rot :: "nat \<Rightarrow> int \<Rightarrow> int" where
  "int_rot n y = take_bit 8 (push_bit n y) OR drop_bit (8 - n) y"

definition int_affine :: "int \<Rightarrow> int" where
  "int_affine y = y XOR int_rot 1 y XOR int_rot 2 y XOR int_rot 3 y XOR int_rot 4 y XOR 0x63"

definition int_affine_inv :: "int \<Rightarrow> int" where
  "int_affine_inv s = int_rot 1 s XOR int_rot 3 s XOR int_rot 6 s XOR 0x05"

lemma uint_ops [simp]:
  fixes a b :: u8
  shows "uint (push_bit n a) = take_bit 8 (push_bit n (uint a))" "uint (drop_bit n a) = drop_bit n (uint a)"
    "uint (a XOR b) = uint a XOR uint b" "uint (a OR b) = uint a OR uint b" "bit (uint a) 7 = bit a 7" "bit (uint a) 0 = bit a 0"
  using bintr_uint [where n = 8 and w = a]
  by (simp_all add: unsigned_push_bit_eq unsigned_drop_bit_eq unsigned_xor_eq unsigned_or_eq bit_uint_iff)

lemma uint_double [simp]: "uint (a * 2 :: u8) = take_bit 8 (uint a * 2)"
  using uint_ops(1) [of 1 a] by simp

lemma uint_times_x: "uint (gf_times_x a) = int_times_x (uint a)"
  by (simp add: gf_times_x_def int_times_x_def)

lemma uint_gf_mul: "uint (gf_mul n a b) = int_mul n (uint a) (uint b)"
  by (induction n arbitrary: a b) (simp_all add: uint_times_x)

lemma uint_affine: "uint (sbox_affine y) = int_affine (uint y)"
  by (simp add: sbox_affine_def int_affine_def rotl8_def int_rot_def)

lemma SBOX_check:
  "list_all (\<lambda>(x, s). let y = int_affine_inv s in (if x = 0 then y = 0 else int_mul 8 x y = 1) \<and> s = int_affine y)
    (zip (map int [0..<256]) (map uint SBOX))"
  by code_simp

lemma length_SBOX [simp]: "length SBOX = 256"
  by (simp add: SBOX_def)

lemma length_RCON [simp]: "length RCON = 15"
  by (simp add: RCON_def)

lemma unat_byte: "unat (x :: u8) < 256"
  using unsigned_less [of x, where 'a = nat] by simp

lemma sbox_get [simp]: "vec_get SBOX (unat (declassify (x :: u8))) = Some (sbox x)"
  using unat_byte [of x] by (simp add: sbox_def declassify_def)

lemma fips_sbox: "fips_sbox sbox"
  unfolding fips_sbox_def
proof
  fix x :: u8
  let ?s = "uint (SBOX ! unat x)" and ?y = "word_of_int (int_affine_inv (uint (SBOX ! unat x))) :: u8"
  have "(uint x, ?s) \<in> set (zip (map int [0..<256]) (map uint SBOX))"
    unfolding in_set_zip using unat_byte [of x] by (intro exI [of _ "unat x"]) simp
  then have c: "if uint x = 0 then int_affine_inv ?s = 0 else int_mul 8 (uint x) (int_affine_inv ?s) = 1" "?s = int_affine (int_affine_inv ?s)"
    using SBOX_check unfolding list_all_iff Let_def by blast+
  have y: "uint ?y = int_affine_inv ?s"
  proof -
    have "int_affine_inv ?s = uint (rotl8 1 (SBOX ! unat x) XOR rotl8 3 (SBOX ! unat x) XOR rotl8 6 (SBOX ! unat x) XOR 0x05)"
      by (simp add: int_affine_inv_def rotl8_def int_rot_def)
    then show ?thesis by (simp only: word_of_int_uint)
  qed
  have "sbox x = sbox_affine ?y" using c(2) y uint_affine [of ?y] by (simp add: sbox_def word_uint_eqI)
  moreover have "if x = 0 then ?y = 0 else gf_mul 8 x ?y = 1"
    using c(1) y uint_gf_mul [of 8 x ?y] by (auto simp: word_uint_eq_iff split: if_splits)
  ultimately show "\<exists>y. (if x = 0 then y = 0 else gf_mul 8 x y = 1) \<and> sbox x = sbox_affine y" by blast
qed

end
