(* ===== verification/Aes_Cipher.thy ===== *)
theory Aes_Cipher
  imports Aes
begin

text \<open>
  The cipher of FIPS 197 and the counter mode, and the proofs that the functions of \<open>Aes\<close> compute them.
\<close>

section \<open>The rounds of the standard\<close>

definition shift_rows_spec :: "u8 list \<Rightarrow> u8 list" where
  "shift_rows_spec s = map (\<lambda>k. s ! (k mod 4 + 4 * ((k div 4 + k mod 4) mod 4))) [0..<16]"

definition mix_columns_spec :: "u8 list \<Rightarrow> u8 list" where
  "mix_columns_spec s = map (\<lambda>k. let b = (\<lambda>j. s ! (4 * (k div 4) + (k mod 4 + j) mod 4)) in
     gf_mul 8 (b 0) 2 XOR gf_mul 8 (b 1) 3 XOR b 2 XOR b 3) [0..<16]"

fun key_word :: "u8 list \<Rightarrow> nat \<Rightarrow> u8 list" where
  "key_word key i = (if i < 4 then take 4 (drop (4 * i) key) else
     xor_bytes (if i mod 4 = 0 then xor_bytes (map sbox (rotate1 (key_word key (i - 1)))) [(gf_times_x ^^ (i div 4 - 1)) 1, 0, 0, 0] else key_word key (i - 1))
       (key_word key (i - 4)))"

declare key_word.simps [simp del]

definition fips_round_key :: "u8 list \<Rightarrow> nat \<Rightarrow> u8 list" where
  "fips_round_key key r = concat (map (key_word key) [4 * r..<4 * r + 4])"

definition fips_round :: "u8 list \<Rightarrow> nat \<Rightarrow> u8 list \<Rightarrow> u8 list" where
  "fips_round key r s = xor_bytes (mix_columns_spec (shift_rows_spec (map sbox s))) (fips_round_key key r)"

definition aes128_spec :: "u8 list \<Rightarrow> u8 list \<Rightarrow> u8 list" where
  "aes128_spec key input =
     (let s = fold (fips_round key) [1..<10] (xor_bytes input (fips_round_key key 0))
      in xor_bytes (shift_rows_spec (map sbox s)) (fips_round_key key 10))"

section \<open>Loops over the bytes of a block\<close>

lemma xor_in_place:
  assumes "length s = n" "length k = n"
  shows "for_range 0 n (\<lambda>i out. do { x \<leftarrow> vec_get out i; y \<leftarrow> vec_get k i; vec_set out i (secret_xor x y) }) s = Some (xor_bytes s k)"
proof -
  have "\<exists>t. for_range 0 n (\<lambda>i out. do { x \<leftarrow> vec_get out i; y \<leftarrow> vec_get k i; vec_set out i (secret_xor x y) }) s = Some t
    \<and> t = xor_bytes (take n s) (take n k) @ drop n s"
  proof (rule for_range_rule [where P = "\<lambda>i t. t = xor_bytes (take i s) (take i k) @ drop i s"])
    fix i t assume i: "i < n" and t: "t = xor_bytes (take i s) (take i k) @ drop i s"
    have "drop i s = s ! i # drop (Suc i) s" using i assms by (simp add: Cons_nth_drop_Suc)
    moreover have "xor_bytes (take (Suc i) s) (take (Suc i) k) = xor_bytes (take i s) (take i k) @ [s ! i XOR k ! i]"
      using i assms by (simp add: take_Suc_conv_app_nth xor_bytes_append) (simp add: xor_bytes_def)
    ultimately show "\<exists>t'. (do { x \<leftarrow> vec_get t i; y \<leftarrow> vec_get k i; vec_set t i (secret_xor x y) }) = Some t' \<and>
      t' = xor_bytes (take (Suc i) s) (take (Suc i) k) @ drop (Suc i) s"
      using i assms t by (simp add: secret_xor_def nth_append list_update_append)
  qed (simp_all add: xor_bytes_def)
  then show ?thesis using assms by simp
qed

lemma add_round_key: "length s = 16 \<Longrightarrow> length k = 16 \<Longrightarrow> add_round_key s k = Some (xor_bytes s k)"
  unfolding add_round_key_def using xor_in_place [of s 16 k] by simp

lemma xor_block: "length s = 16 \<Longrightarrow> length k = 16 \<Longrightarrow> xor_block s k = Some (xor_bytes s k)"
  unfolding xor_block_def using xor_in_place [of s 16 k] by simp

lemma sub_bytes:
  assumes "length s = 16"
  shows "sub_bytes s = Some (map sbox s)"
  using for_range_pointwise [of s s sbox] assms by (simp add: sub_bytes_def)

lemma block_cases:
  assumes "length s = 16"
  obtains a0 a1 a2 a3 a4 a5 a6 a7 a8 a9 a10 a11 a12 a13 a14 a15 where "s = [a0, a1, a2, a3, a4, a5, a6, a7, a8, a9, a10, a11, a12, a13, a14, a15 :: u8]"
  using assms by (auto simp: numeral_eq_Suc length_Suc_conv)

lemma upt_16: "[0..<16] = [0, 1, 2, 3, 4, 5, 6, 7, 8, 9, 10, 11, 12, 13, 14, 15]"
  by (simp add: upt_conv_Cons)

lemma shift_rows:
  assumes "length s = 16"
  shows "shift_rows s = Some (shift_rows_spec s)"
  using assms by (elim block_cases) (simp add: shift_rows_def shift_row_def shift_rows_spec_def upt_16)

text \<open>\<open>xtime\<close> is the multiplication by \<open>x\<close>, which is linear.\<close>

lemma xtime: "xtime a = gf_times_x a"
proof -
  have "drop_bit 7 a AND 1 = of_bool (bit a 7)"
    by (rule bit_word_eqI) (auto simp: bit_and_iff bit_drop_bit_eq bit_1_iff bit_of_bool_iff)
  then show ?thesis by (simp add: xtime_def gf_times_x_def secret_defs shift_amount_def Let_def)
qed

lemma gf_times_x_xor: "gf_times_x (a XOR b) = gf_times_x a XOR gf_times_x b"
  by (simp add: gf_times_x_def bit_xor_iff push_bit_xor ac_simps del: push_bit_Suc)

lemma gf_mul_0: "gf_mul n a 0 = 0"
  by (induction n arbitrary: a) simp_all

lemma gf_mul_2_3: "gf_mul 8 a 2 = gf_times_x a" "gf_mul 8 a 3 = a XOR gf_times_x a"
  using gf_mul.simps(2) [of 7 a] gf_mul.simps(2) [of 6 "gf_times_x a"] by (simp_all add: gf_mul_0)

lemma mix_columns:
  assumes "length s = 16"
  shows "mix_columns s = Some (mix_columns_spec s)"
  using assms
  by (elim block_cases)
    (simp add: mix_columns_def mix_column_def mix_columns_spec_def upt_16 Let_def gf_mul_2_3 xtime gf_times_x_xor secret_xor_def ac_simps)

section \<open>The key schedule\<close>

lemma length_key_word: "length key = 16 \<Longrightarrow> length (key_word key i) = 4"
  by (induction key i rule: key_word.induct) (subst key_word.simps, auto)

lemma funpow_numeral_step: "(f ^^ numeral k) x = f ((f ^^ pred_numeral k) x)"
  by (simp add: numeral_eq_Suc)

lemma RCON_eq:
  assumes "0 < q" "q \<le> 10"
  shows "vec_get RCON q = Some ((gf_times_x ^^ (q - 1)) 1)"
proof -
  have "q = 1 \<or> q = 2 \<or> q = 3 \<or> q = 4 \<or> q = 5 \<or> q = 6 \<or> q = 7 \<or> q = 8 \<or> q = 9 \<or> q = 10" using assms by presburger
  then show ?thesis by (elim disjE) (simp_all add: RCON_def gf_times_x_def funpow_numeral_step)
qed

lemma word_cases:
  assumes "length w = 4"
  obtains a b c d where "w = [a, b, c, d :: u8]"
  using assms by (auto simp: numeral_eq_Suc length_Suc_conv)

lemma aes_keygen_assist:
  assumes "length w = 4"
  shows "aes_keygen_assist w r = Some (xor_bytes (map sbox (rotate1 w)) [r, 0, 0, 0])"
  using assms by (elim word_cases) (simp add: aes_keygen_assist_def rotate_word_def slice_word_def xor_bytes_def secret_xor_def)

lemma key_expansion_word:
  assumes "length w0 = 4" "length w1 = 4" "4 \<le> i" "i < 44"
  shows "key_expansion_word w0 w1 i 4 10 =
    Some (Inr (xor_bytes (if i mod 4 = 0 then xor_bytes (map sbox (rotate1 w1)) [(gf_times_x ^^ (i div 4 - 1)) 1, 0, 0, 0] else w1) w0))"
proof -
  have "0 < i div 4" "i div 4 \<le> 10" using assms(3,4) by auto
  note rc = RCON_eq [OF this]
  show ?thesis
    using assms rc xor_in_place [of w1 4 w0] xor_in_place [of "xor_bytes (map sbox (rotate1 w1)) [(gf_times_x ^^ (i div 4 - 1)) 1, 0, 0, 0]" 4 w0]
    by (simp add: key_expansion_word_def aes_keygen_assist usize_add_def usize_mul_def usize_div_def usize_fits_def)
qed

lemma array_from_slice_eq:
  assumes "usize_fits (length xs)" "start + l \<le> length xs"
  shows "array_from_slice l xs start l = Some (take l (drop start xs))"
proof -
  have "usize_fits l" using assms by (auto intro: usize_fits_mono)
  then show ?thesis using assms
    by (simp add: array_from_slice_def array_len_def array_update_slice_seq array_ok_def seq_update_slice_eq)
qed

lemma key_expansion_aes:
  assumes "length key = 16"
  shows "key_expansion_aes key 4 10 176 4 40 = Some (Inr (key_stream (key_word key) 44))"
proof -
  let ?w = "key_word key" and ?ks = "\<lambda>n. key_stream (key_word key) n"
  note len = length_key_word [OF assms]
  note lks = length_key_stream [of ?w, OF len]
  have fits: "usize_fits n" if "n \<le> 176" for n using that by (simp add: usize_fits_def)
  have init: "seq_update_start (seq_new 176) key = Some (?ks 4 @ replicate 160 0)"
  proof -
    have "?ks 4 = concat (map (\<lambda>i. take 4 (drop (4 * i) key)) [0, 1, 2, 3])"
      by (simp add: key_stream_def key_word.simps upt_conv_Cons)
    also have "\<dots> = key" using assms by (elim block_cases) simp
    finally show ?thesis using assms by (simp add: seq_update_start_def seq_len_def seq_update_slice_eq fits seq_new_def default_word_def)
  qed
  define f where "f j key_ex = do {
       i \<leftarrow> usize_add j 4;
       p0 \<leftarrow> usize_mul 4 (i - 4);
       w0 \<leftarrow> array_from_slice 4 key_ex p0 4;
       p \<leftarrow> usize_mul 4 i;
       p1 \<leftarrow> usize_sub p 4;
       w1 \<leftarrow> array_from_slice 4 key_ex p1 4;
       try_bind (key_expansion_word w0 w1 i 4 10) (\<lambda>word. do {
         key_ex \<leftarrow> seq_update key_ex p word;
         Some (Inr key_ex)
       })
     }" for j key_ex
  have step: "f j (?ks (j + 4) @ replicate (160 - 4 * j) 0) = Some (Inr (?ks (Suc j + 4) @ replicate (160 - 4 * Suc j) 0))" if "j < 40" for j
  proof -
    let ?i = "j + 4" and ?k = "?ks (j + 4) @ replicate (160 - 4 * j) (0 :: u8)"
    have lk: "length ?k = 176" using that by (simp add: lks)
    have w: "array_from_slice 4 ?k (4 * m) 4 = Some (?w m)" if "m < j + 4" for m
    proof -
      have "array_from_slice 4 ?k (4 * m) 4 = Some (take 4 (drop (4 * m) ?k))" 
        using that \<open>j < 40\<close> lk by (intro array_from_slice_eq) (simp_all add: fits)
      then show ?thesis using key_stream_block [of ?w, OF len that] that by (simp add: lks)
    qed
    have w0: "array_from_slice 4 ?k (4 * j) 4 = Some (?w j)" using w [of j] by simp
    have w1: "array_from_slice 4 ?k (4 * j + 12) 4 = Some (?w (j + 3))" using w [of "j + 3"] by simp
    have e: "key_expansion_word (?w j) (?w (j + 3)) ?i 4 10 = Some (Inr (?w ?i))"
      using key_expansion_word [OF len len, of ?i j "j + 3"] that by (simp add: key_word.simps [of key ?i] add.commute [of 3])
    have "seq_update ?k (4 * ?i) (?w ?i) = Some (?ks (Suc ?i) @ replicate (160 - 4 * Suc j) 0)"
      using that lk len [of ?i] key_stream_Suc [of ?w ?i] by (simp add: seq_update_def seq_len_def seq_update_slice_eq fits lks)
    then show ?thesis using that w0 w1 e by (simp add: f_def usize_add_def usize_mul_def usize_sub_def fits try_bind_def algebra_simps)
  qed
  have "\<exists>r. for_try 0 40 f (?ks 4 @ replicate 160 0) = Some r \<and> r = Inr (?ks (40 + 4) @ replicate (160 - 4 * 40) 0)"
    unfolding for_try_def
    by (rule for_range_rule [where P = "\<lambda>j r. r = Inr (?ks (j + 4) @ replicate (160 - 4 * j) 0)"]) (simp_all add: step)
  then show ?thesis using init by (simp add: key_expansion_aes_def f_def [abs_def])
qed

section \<open>The block cipher\<close>

lemma round_key_slice:
  assumes "length key = 16" "r \<le> 10"
  shows "take 16 (drop (16 * r) (key_stream (key_word key) 44)) = fips_round_key key r" "length (fips_round_key key r) = 16"
proof -
  let ?w = "key_word key"
  note lks = length_key_stream [of ?w, OF length_key_word [OF assms(1)]]
  have "[0..<44] = [0..<4 * r] @ [4 * r..<4 * r + 4] @ [4 * r + 4..<44]"
    using assms(2) upt_add_eq_append [of 0 "4 * r" "44 - 4 * r"] upt_add_eq_append [of "4 * r" "4 * r + 4" "40 - 4 * r"] by simp
  then have "key_stream ?w 44 = key_stream ?w (4 * r) @ fips_round_key key r @ concat (map ?w [4 * r + 4..<44])"
    by (simp add: key_stream_def fips_round_key_def)
  moreover show len: "length (fips_round_key key r) = 16"
    by (simp add: fips_round_key_def length_key_word [OF assms(1)] upt_conv_Cons)
  ultimately show "take 16 (drop (16 * r) (key_stream ?w 44)) = fips_round_key key r" by (simp add: lks)
qed

lemma length_specs [simp]: "length (shift_rows_spec s) = 16" "length (mix_columns_spec s) = 16"
  by (simp_all add: shift_rows_spec_def mix_columns_spec_def)

lemma aes_enc:
  assumes "length s = 16" "length key = 16" "r \<le> 10"
  shows "aes_enc s (fips_round_key key r) = Some (fips_round key r s)"
    "aes_enc_last s (fips_round_key key r) = Some (xor_bytes (shift_rows_spec (map sbox s)) (fips_round_key key r))"
  using assms by (simp_all add: aes_enc_def aes_enc_last_def sub_bytes shift_rows mix_columns add_round_key round_key_slice fips_round_def)

lemma length_fips_round: "length key = 16 \<Longrightarrow> r \<le> 10 \<Longrightarrow> length (fips_round key r s) = 16"
  by (simp add: fips_round_def round_key_slice)

lemma length_fold_rounds:
  assumes "length key = 16" "length s = 16" "n \<le> 10"
  shows "length (fold (fips_round key) [1..<Suc n] s) = 16"
  using assms(3) by (induction n) (simp_all add: assms length_fips_round)

lemma rounds_aes:
  assumes "length key = 16" "length s = 16"
  shows "rounds_aes s (take 144 (drop 16 (key_stream (key_word key) 44))) = Some (fold (fips_round key) [1..<10] s)"
proof -
  let ?k = "take 144 (drop 16 (key_stream (key_word key) 44))"
  have lk: "length ?k = 144" by (simp add: length_key_stream [of "key_word key", OF length_key_word [OF assms(1)]])
  have fits: "usize_fits (length ?k + 16)" unfolding lk by (simp add: usize_fits_def)
  have chunk: "seq_get_chunk ?k 16 i = Some (16, fips_round_key key (Suc i))" if "i < 9" for i
  proof -
    have "take 16 (drop (16 * i) ?k) = take 16 (drop (16 * Suc i) (key_stream (key_word key) 44))"
      using that by (simp add: drop_take min_def add.commute)
    then have "take 16 (drop (16 * i) ?k) = fips_round_key key (Suc i)" using round_key_slice(1) [OF assms(1), of "Suc i"] that by simp
    then show ?thesis using seq_get_chunk_eq [OF fits, of i] that lk round_key_slice(2) [OF assms(1), of "Suc i"] by simp
  qed
  define f where "f i out = do {
       (_, key_block) \<leftarrow> seq_get_chunk ?k 16 i;
       k \<leftarrow> array_from_seq 16 key_block;
       aes_enc out k }" for i out
  have "\<exists>t. for_range 0 9 f s = Some t \<and> t = fold (fips_round key) [1..<Suc 9] s"
  proof (rule for_range_rule [where P = "\<lambda>i t. t = fold (fips_round key) [1..<Suc i] s"])
    fix i t assume i: "i < 9" and t: "t = fold (fips_round key) [1..<Suc i] s"
    have "length t = 16" unfolding t by (rule length_fold_rounds [OF assms]) (use i in simp)
    then have "f i t = Some (fips_round key (Suc i) t)"
      using i chunk [OF i] assms(1) round_key_slice(2) [OF assms(1), of "Suc i"] by (simp add: f_def array_from_seq_eq aes_enc)
    then show "\<exists>t'. f i t = Some t' \<and> t' = fold (fips_round key) [1..<Suc (Suc i)] s" by (simp add: t)
  qed simp_all
  moreover have "seq_num_chunks ?k 16 = Some 9" using seq_num_chunks_eq [OF _ fits] lk by (simp add: length_chunks)
  ultimately show ?thesis by (simp add: rounds_aes_def f_def [abs_def])
qed

lemma block_cipher_aes:
  assumes "length key = 16" "length input = 16"
  shows "block_cipher_aes input (key_stream (key_word key) 44) 10 = Some (aes128_spec key input)"
proof -
  let ?k = "key_stream (key_word key) 44" and ?s = "xor_bytes input (fips_round_key key 0)"
  have lk: "length ?k = 176" by (simp add: length_key_stream [of "key_word key", OF length_key_word [OF assms(1)]])
  have fits: "usize_fits (length ?k)" unfolding lk by (simp add: usize_fits_def)
  have slices: "array_from_slice_range 16 ?k (0, 16) = Some (fips_round_key key 0)" "array_from_slice 16 ?k 160 16 = Some (fips_round_key key 10)"
    using array_from_slice_eq [OF fits, of 0 16] array_from_slice_eq [OF fits, of 160 16] lk round_key_slice(1) [OF assms(1), of 0] round_key_slice(1) [OF assms(1), of 10]
    by (simp_all add: array_from_slice_range_def)
  have k: "seq_from_slice_range ?k (16, 160) = Some (take 144 (drop 16 ?k))"
    using seq_from_slice_eq [OF fits, of 16 144] lk by (simp add: seq_from_slice_range_def)
  have ls: "length ?s = 16" using assms round_key_slice(2) [OF assms(1), of 0] by simp
  have lt: "length (fold (fips_round key) [1..<10] ?s) = 16" using length_fold_rounds [OF assms(1) ls, of 9] by simp
  show ?thesis
    using assms slices k round_key_slice(2) [OF assms(1), of 0] rounds_aes [OF assms(1) ls] aes_enc(2) [OF lt assms(1), of 10]
    by (simp add: block_cipher_aes_def usize_mul_def usize_fits_def add_round_key aes128_spec_def)
qed

lemma aes_encrypt_block:
  assumes "length key = 16" "length input = 16"
  shows "aes_encrypt_block key input 4 10 176 4 40 = Some (Inr (aes128_spec key input))"
  using assms by (simp add: aes_encrypt_block_def key_expansion_aes try_bind_def block_cipher_aes)

lemma length_aes128_spec: "length key = 16 \<Longrightarrow> length (aes128_spec key input) = 16"
  by (simp add: aes128_spec_def Let_def round_key_slice)

section \<open>The cipher is a permutation\<close>

text \<open>A test for distinct numbers that splits them by their lowest bit.\<close>

fun distinct_bits :: "nat \<Rightarrow> int list \<Rightarrow> bool" where
  "distinct_bits 0 xs = (case xs of x # y # ys \<Rightarrow> False | _ \<Rightarrow> True)"
| "distinct_bits (Suc n) xs = (distinct_bits n (map (\<lambda>x. x div 2) (filter even xs)) \<and> distinct_bits n (map (\<lambda>x. x div 2) (filter odd xs)))"

lemma distinct_filters: "distinct (filter P xs) \<Longrightarrow> distinct (filter (\<lambda>x. \<not> P x) xs) \<Longrightarrow> distinct xs"
  by (induction xs) (auto split: if_splits)

lemma distinct_bits: "distinct_bits n xs \<Longrightarrow> distinct xs"
proof (induction n arbitrary: xs)
  case 0
  then show ?case by (auto split: list.splits)
next
  case (Suc n)
  then have "distinct (filter even xs)" "distinct (filter odd xs)" by (auto dest!: Suc.IH simp: distinct_map)
  then show ?case by (rule distinct_filters)
qed

lemma SBOX_distinct: "distinct_bits 8 (map uint SBOX)"
  by code_simp

lemma inj_sbox: "inj sbox"
proof (rule injI)
  fix x y :: u8 assume "sbox x = sbox y"
  then have "SBOX ! unat x = SBOX ! unat y" by (simp add: sbox_def)
  moreover have "distinct SBOX" using distinct_bits [OF SBOX_distinct] by (simp add: distinct_map)
  ultimately show "x = y" using nth_eq_iff_index_eq [of SBOX "unat x" "unat y"] unat_byte [of x] unat_byte [of y] by (simp add: word_unat_eq_iff [of x y])
qed

lemma shift_rows_spec_inj:
  assumes "length s = 16" "length t = 16" "shift_rows_spec s = shift_rows_spec t"
  shows "s = t"
  using assms by (elim block_cases) (simp add: shift_rows_spec_def upt_16)

lemma xor_left_self: "a XOR (a XOR b) = (b :: u8)"
  by (simp flip: xor.assoc)

text \<open>The matrix of \<open>MixColumns\<close> has order four: its square has the entries \<open>5, 0, 4, 0\<close>.\<close>

definition mix_square :: "u8 list \<Rightarrow> u8 list" where
  "mix_square s = map (\<lambda>k. let b = (\<lambda>j. s ! (4 * (k div 4) + (k mod 4 + j) mod 4)) in
     b 0 XOR gf_times_x (gf_times_x (b 0)) XOR gf_times_x (gf_times_x (b 2))) [0..<16]"

lemma mix_columns_spec_twice:
  assumes "length s = 16"
  shows "mix_columns_spec (mix_columns_spec s) = mix_square s"
  using assms
  by (elim block_cases)
    (simp add: mix_columns_spec_def mix_square_def upt_16 Let_def gf_mul_2_3 gf_times_x_xor ac_simps xor_left_self)

lemma mix_square_twice:
  assumes "length s = 16"
  shows "mix_square (mix_square s) = s"
  using assms
  by (elim block_cases) (simp add: mix_square_def upt_16 Let_def gf_times_x_xor ac_simps xor_left_self)

lemma mix_columns_spec_inj:
  assumes "length s = 16" "length t = 16" "mix_columns_spec s = mix_columns_spec t"
  shows "s = t"
proof -
  have "mix_square s = mix_square t" by (simp only: assms(3) flip: mix_columns_spec_twice [OF assms(1)] mix_columns_spec_twice [OF assms(2)])
  then have "mix_square (mix_square s) = mix_square (mix_square t)" by (rule arg_cong)
  then show ?thesis by (simp only: mix_square_twice [OF assms(1)] mix_square_twice [OF assms(2)])
qed

lemma xor_bytes_inj:
  assumes "length s = length k" "length t = length k" "xor_bytes s k = xor_bytes t k"
  shows "s = t"
proof -
  have "s = xor_bytes (xor_bytes s k) k" by (rule xor_bytes_twice [symmetric]) (simp only: assms(1) order_refl)
  also have "\<dots> = xor_bytes (xor_bytes t k) k" by (simp only: assms(3))
  also have "\<dots> = t" by (rule xor_bytes_twice) (simp only: assms(2) order_refl)
  finally show ?thesis .
qed

lemma fips_round_inj:
  assumes "length key = 16" "r \<le> 10" "length s = 16" "length t = 16" "fips_round key r s = fips_round key r t"
  shows "s = t"
proof -
  have "mix_columns_spec (shift_rows_spec (map sbox s)) = mix_columns_spec (shift_rows_spec (map sbox t))"
    using xor_bytes_inj [of _ "fips_round_key key r"] assms(5) round_key_slice(2) [OF assms(1,2)] by (simp add: fips_round_def)
  then have "map sbox s = map sbox t" using assms(3,4) by (auto dest!: mix_columns_spec_inj [rotated 2] shift_rows_spec_inj [rotated 2])
  then show ?thesis using inj_sbox by (simp add: inj_map_eq_map)
qed

lemma fold_rounds_inj:
  assumes "length key = 16" "n \<le> 10" "length s = 16" "length t = 16" "fold (fips_round key) [1..<Suc n] s = fold (fips_round key) [1..<Suc n] t"
  shows "s = t"
  using assms(2,5)
proof (induction n)
  case (Suc n)
  then have "fold (fips_round key) [1..<Suc n] s = fold (fips_round key) [1..<Suc n] t"
    using fips_round_inj [OF assms(1), of "Suc n" "fold (fips_round key) [1..<Suc n] s" "fold (fips_round key) [1..<Suc n] t"]
      length_fold_rounds [OF assms(1,3), of n] length_fold_rounds [OF assms(1,4), of n] by simp
  then show ?case using Suc by simp
qed simp

lemma aes128_spec_inj:
  assumes "length key = 16" "length s = 16" "length t = 16" "aes128_spec key s = aes128_spec key t"
  shows "s = t"
proof -
  let ?k = "fips_round_key key" and ?f = "\<lambda>s. fold (fips_round key) [1..<10] (xor_bytes s (fips_round_key key 0))"
  note lk = round_key_slice(2) [OF assms(1)]
  have l: "length (xor_bytes s (?k 0)) = 16" "length (xor_bytes t (?k 0)) = 16" using assms(2,3) lk [of 0] by simp_all
  have lf: "length (?f s) = 16" "length (?f t) = 16" using length_fold_rounds [OF assms(1) l(1), of 9] length_fold_rounds [OF assms(1) l(2), of 9] by simp_all
  have "shift_rows_spec (map sbox (?f s)) = shift_rows_spec (map sbox (?f t))"
    using xor_bytes_inj [of _ "?k 10"] assms(4) lk [of 10] by (simp add: aes128_spec_def Let_def)
  then have "map sbox (?f s) = map sbox (?f t)" using lf by (auto dest!: shift_rows_spec_inj [rotated 2])
  then have "?f s = ?f t" using inj_sbox by (simp add: inj_map_eq_map)
  then have "xor_bytes s (?k 0) = xor_bytes t (?k 0)" using fold_rounds_inj [OF assms(1) _ l, of 9] by simp
  then show ?thesis using assms(2,3) lk [of 0] by (auto dest: xor_bytes_inj [rotated 2])
qed

section \<open>Counter mode\<close>

text \<open>The counter block: the nonce and the counter with its most significant byte first.\<close>

definition counter_block :: "u8 list \<Rightarrow> u32 \<Rightarrow> u8 list" where
  "counter_block nonce c = nonce @ rev (le_split c)"

definition ctr_block :: "u8 list \<Rightarrow> u8 list \<Rightarrow> u32 \<Rightarrow> nat \<Rightarrow> u8 list" where
  "ctr_block key nonce counter i = aes128_spec key (counter_block nonce (counter + word_of_nat i))"

definition aes_ctr_spec :: "u8 list \<Rightarrow> u8 list \<Rightarrow> u32 \<Rightarrow> u8 list \<Rightarrow> u8 list" where
  "aes_ctr_spec key nonce counter msg = xor_bytes msg (key_stream (ctr_block key nonce counter) (Suc (length msg div 16)))"

lemma array16_update:
  assumes "length a = 16" "i + length v \<le> 16"
  shows "array_update 16 a i v = Some (take i a @ v @ drop (i + length v) a)"
  using assms by (simp add: array_update_def array_update_slice_seq array_ok_def seq_update_slice_eq usize_fits_def)

lemma aes_ctr_key_block:
  assumes "length key = 16" "length nonce = 12"
  shows "aes_ctr_key_block h key nonce c 4 10 176 4 40 = Some (Inr (aes128_spec key (counter_block nonce c)))"
proof -
  have "word_to_be_bytes h c = Some (rev (le_split c))"
    by (simp add: word_to_be_bytes_def array_from_vec_eq secret_to_be_bytes_eq)
  then show ?thesis using assms by (simp add: aes_ctr_key_block_def array16_update aes_encrypt_block counter_block_def)
qed

lemma length_ctr_block: "length key = 16 \<Longrightarrow> length (ctr_block key nonce counter i) = 16"
  by (simp add: ctr_block_def length_aes128_spec)

lemma ctr_last_block:
  assumes "length b \<le> 16" "length k = 16"
  shows "array_update_start 16 (array_new 16) b = Some (b @ replicate (16 - length b) 0)"
    "xor_block (b @ replicate (16 - length b) 0) k \<bind> (\<lambda>x. array_slice_range x (0, length b) \<bind> f) = f (xor_bytes b k)"
proof -
  show "array_update_start 16 (array_new 16) b = Some (b @ replicate (16 - length b) 0)"
    using assms array16_update [of "array_new 16" 0 b] by (simp add: array_update_start_def array_update_def array_new_def default_word_def)
  have "take (length b) (xor_bytes (b @ replicate (16 - length b) 0) k) = xor_bytes b k"
    by (simp add: take_xor_bytes xor_bytes_take)
  then show "xor_block (b @ replicate (16 - length b) 0) k \<bind> (\<lambda>x. array_slice_range x (0, length b) \<bind> f) = f (xor_bytes b k)"
    using assms by (simp add: xor_block array_slice_range_def array_slice_def seq_from_slice_eq usize_fits_def)
qed

lemma aes_counter_mode:
  assumes key: "length key = 16" "length nonce = 12" and fits: "usize_fits (length msg + 16)"
  shows "aes_counter_mode h key nonce counter msg 4 10 176 4 40 = Some (Inr (aes_ctr_spec key nonce counter msg))"
proof -
  let ?n = "length msg div 16" and ?ks = "ctr_block key nonce counter"
  let ?e = "\<lambda>i s. Inr (s, counter + word_of_nat i) :: u8 + u8 list \<times> u32"
  note ks = length_ctr_block [OF key(1), of nonce counter]
  have um: "usize_fits (length msg)" using fits by (rule usize_fits_mono) simp
  have kb: "aes_ctr_key_block h key nonce (counter + word_of_nat i) 4 10 176 4 40 = Some (Inr (?ks i))" for i
    by (simp add: aes_ctr_key_block key ctr_block_def)
  define f where "f i = (\<lambda>(blocks_out, ctr). do {
       msg_block \<leftarrow> seq_get_exact_chunk msg 16 i;
       try_bind (aes_ctr_key_block h key nonce ctr 4 10 176 4 40) (\<lambda>key_block. do {
         b \<leftarrow> array_from_seq 16 msg_block;
         x \<leftarrow> xor_block b key_block;
         blocks_out \<leftarrow> seq_set_chunk blocks_out 16 i x;
         Some (Inr (blocks_out, secret_add ctr 1))
       })
     })" for i
  let ?g = "\<lambda>i r. case r of Inl e \<Rightarrow> Some (Inl e) | Inr s \<Rightarrow> f i s"
  have body: "?g i (?e i s) = Some (?e (Suc i) (take (16 * i) s @ xor_bytes (take 16 (drop (16 * i) msg)) (?ks i) @ drop (16 * i + 16) s))"
    if le: "16 * i + 16 \<le> length msg" and s: "length s = length msg" for i s
  proof -
    have "seq_set_chunk s 16 i (xor_bytes (take 16 (drop (16 * i) msg)) (?ks i)) = Some (take (16 * i) s @ xor_bytes (take 16 (drop (16 * i) msg)) (?ks i) @ drop (16 * i + 16) s)"
      using le s fits ks [of i] seq_set_chunk_eq [of s 16 "xor_bytes (take 16 (drop (16 * i) msg)) (?ks i)" i] by (simp add: usize_fits_def)
    then show ?thesis
      using le kb [of i] ks [of i] by (simp add: f_def seq_get_exact_chunk_eq [OF fits] try_bind_def array_from_seq_eq xor_block secret_add_def add.assoc add.commute)
  qed
  have "\<exists>s. for_range 0 ?n ?g (?e 0 (seq_new (length msg))) = Some (?e ?n s) \<and> length s = length msg \<and>
    take (16 * ?n) s = take (16 * ?n) (xor_bytes msg (key_stream ?ks (Suc ?n)))"
    by (rule stream_loop [where e = ?e, OF ks]) (simp, simp, rule body)
  then obtain s where s: "for_range 0 ?n ?g (?e 0 (seq_new (length msg))) = Some (?e ?n s)" "length s = length msg"
    "take (16 * ?n) s = take (16 * ?n) (xor_bytes msg (key_stream ?ks (Suc ?n)))" by blast
  have nx: "seq_num_exact_chunks msg 16 = Some ?n" by (simp add: seq_num_exact_chunks_def usize_div_def seq_len_def)
  define b where "b = drop (16 * ?n) msg"
  note last = stream_last [of ?ks, OF ks _ fits s(2,3), folded b_def]
  have ft: "for_try 0 ?n f (seq_new (length msg), counter) = Some (?e ?n s)" using s(1) by (simp add: for_try_def)
  show ?thesis
    unfolding aes_counter_mode_def AES_BLOCKSIZE_def f_def [symmetric] aes_ctr_spec_def
    using nx ft last kb [of ?n] by (simp add: seq_len_def try_bind_def ctr_last_block [OF less_imp_le [OF last(1)] ks])
qed

lemma aes128_encrypt:
  assumes "length key = 16" "length nonce = 12" "usize_fits (length msg + 16)"
  shows "aes128_encrypt h key nonce counter msg = Some (aes_ctr_spec key nonce counter msg)"
    "aes128_decrypt h key nonce counter msg = Some (aes_ctr_spec key nonce counter msg)"
  using assms by (simp_all add: aes128_encrypt_def aes128_decrypt_def seq_from_seq_eq aes_counter_mode result_unwrap_def)

lemma aes_ctr_spec_twice:
  assumes "length key = 16"
  shows "length (aes_ctr_spec key nonce counter msg) = length msg"
    "aes_ctr_spec key nonce counter (aes_ctr_spec key nonce counter msg) = msg"
proof -
  let ?k = "key_stream (ctr_block key nonce counter) (Suc (length msg div 16))"
  show len: "length (aes_ctr_spec key nonce counter msg) = length msg"
    unfolding aes_ctr_spec_def by (rule length_stream_xor [of "ctr_block key nonce counter", OF length_ctr_block [OF assms]]) simp
  then have "length msg \<le> length ?k" unfolding aes_ctr_spec_def by simp
  then show "aes_ctr_spec key nonce counter (aes_ctr_spec key nonce counter msg) = msg"
    using xor_bytes_twice [of msg ?k] len by (simp add: aes_ctr_spec_def)
qed

section \<open>Properties\<close>

text \<open>
  C7: AES-128. On a key and a block of 16 bytes the encryption never panics and is the cipher of FIPS 197, whose S-box, the affine image of the inverse in the field of the standard, is the table of the code;
  for every key it is a permutation of the blocks. The counter mode with a nonce of 12 bytes is the exclusive or with the encrypted counter blocks, and decryption returns the message.
\<close>

theorem aes128_correct:
  assumes "length key = 16" "length nonce = 12" "usize_fits (length msg + 16)"
  shows "fips_sbox sbox
    \<and> (\<forall>b. length b = 16 \<longrightarrow> aes128_encrypt_block key b = Some (aes128_spec key b))
    \<and> bij_betw (aes128_spec key) {b. length b = 16} {b. length b = 16}
    \<and> aes128_encrypt h key nonce counter msg = Some (aes_ctr_spec key nonce counter msg)
    \<and> aes128_decrypt h key nonce counter (aes_ctr_spec key nonce counter msg) = Some msg"
proof (intro conjI allI impI)
  show "fips_sbox sbox" by (rule fips_sbox)
  show "aes128_encrypt_block key b = Some (aes128_spec key b)" if "length b = 16" for b
    using that assms(1) by (simp add: aes128_encrypt_block_def seq_from_seq_eq aes_encrypt_block result_unwrap_def)
  have fin: "finite {b :: u8 list. length b = 16}" using finite_lists_length_eq [of "UNIV :: u8 set" 16] by simp
  have inj: "inj_on (aes128_spec key) {b. length b = 16}" by (intro inj_onI) (simp add: aes128_spec_inj [OF assms(1)])
  have sub: "aes128_spec key ` {b. length b = 16} \<subseteq> {b. length b = 16}" by (auto simp: length_aes128_spec assms(1))
  show "bij_betw (aes128_spec key) {b. length b = 16} {b. length b = 16}"
    unfolding bij_betw_def using inj endo_inj_surj [OF fin sub inj] by simp
  show "aes128_encrypt h key nonce counter msg = Some (aes_ctr_spec key nonce counter msg)" by (rule aes128_encrypt(1) [OF assms])
  show "aes128_decrypt h key nonce counter (aes_ctr_spec key nonce counter msg) = Some msg"
    using aes128_encrypt(2) [OF assms(1,2), of "aes_ctr_spec key nonce counter msg"] aes_ctr_spec_twice [OF assms(1)] assms(3) by simp
qed

theorem aes128_correct_witness:
  "aes128_decrypt LittleEndian (replicate 16 1) (replicate 12 2) 1 (aes_ctr_spec (replicate 16 1) (replicate 12 2) 1 [104, 105]) = Some [104, 105]"
  using aes128_correct [of "replicate 16 1" "replicate 12 2" "[104, 105]" LittleEndian 1] by (simp add: usize_fits_def)

end
