(* ===== verification/Chacha20.thy ===== *)
theory Chacha20
  imports Stream_Cipher
begin

text \<open>
  \<open>examples/chacha20/src/chacha20.rs\<close>: the stream cipher ChaCha20 over the arrays and sequences of the library. The parameter \<open>h\<close> is the byte order of the host, on which
  the conversions of the library depend.

  The lemmas show that the cipher never panics on a key and a nonce of the right length, that it is the exclusive or of the message with the
  key stream, so that it is its own inverse, and that the rounds are a permutation of the state.
\<close>

section \<open>The block function\<close>

type_synonym chacha_state = "32 secret array"

definition chacha20_line :: "usize \<Rightarrow> usize \<Rightarrow> usize \<Rightarrow> usize \<Rightarrow> chacha_state \<Rightarrow> chacha_state option" where
  "chacha20_line a b d s m = do {
     xa \<leftarrow> vec_get m a;
     xb \<leftarrow> vec_get m b;
     state \<leftarrow> vec_set m a (secret_add xa xb);
     xd \<leftarrow> vec_get state d;
     xa \<leftarrow> vec_get state a;
     state \<leftarrow> vec_set state d (secret_xor xd xa);
     xd \<leftarrow> vec_get state d;
     vec_set state d (secret_rotate_left xd s)
   }"

definition chacha20_quarter_round :: "usize \<Rightarrow> usize \<Rightarrow> usize \<Rightarrow> usize \<Rightarrow> chacha_state \<Rightarrow> chacha_state option" where
  "chacha20_quarter_round a b c d state = do {
     state \<leftarrow> chacha20_line a b d 16 state;
     state \<leftarrow> chacha20_line c d b 12 state;
     state \<leftarrow> chacha20_line a b d 8 state;
     chacha20_line c d b 7 state
   }"

definition chacha20_double_round :: "chacha_state \<Rightarrow> chacha_state option" where
  "chacha20_double_round state = do {
     state \<leftarrow> chacha20_quarter_round 0 4 8 12 state;
     state \<leftarrow> chacha20_quarter_round 1 5 9 13 state;
     state \<leftarrow> chacha20_quarter_round 2 6 10 14 state;
     state \<leftarrow> chacha20_quarter_round 3 7 11 15 state;
     state \<leftarrow> chacha20_quarter_round 0 5 10 15 state;
     state \<leftarrow> chacha20_quarter_round 1 6 11 12 state;
     state \<leftarrow> chacha20_quarter_round 2 7 8 13 state;
     chacha20_quarter_round 3 4 9 14 state
   }"

definition chacha20_rounds :: "chacha_state \<Rightarrow> chacha_state option" where
  "chacha20_rounds state = for_range 0 10 (\<lambda>_ st. chacha20_double_round st) state"

definition chacha20_core :: "32 secret \<Rightarrow> chacha_state \<Rightarrow> chacha_state option" where
  "chacha20_core ctr st0 = do {
     x \<leftarrow> vec_get st0 12;
     state \<leftarrow> vec_set st0 12 (secret_add x ctr);
     k \<leftarrow> chacha20_rounds state;
     array_add 16 k state
   }"

definition chacha20_constants_init :: "32 secret array option" where
  "chacha20_constants_init = do {
     constants \<leftarrow> vec_set (array_new 4) 0 0x61707865;
     constants \<leftarrow> vec_set constants 1 0x3320646e;
     constants \<leftarrow> vec_set constants 2 0x79622d32;
     vec_set constants 3 0x6b206574
   }"

definition chacha20_init :: "host \<Rightarrow> 8 secret array \<Rightarrow> 8 secret array \<Rightarrow> 32 secret \<Rightarrow> chacha_state option" where
  "chacha20_init h key iv ctr = do {
     c \<leftarrow> chacha20_constants_init;
     st \<leftarrow> array_update 16 (array_new 16) 0 c;
     k \<leftarrow> array_to_le_words 32 h key;
     st \<leftarrow> array_update 16 st 4 k;
     st \<leftarrow> vec_set st 12 ctr;
     n \<leftarrow> array_to_le_words 12 h iv;
     array_update 16 st 13 n
   }"

definition chacha20_key_block :: "host \<Rightarrow> chacha_state \<Rightarrow> 8 secret array option" where
  "chacha20_key_block h state = do {
     state \<leftarrow> chacha20_core 0 state;
     bs \<leftarrow> array_to_le_bytes 16 h state;
     array_from_seq 64 bs
   }"

definition chacha20_key_block0 :: "host \<Rightarrow> 8 secret array \<Rightarrow> 8 secret array \<Rightarrow> 8 secret array option" where
  "chacha20_key_block0 h key iv = do { state \<leftarrow> chacha20_init h key iv 0; chacha20_key_block h state }"

section \<open>Encryption\<close>

definition chacha20_encrypt_block :: "host \<Rightarrow> chacha_state \<Rightarrow> 32 secret \<Rightarrow> 8 secret array \<Rightarrow> 8 secret array option" where
  "chacha20_encrypt_block h st0 ctr plain = do {
     st \<leftarrow> chacha20_core ctr st0;
     ws \<leftarrow> array_to_le_words 64 h plain;
     pl \<leftarrow> array_from_seq 16 ws;
     st \<leftarrow> array_bitxor 16 pl st;
     bs \<leftarrow> array_to_le_bytes 16 h st;
     array_from_seq 64 bs
   }"

definition chacha20_encrypt_last :: "host \<Rightarrow> chacha_state \<Rightarrow> 32 secret \<Rightarrow> 8 secret seq \<Rightarrow> 8 secret seq option" where
  "chacha20_encrypt_last h st0 ctr plain = do {
     b \<leftarrow> array_update 64 (array_new 64) 0 plain;
     b \<leftarrow> chacha20_encrypt_block h st0 ctr b;
     array_slice b 0 (seq_len plain)
   }"

definition chacha20_update :: "host \<Rightarrow> chacha_state \<Rightarrow> 8 secret seq \<Rightarrow> 8 secret seq option" where
  "chacha20_update h st0 m = do {
     n_blocks \<leftarrow> seq_num_exact_chunks m 64;
     blocks_out \<leftarrow> for_range 0 n_blocks (\<lambda>i blocks_out. do {
       msg_block \<leftarrow> seq_get_exact_chunk m 64 i;
       block \<leftarrow> array_from_seq 64 msg_block;
       b \<leftarrow> chacha20_encrypt_block h st0 (word_of_nat i) block;
       seq_set_exact_chunk blocks_out 64 i b
     }) (seq_new (seq_len m));
     last_block \<leftarrow> seq_get_remainder_chunk m 64;
     if seq_len last_block \<noteq> 0 then do {
       b \<leftarrow> chacha20_encrypt_last h st0 (word_of_nat n_blocks) last_block;
       seq_set_chunk blocks_out 64 n_blocks b
     } else Some blocks_out
   }"

definition chacha20 :: "host \<Rightarrow> 8 secret array \<Rightarrow> 8 secret array \<Rightarrow> u32 \<Rightarrow> 8 secret seq \<Rightarrow> 8 secret seq option" where
  "chacha20 h key iv ctr m = do {
     state \<leftarrow> chacha20_init h key iv ctr;
     chacha20_update h state m
   }"

section \<open>The rounds are a permutation\<close>

definition unline :: "usize \<Rightarrow> usize \<Rightarrow> usize \<Rightarrow> usize \<Rightarrow> chacha_state \<Rightarrow> chacha_state" where
  "unline a b d s m =
     (let m = m[d := word_rotr s (m ! d) XOR m ! a] in m[a := m ! a - m ! b])"

lemma rotr_rotl: "word_rotr n (word_rotl n (w :: 'a::len word)) = w"
  by (rule bit_word_eqI) (simp add: bit_word_rotr_iff bit_word_rotl_iff)

lemma chacha20_line_inv:
  assumes "length m = 16" "a < 16" "b < 16" "d < 16" "a \<noteq> b" "a \<noteq> d" "b \<noteq> d" "s < 2 ^ 32"
  shows "\<exists>m'. chacha20_line a b d s m = Some m' \<and> length m' = 16 \<and> unline a b d s m' = m"
proof -
  let ?m = "m[a := m ! a + m ! b, d := word_rotl s (m ! d XOR (m ! a + m ! b))]"
  have "chacha20_line a b d s m = Some ?m"
    using assms by (simp add: chacha20_line_def secret_defs nth_list_update list_update_swap)
  moreover have "unline a b d s ?m = m"
    using assms
    by (intro nth_equalityI) (auto simp: unline_def Let_def nth_list_update rotr_rotl xor.assoc)
  ultimately show ?thesis using assms(1) by simp
qed

definition reversible :: "(chacha_state \<Rightarrow> chacha_state option) \<Rightarrow> bool" where
  "reversible f \<longleftrightarrow> (\<exists>g. \<forall>m. length m = 16 \<longrightarrow> (\<exists>m'. f m = Some m' \<and> length m' = 16 \<and> g m' = m))"

lemma reversible_comp [intro]:
  assumes "reversible f" "reversible g"
  shows "reversible (\<lambda>m. f m \<bind> g)"
proof -
  from assms obtain f' g' where
    "\<forall>m. length m = 16 \<longrightarrow> (\<exists>m'. f m = Some m' \<and> length m' = 16 \<and> f' m' = m)"
    "\<forall>m. length m = 16 \<longrightarrow> (\<exists>m'. g m = Some m' \<and> length m' = 16 \<and> g' m' = m)"
    unfolding reversible_def by blast
  then have "\<forall>m. length m = 16 \<longrightarrow> (\<exists>m'. f m \<bind> g = Some m' \<and> length m' = 16 \<and> f' (g' m') = m)" by fastforce
  then show ?thesis unfolding reversible_def by (intro exI [of _ "\<lambda>m. f' (g' m)"])
qed

lemma reversible_line:
  assumes "a < 16" "b < 16" "d < 16" "a \<noteq> b" "a \<noteq> d" "b \<noteq> d" "s < 2 ^ 32"
  shows "reversible (chacha20_line a b d s)"
  unfolding reversible_def using chacha20_line_inv [OF _ assms] by blast

lemma reversible_quarter_round:
  assumes "a < 16" "b < 16" "c < 16" "d < 16" "distinct [a, b, c, d]"
  shows "reversible (chacha20_quarter_round a b c d)"
  unfolding chacha20_quarter_round_def [abs_def] using assms
  by (intro reversible_comp reversible_line) simp_all

lemma reversible_rounds: "reversible chacha20_rounds"
proof -
  have dr: "reversible chacha20_double_round"
    unfolding chacha20_double_round_def [abs_def] by (intro reversible_comp reversible_quarter_round) simp_all
  have "reversible (\<lambda>st. for_range 0 n (\<lambda>_ st. chacha20_double_round st) st)" for n
  proof (induction n)
    case 0
    show ?case by (auto simp: reversible_def)
  next
    case (Suc n)
    from reversible_comp [OF this dr] show ?case by (simp add: for_range_Suc)
  qed
  then show ?thesis unfolding chacha20_rounds_def [abs_def] .
qed

lemma chacha20_core_Some:
  assumes "length st0 = 16"
  shows "\<exists>k. chacha20_core ctr st0 = Some k \<and> length k = 16"
proof -
  let ?st = "st0[12 := st0 ! 12 + ctr]"
  obtain k where "chacha20_rounds ?st = Some k" "length k = 16"
    using reversible_rounds assms unfolding reversible_def by (metis length_list_update)
  then show ?thesis
    using assms by (simp add: chacha20_core_def secret_add_def array_add_def array_zip_loop_eq)
qed

section \<open>The key stream\<close>

definition keystream :: "chacha_state \<Rightarrow> nat \<Rightarrow> u8 list" where
  "keystream st0 i = concat (map le_split (the (chacha20_core (word_of_nat i) st0)))"

lemma le_split_xor: "le_split (x XOR y :: 'a::len word) = xor_bytes (le_split x) (le_split y)"
proof (rule nth_equalityI)
  fix i assume "i < length (le_split (x XOR y))"
  then have i: "i < LENGTH('a) div 8" by simp
  show "le_split (x XOR y) ! i = xor_bytes (le_split x) (le_split y) ! i"
    by (rule bit_word_eqI) (use i in \<open>simp add: xor_bytes_def bit_le_split bit_xor_iff\<close>)
qed simp

lemma concat_split_xor:
  assumes "length xs = length ys"
  shows "concat (map le_split (map2 (XOR) xs (ys :: 'a::len word list)))
    = xor_bytes (concat (map le_split xs)) (concat (map le_split ys))"
  using assms by (induction xs ys rule: list_induct2) (simp_all add: le_split_xor xor_bytes_append xor_bytes_def [of "[]"])

lemma length_concat_split: "length (concat (map le_split (xs :: 'a::len word list))) = LENGTH('a) div 8 * length xs"
  by (induction xs) simp_all

lemma length_keystream: "length st0 = 16 \<Longrightarrow> length (keystream st0 i) = 64"
  using chacha20_core_Some [of st0 "word_of_nat i"] by (auto simp: keystream_def length_concat_split)

lemma join_chunks_split:
  assumes "8 dvd LENGTH('a::len)" "length bs = LENGTH('a) div 8 * n"
  shows "concat (map le_split (map le_join (chunks (LENGTH('a) div 8) bs) :: 'a word list)) = bs"
proof -
  have "length c = LENGTH('a) div 8" if "c \<in> set (chunks (LENGTH('a) div 8) bs)" for c
    using length_chunk [OF _ that] assms(2) by simp
  then have "map (\<lambda>c. le_split (le_join c :: 'a word)) (chunks (LENGTH('a) div 8) bs) = chunks (LENGTH('a) div 8) bs"
    using assms(1) by (intro map_idI) (simp add: le_split_join)
  then show ?thesis using concat_chunks [of "LENGTH('a) div 8" bs] bytes_per_word [OF assms(1)] by (simp add: comp_def)
qed

lemma chacha20_encrypt_block_xor:
  assumes "length st0 = 16" "length plain = 64"
  shows "chacha20_encrypt_block h st0 (word_of_nat i) plain = Some (xor_bytes plain (keystream st0 i))"
proof -
  obtain k where k: "chacha20_core (word_of_nat i) st0 = Some k" "length k = 16" using chacha20_core_Some assms(1) by blast
  let ?ws = "map le_join (chunks 4 plain) :: 32 secret list"
  have ws: "array_to_le_words 64 h plain = Some ?ws"
    using array_to_words_eq(1) [where 'a = 32, of plain 16 h] assms(2) by simp
  have len: "length ?ws = 16" using length_chunks [of 4 plain] assms(2) by simp
  have "concat (map le_split (map2 (XOR) ?ws k)) = xor_bytes plain (keystream st0 i)"
    using concat_split_xor [of ?ws k] join_chunks_split [where 'a = 32, of plain 16] len k assms(2)
    by (simp add: keystream_def)
  moreover have "array_to_le_bytes 16 h (map2 (XOR) ?ws k) = Some (concat (map le_split (map2 (XOR) ?ws k)))"
    using array_to_bytes_eq(1) [where 'a = 32, of "map2 (XOR) ?ws k" 16 h] len k
    by (simp add: secret_to_le_bytes_eq usize_fits_def)
  moreover have "length (xor_bytes plain (keystream st0 i)) = 64" using assms by (simp add: length_keystream)
  ultimately show ?thesis
    using k ws len
    by (simp add: chacha20_encrypt_block_def array_from_seq_eq array_bitxor_def array_zip_loop_eq secret_xor_def [abs_def])
qed

lemma chacha20_encrypt_last_xor:
  assumes "length st0 = 16" "length plain \<le> 64"
  shows "chacha20_encrypt_last h st0 (word_of_nat i) plain = Some (xor_bytes plain (keystream st0 i))"
proof -
  let ?b = "plain @ replicate (64 - length plain) 0"
  have fits: "usize_fits n" if "n \<le> 64" for n using that by (simp add: usize_fits_def)
  have b: "array_update 64 (array_new 64) 0 plain = Some ?b"
    using assms(2) by (simp add: array_update_def array_update_slice_seq array_ok_def seq_update_slice_eq fits array_new_def default_word_def)
  have e: "chacha20_encrypt_block h st0 (word_of_nat i) ?b = Some (xor_bytes ?b (keystream st0 i))"
    using assms by (simp add: chacha20_encrypt_block_xor)
  have "xor_bytes plain (take (length plain) (keystream st0 i)) = xor_bytes plain (keystream st0 i)"
    by (intro nth_equalityI) (simp_all add: xor_bytes_def)
  then have "take (length plain) (xor_bytes ?b (keystream st0 i)) = xor_bytes plain (keystream st0 i)"
    by (simp add: take_xor_bytes)
  then show ?thesis
    using b e assms length_keystream [OF assms(1), of i]
    by (simp add: chacha20_encrypt_last_def array_slice_def seq_from_slice_eq seq_slice_eq fits seq_len_def)
qed

text \<open>The key stream of a message of \<open>n\<close> full blocks and a rest.\<close>

definition stream_bytes :: "chacha_state \<Rightarrow> nat \<Rightarrow> u8 list" where
  "stream_bytes st0 n = key_stream (keystream st0) n"

lemma length_stream_bytes: "length st0 = 16 \<Longrightarrow> length (stream_bytes st0 n) = 64 * n"
  unfolding stream_bytes_def by (rule length_key_stream) (rule length_keystream)

lemma seq_set_exact_chunk_eq:
  assumes "usize_fits (length xs)" "length v = c" "c * i + c \<le> length xs"
  shows "seq_set_exact_chunk xs c i v = Some (take (c * i) xs @ v @ drop (c * i + c) xs)"
proof -
  have "usize_fits (c * i)" "usize_fits (c * i + c)" "usize_fits (length v)" using assms by (auto intro: usize_fits_mono)
  with assms show ?thesis by (simp add: seq_set_exact_chunk_def seq_len_def seq_update_slice_eq)
qed

lemma chacha20_update_xor:
  assumes st: "length st0 = 16" and fits: "usize_fits (length m + 64)"
  shows "chacha20_update h st0 m = Some (xor_bytes m (stream_bytes st0 (Suc (length m div 64))))"
proof -
  let ?n = "length m div 64"
  note ks = length_keystream [OF st]
  have um: "usize_fits (length m)" using fits by (rule usize_fits_mono) simp
  let ?body = "\<lambda>i blocks_out. do {
       msg_block \<leftarrow> seq_get_exact_chunk m 64 i;
       block \<leftarrow> array_from_seq 64 msg_block;
       b \<leftarrow> chacha20_encrypt_block h st0 (word_of_nat i) block;
       seq_set_exact_chunk blocks_out 64 i b }"
  have body: "?body i s = Some (take (64 * i) s @ xor_bytes (take 64 (drop (64 * i) m)) (keystream st0 i) @ drop (64 * i + 64) s)"
    if "64 * i + 64 \<le> length m" "length s = length m" for i s
    using that um ks [of i]
    by (simp add: seq_get_exact_chunk_eq [OF fits] array_from_seq_eq chacha20_encrypt_block_xor [OF st] seq_set_exact_chunk_eq)
  have "\<exists>s. for_range 0 ?n ?body (seq_new (length m)) = Some s \<and> length s = length m \<and>
    take (64 * ?n) s = take (64 * ?n) (xor_bytes m (key_stream (keystream st0) (Suc ?n)))"
    by (rule stream_loop [where e = "\<lambda>_ s. s", OF ks]) (simp, simp, rule body)
  then obtain s where s: "for_range 0 ?n ?body (seq_new (length m)) = Some s" "length s = length m"
    "take (64 * ?n) s = take (64 * ?n) (xor_bytes m (key_stream (keystream st0) (Suc ?n)))" by blast
  have nx: "seq_num_exact_chunks m 64 = Some ?n" by (simp add: seq_num_exact_chunks_def usize_div_def seq_len_def)
  note last = stream_last [of "keystream st0", OF ks _ fits s(2,3)]
  show ?thesis
    unfolding stream_bytes_def
    using s(1) nx last by (simp add: chacha20_update_def seq_len_def chacha20_encrypt_last_xor [OF st] less_imp_le)
qed

lemma chacha20_constants_Some: "\<exists>c. chacha20_constants_init = Some c \<and> length c = 4"
  by (simp add: chacha20_constants_init_def)

lemma chacha20_init_Some:
  assumes "length key = 32" "length iv = 12"
  shows "\<exists>st. chacha20_init h key iv ctr = Some st \<and> length st = 16"
proof -
  have fits: "usize_fits n" if "n \<le> 64" for n using that by (simp add: usize_fits_def)
  obtain c where c: "chacha20_constants_init = Some c" "length c = 4" using chacha20_constants_Some by blast
  have upd: "array_update 16 st i v = Some (take i st @ v @ drop (i + length v) st)"
    if "length st = 16" "i + length v \<le> 16" for st :: chacha_state and i v
    using that by (simp add: array_update_def array_update_slice_seq array_ok_def seq_update_slice_eq fits)
  obtain k :: "32 secret list" where k: "array_to_le_words 32 h key = Some k" "length k = 8"
    using array_to_words_eq(1) [where 'a = 32, of key 8 h] assms(1) length_chunks [of 4 key] by simp
  obtain n :: "32 secret list" where n: "array_to_le_words 12 h iv = Some n" "length n = 3"
    using array_to_words_eq(1) [where 'a = 32, of iv 3 h] assms(2) length_chunks [of 4 iv] by simp
  let ?st = "c @ k @ drop 12 (array_new 16)"
  have st: "array_update 16 (array_new 16) 0 c = Some (c @ drop 4 (array_new 16))"
    "array_update 16 (c @ drop 4 (array_new 16)) 4 k = Some ?st"
    "vec_set ?st 12 ctr = Some (?st[12 := ctr])"
    using c(2) k(2) by (simp_all add: upd vec_set_def)
  have "\<exists>st. array_update 16 (?st[12 := ctr]) 13 n = Some st \<and> length st = 16" using c(2) k(2) n(2) by (simp add: upd)
  then show ?thesis by (simp only: chacha20_init_def c(1) k(1) n(1) st Option.bind.bind_lunit)
qed

lemma chacha20_roundtrip:
  assumes "length key = 32" "length iv = 12" "usize_fits (length m + 64)"
  shows "\<exists>st c. chacha20_init h key iv ctr = Some st \<and> chacha20 h key iv ctr m = Some c \<and>
    c = xor_bytes m (stream_bytes st (Suc (length m div 64))) \<and> length c = length m \<and> chacha20 h key iv ctr c = Some m"
proof -
  obtain st where st: "chacha20_init h key iv ctr = Some st" "length st = 16" using chacha20_init_Some [OF assms(1,2)] by blast
  let ?ks = "stream_bytes st (Suc (length m div 64))"
  let ?c = "xor_bytes m ?ks"
  have len: "length m \<le> length ?ks" using mod_less_divisor [of 64 "length m"] by (simp add: length_stream_bytes [OF st(2)])
  then have lc: "length ?c = length m" by simp
  have "chacha20_update h st m = Some ?c" by (rule chacha20_update_xor [OF st(2) assms(3)])
  moreover have "chacha20_update h st ?c = Some m"
    using chacha20_update_xor [OF st(2), of ?c h] assms(3) lc xor_bytes_twice [OF len] by simp
  ultimately show ?thesis using st lc by (simp add: chacha20_def)
qed

section \<open>Properties\<close>

text \<open>
  C20: the cipher. On a key of 32 bytes and a nonce of 12 bytes ChaCha20 never panics; it returns the exclusive or of the message with the key stream of the blocks
  0, 1, and so on of the initial state, and applying it again gives the message back.
\<close>

theorem chacha20_correct:
  assumes "length key = 32" "length iv = 12" "usize_fits (length m + 64)"
  shows "\<exists>st c. chacha20_init h key iv ctr = Some st \<and> chacha20 h key iv ctr m = Some c \<and>
    c = xor_bytes m (stream_bytes st (Suc (length m div 64))) \<and> length c = length m \<and> chacha20 h key iv ctr c = Some m"
  using chacha20_roundtrip [OF assms] .

theorem chacha20_correct_witness:
  "\<exists>c. chacha20 LittleEndian (replicate 32 1) (replicate 12 2) 1 [104, 105] = Some c \<and>
    chacha20 LittleEndian (replicate 32 1) (replicate 12 2) 1 c = Some [104, 105]"
  using chacha20_correct [of "replicate 32 1" "replicate 12 2" "[104, 105]" LittleEndian 1] by (auto simp: usize_fits_def)

text \<open>
  the rounds are a permutation. The twenty rounds never panic on a state of sixteen words, and two states with the same result are equal.
\<close>

theorem chacha20_rounds_permutation:
  "(\<forall>st. length st = 16 \<longrightarrow> (\<exists>st'. chacha20_rounds st = Some st' \<and> length st' = 16))
    \<and> inj_on chacha20_rounds {st. length st = 16}"
proof -
  from reversible_rounds obtain g where
    "\<forall>m. length m = 16 \<longrightarrow> (\<exists>m'. chacha20_rounds m = Some m' \<and> length m' = 16 \<and> g m' = m)"
    unfolding reversible_def by blast
  then have g: "\<exists>m'. chacha20_rounds m = Some m' \<and> length m' = 16 \<and> g m' = m" if "length m = 16" for m using that by blast
  have "x = y" if "length x = 16" "length y = 16" "chacha20_rounds x = chacha20_rounds y" for x y
    using g [OF that(1)] g [OF that(2)] that(3) by auto
  then show ?thesis using g by (blast intro!: inj_onI)
qed

theorem chacha20_rounds_permutation_witness:
  "\<exists>st. chacha20_rounds (replicate 16 7) = Some st \<and> length st = 16"
  using chacha20_rounds_permutation by simp

end
