(* ===== verification/Poly1305.thy ===== *)
theory Poly1305
  imports Arrays Math_Integers
begin

text \<open>
  \<open>examples/poly1305/src/poly1305.rs\<close>: the one-time authenticator Poly1305. The type \<open>FieldElement\<close> of \<open>public_nat_mod!\<close> is the residues of
  \<open>Math_Integers\<close> with 131 bits and the modulus that the hexadecimal literal of the code gives; \<open>B\<close> is the parameter for the crate \<open>num_bigint\<close> and \<open>h\<close> the byte order of the host.

  The lemmas show that the authenticator never panics and that its tag is the polynomial of RFC 8439 in the clamped key modulo \<open>2^130 - 5\<close>, with the second half of the key added modulo \<open>2^128\<close>.
\<close>

section \<open>The field\<close>

definition FieldElement_max :: "num_bigint \<Rightarrow> abs_int option" where
  "FieldElement_max B = ai_from_hex B 131 ''03fffffffffffffffffffffffffffffffb''"

definition fe_ZERO :: "num_bigint \<Rightarrow> abs_int option" where
  "fe_ZERO B = do { mx \<leftarrow> FieldElement_max B; mp_ZERO B 131 mx }"

definition fe_from_secret_literal :: "num_bigint \<Rightarrow> 128 secret \<Rightarrow> abs_int option" where
  "fe_from_secret_literal B x = do { mx \<leftarrow> FieldElement_max B; mp_from_secret_literal B 131 mx x }"

definition fe_pow2 :: "num_bigint \<Rightarrow> usize \<Rightarrow> abs_int option" where
  "fe_pow2 B x = do { mx \<leftarrow> FieldElement_max B; nm_pow2 B 131 mx x }"

definition fe_add :: "num_bigint \<Rightarrow> abs_int \<Rightarrow> abs_int \<Rightarrow> abs_int option" where
  "fe_add B x y = do { mx \<leftarrow> FieldElement_max B; nm_add B 131 mx x y }"

definition fe_mul :: "num_bigint \<Rightarrow> abs_int \<Rightarrow> abs_int \<Rightarrow> abs_int option" where
  "fe_mul B x y = do { mx \<leftarrow> FieldElement_max B; nm_mul B 131 mx x y }"

section \<open>The authenticator\<close>

definition BLOCKSIZE :: usize where
  "BLOCKSIZE = 16"

type_synonym poly_state = "abs_int \<times> abs_int \<times> 8 secret array"

definition poly1305_encode_r :: "num_bigint \<Rightarrow> host \<Rightarrow> 8 secret array \<Rightarrow> abs_int option" where
  "poly1305_encode_r B h b = do {
     w \<leftarrow> array_from_seq 16 b;
     n \<leftarrow> word_from_le_bytes h w;
     let n = secret_and n 0x0ffffffc0ffffffc0ffffffc0fffffff;
     fe_from_secret_literal B n
   }"

definition poly1305_encode_block :: "num_bigint \<Rightarrow> host \<Rightarrow> 8 secret array \<Rightarrow> abs_int option" where
  "poly1305_encode_block B h b = do {
     w \<leftarrow> array_from_seq 16 b;
     n \<leftarrow> word_from_le_bytes h w;
     f \<leftarrow> fe_from_secret_literal B n;
     p \<leftarrow> fe_pow2 B 128;
     fe_add B f p
   }"

definition poly1305_encode_last :: "num_bigint \<Rightarrow> host \<Rightarrow> usize \<Rightarrow> 8 secret seq \<Rightarrow> abs_int option" where
  "poly1305_encode_last B h pad_len b = do {
     w \<leftarrow> array_from_slice 16 b 0 (seq_len b);
     n \<leftarrow> word_from_le_bytes h w;
     f \<leftarrow> fe_from_secret_literal B n;
     k \<leftarrow> usize_mul 8 pad_len;
     p \<leftarrow> fe_pow2 B k;
     fe_add B f p
   }"

definition poly1305_init :: "num_bigint \<Rightarrow> host \<Rightarrow> 8 secret array \<Rightarrow> poly_state option" where
  "poly1305_init B h k = do {
     b \<leftarrow> array_from_slice 16 k 0 16;
     r \<leftarrow> poly1305_encode_r B h b;
     z \<leftarrow> fe_ZERO B;
     Some (z, r, k)
   }"

definition poly1305_update_block :: "num_bigint \<Rightarrow> host \<Rightarrow> 8 secret array \<Rightarrow> poly_state \<Rightarrow> poly_state option" where
  "poly1305_update_block B h b st = (case st of (acc, r, k) \<Rightarrow> do {
     e \<leftarrow> poly1305_encode_block B h b;
     s \<leftarrow> fe_add B e acc;
     m \<leftarrow> fe_mul B s r;
     Some (m, r, k)
   })"

definition poly1305_update_blocks :: "num_bigint \<Rightarrow> host \<Rightarrow> 8 secret seq \<Rightarrow> poly_state \<Rightarrow> poly_state option" where
  "poly1305_update_blocks B h m st = do {
     n_blocks \<leftarrow> usize_div (seq_len m) BLOCKSIZE;
     for_range 0 n_blocks (\<lambda>i st. do {
       c \<leftarrow> seq_get_exact_chunk m BLOCKSIZE i;
       block \<leftarrow> array_from_seq 16 c;
       poly1305_update_block B h block st
     }) st
   }"

definition poly1305_update_last :: "num_bigint \<Rightarrow> host \<Rightarrow> usize \<Rightarrow> 8 secret seq \<Rightarrow> poly_state \<Rightarrow> poly_state option" where
  "poly1305_update_last B h pad_len b st =
     (if seq_len b \<noteq> 0 then (case st of (acc, r, k) \<Rightarrow> do {
        e \<leftarrow> poly1305_encode_last B h pad_len b;
        s \<leftarrow> fe_add B e acc;
        m \<leftarrow> fe_mul B s r;
        Some (m, r, k)
      }) else Some st)"

definition poly1305_update :: "num_bigint \<Rightarrow> host \<Rightarrow> 8 secret seq \<Rightarrow> poly_state \<Rightarrow> poly_state option" where
  "poly1305_update B h m st = do {
     st \<leftarrow> poly1305_update_blocks B h m st;
     last_chunk \<leftarrow> seq_get_remainder_chunk m BLOCKSIZE;
     poly1305_update_last B h (seq_len last_chunk) last_chunk st
   }"

definition poly1305_finish :: "num_bigint \<Rightarrow> host \<Rightarrow> poly_state \<Rightarrow> 8 secret array option" where
  "poly1305_finish B h st = (case st of (acc, _, k) \<Rightarrow> do {
     w \<leftarrow> array_from_slice 16 k 16 16;
     n \<leftarrow> word_from_le_bytes h w;
     aby \<leftarrow> mp_to_byte_seq_le B 131 acc;
     w \<leftarrow> array_from_slice 16 aby 0 16;
     a \<leftarrow> word_from_le_bytes h w;
     bs \<leftarrow> word_to_le_bytes h (secret_add a n :: 128 secret);
     array_from_seq 16 bs
   })"

definition poly1305 :: "num_bigint \<Rightarrow> host \<Rightarrow> 8 secret seq \<Rightarrow> 8 secret array \<Rightarrow> 8 secret array option" where
  "poly1305 B h m key = do {
     st \<leftarrow> poly1305_init B h key;
     st \<leftarrow> poly1305_update B h m st;
     poly1305_finish B h st
   }"

section \<open>The function of the standard\<close>

definition p1305 :: int where
  "p1305 = 2 ^ 130 - 5"

definition le_num :: "u8 list \<Rightarrow> int" where
  "le_num bs = be_value (rev bs)"

definition clamped :: "u8 list \<Rightarrow> int" where
  "clamped key = le_num (take 16 key) AND 0x0ffffffc0ffffffc0ffffffc0fffffff"

text \<open>Every block is taken as a little-endian number with a one appended as its highest byte.\<close>

definition poly_blocks :: "int \<Rightarrow> u8 list list \<Rightarrow> int \<Rightarrow> int" where
  "poly_blocks r bs acc = fold (\<lambda>b acc. (le_num (b @ [1]) + acc) * r mod p1305) bs acc"

definition poly1305_spec :: "u8 list \<Rightarrow> u8 list \<Rightarrow> u8 list" where
  "poly1305_spec m key =
     le_split (word_of_int (poly_blocks (clamped key) (chunks 16 m) 0 + le_num (drop 16 key)) :: u128)"

lemma le_num_Nil [simp]: "le_num [] = 0"
  by (simp add: le_num_def)

lemma le_num_Cons: "le_num (b # bs) = uint b + 256 * le_num bs"
  by (simp add: le_num_def)

lemma le_num_append: "le_num (xs @ ys) = le_num xs + 256 ^ length xs * le_num ys"
  by (simp add: le_num_def be_value_append)

lemma le_num_bounds: "0 \<le> le_num bs" "le_num bs < 256 ^ length bs"
  using be_value_less [of "rev bs"] by (simp_all add: le_num_def)

lemma le_num_zeros [simp]: "le_num (bs @ replicate n 0) = le_num bs"
  by (simp add: le_num_append) (simp add: le_num_def)

lemma uint_le_join:
  "8 * length bs \<le> LENGTH('a::len) \<Longrightarrow> uint (le_join bs :: 'a word) = le_num bs"
proof (induction bs)
  case (Cons b bs)
  then have IH: "uint (le_join bs :: 'a word) = le_num bs" by simp
  have len: "8 + 8 * length bs \<le> LENGTH('a)" using Cons.prems by simp
  have pow: "(256::int) ^ n = 2 ^ (8 * n)" for n by (simp add: power_mult)
  have "push_bit 8 (le_num bs) < 2 ^ (8 + 8 * length bs)"
    using le_num_bounds(2) [of bs] by (simp add: push_bit_eq_mult pow power_add)
  also have "\<dots> \<le> (2::int) ^ LENGTH('a)" using len by (intro power_increasing) simp_all
  finally have "uint (push_bit 8 (le_join bs) :: 'a word) = push_bit 8 (le_num bs)"
    using le_num_bounds(1) [of bs] by (simp add: unsigned_push_bit_eq IH take_bit_int_eq_self)
  moreover have "uint (ucast b :: 'a word) = uint b"
  proof -
    have "(2::int) ^ 8 \<le> 2 ^ LENGTH('a)" using len by (intro power_increasing) simp_all
    then show ?thesis using uint_byte [of b] by (simp add: unsigned_ucast_eq take_bit_int_eq_self)
  qed
  moreover have "uint b OR push_bit 8 (le_num bs) = concat_bit 8 (uint b) (le_num bs)"
    using uint_byte [of b] by (simp add: concat_bit_def take_bit_int_eq_self)
  moreover have "\<dots> = uint b + 256 * le_num bs"
    using uint_byte [of b] by (simp add: concat_bit_eq take_bit_int_eq_self push_bit_eq_mult)
  ultimately show ?case by (simp add: unsigned_or_eq le_num_Cons)
qed simp

section \<open>The field operations\<close>

text \<open>\<open>is_fe v res\<close>: the computation returns a reduced element of value \<open>v\<close>.\<close>

definition fe_ok :: "abs_int \<Rightarrow> bool" where
  "fe_ok x \<longleftrightarrow> ai_ok 131 x \<and> ai_val x < p1305"

definition is_fe :: "int \<Rightarrow> abs_int option \<Rightarrow> bool" where
  "is_fe v res \<longleftrightarrow> (\<exists>x. res = Some x \<and> fe_ok x \<and> ai_val x = v mod p1305)"

lemma FieldElement_max_eq:
  assumes "bigint_spec B"
  obtains mx where "FieldElement_max B = Some mx" "nm_type B 131 mx" "ai_val mx = p1305"
proof -
  have bytes: "ai_hex_string_to_bytes ''03fffffffffffffffffffffffffffffffb'' = Some [3, 255, 255, 255, 255, 255, 255, 255, 255, 255, 255, 255, 255, 255, 255, 255, 251]"
    by (simp add: ai_hex_string_to_bytes_def hex_string_to_bytes_def u8_from_str_radix_16_def u8_push_digit_def hex_digit_def chunks.simps)
  have val: "be_value [3, 255, 255, 255, 255, 255, 255, 255, 255, 255, 255, 255, 255, 255, 255, 255, 251] = p1305" by (simp add: p1305_def be_value_Cons)
  have "is_int 131 p1305 (FieldElement_max B)"
    using ai_from_is_int [OF assms, of 131 p1305] assms by (simp add: FieldElement_max_def ai_from_hex_def bytes val)
  then show thesis using that assms by (auto simp: is_int_def p1305_def ai_max_def nm_type_def)
qed

lemma residue_fe: "ai_val mx = p1305 \<Longrightarrow> residue 131 mx v res \<longleftrightarrow> is_fe v res"
  by (simp add: residue_def is_fe_def nm_ok_def fe_ok_def)

lemma fe_add_is_fe: "bigint_spec B \<Longrightarrow> is_fe (ai_val x + ai_val y) (fe_add B x y)"
  using nm_add_residue [of B 131 _ x y] by (metis FieldElement_max_eq Option.bind.bind_lunit fe_add_def residue_fe)

lemma fe_mul_is_fe: "bigint_spec B \<Longrightarrow> is_fe (ai_val x * ai_val y) (fe_mul B x y)"
  using nm_mul_residue [of B 131 _ x y] by (metis FieldElement_max_eq Option.bind.bind_lunit fe_mul_def residue_fe)

lemma fe_ZERO_is_fe:
  assumes "bigint_spec B"
  shows "is_fe 0 (fe_ZERO B)"
proof -
  obtain mx where mx: "FieldElement_max B = Some mx" "nm_type B 131 mx" "ai_val mx = p1305" using FieldElement_max_eq [OF assms] .
  then have "\<exists>r. mp_ZERO B 131 mx = Some r \<and> nm_ok 131 mx r \<and> ai_val r = 0"
    using nm_literal_small [of B 131 mx 0] by (simp add: mp_ZERO_def p1305_def)
  then show ?thesis using mx by (auto simp: fe_ZERO_def is_fe_def fe_ok_def nm_ok_def)
qed

lemma ai_from_reduce:
  assumes "nm_type B 131 mx" "ai_val mx = p1305" "is_int 131 v (ai_from B 131 False v)" "0 \<le> v" "v < 2 ^ 131"
  shows "is_fe v (ai_from B 131 False v \<bind> nm_from B 131 mx)"
proof -
  obtain y where "ai_from B 131 False v = Some y" "ai_ok 131 y" "ai_val y = v" using assms(3-5) by (auto simp: is_int_def ai_max_def)
  then show ?thesis using nm_from_residue [OF assms(1), of y] assms(2) by (simp add: residue_fe)
qed

lemma fe_literal_is_fe:
  assumes "bigint_spec B"
  shows "is_fe (uint n) (fe_from_secret_literal B n)"
proof -
  obtain mx where mx: "FieldElement_max B = Some mx" "nm_type B 131 mx" "ai_val mx = p1305" using FieldElement_max_eq [OF assms] .
  have n: "uint n < 2 ^ 128" using uint_bounded [of n] by simp
  then show ?thesis
    using ai_from_reduce [OF mx(2,3) ai_from_is_int [OF assms], of "uint n"] mx(1)
    by (simp add: fe_from_secret_literal_def mp_from_secret_literal_def ai_from_literal_def declassify_def ai_max_def)
qed

lemma fe_pow2_is_fe:
  assumes "bigint_spec B" "k \<le> 130"
  shows "is_fe (2 ^ k) (fe_pow2 B k)"
proof -
  obtain mx where mx: "FieldElement_max B = Some mx" "nm_type B 131 mx" "ai_val mx = p1305" using FieldElement_max_eq [OF assms(1)] .
  have "(2::int) ^ k \<le> 2 ^ 130" using assms(2) by (intro power_increasing) simp_all
  then show ?thesis
    using ai_from_reduce [OF mx(2,3) ai_from_is_int [OF assms(1)], of "2 ^ k"] mx(1)
    by (simp add: fe_pow2_def nm_pow2_def ai_pow2_def push_bit_eq_mult)
qed

section \<open>The authenticator computes the polynomial\<close>

lemma is_feE:
  assumes "is_fe v res"
  obtains x where "res = Some x" "fe_ok x" "ai_val x = v mod p1305"
  using assms by (auto simp: is_fe_def)

lemma is_fe_mod: "v mod p1305 = w mod p1305 \<Longrightarrow> is_fe v res \<longleftrightarrow> is_fe w res"
  by (simp add: is_fe_def)

lemma encode_add:
  assumes "bigint_spec B" "k \<le> 130"
  shows "is_fe (uint n + 2 ^ k) (do { f \<leftarrow> fe_from_secret_literal B n; p \<leftarrow> fe_pow2 B k; fe_add B f p })"
proof -
  obtain f where f: "fe_from_secret_literal B n = Some f" "ai_val f = uint n mod p1305" using fe_literal_is_fe [OF assms(1)] by (rule is_feE)
  obtain p where p: "fe_pow2 B k = Some p" "ai_val p = 2 ^ k mod p1305" using fe_pow2_is_fe [OF assms] by (rule is_feE)
  have "(ai_val f + ai_val p) mod p1305 = (uint n + 2 ^ k) mod p1305" by (simp only: f(2) p(2) mod_add_eq)
  then have "is_fe (uint n + 2 ^ k) (fe_add B f p)" using fe_add_is_fe [OF assms(1), of f p] is_fe_mod by blast
  then show ?thesis by (simp only: f(1) p(1) Option.bind.bind_lunit)
qed

lemma encode_block_is_fe:
  assumes "bigint_spec B" "length b = 16"
  shows "is_fe (le_num (b @ [1])) (poly1305_encode_block B h b)"
proof -
  have "word_from_le_bytes h b = Some (le_join b :: 128 secret)" by (rule word_from_bytes_eq) (use assms(2) in simp_all)
  then have "poly1305_encode_block B h b = do { f \<leftarrow> fe_from_secret_literal B (le_join b); p \<leftarrow> fe_pow2 B 128; fe_add B f p }"
    using assms(2) by (simp add: poly1305_encode_block_def array_from_seq_eq)
  moreover have "uint (le_join b :: u128) + 2 ^ 128 = le_num (b @ [1])"
    using assms(2) uint_le_join [where 'a = 128, of b] by (simp add: le_num_append le_num_Cons)
  ultimately show ?thesis using encode_add [OF assms(1), of 128 "le_join b"] by simp
qed

lemma array_from_slice_16:
  assumes "s + n \<le> length xs" "n \<le> 16" "usize_fits (length xs)"
  shows "array_from_slice 16 xs s n = Some (take n (drop s xs) @ replicate (16 - n) (0 :: u8))"
  using assms
  by (simp add: array_from_slice_def array_len_def array_update_slice_seq array_ok_def seq_update_slice_eq usize_fits_def
      array_new_def default_word_def)

lemma encode_last_is_fe:
  assumes "bigint_spec B" "length b \<le> pad" "pad \<le> 16"
  shows "is_fe (le_num (b @ replicate (pad - length b) 0 @ [1])) (poly1305_encode_last B h pad b)"
proof -
  let ?w = "b @ replicate (16 - length b) 0"
  have "word_from_le_bytes h ?w = Some (le_join ?w :: 128 secret)" by (rule word_from_bytes_eq) (use assms in simp_all)
  moreover have "array_from_slice 16 b 0 (length b) = Some ?w" using assms array_from_slice_16 [of 0 "length b" b] by (simp add: usize_fits_def)
  moreover have "usize_mul 8 pad = Some (8 * pad)" using assms(3) by (simp add: usize_fits_def)
  ultimately have "poly1305_encode_last B h pad b = do { f \<leftarrow> fe_from_secret_literal B (le_join ?w); p \<leftarrow> fe_pow2 B (8 * pad); fe_add B f p }"
    by (simp add: poly1305_encode_last_def seq_len_def)
  moreover have "uint (le_join ?w :: u128) + 2 ^ (8 * pad) = le_num (b @ replicate (pad - length b) 0 @ [1])"
  proof -
    have "uint (le_join ?w :: u128) = le_num b" using uint_le_join [where 'a = 128, of ?w] assms by simp
    moreover have "le_num ((b @ replicate (pad - length b) 0) @ [1]) = le_num b + 256 ^ pad"
      unfolding le_num_append [of _ "[1]"] le_num_zeros using assms(2) by (simp add: le_num_Cons)
    moreover have "(256::int) ^ pad = 2 ^ (8 * pad)" by (simp add: power_mult)
    ultimately show ?thesis by simp
  qed
  ultimately show ?thesis using encode_add [OF assms(1), of "8 * pad" "le_join ?w"] assms(3) by simp
qed

text \<open>The state after some blocks: the accumulator has the value of the polynomial and the key is unchanged.\<close>

definition st_ok :: "int \<Rightarrow> int \<Rightarrow> 8 secret array \<Rightarrow> poly_state \<Rightarrow> bool" where
  "st_ok v r k st \<longleftrightarrow> (case st of (acc, r', k') \<Rightarrow> fe_ok acc \<and> ai_val acc = v mod p1305 \<and> fe_ok r' \<and> ai_val r' = r \<and> k' = k)"

lemma accumulate:
  assumes "bigint_spec B" "is_fe v e" "st_ok a r k (acc, r', k')"
  shows "\<exists>st. do { e \<leftarrow> e; s \<leftarrow> fe_add B e acc; m \<leftarrow> fe_mul B s r'; Some (m, r', k') } = Some st \<and> st_ok ((v + a) * r mod p1305) r k st"
proof -
  obtain x where x: "e = Some x" "ai_val x = v mod p1305" using assms(2) by (rule is_feE)
  obtain s where s: "fe_add B x acc = Some s" "ai_val s = (ai_val x + ai_val acc) mod p1305" using fe_add_is_fe [OF assms(1)] by (rule is_feE)
  obtain m where m: "fe_mul B s r' = Some m" "fe_ok m" "ai_val m = (ai_val s * ai_val r') mod p1305" using fe_mul_is_fe [OF assms(1)] by (rule is_feE)
  have "ai_val acc = a mod p1305" "ai_val r' = r" using assms(3) by (simp_all add: st_ok_def)
  then have "ai_val m = (v + a) * r mod p1305" by (simp only: m(3) s(2) x(2) mod_add_eq mod_mult_left_eq)
  then show ?thesis using x(1) s(1) m assms(3) by (simp add: st_ok_def)
qed

lemma update_block_ok:
  assumes "bigint_spec B" "length b = 16" "st_ok a r k st"
  shows "\<exists>st'. poly1305_update_block B h b st = Some st' \<and> st_ok (poly_blocks r [b] a) r k st'"
  using accumulate [OF assms(1) encode_block_is_fe [OF assms(1,2)]] assms(3)
  by (cases st) (simp add: poly1305_update_block_def poly_blocks_def)

lemma update_last_ok:
  assumes "bigint_spec B" "length b \<le> pad" "pad \<le> 16" "st_ok a r k st"
  shows "\<exists>st'. poly1305_update_last B h pad b st = Some st' \<and>
    st_ok (poly_blocks r (if b = [] then [] else [b @ replicate (pad - length b) 0]) a) r k st'"
  using accumulate [OF assms(1) encode_last_is_fe [OF assms(1-3)]] assms(4)
  by (cases st) (simp add: poly1305_update_last_def poly_blocks_def seq_len_def)

lemma exact_chunks_loop:
  assumes "0 < c" "usize_fits (length xs + c)"
  shows "for_range 0 (length xs div c) (\<lambda>i s. do { b \<leftarrow> seq_get_exact_chunk xs c i; f b s }) s
    = foldM f (chunks c (take (c * (length xs div c)) xs)) s"
proof -
  let ?n = "length xs div c" and ?w = "take (c * (length xs div c)) xs"
  have le: "c * ?n \<le> length xs" by (rule times_div_less_eq_dividend)
  have len: "length (chunks c ?w) = ?n" using assms(1) le length_chunks [of c ?w] div_round_up [of c "c * ?n"] by simp
  have "seq_get_exact_chunk xs c i = vec_get (chunks c ?w) i" if "i < ?n" for i
  proof -
    have "c * Suc i \<le> c * ?n" using that by (intro mult_le_mono2) simp
    then have "c * i + c \<le> c * ?n" by simp
    then show ?thesis
      using le that order_trans [OF \<open>c * i + c \<le> c * ?n\<close> le] by (simp add: seq_get_exact_chunk_eq [OF assms(2)] len nth_chunks drop_take min_def)
  qed
  then have "for_range 0 ?n (\<lambda>i s. do { b \<leftarrow> seq_get_exact_chunk xs c i; f b s }) s
      = for_range 0 ?n (\<lambda>i s. do { b \<leftarrow> vec_get (chunks c ?w) i; f b s }) s"
    by (intro for_range_cong) simp
  then show ?thesis using for_range_elements [of "chunks c ?w" f s] by (simp only: len)
qed

lemma poly_blocks_simps [simp]:
  "poly_blocks r [] a = a" "poly_blocks r (xs @ ys) a = poly_blocks r ys (poly_blocks r xs a)"
  by (simp_all add: poly_blocks_def)

lemma foldM_blocks_ok:
  assumes "bigint_spec B"
  shows "\<forall>b \<in> set bs. length b = 16 \<Longrightarrow> st_ok a r k st \<Longrightarrow>
    \<exists>st'. foldM (\<lambda>c st. do { b \<leftarrow> array_from_seq 16 c; poly1305_update_block B h b st }) bs st = Some st' \<and> st_ok (poly_blocks r bs a) r k st'"
proof (induction bs arbitrary: a st)
  case (Cons b bs)
  then have b: "length b = 16" by simp
  obtain st1 where st1: "poly1305_update_block B h b st = Some st1" "st_ok (poly_blocks r [b] a) r k st1"
    using update_block_ok [OF assms b Cons.prems(2)] by blast
  let ?f = "\<lambda>c st. do { b \<leftarrow> array_from_seq 16 c; poly1305_update_block B h b st }"
  have loop: "foldM ?f (b # bs) st = foldM ?f bs st1" using st1(1) b by (simp add: array_from_seq_eq)
  have fold: "poly_blocks r (b # bs) a = poly_blocks r bs (poly_blocks r [b] a)" by (simp add: poly_blocks_def)
  have all: "\<forall>b \<in> set bs. length b = 16" using Cons.prems(1) by simp
  show ?case unfolding loop fold by (rule Cons.IH [OF all st1(2)])
qed simp

lemma update_blocks_ok:
  assumes "bigint_spec B" "usize_fits (length m + 16)" "st_ok a r k st"
  shows "\<exists>st'. poly1305_update_blocks B h m st = Some st' \<and> st_ok (poly_blocks r (chunks 16 (take (16 * (length m div 16)) m)) a) r k st'"
proof -
  let ?w = "take (16 * (length m div 16)) m"
  have "length b = 16" if "b \<in> set (chunks 16 ?w)" for b
    using length_chunk [OF _ that] times_div_less_eq_dividend [of 16 "length m"] by simp
  then have all: "\<forall>b \<in> set (chunks 16 ?w). length b = 16" by blast
  have loop: "poly1305_update_blocks B h m st
      = foldM (\<lambda>c st. do { b \<leftarrow> array_from_seq 16 c; poly1305_update_block B h b st }) (chunks 16 ?w) st"
    using exact_chunks_loop [OF _ assms(2), of "\<lambda>c st. do { b \<leftarrow> array_from_seq 16 c; poly1305_update_block B h b st }" st]
    by (simp add: poly1305_update_blocks_def usize_div_def seq_len_def BLOCKSIZE_def)
  show ?thesis unfolding loop by (rule foldM_blocks_ok [OF assms(1) all assms(3)])
qed

lemma whole_and_rest:
  assumes "0 < c"
  shows "chunks c xs = chunks c (take (c * (length xs div c)) xs) @ (if length xs mod c = 0 then [] else [drop (c * (length xs div c)) xs])"
proof -
  let ?n = "c * (length xs div c)"
  have "chunks c (take ?n xs @ drop ?n xs) = chunks c (take ?n xs) @ chunks c (drop ?n xs)"
    using times_div_less_eq_dividend [of c "length xs"] by (intro chunks_append_multiple [OF assms, of _ "length xs div c"]) simp
  moreover have "length (drop ?n xs) = length xs mod c" by (simp add: minus_mult_div_eq_mod)
  then have "chunks c (drop ?n xs) = (if length xs mod c = 0 then [] else [drop ?n xs])"
    using assms mod_less_divisor [OF assms, of "length xs"] by (subst chunks.simps) auto
  ultimately show ?thesis by simp
qed

lemma update_ok:
  assumes "bigint_spec B" "usize_fits (length m + 16)" "st_ok a r k st"
  shows "\<exists>st'. poly1305_update B h m st = Some st' \<and> st_ok (poly_blocks r (chunks 16 m) a) r k st'"
proof -
  let ?w = "take (16 * (length m div 16)) m" and ?l = "drop (16 * (length m div 16)) m"
  have len: "length ?l = length m mod 16" by (simp add: minus_mult_div_eq_mod)
  obtain st1 where st1: "poly1305_update_blocks B h m st = Some st1" "st_ok (poly_blocks r (chunks 16 ?w) a) r k st1"
    using update_blocks_ok [OF assms] by blast
  have rem: "seq_get_remainder_chunk m 16 = Some ?l" by (rule seq_get_remainder_chunk_eq [OF _ assms(2)]) simp
  have "length ?l \<le> length ?l" "length ?l \<le> 16" using len mod_less_divisor [of 16 "length m"] by linarith+
  from update_last_ok [OF assms(1) this st1(2), of h] obtain st2 where
    "poly1305_update_last B h (length ?l) ?l st1 = Some st2"
    "st_ok (poly_blocks r (if ?l = [] then [] else [?l @ replicate (length ?l - length ?l) 0]) (poly_blocks r (chunks 16 ?w) a)) r k st2"
    by blast
  moreover have "(if ?l = [] then [] else [?l @ replicate (length ?l - length ?l) 0]) = (if length m mod 16 = 0 then [] else [?l])"
    using len by (metis append_Nil2 diff_self_eq_0 length_0_conv replicate_0)
  moreover have "chunks 16 m = chunks 16 ?w @ (if length m mod 16 = 0 then [] else [?l])" by (rule whole_and_rest) simp
  ultimately have "st_ok (poly_blocks r (chunks 16 m) a) r k st2" by (simp only: poly_blocks_simps)
  moreover have "poly1305_update B h m st = Some st2"
    using \<open>poly1305_update_last B h (length ?l) ?l st1 = Some st2\<close>
    by (simp only: poly1305_update_def BLOCKSIZE_def seq_len_def st1(1) rem Option.bind.bind_lunit)
  ultimately show ?thesis by blast
qed

lemma init_ok:
  assumes "bigint_spec B" "length key = 32"
  shows "\<exists>st. poly1305_init B h key = Some st \<and> st_ok 0 (clamped key) key st"
proof -
  let ?w = "take 16 key"
  let ?n = "secret_and (le_join ?w) 0x0ffffffc0ffffffc0ffffffc0fffffff :: 128 secret"
  have "array_from_slice 16 key 0 16 = Some ?w" using assms(2) array_from_slice_16 [of 0 16 key] by (simp add: usize_fits_def)
  moreover have "word_from_le_bytes h ?w = Some (le_join ?w :: 128 secret)" by (rule word_from_bytes_eq) (use assms(2) in simp_all)
  moreover obtain r where r: "fe_from_secret_literal B ?n = Some r" "fe_ok r" "ai_val r = uint ?n mod p1305"
    using fe_literal_is_fe [OF assms(1)] by (rule is_feE)
  moreover obtain z where z: "fe_ZERO B = Some z" "fe_ok z" "ai_val z = 0 mod p1305" using fe_ZERO_is_fe [OF assms(1)] by (rule is_feE)
  ultimately have "poly1305_init B h key = Some (z, r, key)"
    using assms(2) by (simp add: poly1305_init_def poly1305_encode_r_def array_from_seq_eq Let_def)
  moreover have "ai_val r = clamped key"
  proof -
    have "uint ?n = clamped key"
      using uint_le_join [where 'a = 128, of ?w] assms(2) by (simp add: secret_and_def unsigned_and_eq clamped_def)
    moreover have "uint ?n < p1305" using uint_bounded [of ?n] by (simp add: p1305_def)
    moreover have "0 \<le> uint ?n" by simp
    ultimately show ?thesis using r(3) by (metis mod_pos_pos_trivial)
  qed
  ultimately show ?thesis using r z by (simp add: st_ok_def)
qed

lemma le_join_rev_bytes:
  assumes "length bs = 17"
  shows "(le_join (take 16 bs) :: u128) = word_of_int (le_num bs)"
proof -
  have "le_num bs = le_num (take 16 bs) + 2 ^ 128 * le_num (drop 16 bs)"
    using le_num_append [of "take 16 bs" "drop 16 bs"] assms by simp
  then have "le_num bs mod 2 ^ 128 = le_num (take 16 bs) mod 2 ^ 128" by (simp only: mod_mult_self2)
  then have "(word_of_int (le_num bs) :: u128) = word_of_int (le_num (take 16 bs))" by (simp add: word_of_int_eq_iff take_bit_eq_mod)
  moreover have "uint (le_join (take 16 bs) :: u128) = le_num (take 16 bs)" by (rule uint_le_join) (use assms in simp)
  ultimately show ?thesis by (metis word_of_int_uint)
qed

lemma finish_ok:
  assumes "bigint_spec B" "length key = 32" "st_ok a r key st"
  shows "poly1305_finish B h st = Some (le_split (word_of_int (a mod p1305 + le_num (drop 16 key)) :: u128))"
proof -
  obtain acc r' where st: "st = (acc, r', key)" and acc: "ai_ok 131 acc" "ai_val acc = a mod p1305"
    using assms(3) by (cases st) (auto simp: st_ok_def fe_ok_def)
  let ?k = "drop 16 key" and ?aby = "rev (ai_b acc)"
  have len: "length ?aby = 17" using acc(1) by (simp add: ai_ok_def canvas_len_def)
  have bytes: "mp_to_byte_seq_le B 131 acc = Some ?aby"
    using to_le_bytes_rev [OF assms(1) _ acc(1)] by (simp add: mp_to_byte_seq_le_def nm_to_le_bytes_def classify_def)
  have slices: "array_from_slice 16 key 16 16 = Some ?k" "array_from_slice 16 ?aby 0 16 = Some (take 16 ?aby)"
    using assms(2) len array_from_slice_16 [of 16 16 key] array_from_slice_16 [of 0 16 ?aby] by (simp_all add: usize_fits_def)
  have words: "word_from_le_bytes h ?k = Some (le_join ?k :: 128 secret)" "word_from_le_bytes h (take 16 ?aby) = Some (le_join (take 16 ?aby) :: 128 secret)"
    by (rule word_from_bytes_eq; use assms(2) len in simp)+
  have "uint (le_join ?k :: u128) = le_num ?k" by (rule uint_le_join) (use assms(2) in simp)
  then have "(le_join ?k :: u128) = word_of_int (le_num ?k)" by (metis word_of_int_uint)
  moreover have "le_num ?aby = a mod p1305" using acc(2) by (simp add: le_num_def ai_val_def)
  ultimately have sum: "secret_add (le_join (take 16 ?aby)) (le_join ?k) = (word_of_int (a mod p1305 + le_num ?k) :: 128 secret)"
    using le_join_rev_bytes [OF len] by (simp add: secret_add_def)
  have out: "word_to_le_bytes h x = Some (le_split x)" for x :: "128 secret"
    by (simp add: word_to_le_bytes_def array_from_vec_eq secret_to_le_bytes_eq)
  show ?thesis
    unfolding st poly1305_finish_def prod.case
    by (simp only: slices words bytes sum out Option.bind.bind_lunit) (simp add: array_from_seq_eq)
qed

section \<open>Properties\<close>

text \<open>
  C19: Poly1305. On a key of 32 bytes the authenticator never panics, and its tag is the one of RFC 8439: every block of 16 bytes, and the shorter last one, is read as a little-endian number with a one
  appended, the polynomial with these coefficients is evaluated at the clamped first half of the key modulo \<open>2^130 - 5\<close>, and the second half is added modulo \<open>2^128\<close>.
\<close>

theorem poly1305_correct:
  assumes "bigint_spec B" "length key = 32" "usize_fits (length m + 16)"
  shows "poly1305 B h m key = Some (poly1305_spec m key)"
proof -
  obtain st where st: "poly1305_init B h key = Some st" "st_ok 0 (clamped key) key st" using init_ok [OF assms(1,2)] by blast
  let ?v = "poly_blocks (clamped key) (chunks 16 m) 0"
  obtain st' where st': "poly1305_update B h m st = Some st'" "st_ok ?v (clamped key) key st'"
    using update_ok [OF assms(1,3) st(2)] by blast
  have "?v mod p1305 = ?v"
    by (cases "chunks 16 m" rule: rev_cases) (simp_all add: poly_blocks_def)
  then show ?thesis
    using st(1) st'(1) finish_ok [OF assms(1,2) st'(2), of h] by (simp add: poly1305_def poly1305_spec_def)
qed

theorem poly1305_correct_witness:
  "poly1305 bigint_ref LittleEndian [104, 105] (replicate 32 7) = Some (poly1305_spec [104, 105] (replicate 32 7))"
  using poly1305_correct [OF bigint_ref_spec, of "replicate 32 7" "[104, 105]" LittleEndian] by (simp add: usize_fits_def)

end
