(* ===== verification/Chacha20_Poly1305.thy ===== *)
theory Chacha20_Poly1305
  imports Chacha20 Poly1305
begin

text \<open>
  \<open>examples/chacha20poly1305/src/chacha20poly1305.rs\<close>: authenticated encryption from ChaCha20 and Poly1305. A panic is \<open>None\<close>; the \<open>Result\<close> of the decryption is a sum with the error on the left.

  The lemmas show that the tag is Poly1305, under the first half of the key block with counter zero, of the padded associated data, the padded cipher text and the two lengths; that decryption of an
  encryption returns the message, and that every other tag is refused.
\<close>

datatype aead_error = InvalidTag

definition aead_init :: "num_bigint \<Rightarrow> host \<Rightarrow> 8 secret array \<Rightarrow> 8 secret array \<Rightarrow> poly_state option" where
  "aead_init B h key iv = do {
     key_block0 \<leftarrow> chacha20_key_block0 h key iv;
     poly_key \<leftarrow> array_from_slice 32 key_block0 0 32;
     poly1305_init B h poly_key
   }"

definition poly1305_update_padded :: "num_bigint \<Rightarrow> host \<Rightarrow> 8 secret seq \<Rightarrow> poly_state \<Rightarrow> poly_state option" where
  "poly1305_update_padded B h m st = do {
     st \<leftarrow> poly1305_update_blocks B h m st;
     last_chunk \<leftarrow> seq_get_remainder_chunk m 16;
     poly1305_update_last B h 16 last_chunk st
   }"

definition aead_finish :: "num_bigint \<Rightarrow> host \<Rightarrow> usize \<Rightarrow> usize \<Rightarrow> poly_state \<Rightarrow> 8 secret array option" where
  "aead_finish B h aad_len cipher_len st = do {
     let last_block = array_new 16;
     a \<leftarrow> word_to_le_bytes h (classify (word_of_nat aad_len :: 64 word));
     last_block \<leftarrow> array_update 16 last_block 0 a;
     c \<leftarrow> word_to_le_bytes h (classify (word_of_nat cipher_len :: 64 word));
     last_block \<leftarrow> array_update 16 last_block 8 c;
     st \<leftarrow> poly1305_update_block B h last_block st;
     poly1305_finish B h st
   }"

definition chacha20_poly1305_encrypt ::
  "num_bigint \<Rightarrow> host \<Rightarrow> 8 secret array \<Rightarrow> 8 secret array \<Rightarrow> 8 secret seq \<Rightarrow> 8 secret seq \<Rightarrow> (8 secret seq \<times> 8 secret array) option" where
  "chacha20_poly1305_encrypt B h key iv aad msg = do {
     cipher_text \<leftarrow> chacha20 h key iv 1 msg;
     poly_st \<leftarrow> aead_init B h key iv;
     poly_st \<leftarrow> poly1305_update_padded B h aad poly_st;
     poly_st \<leftarrow> poly1305_update_padded B h cipher_text poly_st;
     tag \<leftarrow> aead_finish B h (seq_len aad) (seq_len cipher_text) poly_st;
     Some (cipher_text, tag)
   }"

definition chacha20_poly1305_decrypt ::
  "num_bigint \<Rightarrow> host \<Rightarrow> 8 secret array \<Rightarrow> 8 secret array \<Rightarrow> 8 secret seq \<Rightarrow> 8 secret seq \<Rightarrow> 8 secret array \<Rightarrow> (aead_error + 8 secret seq) option" where
  "chacha20_poly1305_decrypt B h key iv aad cipher_text tag = do {
     poly_st \<leftarrow> aead_init B h key iv;
     poly_st \<leftarrow> poly1305_update_padded B h aad poly_st;
     poly_st \<leftarrow> poly1305_update_padded B h cipher_text poly_st;
     my_tag \<leftarrow> aead_finish B h (seq_len aad) (seq_len cipher_text) poly_st;
     if array_declassify_eq my_tag tag then do {
       m \<leftarrow> chacha20 h key iv 1 cipher_text;
       Some (Inr m)
     } else Some (Inl InvalidTag)
   }"

section \<open>The tag\<close>

definition pad16 :: "u8 list \<Rightarrow> u8 list" where
  "pad16 m = m @ (if length m mod 16 = 0 then [] else replicate (16 - length m mod 16) 0)"

definition mac_data :: "u8 list \<Rightarrow> u8 list \<Rightarrow> u8 list" where
  "mac_data aad c = pad16 aad @ pad16 c @ le_split (word_of_nat (length aad) :: u64) @ le_split (word_of_nat (length c) :: u64)"

lemma update_padded_ok:
  assumes "bigint_spec B" "usize_fits (length m + 16)" "st_ok a r k st"
  shows "\<exists>st'. poly1305_update_padded B h m st = Some st' \<and> st_ok (poly_blocks r (chunks 16 (pad16 m)) a) r k st'"
proof -
  let ?w = "take (16 * (length m div 16)) m" and ?l = "drop (16 * (length m div 16)) m"
  let ?z = "replicate (16 - length ?l) 0"
  have len: "length ?l = length m mod 16" by (simp add: minus_mult_div_eq_mod)
  then have lt: "length ?l < 16" using mod_less_divisor [of 16 "length m"] by linarith
  obtain st1 where st1: "poly1305_update_blocks B h m st = Some st1" "st_ok (poly_blocks r (chunks 16 ?w) a) r k st1"
    using update_blocks_ok [OF assms] by blast
  have rem: "seq_get_remainder_chunk m 16 = Some ?l" by (rule seq_get_remainder_chunk_eq [OF _ assms(2)]) simp
  obtain st2 where st2: "poly1305_update_last B h 16 ?l st1 = Some st2"
    "st_ok (poly_blocks r (if ?l = [] then [] else [?l @ ?z]) (poly_blocks r (chunks 16 ?w) a)) r k st2"
    using update_last_ok [OF assms(1) less_imp_le [OF lt] order_refl st1(2), of h] by blast
  have "chunks 16 (pad16 m) = chunks 16 ?w @ (if ?l = [] then [] else [?l @ ?z])"
  proof -
    have "pad16 m = ?w @ (if ?l = [] then [] else ?l @ ?z)"
      using len by (simp only: pad16_def flip: length_0_conv) simp
    moreover have "chunks 16 (?w @ ys) = chunks 16 ?w @ chunks 16 ys" for ys
      using times_div_less_eq_dividend [of 16 "length m"] by (intro chunks_append_multiple [of 16 _ "length m div 16"]) simp_all
    moreover have "chunks 16 (?l @ ?z) = [?l @ ?z]" using chunks_append [of "?l @ ?z" 16 "[]"] lt by simp
    ultimately show ?thesis by (simp only: if_split) simp
  qed
  then have "st_ok (poly_blocks r (chunks 16 (pad16 m)) a) r k st2" using st2(2) by (simp only: poly_blocks_simps)
  then show ?thesis using st2(1) by (simp only: poly1305_update_padded_def st1(1) rem Option.bind.bind_lunit) blast
qed

lemma length_pad16: "\<exists>k. length (pad16 m) = 16 * k"
proof -
  have "length (pad16 m) = 16 * (length m div 16 + (if length m mod 16 = 0 then 0 else 1))"
  proof -
    define q r where "q = length m div 16" and "r = length m mod 16"
    then have "length m = 16 * q + r" "r < 16" by simp_all
    then show ?thesis unfolding pad16_def q_def [symmetric] r_def [symmetric] by simp
  qed
  then show ?thesis by blast
qed

lemma chunks_mac_data:
  defines "n m \<equiv> le_split (word_of_nat (length m) :: u64)"
  shows "chunks 16 (mac_data aad c) = chunks 16 (pad16 aad) @ chunks 16 (pad16 c) @ [n aad @ n c]"
proof -
  have "chunks 16 (pad16 m @ ys) = chunks 16 (pad16 m) @ chunks 16 ys" for m ys
    using length_pad16 [of m] chunks_append_multiple [of 16 "pad16 m" _ ys] by auto
  moreover have "chunks 16 (n aad @ n c) = [n aad @ n c]" using chunks_append [of "n aad @ n c" 16 "[]"] by (simp add: n_def)
  ultimately show ?thesis by (simp add: mac_data_def n_def)
qed

lemma finish_tag:
  assumes "bigint_spec B" "length key = 32" "st_ok a r key st" and tag: "a = poly_blocks r (chunks 16 (pad16 aad) @ chunks 16 (pad16 c)) 0" "r = clamped key"
  shows "aead_finish B h (length aad) (length c) st = Some (poly1305_spec (mac_data aad c) key)"
proof -
  let ?n = "\<lambda>m. le_split (word_of_nat (length m) :: u64)"
  have word: "word_to_le_bytes h x = Some (le_split x)" for x :: "64 secret"
    by (simp add: word_to_le_bytes_def array_from_vec_eq secret_to_le_bytes_eq)
  have upd: "array_update 16 (array_new 16) 0 (?n aad) = Some (?n aad @ drop 8 (array_new 16))"
    "array_update 16 (?n aad @ drop 8 (array_new 16)) 8 (?n c) = Some (?n aad @ ?n c)"
    by (simp_all add: array_update_def array_update_slice_seq array_ok_def seq_update_slice_eq usize_fits_def)
  obtain st1 where st1: "poly1305_update_block B h (?n aad @ ?n c) st = Some st1" "st_ok (poly_blocks r [?n aad @ ?n c] a) r key st1"
    using update_block_ok [OF assms(1) _ assms(3), of "?n aad @ ?n c" h] by auto
  let ?v = "poly_blocks r (chunks 16 (mac_data aad c)) 0"
  have v: "poly_blocks r [?n aad @ ?n c] a = ?v" by (simp only: tag chunks_mac_data poly_blocks_simps)
  have "?v mod p1305 = ?v" unfolding chunks_mac_data poly_blocks_simps by (simp add: poly_blocks_def)
  then have "poly1305_finish B h st1 = Some (poly1305_spec (mac_data aad c) key)"
    using finish_ok [OF assms(1,2) st1(2), of h] unfolding v unfolding tag(2) poly1305_spec_def by simp
  then show ?thesis by (simp only: aead_finish_def Let_def classify_def word upd st1(1) Option.bind.bind_lunit)
qed

text \<open>The key of the authenticator: the first half of the key block with counter zero.\<close>

definition one_time_key :: "host \<Rightarrow> 8 secret array \<Rightarrow> 8 secret array \<Rightarrow> u8 list" where
  "one_time_key h key iv = take 32 (keystream (the (chacha20_init h key iv 0)) 0)"

lemma init_aead:
  assumes "bigint_spec B" "length key = 32" "length iv = 12"
  shows "length (one_time_key h key iv) = 32"
    "\<exists>st. aead_init B h key iv = Some st \<and> st_ok 0 (clamped (one_time_key h key iv)) (one_time_key h key iv) st"
proof -
  obtain st0 where st0: "chacha20_init h key iv 0 = Some st0" "length st0 = 16" using chacha20_init_Some [OF assms(2,3)] by blast
  obtain k where k: "chacha20_core 0 st0 = Some k" "length k = 16" using chacha20_core_Some [OF st0(2)] by blast
  have ks: "keystream st0 0 = concat (map le_split k)" "length (keystream st0 0) = 64"
    using k(1) length_keystream [OF st0(2), of 0] by (simp_all add: keystream_def)
  then show len: "length (one_time_key h key iv) = 32" using st0(1) by (simp add: one_time_key_def)
  have "array_to_le_bytes 16 h k = Some (concat (map le_split k))"
    using array_to_bytes_eq(1) [where 'a = 32, of k 16 h] k(2) by (simp add: secret_to_le_bytes_eq usize_fits_def)
  then have "chacha20_key_block0 h key iv = Some (keystream st0 0)"
    using st0(1) k(1) ks by (simp add: chacha20_key_block0_def chacha20_key_block_def array_from_seq_eq)
  moreover have "array_from_slice 32 (keystream st0 0) 0 32 = Some (one_time_key h key iv)"
    using ks(2) st0(1)
    by (simp add: array_from_slice_def array_len_def array_update_slice_seq array_ok_def seq_update_slice_eq usize_fits_def one_time_key_def)
  ultimately show "\<exists>st. aead_init B h key iv = Some st \<and> st_ok 0 (clamped (one_time_key h key iv)) (one_time_key h key iv) st"
    using init_ok [OF assms(1) len, of h] by (simp add: aead_init_def)
qed

lemma tag_eq:
  assumes B: "bigint_spec B" and key: "length key = 32" "length iv = 12" and aad: "usize_fits (length aad + 16)" and c: "usize_fits (length c + 16)"
  shows "do { poly_st \<leftarrow> aead_init B h key iv; poly_st \<leftarrow> poly1305_update_padded B h aad poly_st; poly_st \<leftarrow> poly1305_update_padded B h c poly_st;
      tag \<leftarrow> aead_finish B h (seq_len aad) (seq_len c) poly_st; f tag } = f (poly1305_spec (mac_data aad c) (one_time_key h key iv))"
proof -
  let ?k = "one_time_key h key iv" and ?r = "clamped (one_time_key h key iv)"
  note len = init_aead(1) [OF B key, of h]
  obtain st0 where st0: "aead_init B h key iv = Some st0" "st_ok 0 ?r ?k st0" using init_aead(2) [OF B key] by blast
  obtain st1 where st1: "poly1305_update_padded B h aad st0 = Some st1" "st_ok (poly_blocks ?r (chunks 16 (pad16 aad)) 0) ?r ?k st1"
    using update_padded_ok [OF B aad st0(2)] by blast
  obtain st2 where st2: "poly1305_update_padded B h c st1 = Some st2"
    "st_ok (poly_blocks ?r (chunks 16 (pad16 c)) (poly_blocks ?r (chunks 16 (pad16 aad)) 0)) ?r ?k st2"
    using update_padded_ok [OF B c st1(2)] by blast
  have "aead_finish B h (length aad) (length c) st2 = Some (poly1305_spec (mac_data aad c) ?k)"
    by (rule finish_tag [OF B len st2(2)]) simp_all
  then show ?thesis by (simp only: st0(1) st1(1) st2(1) seq_len_def Option.bind.bind_lunit)
qed

section \<open>Properties\<close>

text \<open>
  C5: authenticated encryption. On a key of 32 bytes and a nonce of 12 bytes encryption never panics; the cipher text is ChaCha20 of the message with counter one and the tag is Poly1305, under the one-time
  key, of the associated data and the cipher text, each padded to blocks, and their lengths. Decrypting the cipher text with the tag returns the message, and decrypting any cipher text never panics and
  returns the error for every tag but the one of the text.
\<close>

theorem chacha20_poly1305_correct:
  fixes h :: host
  assumes "bigint_spec B" "length key = 32" "length iv = 12" "usize_fits (length aad + 16)" "usize_fits (length msg + 64)"
  defines "tag c \<equiv> poly1305_spec (mac_data aad c) (one_time_key h key iv)"
  shows "(\<exists>c. chacha20 h key iv 1 msg = Some c \<and> length c = length msg \<and>
        chacha20_poly1305_encrypt B h key iv aad msg = Some (c, tag c) \<and>
        chacha20_poly1305_decrypt B h key iv aad c (tag c) = Some (Inr msg))
    \<and> (\<forall>t. t \<noteq> tag msg \<longrightarrow> chacha20_poly1305_decrypt B h key iv aad msg t = Some (Inl InvalidTag))"
proof
  have fits: "usize_fits (length msg + 16)" using assms(5) by (rule usize_fits_mono) simp
  obtain c where c: "chacha20 h key iv 1 msg = Some c" "length c = length msg" "chacha20 h key iv 1 c = Some msg"
    using chacha20_init_Some [OF assms(2,3), of h 1] chacha20_roundtrip [OF assms(2,3,5), of h 1] by blast
  have cf: "usize_fits (length c + 16)" using fits c(2) by simp
  have dec: "chacha20_poly1305_decrypt B h key iv aad x t = (if tag x = t then do { m \<leftarrow> chacha20 h key iv 1 x; Some (Inr m) } else Some (Inl InvalidTag))"
    if "usize_fits (length x + 16)" for x t
    using tag_eq [OF assms(1-4) that, of h "\<lambda>my_tag. if array_declassify_eq my_tag t then do { m \<leftarrow> chacha20 h key iv 1 x; Some (Inr m) } else Some (Inl InvalidTag)"]
    by (simp add: chacha20_poly1305_decrypt_def tag_def array_declassify_eq_def declassify_def)
  have "chacha20_poly1305_encrypt B h key iv aad msg = Some (c, tag c)"
    using tag_eq [OF assms(1-4) cf, of h "\<lambda>tag. Some (c, tag)"] c(1) by (simp add: chacha20_poly1305_encrypt_def tag_def)
  then show "\<exists>c. chacha20 h key iv 1 msg = Some c \<and> length c = length msg \<and>
        chacha20_poly1305_encrypt B h key iv aad msg = Some (c, tag c) \<and>
        chacha20_poly1305_decrypt B h key iv aad c (tag c) = Some (Inr msg)"
    using c dec [OF cf, of "tag c"] by simp
  show "\<forall>t. t \<noteq> tag msg \<longrightarrow> chacha20_poly1305_decrypt B h key iv aad msg t = Some (Inl InvalidTag)"
    using dec [OF fits] by auto
qed

theorem chacha20_poly1305_correct_witness:
  "\<exists>c t. chacha20_poly1305_encrypt bigint_ref LittleEndian (replicate 32 1) (replicate 12 2) [7] [104, 105] = Some (c, t) \<and>
    chacha20_poly1305_decrypt bigint_ref LittleEndian (replicate 32 1) (replicate 12 2) [7] c t = Some (Inr [104, 105])"
  using chacha20_poly1305_correct [OF bigint_ref_spec, of "replicate 32 1" "replicate 12 2" "[7]" "[104, 105]" LittleEndian]
  by (auto simp: usize_fits_def)

end
