(* ===== verification/Sha256.thy ===== *)
theory Sha256
  imports Arrays
begin

text \<open>
  \<open>examples/sha256/src/sha256.rs\<close>: the hash function SHA-256 over the arrays and sequences of the library. Indexing a table or a state is
  \<open>vec_get\<close> and \<open>vec_set\<close>, so that an index out of range would be \<open>None\<close>; \<open>h\<close> is the byte order of the host.

  The second half states the function of the standard (the padding of the message, the message schedule by its recurrence, and the compression on
  eight working variables) and shows that \<open>hash\<close> returns it for every message whose bit length fits in \<open>usize\<close>.
\<close>

section \<open>The constants\<close>

type_synonym sha_block = "8 secret array"
type_synonym round_constants_table = "32 secret array"
type_synonym hash_state = "32 secret array"

definition BLOCK_SIZE :: usize where
  "BLOCK_SIZE = 64"

definition LEN_SIZE :: usize where
  "LEN_SIZE = 8"

definition K_SIZE :: usize where
  "K_SIZE = 64"

definition HASH_SIZE :: usize where
  "HASH_SIZE = 256 div 8"

definition OP_TABLE :: "usize array" where
  "OP_TABLE = [2, 13, 22, 6, 11, 25, 7, 18, 3, 17, 19, 10]"

definition K_TABLE :: round_constants_table where
  "K_TABLE = map classify [
     0x428a2f98, 0x71374491, 0xb5c0fbcf, 0xe9b5dba5, 0x3956c25b,
     0x59f111f1, 0x923f82a4, 0xab1c5ed5, 0xd807aa98, 0x12835b01,
     0x243185be, 0x550c7dc3, 0x72be5d74, 0x80deb1fe, 0x9bdc06a7,
     0xc19bf174, 0xe49b69c1, 0xefbe4786, 0x0fc19dc6, 0x240ca1cc,
     0x2de92c6f, 0x4a7484aa, 0x5cb0a9dc, 0x76f988da, 0x983e5152,
     0xa831c66d, 0xb00327c8, 0xbf597fc7, 0xc6e00bf3, 0xd5a79147,
     0x06ca6351, 0x14292967, 0x27b70a85, 0x2e1b2138, 0x4d2c6dfc,
     0x53380d13, 0x650a7354, 0x766a0abb, 0x81c2c92e, 0x92722c85,
     0xa2bfe8a1, 0xa81a664b, 0xc24b8b70, 0xc76c51a3, 0xd192e819,
     0xd6990624, 0xf40e3585, 0x106aa070, 0x19a4c116, 0x1e376c08,
     0x2748774c, 0x34b0bcb5, 0x391c0cb3, 0x4ed8aa4a, 0x5b9cca4f,
     0x682e6ff3, 0x748f82ee, 0x78a5636f, 0x84c87814, 0x8cc70208,
     0x90befffa, 0xa4506ceb, 0xbef9a3f7, 0xc67178f2]"

definition HASH_INIT :: hash_state where
  "HASH_INIT = map classify [
     0x6a09e667, 0xbb67ae85, 0x3c6ef372, 0xa54ff53a, 0x510e527f, 0x9b05688c, 0x1f83d9ab, 0x5be0cd19]"

section \<open>The compression function\<close>

definition ch :: "32 secret \<Rightarrow> 32 secret \<Rightarrow> 32 secret \<Rightarrow> 32 secret" where
  "ch x y z = secret_xor (secret_and x y) (secret_and (secret_not x) z)"

definition maj :: "32 secret \<Rightarrow> 32 secret \<Rightarrow> 32 secret \<Rightarrow> 32 secret" where
  "maj x y z = secret_xor (secret_and x y) (secret_xor (secret_and x z) (secret_and y z))"

definition sigma :: "32 secret \<Rightarrow> usize \<Rightarrow> usize \<Rightarrow> 32 secret option" where
  "sigma x i op = do {
     n \<leftarrow> vec_get OP_TABLE (3 * i + 2);
     let tmp = secret_rotate_right x n;
     tmp \<leftarrow> (if op = 0 then do { n \<leftarrow> vec_get OP_TABLE (3 * i + 2); Some (secret_shr x n) } else Some tmp);
     n0 \<leftarrow> vec_get OP_TABLE (3 * i);
     n1 \<leftarrow> vec_get OP_TABLE (3 * i + 1);
     Some (secret_xor (secret_xor (secret_rotate_right x n0) (secret_rotate_right x n1)) tmp)
   }"

definition schedule_step :: "32 secret seq \<Rightarrow> usize \<Rightarrow> round_constants_table \<Rightarrow> round_constants_table option" where
  "schedule_step b i s =
     (if i < 16 then do { x \<leftarrow> vec_get b i; vec_set s i x }
      else do {
        i16 \<leftarrow> usize_sub i 16;
        t16 \<leftarrow> vec_get s i16;
        i15 \<leftarrow> usize_sub i 15;
        t15 \<leftarrow> vec_get s i15;
        i7 \<leftarrow> usize_sub i 7;
        t7 \<leftarrow> vec_get s i7;
        i2 \<leftarrow> usize_sub i 2;
        t2 \<leftarrow> vec_get s i2;
        s1 \<leftarrow> sigma t2 3 0;
        s0 \<leftarrow> sigma t15 2 0;
        vec_set s i (secret_add (secret_add (secret_add s1 t7) s0) t16)
      })"

definition schedule :: "host \<Rightarrow> sha_block \<Rightarrow> round_constants_table option" where
  "schedule hst block = do {
     b \<leftarrow> array_to_be_words BLOCK_SIZE hst block;
     for_range 0 K_SIZE (schedule_step b) (array_new K_SIZE)
   }"

definition shuffle_step :: "round_constants_table \<Rightarrow> usize \<Rightarrow> hash_state \<Rightarrow> hash_state option" where
  "shuffle_step ws i h = do {
     a0 \<leftarrow> vec_get h 0;
     b0 \<leftarrow> vec_get h 1;
     c0 \<leftarrow> vec_get h 2;
     d0 \<leftarrow> vec_get h 3;
     e0 \<leftarrow> vec_get h 4;
     f0 \<leftarrow> vec_get h 5;
     g0 \<leftarrow> vec_get h 6;
     h0 \<leftarrow> vec_get h 7;
     se \<leftarrow> sigma e0 1 1;
     k \<leftarrow> vec_get K_TABLE i;
     w \<leftarrow> vec_get ws i;
     let t1 = secret_add (secret_add (secret_add (secret_add h0 se) (ch e0 f0 g0)) k) w;
     sa \<leftarrow> sigma a0 0 1;
     let t2 = secret_add sa (maj a0 b0 c0);
     h \<leftarrow> vec_set h 0 (secret_add t1 t2);
     h \<leftarrow> vec_set h 1 a0;
     h \<leftarrow> vec_set h 2 b0;
     h \<leftarrow> vec_set h 3 c0;
     h \<leftarrow> vec_set h 4 (secret_add d0 t1);
     h \<leftarrow> vec_set h 5 e0;
     h \<leftarrow> vec_set h 6 f0;
     vec_set h 7 g0
   }"

definition shuffle :: "round_constants_table \<Rightarrow> hash_state \<Rightarrow> hash_state option" where
  "shuffle ws hashi = for_range 0 K_SIZE (shuffle_step ws) hashi"

definition compress :: "host \<Rightarrow> sha_block \<Rightarrow> hash_state \<Rightarrow> hash_state option" where
  "compress hst block h_in = do {
     s \<leftarrow> schedule hst block;
     h \<leftarrow> shuffle s h_in;
     for_range 0 8 (\<lambda>i h. do { x \<leftarrow> vec_get h i; y \<leftarrow> vec_get h_in i; vec_set h i (secret_add x y) }) h
   }"

section \<open>The hash function\<close>

definition hash_blocks :: "host \<Rightarrow> 8 secret seq \<Rightarrow> (hash_state \<times> sha_block \<times> usize) option" where
  "hash_blocks hst msg = do {
     n \<leftarrow> seq_num_chunks msg BLOCK_SIZE;
     for_range 0 n (\<lambda>i (h, last_block, last_block_len). do {
       (block_len, block) \<leftarrow> seq_get_chunk msg BLOCK_SIZE i;
       if block_len < BLOCK_SIZE then do {
         last_block \<leftarrow> array_update_start BLOCK_SIZE (array_new BLOCK_SIZE) block;
         Some (h, last_block, block_len)
       } else do {
         compress_input \<leftarrow> array_from_seq BLOCK_SIZE block;
         h \<leftarrow> compress hst compress_input h;
         Some (h, last_block, last_block_len)
       }
     }) (HASH_INIT, array_new BLOCK_SIZE, 0)
   }"

definition hash :: "host \<Rightarrow> 8 secret seq \<Rightarrow> 8 secret array option" where
  "hash hst msg = do {
     (h, last_block, last_block_len) \<leftarrow> hash_blocks hst msg;
     last_block \<leftarrow> vec_set last_block last_block_len (classify 0x80);
     bits \<leftarrow> usize_mul (seq_len msg) 8;
     let len_bist = classify (word_of_nat bits :: 64 word);
     len_bytes \<leftarrow> word_to_be_bytes hst len_bist;
     h \<leftarrow> (if last_block_len < BLOCK_SIZE - LEN_SIZE then do {
         last_block \<leftarrow> array_update BLOCK_SIZE last_block (BLOCK_SIZE - LEN_SIZE) len_bytes;
         compress hst last_block h
       } else do {
         let pad_block = array_new BLOCK_SIZE;
         pad_block \<leftarrow> array_update BLOCK_SIZE pad_block (BLOCK_SIZE - LEN_SIZE) len_bytes;
         h \<leftarrow> compress hst last_block h;
         compress hst pad_block h
       });
     bs \<leftarrow> array_to_be_bytes 8 hst h;
     array_from_seq HASH_SIZE bs
   }"

definition sha256 :: "host \<Rightarrow> 8 secret seq \<Rightarrow> 8 secret array option" where
  "sha256 hst msg = hash hst msg"

section \<open>The function of the standard\<close>

definition Sigma0 :: "u32 \<Rightarrow> u32" where
  "Sigma0 x = word_rotr 2 x XOR word_rotr 13 x XOR word_rotr 22 x"

definition Sigma1 :: "u32 \<Rightarrow> u32" where
  "Sigma1 x = word_rotr 6 x XOR word_rotr 11 x XOR word_rotr 25 x"

definition sigma0 :: "u32 \<Rightarrow> u32" where
  "sigma0 x = word_rotr 7 x XOR word_rotr 18 x XOR drop_bit 3 x"

definition sigma1 :: "u32 \<Rightarrow> u32" where
  "sigma1 x = word_rotr 17 x XOR word_rotr 19 x XOR drop_bit 10 x"

text \<open>The message schedule by its recurrence, on the sixteen words of a block.\<close>

fun sched :: "u32 list \<Rightarrow> nat \<Rightarrow> u32" where
  "sched b t = (if t < 16 then b ! t
     else sigma1 (sched b (t - 2)) + sched b (t - 7) + sigma0 (sched b (t - 15)) + sched b (t - 16))"

declare sched.simps [simp del]

definition spec_round :: "u32 \<Rightarrow> u32 \<Rightarrow> u32 list \<Rightarrow> u32 list" where
  "spec_round k w hs = (case hs of
     [a, b, c, d, e, f, g, h] \<Rightarrow>
       (let t1 = h + Sigma1 e + ((e AND f) XOR (NOT e AND g)) + k + w;
            t2 = Sigma0 a + ((a AND b) XOR (a AND c) XOR (b AND c))
        in [t1 + t2, a, b, c, d + t1, e, f, g])
   | _ \<Rightarrow> hs)"

definition block_words :: "u8 list \<Rightarrow> u32 list" where
  "block_words block = map (le_join \<circ> rev) (chunks 4 block)"

definition spec_compress :: "u8 list \<Rightarrow> u32 list \<Rightarrow> u32 list" where
  "spec_compress block hs = map2 (+) (fold (\<lambda>t. spec_round (K_TABLE ! t) (sched (block_words block) t)) [0..<64] hs) hs"

definition sha256_pad :: "u8 list \<Rightarrow> u8 list" where
  "sha256_pad m = m @ [0x80] @ replicate ((119 - length m mod 64) mod 64) 0 @ rev (le_split (word_of_nat (length m * 8) :: u64))"

definition sha256_spec :: "u8 list \<Rightarrow> u8 list" where
  "sha256_spec m = concat (map (rev \<circ> le_split) (fold spec_compress (chunks 64 (sha256_pad m)) HASH_INIT))"

section \<open>The compression function is the one of the standard\<close>

lemma length_constants [simp]: "length OP_TABLE = 12" "length K_TABLE = 64" "length HASH_INIT = 8"
  by (simp_all add: OP_TABLE_def K_TABLE_def HASH_INIT_def)

lemma sizes [simp]: "BLOCK_SIZE = 64" "LEN_SIZE = 8" "K_SIZE = 64" "HASH_SIZE = 32"
  by (simp_all add: BLOCK_SIZE_def LEN_SIZE_def K_SIZE_def HASH_SIZE_def)

lemma sigma_eq:
  "sigma x 0 (Suc 0) = Some (Sigma0 x)" "sigma x (Suc 0) (Suc 0) = Some (Sigma1 x)" "sigma x 2 0 = Some (sigma0 x)" "sigma x 3 0 = Some (sigma1 x)"
  by (simp_all add: sigma_def OP_TABLE_def secret_defs shift_amount_def xor.assoc
      Sigma0_def Sigma1_def sigma0_def sigma1_def vec_get_def)

lemma schedule_step_eq:
  assumes "length b = 16" "i < 64" "length s = 64" "\<forall>j < i. s ! j = sched b j"
  shows "schedule_step b i s = Some (s[i := sched b i])"
  using assms by (simp add: schedule_step_def sigma_eq sched.simps [of b i] secret_add_def)

lemma schedule_eq:
  assumes "length block = 64"
  shows "schedule h block = Some (map (sched (block_words block)) [0..<64])"
proof -
  let ?b = "block_words block"
  have b: "array_to_be_words 64 h block = Some ?b"
    using array_to_words_eq(2) [where 'a = 32, of block 16 h] assms by (simp add: block_words_def)
  have len: "length ?b = 16" using length_chunks [of 4 block] assms by (simp add: block_words_def)
  have "\<exists>s. for_range 0 64 (schedule_step ?b) (array_new 64) = Some s \<and> length s = 64 \<and> (\<forall>j < 64. s ! j = sched ?b j)"
    by (rule for_range_rule [where P = "\<lambda>i s. length s = 64 \<and> (\<forall>j < i. s ! j = sched ?b j)"])
      (auto simp: schedule_step_eq [OF len] less_Suc_eq)
  then obtain s where "for_range 0 64 (schedule_step ?b) (array_new 64) = Some s" "length s = 64" "\<forall>j < 64. s ! j = sched ?b j"
    by blast
  then show ?thesis using b by (auto simp: schedule_def intro!: nth_equalityI)
qed

lemma length_8_cases:
  assumes "length xs = 8"
  obtains a b c d e f g h where "xs = [a, b, c, d, e, f, g, h]"
  using assms by (auto simp: numeral_eq_Suc length_Suc_conv)

lemma length_spec_round [simp]: "length (spec_round k w hs) = length hs"
  by (simp add: spec_round_def Let_def split: list.split)

lemma shuffle_step_eq:
  assumes "length hs = 8" "i < 64" "length ws = 64"
  shows "shuffle_step ws i hs = Some (spec_round (K_TABLE ! i) (ws ! i) hs)"
proof -
  obtain a b c d e f g h where hs: "hs = [a, b, c, d, e, f, g, h]" using length_8_cases [OF assms(1)] .
  show ?thesis unfolding hs
    using assms(2,3) by (simp add: shuffle_step_def spec_round_def sigma_eq secret_defs ch_def maj_def Let_def)
qed

lemma shuffle_eq:
  assumes "length hs = 8" "length ws = 64"
  shows "shuffle ws hs = Some (fold (\<lambda>t. spec_round (K_TABLE ! t) (ws ! t)) [0..<64] hs)"
proof -
  let ?f = "\<lambda>t. spec_round (K_TABLE ! t) (ws ! t)"
  have "\<exists>s. for_range 0 64 (shuffle_step ws) hs = Some s \<and> (length s = 8 \<and> s = fold ?f [0..<64] hs)"
    by (rule for_range_rule [where P = "\<lambda>i s. length s = 8 \<and> s = fold ?f [0..<i] hs"])
      (use assms in \<open>auto simp: shuffle_step_eq\<close>)
  then show ?thesis by (simp add: shuffle_def)
qed

lemma length_fold_round [simp]: "length (fold (\<lambda>t. spec_round (f t) (g t)) ts hs) = length hs"
  by (induction ts arbitrary: hs) simp_all

lemma length_spec_compress [simp]: "length (spec_compress block hs) = length hs"
  by (simp add: spec_compress_def)

text \<open>The loop that adds a vector in place.\<close>

lemma add_loop:
  assumes "length xs = n" "length ys = n"
  shows "for_range 0 n (\<lambda>i h. do { x \<leftarrow> vec_get h i; y \<leftarrow> vec_get ys i; vec_set h i (f x y) }) xs = Some (map2 f xs ys)"
proof -
  have "\<exists>s. for_range 0 n (\<lambda>i h. do { x \<leftarrow> vec_get h i; y \<leftarrow> vec_get ys i; vec_set h i (f x y) }) xs = Some s
      \<and> (length s = n \<and> (\<forall>j < n. s ! j = (if j < n then f (xs ! j) (ys ! j) else xs ! j)))"
    by (rule for_range_rule [where P = "\<lambda>i s. length s = n \<and> (\<forall>j < n. s ! j = (if j < i then f (xs ! j) (ys ! j) else xs ! j))"])
      (use assms in \<open>auto simp: nth_list_update less_Suc_eq\<close>)
  then show ?thesis using assms by (auto intro!: nth_equalityI)
qed

lemma compress_eq:
  assumes "length block = 64" "length hs = 8"
  shows "compress h block hs = Some (spec_compress block hs)"
proof -
  let ?ws = "map (sched (block_words block)) [0..<64]"
  have "fold (\<lambda>t. spec_round (K_TABLE ! t) (?ws ! t)) [0..<64] hs
      = fold (\<lambda>t. spec_round (K_TABLE ! t) (sched (block_words block) t)) [0..<64] hs"
    by (rule fold_cong) simp_all
  then show ?thesis
    using assms add_loop [of _ 8 hs "secret_add :: 32 secret \<Rightarrow> _"]
    by (simp add: compress_def schedule_eq shuffle_eq spec_compress_def secret_add_def)
qed

section \<open>The hash function is the one of the standard\<close>

definition whole_blocks :: "u8 list \<Rightarrow> u8 list list" where
  "whole_blocks m = chunks 64 (take (64 * (length m div 64)) m)"

definition msg_rest :: "u8 list \<Rightarrow> u8 list" where
  "msg_rest m = drop (64 * (length m div 64)) m"

lemma length_rest: "length (msg_rest m) = length m mod 64"
  by (simp add: msg_rest_def minus_mult_div_eq_mod)

lemma whole_blocks_append: "chunks 64 (m @ ys) = whole_blocks m @ chunks 64 (msg_rest m @ ys)"
proof -
  have "m @ ys = take (64 * (length m div 64)) m @ (msg_rest m @ ys)" by (simp add: msg_rest_def append.assoc [symmetric] del: append.assoc append_assoc)
  moreover have "length (take (64 * (length m div 64)) m) = 64 * (length m div 64)"
    using times_div_less_eq_dividend [of 64 "length m"] by simp
  ultimately show ?thesis
    using chunks_append_multiple [of 64 "take (64 * (length m div 64)) m" "length m div 64" "msg_rest m @ ys"]
    unfolding whole_blocks_def by (metis zero_less_numeral)
qed

lemma whole_block_length: "b \<in> set (whole_blocks m) \<Longrightarrow> length b = 64"
  using length_chunk [of 64 "take (64 * (length m div 64)) m" b] times_div_less_eq_dividend [of 64 "length m"]
  by (simp add: whole_blocks_def)

lemma length_fold_compress [simp]: "length (fold spec_compress bs hs) = length hs"
  by (induction bs arbitrary: hs) simp_all

definition hash_step :: "host \<Rightarrow> 8 secret seq \<Rightarrow> hash_state \<times> sha_block \<times> usize \<Rightarrow> (hash_state \<times> sha_block \<times> usize) option" where
  "hash_step hst = (\<lambda>block (h, last_block, last_block_len).
     if length block < 64 then do {
       last_block \<leftarrow> array_update_start 64 (array_new 64) block;
       Some (h, last_block, length block)
     } else do {
       compress_input \<leftarrow> array_from_seq 64 block;
       h \<leftarrow> compress hst compress_input h;
       Some (h, last_block, last_block_len)
     })"

lemma hash_step_whole:
  "length hs = 8 \<Longrightarrow> \<forall>b \<in> set bs. length b = 64 \<Longrightarrow>
    foldM (hash_step hst) bs (hs, lb, ll) = Some (fold spec_compress bs hs, lb, ll)"
  by (induction bs arbitrary: hs) (simp_all add: hash_step_def array_from_seq_eq compress_eq)

lemma fits_64: "n \<le> 64 \<Longrightarrow> usize_fits n"
  by (simp add: usize_fits_def)

lemma hash_step_rest:
  "length b < 64 \<Longrightarrow> hash_step hst b (hs, lb, ll) = Some (hs, b @ replicate (64 - length b) 0, length b)"
  by (simp add: hash_step_def array_update_start_def array_update_slice_seq array_ok_def fits_64 seq_update_slice_eq
      array_new_def default_word_def)

lemma hash_blocks_eq:
  assumes "usize_fits (length m + 64)"
  shows "hash_blocks hst m = Some (fold spec_compress (whole_blocks m) HASH_INIT, msg_rest m @ replicate (64 - length m mod 64) 0, length m mod 64)"
proof -
  let ?cs = "chunks 64 m"
  have "hash_blocks hst m = for_range 0 (length ?cs) (\<lambda>i s. do { b \<leftarrow> vec_get ?cs i; hash_step hst b s })
      (HASH_INIT, array_new 64, 0)"
  proof -
    have "seq_get_chunk m 64 i = Some (length (?cs ! i), ?cs ! i)" if "i < length ?cs" for i
      using seq_get_chunk_eq [OF assms, of i] nth_chunks_bound [OF that] that by (simp add: nth_chunks less_imp_le)
    then show ?thesis
      unfolding hash_blocks_def
      by (simp add: seq_num_chunks_eq [OF _ assms]) (rule for_range_cong, auto simp: hash_step_def split: prod.split)
  qed
  then have eq: "hash_blocks hst m = foldM (hash_step hst) ?cs (HASH_INIT, array_new 64, 0)" by (simp add: for_range_elements)
  have zeros: "array_new 64 = replicate 64 (0 :: u8)" by (simp add: array_new_def default_word_def)
  have cs: "?cs = whole_blocks m @ chunks 64 (msg_rest m)" using whole_blocks_append [of m "[]"] by simp
  have whole: "foldM (hash_step hst) (whole_blocks m) (HASH_INIT, array_new 64, 0)
      = Some (fold spec_compress (whole_blocks m) HASH_INIT, array_new 64, 0)"
    by (rule hash_step_whole) (simp_all add: whole_block_length)
  show ?thesis
  proof (cases "msg_rest m = []")
    case True
    then show ?thesis
      using length_rest [of m] whole by (simp add: eq cs zeros)
  next
    case False
    have lt: "length (msg_rest m) < 64" by (simp add: length_rest)
    with False have "chunks 64 (msg_rest m) = [msg_rest m]" by (subst chunks.simps) simp
    then show ?thesis
      using hash_step_rest [OF lt] length_rest [of m] by (simp add: eq cs foldM_append whole)
  qed
qed

lemma padded_blocks:
  "chunks 64 (sha256_pad m) = whole_blocks m @ (let len = rev (le_split (word_of_nat (length m * 8) :: u64)) in
     if length m mod 64 < 56 then [msg_rest m @ [0x80] @ replicate (55 - length m mod 64) 0 @ len]
     else [msg_rest m @ [0x80] @ replicate (63 - length m mod 64) 0, replicate 56 0 @ len])"
proof -
  let ?r = "length m mod 64" and ?len = "rev (le_split (word_of_nat (length m * 8) :: u64))"
  have one: "chunks 64 xs = [xs]" if "length xs = 64" for xs :: "u8 list"
    using chunks_append [of xs 64 "[]"] that by simp
  have two: "chunks 64 (xs @ ys) = [xs, ys]" if "length xs = 64" "length ys = 64" for xs ys :: "u8 list"
    using chunks_append [of xs 64 ys] that one by simp
  let ?tail = "msg_rest m @ [0x80] @ replicate ((119 - ?r) mod 64) 0 @ ?len"
  have "chunks 64 ?tail = (if ?r < 56 then [msg_rest m @ [0x80] @ replicate (55 - ?r) 0 @ ?len]
     else [msg_rest m @ [0x80] @ replicate (63 - ?r) 0, replicate 56 0 @ ?len])"
  proof (cases "?r < 56")
    case True
    have "(119 - ?r) mod 64 = 55 - ?r"
    proof -
      have "119 - ?r = (55 - ?r) + 64" using True by simp
      then show ?thesis by (simp only: mod_add_self2) simp
    qed
    then show ?thesis using True by (simp add: one length_rest)
  next
    case False
    have r: "?r < 64" by simp
    have "(119 - ?r) mod 64 = 119 - ?r" using False by (intro mod_less) simp
    also have "\<dots> = (63 - ?r) + 56" using False r by linarith
    finally have "replicate ((119 - ?r) mod 64) (0::u8) = replicate (63 - ?r) 0 @ replicate 56 0" by (simp only: replicate_add)
    then have "?tail = (msg_rest m @ [0x80] @ replicate (63 - ?r) 0) @ (replicate 56 0 @ ?len)" by simp
    moreover have "length (msg_rest m @ [0x80] @ replicate (63 - ?r) 0) = 64" using r by (simp add: length_rest)
    moreover have "length (replicate 56 0 @ ?len) = 64" by simp
    ultimately have "chunks 64 ?tail = [msg_rest m @ [0x80] @ replicate (63 - ?r) 0, replicate 56 0 @ ?len]" by (simp only: two)
    then show ?thesis using False by (simp only: if_False)
  qed
  then show ?thesis
    using whole_blocks_append [of m "[0x80] @ replicate ((119 - ?r) mod 64) 0 @ ?len"]
    by (simp add: sha256_pad_def Let_def)
qed

lemma hash_eq:
  assumes "usize_fits (length m + 64)" "usize_fits (length m * 8)"
  shows "hash hst m = Some (sha256_spec m)"
proof -
  let ?r = "length m mod 64" and ?len = "rev (le_split (word_of_nat (length m * 8) :: u64))"
  let ?H = "fold spec_compress (whole_blocks m) HASH_INIT"
  have r: "?r < 64" by simp
  have len: "word_to_be_bytes hst (word_of_nat (length m * 8) :: 64 secret) = Some ?len"
    by (simp add: word_to_be_bytes_def array_from_vec_eq secret_to_be_bytes_eq)
  let ?lb = "msg_rest m @ replicate (64 - ?r) 0"
  have set80: "vec_set ?lb ?r 0x80 = Some (msg_rest m @ [0x80] @ replicate (63 - ?r) 0)"
  proof -
    have "64 - ?r = Suc (63 - ?r)" using r by linarith
    then have "replicate (64 - ?r) (0::u8) = 0 # replicate (63 - ?r) 0" by (simp only: replicate_Suc)
    then show ?thesis using r by (simp add: list_update_append length_rest)
  qed
  have upd: "array_update 64 b 56 ?len = Some (take 56 b @ ?len)" if "length b = 64" for b
    using that by (simp add: array_update_def array_update_slice_seq array_ok_def fits_64 seq_update_slice_eq)
  have out: "array_to_be_bytes 8 hst hs = Some (concat (map (rev \<circ> le_split) hs))" if "length hs = 8" for hs :: "32 secret list"
    using array_to_bytes_eq(2) [of hs 8 hst] that by (simp add: secret_to_be_bytes_eq fits_64)
  have out_len: "length (concat (map (rev \<circ> le_split) hs)) = 32" if "length hs = 8" for hs :: "32 secret list"
    using that by (simp add: length_concat comp_def sum_list_triv)
  have start: "hash_blocks hst m = Some (?H, ?lb, ?r)" by (rule hash_blocks_eq [OF assms(1)])
  let ?b = "msg_rest m @ [0x80] @ replicate (63 - ?r) 0"
  have lb: "length ?b = 64" using r by (simp add: length_rest)
  have "fold spec_compress (chunks 64 (sha256_pad m)) HASH_INIT = (if ?r < 56 then spec_compress (take 56 ?b @ ?len) ?H
      else spec_compress (replicate 56 0 @ ?len) (spec_compress ?b ?H))"
  proof -
    have "take 56 ?b = msg_rest m @ [0x80] @ replicate (55 - ?r) 0" if "?r < 56"
    proof -
      have "56 - ?r = Suc (55 - ?r)" using that by linarith
      then show ?thesis using that by (simp add: length_rest)
    qed
    then show ?thesis by (simp add: padded_blocks Let_def del: of_nat_mult)
  qed
  moreover have "hash hst m = do {
      h \<leftarrow> (if ?r < 56 then compress hst (take 56 ?b @ ?len) ?H
        else do { h \<leftarrow> compress hst ?b ?H; compress hst (replicate 56 0 @ ?len) h });
      bs \<leftarrow> array_to_be_bytes 8 hst h;
      array_from_seq 32 bs }"
    unfolding hash_def start Option.bind.bind_lunit prod.case set80 classify_def
    using assms(2) upd [OF lb] upd [of "array_new 64"]
    by (simp add: len seq_len_def array_new_def default_word_def del: of_nat_mult append.simps append_Cons append_Nil)
  ultimately show ?thesis
    using lb by (simp add: compress_eq out out_len array_from_seq_eq sha256_spec_def)
qed

lemma length_sha256_spec [simp]: "length (sha256_spec m) = 32"
  by (simp add: sha256_spec_def length_concat comp_def sum_list_triv)

section \<open>Properties\<close>

text \<open>
  C6: SHA-256. For every message (whose length is below the largest \<open>usize\<close> by a block, as every Rust vector's is), \<open>hash\<close> panics exactly when the length in bits does not fit in \<open>usize\<close>;
  otherwise it returns the function of the standard: the message is padded with one bit, zeros and its length in eight bytes, every block of the padded message is compressed with the
  schedule of the recurrence and sixty-four rounds on eight working variables, and the digest is the 32 bytes of the last state, on hosts of either byte order.
\<close>

theorem hash_correct:
  assumes "usize_fits (length m + 64)"
  shows "sha256 hst m = (if usize_fits (length m * 8) then Some (sha256_spec m) else None) \<and> length (sha256_spec m) = 32"
proof
  show "sha256 hst m = (if usize_fits (length m * 8) then Some (sha256_spec m) else None)"
  proof (cases "usize_fits (length m * 8)")
    case True
    then show ?thesis by (simp add: sha256_def hash_eq [OF assms])
  next
    case False
    have "length m mod 64 < length (msg_rest m @ replicate (64 - length m mod 64) 0)" by (simp add: length_rest)
    with False show ?thesis by (simp add: sha256_def hash_def hash_blocks_eq [OF assms] seq_len_def usize_mul_def)
  qed
qed simp

theorem hash_correct_witness:
  "sha256 BigEndian [97, 98, 99] = Some (sha256_spec [97, 98, 99])"
  using hash_correct [of "[97, 98, 99]" BigEndian] by (simp add: usize_fits_def)

end
