(* ===== verification/Hmac.thy ===== *)
theory Hmac
  imports Sha256
begin

text \<open>
  \<open>examples/hmac/src/hmac.rs\<close>: the message authentication code HMAC over SHA-256.

  The interface is a locale: \<open>byte_function\<close> is a function on byte sequences that returns, on every input whose length is small enough, what a total
  specification says. SHA-256 provides it, HMAC uses it for the hash and provides it again with a key, and the key derivation of \<open>Hkdf\<close> uses that.
\<close>

section \<open>The interface of the hash function and of the authentication code\<close>

text \<open>\<open>slack\<close> is the number of bytes that the function adds to its input.\<close>

locale byte_function =
  fixes f :: "8 secret seq \<Rightarrow> 8 secret array option" and spec :: "u8 list \<Rightarrow> u8 list" and slack :: nat and out_len :: nat
  assumes computes: "usize_fits ((length m + slack) * 8) \<Longrightarrow> f m = Some (spec m)"
    and output_length: "length (spec m) = out_len"
begin

text \<open>The result of a call is prefixed and hashed again.\<close>

lemma nested_calls:
  assumes "usize_fits ((length a + length t + slack) * 8)" "usize_fits ((length b + out_len + slack) * 8)"
  shows "do { x \<leftarrow> seq_concat a t; i \<leftarrow> f x; y \<leftarrow> seq_concat b i; f y } = Some (spec (b @ spec (a @ t)))"
proof -
  have "usize_fits (length a + length t)" "usize_fits (length b + length (spec (a @ t)))"
    using assms by (auto simp: output_length intro: usize_fits_mono)
  then show ?thesis using assms by (simp add: seq_concat_eq computes output_length)
qed

end

interpretation sha: byte_function "hash h" sha256_spec 64 32 for h
proof
  fix m :: "8 secret seq" assume "usize_fits ((length m + 64) * 8)"
  then have "usize_fits (length m + 64)" "usize_fits (length m * 8)" by (auto intro: usize_fits_mono)
  then show "hash h m = Some (sha256_spec m)" by (rule hash_eq)
qed simp

section \<open>HMAC\<close>

definition BLOCK_LEN :: usize where
  "BLOCK_LEN = K_SIZE"

definition I_PAD :: "8 secret array" where
  "I_PAD = replicate BLOCK_LEN (classify 0x36)"

definition O_PAD :: "8 secret array" where
  "O_PAD = replicate BLOCK_LEN (classify 0x5c)"

definition k_block :: "host \<Rightarrow> 8 secret seq \<Rightarrow> 8 secret array option" where
  "k_block h k =
     (if seq_len k > BLOCK_LEN
      then do { d \<leftarrow> hash h k; array_update_start BLOCK_LEN (array_new BLOCK_LEN) d }
      else array_update_start BLOCK_LEN (array_new BLOCK_LEN) k)"

definition hmac :: "host \<Rightarrow> 8 secret seq \<Rightarrow> 8 secret seq \<Rightarrow> 8 secret array option" where
  "hmac h k txt = do {
     k_block \<leftarrow> k_block h k;
     x \<leftarrow> array_bitxor BLOCK_LEN k_block I_PAD;
     h_in \<leftarrow> seq_from_seq x;
     h_in \<leftarrow> seq_concat h_in txt;
     h_inner \<leftarrow> hash h h_in;
     x \<leftarrow> array_bitxor BLOCK_LEN k_block O_PAD;
     h_in \<leftarrow> seq_from_seq x;
     h_in \<leftarrow> seq_concat h_in h_inner;
     d \<leftarrow> hash h h_in;
     array_from_seq HASH_SIZE d
   }"

text \<open>The function of RFC 2104: \<open>H(K XOR opad, H(K XOR ipad, text))\<close>.\<close>

definition hmac_key :: "u8 list \<Rightarrow> u8 list" where
  "hmac_key k = (let k' = (if length k > 64 then sha256_spec k else k) in k' @ replicate (64 - length k') 0)"

definition hmac_spec :: "u8 list \<Rightarrow> u8 list \<Rightarrow> u8 list" where
  "hmac_spec k txt =
     sha256_spec (map (\<lambda>x. x XOR 0x5c) (hmac_key k) @ sha256_spec (map (\<lambda>x. x XOR 0x36) (hmac_key k) @ txt))"

lemma length_hmac_key [simp]: "length (hmac_key k) = 64"
  by (simp add: hmac_key_def Let_def)

lemma length_hmac_spec [simp]: "length (hmac_spec k txt) = 32"
  by (simp add: hmac_spec_def)

lemma BLOCK_LEN_eq [simp]: "BLOCK_LEN = 64"
  by (simp add: BLOCK_LEN_def)

lemma k_block_eq:
  assumes "usize_fits ((length k + 64) * 8)"
  shows "k_block h k = Some (hmac_key k)"
proof -
  have start: "array_update_start 64 (array_new 64) v = Some (v @ replicate (64 - length v) 0)" if "length v \<le> 64" for v :: "u8 list"
    using that by (simp add: array_update_start_def array_update_slice_seq array_ok_def fits_64 seq_update_slice_eq
        array_new_def default_word_def)
  then show ?thesis
    using sha.computes [OF assms] by (simp add: k_block_def hmac_key_def Let_def seq_len_def)
qed

lemma xor_pad: "length ks = 64 \<Longrightarrow> array_bitxor 64 ks (replicate 64 p) = Some (map (\<lambda>x. x XOR p) ks)"
  by (simp add: array_bitxor_def array_zip_loop_eq secret_xor_def) (simp add: list_eq_iff_nth_eq)

lemma fits_1280: "usize_fits 1280"
  by (simp add: usize_fits_def)

lemma hmac_eq:
  assumes "usize_fits ((length k + 64) * 8)" "usize_fits ((length txt + 128) * 8)"
  shows "hmac h k txt = Some (hmac_spec k txt)"
proof -
  let ?i = "map (\<lambda>x. x XOR 0x36) (hmac_key k)" and ?o = "map (\<lambda>x. x XOR 0x5c) (hmac_key k)"
  have "hmac h k txt = do { x \<leftarrow> seq_concat ?i txt; i \<leftarrow> hash h x; y \<leftarrow> seq_concat ?o i; hash h y } \<bind> array_from_seq 32"
    using xor_pad [of "hmac_key k"]
    by (simp add: hmac_def k_block_eq [OF assms(1)] I_PAD_def O_PAD_def classify_def seq_from_seq_eq)
  also have "\<dots> = Some (hmac_spec k txt)"
    using sha.nested_calls [where a = ?i and t = "txt" and b = ?o and h = h] assms(2)
    by (simp add: array_from_seq_eq hmac_spec_def add.commute fits_1280)
  finally show ?thesis .
qed

text \<open>HMAC with a key is again a function of the interface.\<close>

lemma hmac_byte_function:
  "usize_fits ((length k + 64) * 8) \<Longrightarrow> byte_function (hmac h k) (hmac_spec k) 128 32"
  by unfold_locales (simp_all add: hmac_eq)

section \<open>Properties\<close>

text \<open>
  HMAC. For a key and a text whose lengths in bits, with the blocks that HMAC adds, fit in \<open>usize\<close>, \<open>hmac\<close> does not panic and returns the function of RFC 2104 over SHA-256:
  a key longer than a block is hashed first, a shorter one is filled with zeros.
\<close>

theorem hmac_correct:
  assumes "usize_fits ((length k + 64) * 8)" "usize_fits ((length txt + 128) * 8)"
  shows "hmac h k txt = Some (hmac_spec k txt) \<and> length (hmac_spec k txt) = 32"
  using hmac_eq [OF assms] by simp

theorem hmac_correct_witness:
  "hmac LittleEndian (replicate 70 1) [2] = Some (hmac_spec (replicate 70 1) [2])"
  using hmac_correct [of "replicate 70 1" "[2]" LittleEndian] by (simp add: usize_fits_def)

end
