(* ===== verification/Hkdf.thy ===== *)
theory Hkdf
  imports Hmac
begin

text \<open>
  \<open>examples/hkdf/src/hkdf.rs\<close>: the key derivation function HKDF over HMAC. A panic is \<open>None\<close>, and the \<open>Result\<close> of the code is a sum, with the error on the left.

  The lemmas of the loop are proved for any function of the interface \<open>byte_function\<close>, and used on HMAC with the pseudo-random key.
\<close>

datatype hkdf_error = InvalidOutputLength

definition HASH_LEN :: usize where
  "HASH_LEN = 256 div 8"

definition hkdf_extract :: "host \<Rightarrow> 8 secret seq \<Rightarrow> 8 secret seq \<Rightarrow> 8 secret array option" where
  "hkdf_extract h salt ikm = do {
     let salt_or_zero = seq_new HASH_LEN;
     salt_or_zero \<leftarrow> (if seq_len salt > 0 then seq_from_seq salt else Some salt_or_zero);
     prk \<leftarrow> hmac h salt_or_zero ikm;
     array_from_seq HASH_SIZE prk
   }"

definition build_hmac_txt :: "8 secret seq \<Rightarrow> 8 secret seq \<Rightarrow> 8 secret \<Rightarrow> 8 secret seq option" where
  "build_hmac_txt t info iteration = do {
     n \<leftarrow> usize_add (seq_len t) (seq_len info);
     n1 \<leftarrow> usize_add n 1;
     let out = seq_new n1;
     out \<leftarrow> seq_update out 0 t;
     out \<leftarrow> seq_update out (seq_len t) info;
     n \<leftarrow> usize_add (seq_len t) (seq_len info);
     vec_set out n iteration
   }"

definition div_ceil :: "usize \<Rightarrow> usize \<Rightarrow> usize option" where
  "div_ceil a b = do {
     q \<leftarrow> usize_div a b;
     if a mod b \<noteq> 0 then usize_add q 1 else Some q
   }"

definition check_output_limit :: "usize \<Rightarrow> (hkdf_error + usize) option" where
  "check_output_limit l = do {
     n \<leftarrow> div_ceil l HASH_LEN;
     if n \<le> 255 then Some (Inr n) else Some (Inl InvalidOutputLength)
   }"

text \<open>\<open>(i as u8) + 1u8\<close>: the conversion truncates and the addition panics on overflow.\<close>

definition iteration_byte :: "usize \<Rightarrow> u8 option" where
  "iteration_byte i = (let b = word_of_nat i :: u8 in if unat b + 1 < 2 ^ 8 then Some (b + 1) else None)"

definition expand_step :: "host \<Rightarrow> 8 secret seq \<Rightarrow> 8 secret seq \<Rightarrow> usize \<Rightarrow> 8 secret array \<times> 8 secret seq \<Rightarrow> (8 secret array \<times> 8 secret seq) option" where
  "expand_step h prk info i st = (case st of (t_i, t) \<Rightarrow> do {
     b \<leftarrow> iteration_byte i;
     hmac_txt_in \<leftarrow> (if i = 0 then build_hmac_txt (seq_new 0) info (classify b)
       else do { s \<leftarrow> seq_from_seq t_i; build_hmac_txt s info (classify b) });
     t_i \<leftarrow> hmac h prk hmac_txt_in;
     start \<leftarrow> usize_mul i (array_len HASH_SIZE t_i);
     t \<leftarrow> seq_update t start t_i;
     Some (t_i, t)
   })"

definition expand :: "host \<Rightarrow> 8 secret seq \<Rightarrow> 8 secret seq \<Rightarrow> usize \<Rightarrow> (hkdf_error + 8 secret seq) option" where
  "expand h prk info l = do {
     r \<leftarrow> check_output_limit l;
     case r of
       Inl e \<Rightarrow> Some (Inl e)
     | Inr n \<Rightarrow> do {
         size \<leftarrow> usize_mul n HASH_SIZE;
         (t_i, t) \<leftarrow> for_range 0 n (expand_step h prk info) (array_new HASH_SIZE, seq_new size);
         out \<leftarrow> seq_slice t 0 l;
         Some (Inr out)
       }
   }"

section \<open>The functions of RFC 5869\<close>

definition extract_spec :: "u8 list \<Rightarrow> u8 list \<Rightarrow> u8 list" where
  "extract_spec salt ikm = hmac_spec (if salt = [] then replicate 32 0 else salt) ikm"

text \<open>\<open>T(0)\<close> is empty and \<open>T(i + 1)\<close> is the code of \<open>T(i)\<close>, the info and the byte \<open>i + 1\<close>.\<close>

primrec T_block :: "(u8 list \<Rightarrow> u8 list) \<Rightarrow> u8 list \<Rightarrow> nat \<Rightarrow> u8 list" where
  "T_block mac info 0 = []"
| "T_block mac info (Suc i) = mac (T_block mac info i @ info @ [word_of_nat (Suc i)])"

definition expand_spec :: "u8 list \<Rightarrow> u8 list \<Rightarrow> nat \<Rightarrow> u8 list" where
  "expand_spec prk info l = take l (concat (map (\<lambda>i. T_block (hmac_spec prk) info (Suc i)) [0..<255]))"

lemma HASH_LEN_eq [simp]: "HASH_LEN = 32"
  by (simp add: HASH_LEN_def)

lemma div_ceil_eq: "0 < b \<Longrightarrow> usize_fits a \<Longrightarrow> div_ceil a b = Some ((a + b - 1) div b)"
proof -
  assume b: "0 < b" and a: "usize_fits a"
  have "usize_fits (a div b + 1)" if "a mod b \<noteq> 0"
  proof -
    have "a div b + 1 \<le> a"
    proof (cases "b = 1")
      case True
      with that show ?thesis by simp
    next
      case False
      have "0 < a" using that by (cases a) simp_all
      moreover have "1 < b" using b False by simp
      ultimately have "a div b < a" by (rule div_less_dividend [rotated])
      then show ?thesis by simp
    qed
    then show ?thesis using a usize_fits_mono by blast
  qed
  then show ?thesis using b by (simp add: div_ceil_def usize_div_def div_round_up [OF b, of a, simplified])
qed

lemma build_hmac_txt_eq:
  assumes "usize_fits (length t + length info + 1)"
  shows "build_hmac_txt t info b = Some (t @ info @ [b])"
proof -
  have fits: "usize_fits (length t + length info)" "usize_fits (length t)" "usize_fits (length info)" "usize_fits (Suc (length t + length info))"
    using assms by (auto intro: usize_fits_mono)
  let ?z = "seq_new (length t + length info + 1) :: u8 list"
  have "seq_update ?z 0 t = Some (t @ drop (length t) ?z)"
    using fits by (simp add: seq_update_def seq_update_slice_eq seq_len_def Let_def)
  moreover have "seq_update (t @ drop (length t) ?z) (length t) info = Some (t @ info @ drop (length t + length info) ?z)"
    using fits by (simp add: seq_update_def seq_update_slice_eq seq_len_def Let_def add.commute)
  moreover have "drop (length t + length info) ?z = [default]" by (simp add: seq_new_def del: replicate_Suc) simp
  ultimately show ?thesis
    using fits assms by (simp add: build_hmac_txt_def seq_len_def list_update_append)
qed

lemma iteration_byte_eq: "i < 255 \<Longrightarrow> iteration_byte i = Some (word_of_nat (Suc i))"
  by (simp add: iteration_byte_def Let_def unat_of_nat add.commute)

context byte_function
begin

lemma length_T_block: "length (T_block spec info (Suc i)) = out_len"
  by (simp add: output_length)

lemma length_T_blocks: "length (concat (map (\<lambda>i. T_block spec info (Suc i)) [0..<n])) = n * out_len"
  by (induction n) (simp_all add: output_length)

lemma T_call:
  assumes "usize_fits ((out_len + length info + 1 + slack) * 8)"
  shows "f (T_block spec info i @ info @ [word_of_nat (Suc i)]) = Some (T_block spec info (Suc i))"
proof -
  have "length (T_block spec info i) \<le> out_len" by (cases i) (simp_all add: output_length)
  then have "usize_fits ((length (T_block spec info i @ info @ [word_of_nat (Suc i)]) + slack) * 8)"
    using assms by (auto intro: usize_fits_mono)
  then show ?thesis by (simp add: computes)
qed

end

definition T_concat :: "u8 list \<Rightarrow> u8 list \<Rightarrow> nat \<Rightarrow> u8 list" where
  "T_concat prk info n = concat (map (\<lambda>i. T_block (hmac_spec prk) info (Suc i)) [0..<n])"

lemma expand_step_eq:
  assumes prk: "usize_fits ((length prk + 64) * 8)" and info: "usize_fits ((length info + 161) * 8)" and i: "i < n" "n \<le> 255"
    and t_i: "i \<noteq> 0 \<Longrightarrow> t_i = T_block (hmac_spec prk) info i" and t: "length t = n * 32"
  shows "expand_step h prk info i (t_i, t)
    = Some (T_block (hmac_spec prk) info (Suc i), take (i * 32) t @ T_block (hmac_spec prk) info (Suc i) @ drop (Suc i * 32) t)"
proof -
  let ?T = "T_block (hmac_spec prk) info"
  note fits = hmac_byte_function [OF prk, of h]
  have "length (?T i) \<le> 32" by (cases i) (simp_all add: hmac_spec_def)
  then have build: "build_hmac_txt (?T i) info (word_of_nat (Suc i)) = Some (?T i @ info @ [word_of_nat (Suc i)])"
    using info by (intro build_hmac_txt_eq) (auto intro: usize_fits_mono)
  have call: "hmac h prk (?T i @ info @ [word_of_nat (Suc i)]) = Some (?T (Suc i))"
    using byte_function.T_call [OF fits, of info i] info by (simp add: add.commute)
  have "(i + 1) * 32 \<le> n * 32" using i by (intro mult_le_mono1) simp
  moreover have "usize_fits (n * 32)" "usize_fits (i * 32)" using i by (simp_all add: usize_fits_def)
  ultimately have upd: "seq_update t (i * 32) (?T (Suc i)) = Some (take (i * 32) t @ ?T (Suc i) @ drop (Suc i * 32) t)"
    using t byte_function.length_T_block [OF fits, of info i]
    by (simp add: seq_update_def seq_update_slice_eq seq_len_def Let_def usize_fits_def add.commute)
  have bld: "(if i = 0 then build_hmac_txt (seq_new 0) info (classify (word_of_nat (Suc i)))
       else do { s \<leftarrow> seq_from_seq t_i; build_hmac_txt s info (classify (word_of_nat (Suc i))) }) = Some (?T i @ info @ [word_of_nat (Suc i)])"
    using build t_i by (cases "i = 0") (simp_all add: seq_from_seq_eq classify_def seq_new_def)
  show ?thesis
    using iteration_byte_eq [of i] i \<open>usize_fits (i * 32)\<close> unfolding expand_step_def prod.case
    by (simp only: Option.bind.bind_lunit bld call array_len_def sizes usize_mul_fits upd less_le_trans)
qed

lemma expand_loop:
  assumes prk: "usize_fits ((length prk + 64) * 8)" and info: "usize_fits ((length info + 161) * 8)" and n: "n \<le> 255"
  shows "\<exists>t_i. for_range 0 n (expand_step h prk info) (array_new 32, seq_new (n * 32)) = Some (t_i, T_concat prk info n)"
proof -
  let ?T = "T_block (hmac_spec prk) info"
  let ?P = "\<lambda>i (t_i, t). length t = n * 32 \<and> take (i * 32) t = T_concat prk info i \<and> (i \<noteq> 0 \<longrightarrow> t_i = ?T i)"
  have len: "length (T_concat prk info k) = k * 32" for k
    using byte_function.length_T_blocks [OF hmac_byte_function [OF prk]] by (simp only: T_concat_def)
  have "\<exists>s. for_range 0 n (expand_step h prk info) (array_new 32, seq_new (n * 32)) = Some s \<and> ?P n s"
  proof (rule for_range_rule [where P = ?P])
    show "?P 0 (array_new 32, seq_new (n * 32))" by (simp add: T_concat_def)
  next
    fix i s assume i: "i < n" and s: "?P i s"
    obtain t_i t where st: "s = (t_i, t)" by (cases s)
    let ?t = "take (i * 32) t @ ?T (Suc i) @ drop (Suc i * 32) t"
    have "(i + 1) * 32 \<le> n * 32" using i by (intro mult_le_mono1) simp
    moreover have "length (?T (Suc i)) = 32" by simp
    moreover have "T_concat prk info (Suc i) = T_concat prk info i @ ?T (Suc i)" by (simp add: T_concat_def)
    ultimately have "length ?t = n * 32" "take (Suc i * 32) ?t = T_concat prk info (Suc i)"
      using s st len [of i] by (simp_all del: T_block.simps)
    then show "\<exists>s'. expand_step h prk info i s = Some s' \<and> ?P (Suc i) s'"
      using expand_step_eq [OF prk info i n, of t_i t h] s unfolding st
      by (intro exI [of _ "(?T (Suc i), ?t)"]) (simp only: prod.case simp_thms)
  qed simp
  then show ?thesis using len [of n] by auto
qed

lemma T_concat_prefix:
  assumes "usize_fits ((length prk + 64) * 8)" "l \<le> n * 32" "n \<le> 255"
  shows "take l (T_concat prk info n) = expand_spec prk info l"
proof -
  have "T_concat prk info 255 = T_concat prk info n @ concat (map (\<lambda>i. T_block (hmac_spec prk) info (Suc i)) [n..<255])"
    using assms(3) upt_add_eq_append [of 0 n "255 - n"] by (simp add: T_concat_def)
  moreover have "length (T_concat prk info n) = n * 32"
    using byte_function.length_T_blocks [OF hmac_byte_function [OF assms(1)]] by (simp only: T_concat_def)
  ultimately show ?thesis using assms(2) by (simp add: expand_spec_def T_concat_def [symmetric] del: T_block.simps)
qed

section \<open>Properties\<close>

text \<open>
  C21: HKDF. For inputs whose lengths in bits, with the blocks that HMAC adds, fit in \<open>usize\<close>, neither function panics: \<open>extract\<close> returns the HMAC of the input key material under
  the salt, or under 32 zeros when the salt is empty; \<open>expand\<close> returns an error exactly when more than 255 blocks of 32 bytes are asked for, and otherwise the first \<open>l\<close> bytes of the
  concatenation of the blocks \<open>T(1), T(2), ...\<close> of RFC 5869; the counter byte never overflows.
\<close>

theorem hkdf_correct:
  assumes prk: "usize_fits ((length prk + 64) * 8)" and info: "usize_fits ((length info + 161) * 8)" and l: "usize_fits l"
  shows "hkdf_extract h prk info = Some (extract_spec prk info) \<and>
    expand h prk info l = Some (if l \<le> 255 * 32 then Inr (expand_spec prk info l) else Inl InvalidOutputLength) \<and>
    (l \<le> 255 * 32 \<longrightarrow> length (expand_spec prk info l) = l)"
proof (intro conjI)
  have "usize_fits ((length info + 128) * 8)" using info by (rule usize_fits_mono) simp
  then have "hmac h (if prk = [] then replicate 32 0 else prk) info = Some (extract_spec prk info)"
    using hmac_eq [of "replicate 32 0" info h] hmac_eq [of prk info h] prk by (simp add: extract_spec_def usize_fits_def [of 768])
  then show "hkdf_extract h prk info = Some (extract_spec prk info)"
    by (cases "prk = []") (simp_all add: hkdf_extract_def seq_len_def seq_from_seq_eq seq_new_def default_word_def array_from_seq_eq extract_spec_def)
next
  let ?n = "(l + 32 - 1) div 32"
  have n: "?n \<le> 255 \<longleftrightarrow> l \<le> 255 * 32" using div_less_iff_less_mult [of 32 "l + 31" 256] by (simp add: add.commute) linarith
  have lim: "check_output_limit l = Some (if l \<le> 255 * 32 then Inr ?n else Inl InvalidOutputLength)"
    unfolding n [symmetric] by (simp add: check_output_limit_def div_ceil_eq l)
  show "expand h prk info l = Some (if l \<le> 255 * 32 then Inr (expand_spec prk info l) else Inl InvalidOutputLength)"
  proof (cases "l \<le> 255 * 32")
    case True
    have n': "?n \<le> 255" using True n by simp
    then have fits: "usize_fits (?n * 32)" by (simp add: usize_fits_def)
    have le: "l \<le> ?n * 32" using div_mult_mod_eq [of "l + 31" 32] mod_less_divisor [of 32 "l + 31"] by simp
    obtain t_i where loop: "for_range 0 ?n (expand_step h prk info) (array_new 32, seq_new (?n * 32)) = Some (t_i, T_concat prk info ?n)"
      using expand_loop [OF prk info n'] by blast
    have len: "length (T_concat prk info ?n) = ?n * 32"
      using byte_function.length_T_blocks [OF hmac_byte_function [OF prk]] by (simp only: T_concat_def)
    have "seq_slice (T_concat prk info ?n) 0 l = Some (expand_spec prk info l)"
      using seq_slice_eq [of "T_concat prk info ?n" 0 l] fits len le T_concat_prefix [OF prk le n'] by simp
    then show ?thesis using True loop fits unfolding expand_def lim by (simp only: if_True Option.bind.bind_lunit sum.case sizes usize_mul_fits prod.case)
  next
    case False
    then show ?thesis by (simp add: expand_def lim)
  qed
next
  have "length (T_concat prk info 255) = 255 * 32"
    using byte_function.length_T_blocks [OF hmac_byte_function [OF prk]] by (simp only: T_concat_def)
  then show "l \<le> 255 * 32 \<longrightarrow> length (expand_spec prk info l) = l"
    by (simp add: expand_spec_def T_concat_def [symmetric] del: T_block.simps)
qed

theorem hkdf_correct_witness:
  "expand BigEndian [1, 2, 3] [] 33 = Some (Inr (expand_spec [1, 2, 3] [] 33)) \<and>
    expand BigEndian [1, 2, 3] [] 9000 = Some (Inl InvalidOutputLength)"
  using hkdf_correct [of "[1, 2, 3]" "[]" 33 BigEndian] hkdf_correct [of "[1, 2, 3]" "[]" 9000 BigEndian] by (simp add: usize_fits_def)

end
