(* ===== verification/Riot_Runqueue.thy ===== *)
theory Riot_Runqueue
  imports Hacspec_Prelude
begin

text \<open>
  \<open>examples/riot-runqueue/src/lib.rs\<close>: the run queue of the scheduler of RIOT, written in hacspec. Twenty circular linked lists,
  one per priority, share an array of \<open>next\<close> indices with one entry per thread; \<open>tail\<close> holds the last element of
  each list. A bit cache records which lists are not empty.

  The abstract run queue is a first-in first-out list of threads per priority. The lemmas show that the circular lists implement it, that every state
  that the scheduler can reach keeps the invariant, and that \<open>runqueue_get_next\<close> returns the head of the highest list that is not empty.
\<close>

section \<open>Circular lists\<close>

definition N_QUEUES :: nat where "N_QUEUES = 20"

definition N_THREADS :: nat where "N_THREADS = 30"

definition SENTINEL :: u8 where "SENTINEL = 0xFF"

record clist =
  cl_tail :: "u8 list"
  cl_next :: "u8 list"

definition clist_new :: clist where
  "clist_new = \<lparr>cl_tail = replicate N_QUEUES SENTINEL, cl_next = replicate N_THREADS SENTINEL\<rparr>"

definition clist_is_empty :: "clist \<Rightarrow> u8 \<Rightarrow> bool option" where
  "clist_is_empty x rq = do { t \<leftarrow> vec_get (cl_tail x) (unat rq); Some (t = SENTINEL) }"

definition clist_push :: "clist \<Rightarrow> u8 \<Rightarrow> u8 \<Rightarrow> clist option" where
  "clist_push x n rq = do {
     nn \<leftarrow> vec_get (cl_next x) (unat n);
     if nn = SENTINEL then do {
       t \<leftarrow> vec_get (cl_tail x) (unat rq);
       if t = SENTINEL then do {
         tail \<leftarrow> vec_set (cl_tail x) (unat rq) n;
         next_idxs \<leftarrow> vec_set (cl_next x) (unat n) n;
         Some \<lparr>cl_tail = tail, cl_next = next_idxs\<rparr>
       } else do {
         first \<leftarrow> vec_get (cl_next x) (unat t);
         next_idxs \<leftarrow> vec_set (cl_next x) (unat n) first;
         next_idxs \<leftarrow> vec_set next_idxs (unat t) n;
         tail \<leftarrow> vec_set (cl_tail x) (unat rq) n;
         Some \<lparr>cl_tail = tail, cl_next = next_idxs\<rparr>
       }
     } else Some x
   }"

definition clist_pop_head :: "clist \<Rightarrow> u8 \<Rightarrow> (clist \<times> u8 option) option" where
  "clist_pop_head x rq = do {
     t \<leftarrow> vec_get (cl_tail x) (unat rq);
     if t = SENTINEL then Some (x, None)
     else do {
       head \<leftarrow> vec_get (cl_next x) (unat t);
       (tail, next_idxs) \<leftarrow>
         (if head = t then do { tail \<leftarrow> vec_set (cl_tail x) (unat rq) SENTINEL; Some (tail, cl_next x) }
          else do {
            second \<leftarrow> vec_get (cl_next x) (unat head);
            next_idxs \<leftarrow> vec_set (cl_next x) (unat t) second;
            Some (cl_tail x, next_idxs)
          });
       next_idxs \<leftarrow> vec_set next_idxs (unat head) SENTINEL;
       Some (\<lparr>cl_tail = tail, cl_next = next_idxs\<rparr>, Some head)
     }
   }"

definition clist_peek_head :: "clist \<Rightarrow> u8 \<Rightarrow> u8 option option" where
  "clist_peek_head x rq = do {
     t \<leftarrow> vec_get (cl_tail x) (unat rq);
     if t = SENTINEL then Some None
     else do { head \<leftarrow> vec_get (cl_next x) (unat t); Some (Some head) }
   }"

definition clist_advance :: "clist \<Rightarrow> u8 \<Rightarrow> clist option" where
  "clist_advance x rq = do {
     t \<leftarrow> vec_get (cl_tail x) (unat rq);
     if t \<noteq> SENTINEL then do {
       head \<leftarrow> vec_get (cl_next x) (unat t);
       tail \<leftarrow> vec_set (cl_tail x) (unat rq) head;
       Some \<lparr>cl_tail = tail, cl_next = cl_next x\<rparr>
     } else Some x
   }"

section \<open>The run queue\<close>

record run_queue =
  rq_bitcache :: u32
  rq_queues :: clist

definition runqueue_new :: run_queue where
  "runqueue_new = \<lparr>rq_bitcache = 0, rq_queues = clist_new\<rparr>"

text \<open>A shift by 32 or more panics.\<close>

definition shl_one :: "u8 \<Rightarrow> u32 option" where
  "shl_one rq = do { rust_assert (unat rq < 32); Some (push_bit (unat rq) 1) }"

definition runqueue_add :: "run_queue \<Rightarrow> u8 \<Rightarrow> u8 \<Rightarrow> run_queue option" where
  "runqueue_add y n rq = do {
     b \<leftarrow> shl_one rq;
     queues \<leftarrow> clist_push (rq_queues y) n rq;
     Some \<lparr>rq_bitcache = rq_bitcache y OR b, rq_queues = queues\<rparr>
   }"

definition runqueue_del :: "run_queue \<Rightarrow> u8 \<Rightarrow> u8 \<Rightarrow> run_queue option" where
  "runqueue_del y n rq = do {
     (queues, popped) \<leftarrow> clist_pop_head (rq_queues y) rq;
     e \<leftarrow> clist_is_empty queues rq;
     bitcache \<leftarrow> (if e then do { b \<leftarrow> shl_one rq; Some (rq_bitcache y AND NOT b) } else Some (rq_bitcache y));
     Some \<lparr>rq_bitcache = bitcache, rq_queues = queues\<rparr>
   }"

definition leading_zeros :: "u32 \<Rightarrow> nat" where
  "leading_zeros w = length (takeWhile (\<lambda>i. \<not> bit w (31 - i)) [0..<32])"

definition runqueue_ffs :: "u32 \<Rightarrow> nat" where
  "runqueue_ffs val = 32 - leading_zeros val"

definition runqueue_get_next :: "run_queue \<Rightarrow> u8 option option" where
  "runqueue_get_next y =
     (let rq_ffs = runqueue_ffs (rq_bitcache y) in
      if 0 < rq_ffs then clist_peek_head (rq_queues y) (word_of_nat (rq_ffs - 1)) else Some None)"

definition runqueue_advance :: "run_queue \<Rightarrow> u8 \<Rightarrow> run_queue option" where
  "runqueue_advance y rq = do {
     queues \<leftarrow> clist_advance (rq_queues y) rq;
     Some \<lparr>rq_bitcache = rq_bitcache y, rq_queues = queues\<rparr>
   }"

section \<open>Linked lists\<close>

lemma unat_inject [simp]: "unat (a :: u8) = unat b \<longleftrightarrow> a = b"
  by (metis word_unat_eq_iff)

text \<open>\<open>links f xs\<close>: each element of \<open>xs\<close> but the last is linked to the one after it.\<close>

fun links :: "('a \<Rightarrow> 'a) \<Rightarrow> 'a list \<Rightarrow> bool" where
  "links f (x # y # zs) \<longleftrightarrow> f x = y \<and> links f (y # zs)"
| "links f xs \<longleftrightarrow> True"

lemma links_cong: "(\<And>x. x \<in> set (butlast xs) \<Longrightarrow> f x = g x) \<Longrightarrow> links f xs = links g xs"
  by (induction f xs rule: links.induct) auto

lemma links_snoc_last: "xs \<noteq> [] \<Longrightarrow> links f (xs @ [b]) \<longleftrightarrow> links f xs \<and> f (last xs) = b"
  by (induction f xs rule: links.induct) auto

text \<open>A circular list is linked from its last element through all of them.\<close>

definition ring :: "('a \<Rightarrow> 'a) \<Rightarrow> 'a list \<Rightarrow> bool" where
  "ring f xs \<longleftrightarrow> links f (last xs # xs)"

lemma ring_Cons: "ring f (x # xs) \<longleftrightarrow> f (last (x # xs)) = x \<and> links f (x # xs)"
  by (simp add: ring_def)

lemma ring_cong: "(\<And>x. x \<in> set xs \<Longrightarrow> f x = g x) \<Longrightarrow> ring f xs = ring g xs"
  unfolding ring_def by (rule links_cong) (cases "xs = []"; auto dest: in_set_butlastD)

lemma ring_closed: "ring f xs \<Longrightarrow> x \<in> set xs \<Longrightarrow> f x \<in> set xs"
proof -
  have "links f ys \<Longrightarrow> x \<in> set (butlast ys) \<Longrightarrow> f x \<in> set (tl ys)" for ys x
    by (induction f ys rule: links.induct) (auto split: if_splits)
  from this [of "last xs # xs" x] show "ring f xs \<Longrightarrow> x \<in> set xs \<Longrightarrow> f x \<in> set xs"
    by (cases xs rule: rev_cases) (auto simp: ring_def)
qed

lemma ring_push:
  assumes "ring f xs" "xs \<noteq> []" "distinct xs" "n \<notin> set xs" "g n = hd xs" "g (last xs) = n"
    and same: "\<And>x. x \<in> set xs \<Longrightarrow> x \<noteq> last xs \<Longrightarrow> g x = f x"
  shows "ring g (xs @ [n])"
proof -
  have "last xs \<notin> set (butlast xs)" using assms(2,3) by (metis append_butlast_last_id distinct_append disjoint_iff list.set_intros(1))
  then have "links g xs = links f xs" using same by (intro links_cong) (auto dest: in_set_butlastD)
  with assms show ?thesis by (cases xs) (simp_all add: ring_Cons links_snoc_last [of "_ # _", simplified])
qed

lemma ring_pop:
  assumes "ring f (h # xs)" "xs \<noteq> []" "distinct (h # xs)" "g (last xs) = f h"
    and same: "\<And>x. x \<in> set xs \<Longrightarrow> x \<noteq> last xs \<Longrightarrow> g x = f x"
  shows "ring g xs"
proof -
  have "last xs \<notin> set (butlast xs)" using assms(2,3) by (metis append_butlast_last_id distinct.simps(2) distinct_append disjoint_iff list.set_intros(1))
  then have "links g xs = links f xs" using same by (intro links_cong) (auto dest: in_set_butlastD)
  with assms show ?thesis by (cases xs) (simp_all add: ring_Cons)
qed

lemma ring_rotate: "ring f xs \<Longrightarrow> ring f (rotate1 xs)"
  by (cases xs) (auto simp: ring_Cons ring_def links_snoc_last [of "_ # _", simplified] split: list.splits)

section \<open>The abstract run queue\<close>

text \<open>A list of threads per priority, each thread at most once; the first one runs next.\<close>

type_synonym queues = "nat \<Rightarrow> u8 list"

definition queued :: "queues \<Rightarrow> u8 \<Rightarrow> bool" where
  "queued q n \<longleftrightarrow> (\<exists>r < N_QUEUES. n \<in> set (q r))"

definition q_push :: "queues \<Rightarrow> u8 \<Rightarrow> u8 \<Rightarrow> queues" where
  "q_push q n rq = (if queued q n then q else q(unat rq := q (unat rq) @ [n]))"

definition q_pop :: "queues \<Rightarrow> u8 \<Rightarrow> queues" where
  "q_pop q rq = q(unat rq := tl (q (unat rq)))"

definition q_advance :: "queues \<Rightarrow> u8 \<Rightarrow> queues" where
  "q_advance q rq = q(unat rq := rotate1 (q (unat rq)))"

definition q_head :: "u8 list \<Rightarrow> u8 option" where
  "q_head xs = (case xs of [] \<Rightarrow> None | x # _ \<Rightarrow> Some x)"

section \<open>The representation\<close>

definition next_of :: "clist \<Rightarrow> u8 \<Rightarrow> u8" where
  "next_of x n = cl_next x ! unat n"

definition tail_of :: "u8 list \<Rightarrow> u8" where
  "tail_of xs = (if xs = [] then SENTINEL else last xs)"

definition clist_rep :: "clist \<Rightarrow> queues \<Rightarrow> bool" where
  "clist_rep x q \<longleftrightarrow> length (cl_tail x) = N_QUEUES \<and> length (cl_next x) = N_THREADS \<and>
     (\<forall>r < N_QUEUES. distinct (q r) \<and> (\<forall>n \<in> set (q r). unat n < N_THREADS) \<and>
        cl_tail x ! r = tail_of (q r) \<and> ring (next_of x) (q r)) \<and>
     (\<forall>r < N_QUEUES. \<forall>r' < N_QUEUES. r \<noteq> r' \<longrightarrow> set (q r) \<inter> set (q r') = {}) \<and>
     (\<forall>n. unat n < N_THREADS \<and> \<not> queued q n \<longrightarrow> next_of x n = SENTINEL)"

lemma clist_rep_queue:
  assumes "clist_rep x q" "r < N_QUEUES"
  shows "distinct (q r)" "cl_tail x ! r = tail_of (q r)" "ring (next_of x) (q r)" "n \<in> set (q r) \<Longrightarrow> unat n < N_THREADS"
    "length (cl_tail x) = N_QUEUES" "length (cl_next x) = N_THREADS"
  using assms by (auto simp: clist_rep_def)

lemma sentinel_not_thread: "unat n < N_THREADS \<Longrightarrow> n \<noteq> SENTINEL"
  by (auto simp: N_THREADS_def SENTINEL_def)

lemma tail_of_sentinel: "clist_rep x q \<Longrightarrow> r < N_QUEUES \<Longrightarrow> tail_of (q r) = SENTINEL \<longleftrightarrow> q r = []"
  using clist_rep_queue(4) [of x q r] sentinel_not_thread by (auto simp: tail_of_def)

lemma ring_next_hd: "ring f xs \<Longrightarrow> xs \<noteq> [] \<Longrightarrow> f (last xs) = hd xs"
  by (cases xs) (auto simp: ring_Cons)

text \<open>An update of one list that changes \<open>next\<close> only at its own members keeps the other lists.\<close>

lemma clist_rep_update:
  assumes rep: "clist_rep x q" and r: "r < N_QUEUES"
    and len: "length nxt = N_THREADS"
    and xs: "distinct xs" "\<And>n. n \<in> set xs \<Longrightarrow> unat n < N_THREADS" "ring (\<lambda>n. nxt ! unat n) xs"
    and new: "\<And>n. n \<in> set xs \<Longrightarrow> queued q n \<Longrightarrow> n \<in> set (q r)"
    and same: "\<And>n. unat n < N_THREADS \<Longrightarrow> n \<notin> set xs \<Longrightarrow> n \<notin> set (q r) \<Longrightarrow> nxt ! unat n = next_of x n"
    and gone: "\<And>n. n \<in> set (q r) \<Longrightarrow> n \<notin> set xs \<Longrightarrow> nxt ! unat n = SENTINEL"
  shows "clist_rep \<lparr>cl_tail = (cl_tail x)[r := tail_of xs], cl_next = nxt\<rparr> (q(r := xs))"
proof -
  let ?x = "\<lparr>cl_tail = (cl_tail x)[r := tail_of xs], cl_next = nxt\<rparr>"
  have nx: "next_of ?x = (\<lambda>n. nxt ! unat n)" by (auto simp: next_of_def)
  have disj: "r' < N_QUEUES \<Longrightarrow> r' \<noteq> r \<Longrightarrow> set (q r') \<inter> set (q r) = {}" for r'
    using rep r unfolding clist_rep_def by blast
  have disj': "r' < N_QUEUES \<Longrightarrow> r' \<noteq> r \<Longrightarrow> set (q r') \<inter> set xs = {}" for r'
    using new disj unfolding queued_def by blast
  have other: "ring (\<lambda>n. nxt ! unat n) (q r')" if "r' < N_QUEUES" "r' \<noteq> r" for r'
    using ring_cong [of "q r'" "\<lambda>n. nxt ! unat n" "next_of x"] same clist_rep_queue(3,4) [OF rep that(1)] disj [OF that] disj' [OF that]
    by blast
  show ?thesis
    unfolding clist_rep_def nx
  proof (intro conjI allI impI)
    fix n assume n: "unat n < N_THREADS \<and> \<not> queued (q(r := xs)) n"
    then have "n \<notin> set xs" using r by (auto simp: queued_def)
    show "nxt ! unat n = SENTINEL"
    proof (cases "n \<in> set (q r)")
      case False
      have "\<not> queued q n" using n False by (auto simp: queued_def split: if_splits)
      then have "next_of x n = SENTINEL" using rep n by (simp add: clist_rep_def)
      with same [of n] n False \<open>n \<notin> set xs\<close> show ?thesis by simp
    qed (use gone \<open>n \<notin> set xs\<close> in blast)
  next
    fix r1 r2 assume a: "r1 < N_QUEUES" "r2 < N_QUEUES" "r1 \<noteq> r2"
    show "set ((q(r := xs)) r1) \<inter> set ((q(r := xs)) r2) = {}"
    proof -
      have "set (q r1) \<inter> set (q r2) = {}" using a rep unfolding clist_rep_def by blast
      with a disj' [of r1] disj' [of r2] show ?thesis by auto
    qed
  qed (use rep r len xs other in \<open>auto simp: clist_rep_def nth_list_update\<close>)
qed

lemma clist_new_rep: "clist_rep clist_new (\<lambda>_. [])"
  by (auto simp: clist_rep_def clist_new_def ring_def tail_of_def next_of_def queued_def)

lemma queued_next:
  assumes "clist_rep x q" "unat n < N_THREADS"
  shows "next_of x n = SENTINEL \<longleftrightarrow> \<not> queued q n"
proof (cases "queued q n")
  case True
  then obtain r where r: "r < N_QUEUES" "n \<in> set (q r)" by (auto simp: queued_def)
  have "next_of x n \<in> set (q r)"
    by (rule ring_closed [OF clist_rep_queue(3) [OF assms(1) r(1)] r(2)])
  with clist_rep_queue(4) [OF assms(1) r(1)] sentinel_not_thread True show ?thesis by blast
next
  case False
  with assms show ?thesis by (simp add: clist_rep_def)
qed

lemma clist_push_rep:
  assumes rep: "clist_rep x q" and n: "unat n < N_THREADS" and rq: "unat rq < N_QUEUES"
  shows "\<exists>x'. clist_push x n rq = Some x' \<and> clist_rep x' (q_push q n rq)"
proof (cases "queued q n")
  case True
  with queued_next [OF rep n] rep n show ?thesis
    by (simp add: clist_push_def q_push_def next_of_def clist_rep_def)
next
  case False
  let ?xs = "q (unat rq)"
  note Q = clist_rep_queue [OF rep rq]
  have nn: "cl_next x ! unat n = SENTINEL" using queued_next [OF rep n] False by (simp add: next_of_def)
  have nin: "n \<notin> set ?xs" using False rq by (auto simp: queued_def)
  show ?thesis
  proof (cases "?xs = []")
    case True
    have "clist_rep \<lparr>cl_tail = (cl_tail x)[unat rq := tail_of [n]], cl_next = (cl_next x)[unat n := n]\<rparr> (q(unat rq := [n]))"
      by (rule clist_rep_update [OF rep rq]) (use Q n True False in \<open>auto simp: ring_def next_of_def nth_list_update\<close>)
    then show ?thesis using Q n rq True nn False by (simp add: clist_push_def q_push_def tail_of_def)
  next
    case ne: False
    let ?t = "last ?xs"
    let ?nxt = "(cl_next x)[unat n := hd ?xs, unat ?t := n]"
    have t: "unat ?t < N_THREADS" "?t \<noteq> SENTINEL" "cl_next x ! unat ?t = hd ?xs" "?t \<noteq> n"
      using Q(4) [of ?t] ne sentinel_not_thread ring_next_hd [OF Q(3) ne] nin by (auto simp: next_of_def)
    have "ring (\<lambda>m. ?nxt ! unat m) (?xs @ [n])"
      by (rule ring_push [OF Q(3) ne Q(1) nin]) (use t n Q(4,6) nin in \<open>auto simp: next_of_def nth_list_update\<close>)
    then have "clist_rep \<lparr>cl_tail = (cl_tail x)[unat rq := tail_of (?xs @ [n])], cl_next = ?nxt\<rparr> (q(unat rq := ?xs @ [n]))"
      by (intro clist_rep_update [OF rep rq]) (use Q n nin ne False in \<open>auto simp: next_of_def nth_list_update\<close>)
    then show ?thesis using Q n rq ne nn False t by (simp add: clist_push_def q_push_def tail_of_def)
  qed
qed

lemma clist_pop_head_rep:
  assumes rep: "clist_rep x q" and rq: "unat rq < N_QUEUES"
  shows "\<exists>x'. clist_pop_head x rq = Some (x', q_head (q (unat rq))) \<and> clist_rep x' (q_pop q rq)"
proof (cases "q (unat rq)")
  case Nil
  then have "q_pop q rq = q" by (simp add: q_pop_def fun_upd_idem)
  with Nil clist_rep_queue [OF rep rq] rep rq show ?thesis
    by (simp add: clist_pop_head_def q_head_def tail_of_def)
next
  case (Cons h xs)
  note Q = clist_rep_queue [OF rep rq]
  let ?t = "last (h # xs)"
  have t: "unat ?t < N_THREADS" "?t \<noteq> SENTINEL" "cl_next x ! unat ?t = h" "unat h < N_THREADS"
    using Q(4) [of ?t] Q(4) [of h] Cons sentinel_not_thread ring_next_hd [OF Q(3)] by (auto simp: next_of_def)
  have dist: "h \<notin> set xs" "distinct xs" using Q(1) Cons by auto
  show ?thesis
  proof (cases "xs = []")
    case True
    have "clist_rep \<lparr>cl_tail = (cl_tail x)[unat rq := tail_of []], cl_next = (cl_next x)[unat h := SENTINEL]\<rparr> (q(unat rq := []))"
      by (rule clist_rep_update [OF rep rq]) (use Q Cons True in \<open>auto simp: ring_def next_of_def nth_list_update\<close>)
    then show ?thesis using Q rq t Cons True by (simp add: clist_pop_head_def q_pop_def q_head_def tail_of_def)
  next
    case ne: False
    let ?nxt = "(cl_next x)[unat ?t := cl_next x ! unat h, unat h := SENTINEL]"
    have th: "?t \<noteq> h" "last xs \<noteq> h" using dist ne by auto
    have "ring (\<lambda>m. ?nxt ! unat m) xs"
      by (rule ring_pop [of "next_of x" h]) (use Q Cons ne t th dist in \<open>auto simp: next_of_def nth_list_update\<close>)
    then have "clist_rep \<lparr>cl_tail = (cl_tail x)[unat rq := tail_of xs], cl_next = ?nxt\<rparr> (q(unat rq := xs))"
      by (intro clist_rep_update [OF rep rq]) (use Q Cons dist t in \<open>auto simp: next_of_def nth_list_update\<close>)
    moreover have "(cl_tail x)[unat rq := tail_of xs] = cl_tail x"
      using Q(2) Cons ne by (simp add: tail_of_def list_update_same_conv Q(5) rq)
    ultimately show ?thesis using Q rq t Cons ne th by (simp add: clist_pop_head_def q_pop_def q_head_def tail_of_def)
  qed
qed

lemma clist_peek_head_rep:
  assumes rep: "clist_rep x q" and rq: "unat rq < N_QUEUES"
  shows "clist_peek_head x rq = Some (q_head (q (unat rq)))"
proof (cases "q (unat rq)")
  case Nil
  with clist_rep_queue [OF rep rq] rq show ?thesis by (simp add: clist_peek_head_def q_head_def tail_of_def)
next
  case (Cons h xs)
  note Q = clist_rep_queue [OF rep rq]
  have "unat (last (h # xs)) < N_THREADS" "last (h # xs) \<noteq> SENTINEL" "cl_next x ! unat (last (h # xs)) = h"
    using Q(4) [of "last (h # xs)"] Cons sentinel_not_thread ring_next_hd [OF Q(3)] by (auto simp: next_of_def)
  with Q rq Cons show ?thesis by (simp add: clist_peek_head_def q_head_def tail_of_def)
qed

lemma clist_advance_rep:
  assumes rep: "clist_rep x q" and rq: "unat rq < N_QUEUES"
  shows "\<exists>x'. clist_advance x rq = Some x' \<and> clist_rep x' (q_advance q rq)"
proof (cases "q (unat rq)")
  case Nil
  then have "q_advance q rq = q" by (simp add: q_advance_def fun_upd_idem)
  with Nil clist_rep_queue [OF rep rq] rep rq show ?thesis by (simp add: clist_advance_def tail_of_def)
next
  case (Cons h xs)
  note Q = clist_rep_queue [OF rep rq]
  have t: "unat (last (h # xs)) < N_THREADS" "last (h # xs) \<noteq> SENTINEL" "cl_next x ! unat (last (h # xs)) = h"
    using Q(4) [of "last (h # xs)"] Cons sentinel_not_thread ring_next_hd [OF Q(3)] by (auto simp: next_of_def)
  have "ring (\<lambda>m. cl_next x ! unat m) (xs @ [h])"
    using ring_rotate [OF Q(3)] Cons by (simp add: next_of_def [abs_def])
  then have "clist_rep \<lparr>cl_tail = (cl_tail x)[unat rq := tail_of (xs @ [h])], cl_next = cl_next x\<rparr> (q(unat rq := xs @ [h]))"
    by (intro clist_rep_update [OF rep rq]) (use Q Cons in \<open>auto simp: next_of_def\<close>)
  with Q rq Cons t show ?thesis by (simp add: clist_advance_def q_advance_def tail_of_def)
qed

section \<open>Lists of threads as an interface\<close>

text \<open>What the scheduler relies on: the operations follow the abstract lists.\<close>

locale thread_lists =
  fixes push :: "'s \<Rightarrow> u8 \<Rightarrow> u8 \<Rightarrow> 's option"
    and pop :: "'s \<Rightarrow> u8 \<Rightarrow> ('s \<times> u8 option) option"
    and rep :: "'s \<Rightarrow> queues \<Rightarrow> bool"
  assumes push: "rep s q \<Longrightarrow> unat n < N_THREADS \<Longrightarrow> unat rq < N_QUEUES \<Longrightarrow>
      \<exists>s'. push s n rq = Some s' \<and> rep s' (q_push q n rq)"
    and pop: "rep s q \<Longrightarrow> unat rq < N_QUEUES \<Longrightarrow>
      \<exists>s'. pop s rq = Some (s', q_head (q (unat rq))) \<and> rep s' (q_pop q rq)"
begin

lemma push_all:
  assumes "rep s q" "unat rq < N_QUEUES" "distinct ns" "\<forall>n \<in> set ns. unat n < N_THREADS \<and> \<not> queued q n"
  shows "\<exists>s'. foldM (\<lambda>n s. push s n rq) ns s = Some s' \<and> rep s' (q(unat rq := q (unat rq) @ ns))"
  using assms
proof (induction ns arbitrary: s q)
  case (Cons n ns)
  from Cons.prems push [of s q n rq] obtain s1 where s1: "push s n rq = Some s1" "rep s1 (q_push q n rq)" by auto
  have q: "q_push q n rq = q(unat rq := q (unat rq) @ [n])" using Cons.prems by (simp add: q_push_def)
  have "\<forall>m \<in> set ns. unat m < N_THREADS \<and> \<not> queued (q_push q n rq) m"
    using Cons.prems by (auto simp: q queued_def split: if_splits)
  moreover have "(q_push q n rq)(unat rq := q_push q n rq (unat rq) @ ns) = q(unat rq := q (unat rq) @ n # ns)" by (simp add: q)
  ultimately show ?case using Cons.IH [OF s1(2)] Cons.prems(2,3) s1(1) by simp
qed auto

lemma pop_all:
  assumes "rep s q" "unat rq < N_QUEUES" "q (unat rq) = ns"
  shows "\<exists>s'. foldM (\<lambda>_ (s, out). do { (s, n) \<leftarrow> pop s rq; Some (s, out @ [n]) }) [0..<length ns] (s, out)
      = Some (s', out @ map Some ns) \<and> rep s' (q(unat rq := []))"
proof -
  have "\<exists>s'. foldM (\<lambda>_ (s, out). do { (s, n) \<leftarrow> pop s rq; Some (s, out @ [n]) }) is (s, out)
      = Some (s', out @ map Some ns) \<and> rep s' (q(unat rq := []))" if "length is = length ns" for "is" :: "nat list"
    using assms that
  proof (induction ns arbitrary: s q out "is")
    case Nil
    then show ?case by (auto simp: fun_upd_idem)
  next
    case (Cons n ns)
    then obtain i is' where is': "is = i # is'" by (cases "is") auto
    from Cons.prems pop [of s q rq] obtain s1 where s1: "pop s rq = Some (s1, Some n)" "rep s1 (q_pop q rq)"
      by (auto simp: q_head_def)
    have "q_pop q rq (unat rq) = ns" using Cons.prems by (simp add: q_pop_def)
    moreover have "(q_pop q rq)(unat rq := []) = q(unat rq := [])" by (simp add: q_pop_def)
    ultimately show ?case
      using Cons.IH [OF s1(2) Cons.prems(2), of is' "out @ [Some n]"] Cons.prems(4) is' s1(1) by simp
  qed
  from this [of "[0..<length ns]"] show ?thesis by simp
qed

end

interpretation cl: thread_lists clist_push clist_pop_head clist_rep
  by unfold_locales (rule clist_push_rep clist_pop_head_rep; assumption)+

section \<open>The bit cache\<close>

definition runqueue_rep :: "run_queue \<Rightarrow> queues \<Rightarrow> bool" where
  "runqueue_rep y q \<longleftrightarrow> clist_rep (rq_queues y) q \<and> (\<forall>r. bit (rq_bitcache y) r \<longleftrightarrow> r < N_QUEUES \<and> q r \<noteq> [])"

definition top_priority :: "queues \<Rightarrow> nat option" where
  "top_priority q = (if \<forall>r < N_QUEUES. q r = [] then None else Some (Max {r. r < N_QUEUES \<and> q r \<noteq> []}))"

lemma shl_one_queue: "unat rq < N_QUEUES \<Longrightarrow> shl_one rq = Some (push_bit (unat rq) 1)"
  by (simp add: shl_one_def N_QUEUES_def)

lemma bit_shl_one: "unat (rq :: u8) < N_QUEUES \<Longrightarrow> bit (push_bit (unat rq) 1 :: u32) r \<longleftrightarrow> r = unat rq"
  by (auto simp: bit_simps N_QUEUES_def)

lemma runqueue_new_rep: "runqueue_rep runqueue_new (\<lambda>_. [])"
  by (simp add: runqueue_rep_def runqueue_new_def clist_new_rep)

lemma runqueue_add_rep:
  assumes "runqueue_rep y q" "unat n < N_THREADS" "unat rq < N_QUEUES" "\<not> queued q n \<or> q (unat rq) \<noteq> []"
  shows "\<exists>y'. runqueue_add y n rq = Some y' \<and> runqueue_rep y' (q_push q n rq)"
proof -
  from assms obtain x' where x': "clist_push (rq_queues y) n rq = Some x'" "clist_rep x' (q_push q n rq)"
    using clist_push_rep [of "rq_queues y" q n rq] by (auto simp: runqueue_rep_def)
  have "bit (rq_bitcache y OR push_bit (unat rq) 1) r \<longleftrightarrow> r < N_QUEUES \<and> q_push q n rq r \<noteq> []" for r
    using assms unfolding bit_or_iff bit_shl_one [OF assms(3)] runqueue_rep_def q_push_def by auto
  with x' show ?thesis by (simp add: runqueue_add_def shl_one_queue [OF assms(3)] runqueue_rep_def)
qed

lemma clist_is_empty_rep:
  "clist_rep x q \<Longrightarrow> unat rq < N_QUEUES \<Longrightarrow> clist_is_empty x rq = Some (q (unat rq) = [])"
  using clist_rep_queue [of x q "unat rq"] tail_of_sentinel [of x q "unat rq"] by (simp add: clist_is_empty_def)

lemma runqueue_del_rep:
  assumes "runqueue_rep y q" "unat rq < N_QUEUES"
  shows "\<exists>y'. runqueue_del y n rq = Some y' \<and> runqueue_rep y' (q_pop q rq)"
proof -
  from assms obtain x' where x': "clist_pop_head (rq_queues y) rq = Some (x', q_head (q (unat rq)))" "clist_rep x' (q_pop q rq)"
    using clist_pop_head_rep [of "rq_queues y" q rq] by (auto simp: runqueue_rep_def)
  have e: "clist_is_empty x' rq = Some (tl (q (unat rq)) = [])"
    using clist_is_empty_rep [OF x'(2) assms(2)] by (simp add: q_pop_def)
  let ?b = "if tl (q (unat rq)) = [] then rq_bitcache y AND NOT (push_bit (unat rq) 1) else rq_bitcache y"
  have bits: "bit ?b r \<longleftrightarrow> r < N_QUEUES \<and> q_pop q rq r \<noteq> []" for r
  proof -
    have "bit (NOT (push_bit (unat rq) 1) :: u32) r \<longleftrightarrow> r < 32 \<and> r \<noteq> unat rq"
      using bit_shl_one [OF assms(2), of r] by (auto simp: bit_not_iff_eq)
    moreover have "bit (rq_bitcache y) r \<longleftrightarrow> r < N_QUEUES \<and> q r \<noteq> []" using assms(1) by (simp add: runqueue_rep_def)
    moreover have "r < N_QUEUES \<Longrightarrow> r < 32" by (simp add: N_QUEUES_def)
    ultimately show ?thesis by (auto simp: q_pop_def bit_and_iff)
  qed
  have "runqueue_del y n rq = Some \<lparr>rq_bitcache = ?b, rq_queues = x'\<rparr>"
    using x'(1) e by (simp add: runqueue_del_def shl_one_queue [OF assms(2)])
  moreover have "runqueue_rep \<lparr>rq_bitcache = ?b, rq_queues = x'\<rparr> (q_pop q rq)"
    unfolding runqueue_rep_def using x'(2) bits by simp
  ultimately show ?thesis by blast
qed

lemma runqueue_advance_rep:
  assumes "runqueue_rep y q" "unat rq < N_QUEUES"
  shows "\<exists>y'. runqueue_advance y rq = Some y' \<and> runqueue_rep y' (q_advance q rq)"
proof -
  from assms obtain x' where "clist_advance (rq_queues y) rq = Some x'" "clist_rep x' (q_advance q rq)"
    using clist_advance_rep [of "rq_queues y" q rq] by (auto simp: runqueue_rep_def)
  with assms show ?thesis by (auto simp: runqueue_advance_def runqueue_rep_def q_advance_def)
qed

lemma runqueue_ffs_zero: "runqueue_ffs 0 = 0"
  by (simp add: runqueue_ffs_def leading_zeros_def takeWhile_eq_all_conv [THEN iffD2])

lemma runqueue_ffs_top:
  assumes "bit w m" "\<And>r. bit w r \<Longrightarrow> r \<le> m"
  shows "runqueue_ffs w = Suc m"
proof -
  have m: "m < 32" using bit_imp_le_length [OF assms(1)] by simp
  have "\<not> bit w (31 - i)" if "i < 31 - m" for i using assms(2) [of "31 - i"] that by auto
  then have "takeWhile (\<lambda>i. \<not> bit w (31 - i)) [0..<32] = take (31 - m) [0..<32]"
    using assms(1) m by (intro takeWhile_eq_take_P_nth) (auto simp del: upt_rec_numeral)
  then show ?thesis using m by (simp add: runqueue_ffs_def leading_zeros_def del: upt_rec_numeral)
qed

lemma runqueue_get_next_rep:
  assumes "runqueue_rep y q"
  shows "runqueue_get_next y = Some (case top_priority q of None \<Rightarrow> None | Some r \<Rightarrow> q_head (q r))"
proof (cases "\<forall>r < N_QUEUES. q r = []")
  case True
  then have "rq_bitcache y = 0" using assms by (intro bit_eqI) (auto simp: runqueue_rep_def)
  with True show ?thesis by (simp add: runqueue_get_next_def runqueue_ffs_zero top_priority_def)
next
  case False
  let ?S = "{r. r < N_QUEUES \<and> q r \<noteq> []}"
  have S: "finite ?S" "?S \<noteq> {}" using False by auto
  then have m: "Max ?S \<in> ?S" by (rule Max_in)
  have bits: "bit (rq_bitcache y) r \<longleftrightarrow> r \<in> ?S" for r using assms by (simp add: runqueue_rep_def)
  have ffs: "runqueue_ffs (rq_bitcache y) = Suc (Max ?S)"
    by (rule runqueue_ffs_top) (use m S bits in \<open>auto intro: Max_ge\<close>)
  have u: "unat (word_of_nat (Max ?S) :: u8) = Max ?S"
    using m by (simp add: unat_of_nat N_QUEUES_def)
  then have "clist_peek_head (rq_queues y) (word_of_nat (Max ?S)) = Some (q_head (q (Max ?S)))"
    using clist_peek_head_rep [of "rq_queues y" q "word_of_nat (Max ?S)"] assms m by (simp add: runqueue_rep_def)
  with False ffs show ?thesis by (auto simp: runqueue_get_next_def top_priority_def)
qed

section \<open>Reachable states\<close>

text \<open>
  The states that a scheduler reaches that adds only threads that wait in no list, with the abstract lists beside them.
\<close>

inductive reachable :: "run_queue \<Rightarrow> queues \<Rightarrow> bool" where
  r_new: "reachable runqueue_new (\<lambda>_. [])"
| r_add: "reachable y q \<Longrightarrow> unat n < N_THREADS \<Longrightarrow> unat rq < N_QUEUES \<Longrightarrow> \<not> queued q n \<Longrightarrow>
    runqueue_add y n rq = Some y' \<Longrightarrow> reachable y' (q_push q n rq)"
| r_del: "reachable y q \<Longrightarrow> unat rq < N_QUEUES \<Longrightarrow> runqueue_del y n rq = Some y' \<Longrightarrow> reachable y' (q_pop q rq)"
| r_advance: "reachable y q \<Longrightarrow> unat rq < N_QUEUES \<Longrightarrow> runqueue_advance y rq = Some y' \<Longrightarrow> reachable y' (q_advance q rq)"

lemma reachable_rep: "reachable y q \<Longrightarrow> runqueue_rep y q"
proof (induction rule: reachable.induct)
  case r_new
  show ?case by (rule runqueue_new_rep)
next
  case (r_add y q n rq y')
  then show ?case using runqueue_add_rep [of y q n rq] by auto
next
  case (r_del y q rq n y')
  then show ?case using runqueue_del_rep [of y q rq n] by auto
next
  case (r_advance y q rq y')
  then show ?case using runqueue_advance_rep [of y q rq] by auto
qed

section \<open>Properties\<close>


lemma reachable_add:
  assumes "reachable y q" "unat n < N_THREADS" "unat rq < N_QUEUES" "\<not> queued q n"
  obtains y' where "runqueue_add y n rq = Some y'" "reachable y' (q_push q n rq)"
  using runqueue_add_rep [OF reachable_rep [OF assms(1)] assms(2,3)] assms(4) r_add [OF assms] by blast


text \<open>
  first in, first out. Threads that are pushed on an empty list of a new run queue come out in the order in which they went in.
\<close>

theorem clist_fifo:
  assumes "unat rq < N_QUEUES" "distinct ns" "\<forall>n \<in> set ns. unat n < N_THREADS"
  shows "\<exists>x x'. foldM (\<lambda>n x. clist_push x n rq) ns clist_new = Some x \<and>
    foldM (\<lambda>_ (x, out). do { (x, n) \<leftarrow> clist_pop_head x rq; Some (x, out @ [n]) }) [0..<length ns] (x, []) = Some (x', map Some ns)
    \<and> clist_pop_head x' rq = Some (x', None)"
proof -
  have "\<forall>n \<in> set ns. unat n < N_THREADS \<and> \<not> queued (\<lambda>_. []) n" using assms(3) by (simp add: queued_def)
  from cl.push_all [OF clist_new_rep assms(1,2) this]
  obtain x where x: "foldM (\<lambda>n x. clist_push x n rq) ns clist_new = Some x" "clist_rep x ((\<lambda>_. [])(unat rq := ns))" by auto
  from cl.pop_all [OF x(2) assms(1), of ns "[]"] obtain x' where
    x': "foldM (\<lambda>_ (x, out). do { (x, n) \<leftarrow> clist_pop_head x rq; Some (x, out @ [n]) }) [0..<length ns] (x, []) = Some (x', map Some ns)"
    and rep: "clist_rep x' (\<lambda>_. [])" by (auto simp: fun_upd_idem)
  have "clist_pop_head x' rq = Some (x', None)"
    using clist_rep_queue [OF rep assms(1)] assms(1) by (simp add: clist_pop_head_def tail_of_def)
  with x x' show ?thesis by blast
qed

theorem clist_fifo_witness:
  "\<exists>x x'. foldM (\<lambda>n x. clist_push x n 2) [5, 9, 4] clist_new = Some x \<and>
    foldM (\<lambda>_ (x, out). do { (x, n) \<leftarrow> clist_pop_head x 2; Some (x, out @ [n]) }) [0..<length [5, 9, 4 :: u8]] (x, []) = Some (x', [Some 5, Some 9, Some 4])"
  using clist_fifo [of 2 "[5, 9, 4]"] by (auto simp: N_QUEUES_def N_THREADS_def)


end
