(* ===== verification/Riot_Bootloader.thy ===== *)
theory Riot_Bootloader
  imports Arrays Machine_Integers
begin

text \<open>
  \<open>examples/riot-bootloader/src/lib.rs\<close>: the checksum and the choice of the image of the boot loader of RIOT, written in hacspec.
  Additions on \<open>u32\<close> panic on overflow.

  The lemmas show that the Fletcher checksum never overflows, because it reduces after every 360 words, and that it is the pair of
  sums modulo 65535 of the definition; a header is valid exactly when its checksum is that of its first three
  words. A theorem states that the choice compares the version of an image with the address of the image chosen before.
\<close>

section \<open>The checksum\<close>

type_synonym fletcher = "u32 \<times> u32"

definition RIOTBOOT_MAGIC :: u32 where "RIOTBOOT_MAGIC = 0x544f4952"

definition new_fletcher :: fletcher where
  "new_fletcher = (0xffff, 0xffff)"

definition max_chunk_size :: usize where "max_chunk_size = 360"

definition reduce_u32 :: "u32 \<Rightarrow> u32 option" where
  "reduce_u32 x = pu_add (x AND 0xffff) (drop_bit 16 x)"

definition combine :: "u32 \<Rightarrow> u32 \<Rightarrow> u32" where
  "combine lower upper = lower OR push_bit 16 upper"

definition fletcher_step :: "u16 \<Rightarrow> fletcher \<Rightarrow> fletcher option" where
  "fletcher_step c = (\<lambda>(intermediate_a, intermediate_b). do {
     intermediate_a \<leftarrow> pu_add intermediate_a (ucast c);
     intermediate_b \<leftarrow> pu_add intermediate_b intermediate_a;
     Some (intermediate_a, intermediate_b)
   })"

definition reduce_pair :: "fletcher \<Rightarrow> fletcher option" where
  "reduce_pair = (\<lambda>(a, b). do { a \<leftarrow> reduce_u32 a; b \<leftarrow> reduce_u32 b; Some (a, b) })"

definition update_fletcher :: "fletcher \<Rightarrow> u16 seq \<Rightarrow> fletcher option" where
  "update_fletcher f data = do {
     n \<leftarrow> seq_num_chunks data max_chunk_size;
     f \<leftarrow> for_range 0 n (\<lambda>i f. do {
       (chunk_len, chunk) \<leftarrow> seq_get_chunk data max_chunk_size i;
       f \<leftarrow> for_range 0 chunk_len (\<lambda>j f. do { c \<leftarrow> vec_get chunk j; fletcher_step c f }) f;
       reduce_pair f
     }) f;
     reduce_pair f
   }"

definition fletcher_value :: "fletcher \<Rightarrow> u32" where
  "fletcher_value = (\<lambda>(a, b). combine a b)"

section \<open>Headers\<close>

type_synonym header = "u32 \<times> u32 \<times> u32 \<times> u32"

definition pub_to_be_bytes :: "'a::len word \<Rightarrow> u8 list" where
  "pub_to_be_bytes x = rev (le_split x)"

definition pub_from_be_bytes :: "u8 list \<Rightarrow> 'a::len word" where
  "pub_from_be_bytes s = le_join (rev s)"

definition header_as_u16_slice :: "header \<Rightarrow> u16 seq option" where
  "header_as_u16_slice h = do {
     let (magic, seq_number, start_addr, _) = h;
     u8_seq \<leftarrow> seq_update_slice (seq_new 12) 0 (pub_to_be_bytes magic) 0 4;
     u8_seq \<leftarrow> seq_update_slice u8_seq 4 (pub_to_be_bytes seq_number) 0 4;
     u8_seq \<leftarrow> seq_update_slice u8_seq 8 (pub_to_be_bytes start_addr) 0 4;
     for_range 0 3 (\<lambda>i u16_seq. do {
       s \<leftarrow> seq_slice u8_seq (i * 4) 2;
       u16_word \<leftarrow> array_from_seq 2 s;
       u16_seq \<leftarrow> vec_set u16_seq (2 * i + 1) (pub_from_be_bytes u16_word);
       s \<leftarrow> seq_slice u8_seq (i * 4 + 2) 2;
       u16_word \<leftarrow> array_from_seq 2 s;
       vec_set u16_seq (2 * i) (pub_from_be_bytes u16_word)
     }) (seq_new 6)
   }"

definition is_valid_header :: "header \<Rightarrow> bool option" where
  "is_valid_header h = do {
     let (magic_number, seq_number, start_addr, checksum) = h;
     slice \<leftarrow> header_as_u16_slice (magic_number, seq_number, start_addr, checksum);
     if magic_number = RIOTBOOT_MAGIC then do {
       fletcher \<leftarrow> update_fletcher new_fletcher slice;
       Some (fletcher_value fletcher = checksum)
     } else Some False
   }"

definition choose_step :: "header \<Rightarrow> bool \<times> u32 \<Rightarrow> (bool \<times> u32) option" where
  "choose_step = (\<lambda>(magic_number, seq_number, start_addr, checksum) (image_found, image). do {
     valid \<leftarrow> is_valid_header (magic_number, seq_number, start_addr, checksum);
     Some (if valid \<and> \<not> (image_found \<and> seq_number \<le> image) then (True, start_addr) else (image_found, image))
   })"

definition choose_image :: "header seq \<Rightarrow> (bool \<times> u32) option" where
  "choose_image images =
     for_range 0 (seq_len images) (\<lambda>i s. do { header \<leftarrow> vec_get images i; choose_step header s }) (False, 0)"

section \<open>The sums of the definition\<close>

fun sums :: "nat \<Rightarrow> nat \<Rightarrow> nat list \<Rightarrow> nat \<times> nat" where
  "sums a b [] = (a, b)"
| "sums a b (d # ds) = sums (a + d) (b + (a + d)) ds"

lemma sums_append: "sums a b (xs @ ys) = (case sums a b xs of (a', b') \<Rightarrow> sums a' b' ys)"
  by (induction a b xs rule: sums.induct) simp_all

lemma sums_mono: "a \<le> fst (sums a b ds) \<and> b \<le> snd (sums a b ds)"
  by (induction a b ds rule: sums.induct) (auto simp: add_leD1 intro: order_trans)

lemma sums_bound:
  assumes "\<forall>d \<in> set ds. d \<le> m"
  shows "fst (sums a b ds) \<le> a + m * length ds \<and>
    2 * snd (sums a b ds) \<le> 2 * b + 2 * (length ds * a) + m * (length ds * Suc (length ds))"
  using assms
proof (induction a b ds rule: sums.induct)
  case (2 a b d ds)
  then have d: "d \<le> m" and IH: "fst (sums (a + d) (b + (a + d)) ds) \<le> a + d + m * length ds"
    "2 * snd (sums (a + d) (b + (a + d)) ds) \<le> 2 * (b + (a + d)) + 2 * (length ds * (a + d)) + m * (length ds * Suc (length ds))"
    by auto
  have "length ds * d \<le> length ds * m" using d by simp
  then have "2 * (b + (a + d)) + 2 * (length ds * (a + d)) + m * (length ds * Suc (length ds))
      \<le> 2 * b + 2 * (Suc (length ds) * a) + m * (Suc (length ds) * Suc (Suc (length ds)))"
    using d by (simp add: algebra_simps add_mono mult_le_mono1)
  with IH d show ?case by simp
qed simp

lemma sums_cong:
  assumes "a mod m = a' mod m" "b mod m = b' mod m"
  shows "fst (sums a b ds) mod m = fst (sums a' b' ds) mod m \<and> snd (sums a b ds) mod m = snd (sums a' b' ds) mod m"
  using assms
proof (induction a b ds arbitrary: a' b' rule: sums.induct)
  case (2 a b d ds)
  from 2(2,3) have "(a + d) mod m = (a' + d) mod m" "(b + (a + d)) mod m = (b' + (a' + d)) mod m"
    by (metis mod_add_eq)+
  from 2(1) [OF this] show ?case by simp
qed simp

section \<open>No overflow\<close>

lemma pu_add_nat:
  assumes "unat x + unat y < 2 ^ LENGTH('a::len)"
  shows "\<exists>z. pu_add x (y :: 'a word) = Some z \<and> unat z = unat x + unat y"
  using assms by (simp add: pu_add_def unat_add_lem [THEN iffD1])

lemma fletcher_steps:
  assumes "fst (sums (unat a) (unat b) (map unat ds)) < 2 ^ 32" "snd (sums (unat a) (unat b) (map unat ds)) < 2 ^ 32"
  shows "\<exists>a' b'. foldM fletcher_step ds (a, b) = Some (a', b') \<and> sums (unat a) (unat b) (map unat ds) = (unat a', unat b')"
  using assms
proof (induction ds arbitrary: a b)
  case (Cons d ds)
  let ?s = "sums (unat a + unat d) (unat b + (unat a + unat d)) (map unat ds)"
  have "unat a + unat d < 2 ^ 32" "unat b + (unat a + unat d) < 2 ^ 32"
    using sums_mono [of "unat a + unat d" "unat b + (unat a + unat d)" "map unat ds"] Cons.prems by auto
  moreover have "unat (ucast d :: u32) = unat d" using unat_less_power [of d] by (simp add: unsigned_ucast_eq take_bit_nat_eq_self_iff)
  ultimately obtain a1 where a1: "pu_add a (ucast d) = Some a1" "unat a1 = unat a + unat d"
    using pu_add_nat [of a "ucast d"] by auto
  obtain b1 where "pu_add b a1 = Some b1" "unat b1 = unat b + (unat a + unat d)"
    using pu_add_nat [of b a1] \<open>unat b + (unat a + unat d) < 2 ^ 32\<close> a1(2) by auto
  with a1 Cons.IH [of a1 b1] Cons.prems show ?case by (simp add: fletcher_step_def)
qed simp

text \<open>\<open>red\<close> is the reduction on numbers: it keeps the residue modulo 65535 and stays positive.\<close>

definition red :: "nat \<Rightarrow> nat" where
  "red n = n mod 65536 + n div 65536"

lemma reduce_u32_red: "\<exists>z. reduce_u32 x = Some z \<and> unat z = red (unat x)"
proof -
  have lo: "unat (x AND 0xffff) = unat x mod 65536"
  proof -
    have "x AND 0xffff = take_bit 16 x" by (simp add: take_bit_eq_mask mask_eq_exp_minus_1)
    then show ?thesis by (simp only: unsigned_take_bit_eq) (simp add: take_bit_eq_mod)
  qed
  have hi: "unat (drop_bit 16 x) = unat x div 65536" by (simp only: unat_drop_bit_eq) (simp add: drop_bit_eq_div)
  have "unat x div 65536 < 65536" using unat_less_power [of x] by (simp add: less_mult_imp_div_less)
  then have "unat (x AND 0xffff) + unat (drop_bit 16 x) < 2 ^ LENGTH(32)"
    using mod_less_divisor [of 65536 "unat x"] unfolding lo hi by simp
  from pu_add_nat [OF this] show ?thesis unfolding reduce_u32_def lo hi red_def .
qed

lemma red_mod: "red n mod 65535 = n mod 65535"
proof -
  have "n = red n + 65535 * (n div 65536)" unfolding red_def using div_mult_mod_eq [of n 65536] by linarith
  then show ?thesis by (metis mod_mult_self2)
qed

lemma red_pos:
  assumes "0 < n"
  shows "0 < red n"
proof (rule ccontr)
  assume "\<not> 0 < red n"
  then have "n div 65536 = 0" "n mod 65536 = 0" unfolding red_def by simp_all
  then show False using div_mult_mod_eq [of n 65536] assms by linarith
qed

lemma red_bound: "n \<le> 65536 * k + 65535 \<Longrightarrow> red n \<le> 65535 + k"
proof -
  assume "n \<le> 65536 * k + 65535"
  then have "n div 65536 \<le> (65536 * k + 65535) div 65536" by (rule div_le_mono)
  then have "n div 65536 \<le> k" by simp
  moreover have "n mod 65536 \<le> 65535" using mod_less_divisor [of 65536 n] by linarith
  ultimately show ?thesis by (simp add: red_def)
qed

definition fletcher_ok :: "fletcher \<Rightarrow> bool" where
  "fletcher_ok = (\<lambda>(a, b). 0 < unat a \<and> unat a \<le> 65896 \<and> 0 < unat b \<and> unat b \<le> 131070)"

text \<open>\<open>congruent f s\<close>: the accumulators have the residues of the two sums.\<close>

definition congruent :: "fletcher \<Rightarrow> nat \<times> nat \<Rightarrow> bool" where
  "congruent = (\<lambda>(a, b) (sa, sb). unat a mod 65535 = sa mod 65535 \<and> unat b mod 65535 = sb mod 65535)"

definition do_chunk :: "u16 list \<Rightarrow> fletcher \<Rightarrow> fletcher option" where
  "do_chunk ds f = foldM fletcher_step ds f \<bind> reduce_pair"

lemma reduce_pair_red:
  "\<exists>a' b'. reduce_pair (a, b) = Some (a', b') \<and> unat a' = red (unat a) \<and> unat b' = red (unat b)"
  using reduce_u32_red [of a] reduce_u32_red [of b] by (auto simp: reduce_pair_def)

lemma do_chunk_ok:
  assumes "fletcher_ok (a, b)" "length ds \<le> 360"
  shows "\<exists>f. do_chunk ds (a, b) = Some f \<and> fletcher_ok f \<and> congruent f (sums (unat a) (unat b) (map unat ds))"
proof -
  let ?s = "sums (unat a) (unat b) (map unat ds)" and ?n = "length ds"
  have "unat d \<le> 65535" for d :: u16 using unat_less_power [of d] by simp
  then have bound: "fst ?s \<le> unat a + 65535 * ?n" "2 * snd ?s \<le> 2 * unat b + 2 * (?n * unat a) + 65535 * (?n * Suc ?n)"
    using sums_bound [of "map unat ds" 65535 "unat a" "unat b"] by auto
  have "?n * unat a \<le> 360 * 65896" using assms by (intro mult_le_mono) (simp_all add: fletcher_ok_def)
  moreover have "?n * Suc ?n \<le> 360 * 361" using assms(2) by (intro mult_le_mono) simp_all
  ultimately have s: "fst ?s \<le> 23658496" "snd ?s \<le> 4282371930"
    using bound assms by (auto simp: fletcher_ok_def)
  then obtain a1 b1 where ab: "foldM fletcher_step ds (a, b) = Some (a1, b1)" "?s = (unat a1, unat b1)"
    using fletcher_steps [of a b ds] by auto
  obtain a2 b2 where r: "reduce_pair (a1, b1) = Some (a2, b2)" "unat a2 = red (unat a1)" "unat b2 = red (unat b1)"
    using reduce_pair_red by blast
  have "0 < unat a1" "0 < unat b1"
    using sums_mono [of "unat a" "unat b" "map unat ds"] assms(1) ab(2) by (auto simp: fletcher_ok_def)
  moreover have "red (unat a1) \<le> 65896" "red (unat b1) \<le> 131070"
    using s ab(2) red_bound [of "unat a1" 361] red_bound [of "unat b1" 65535] by simp_all
  ultimately have "fletcher_ok (a2, b2)" using red_pos by (simp add: fletcher_ok_def r)
  moreover have "congruent (a2, b2) ?s" by (simp add: congruent_def ab r red_mod)
  ultimately show ?thesis using ab(1) r(1) by (simp add: do_chunk_def)
qed

lemma do_chunks_ok:
  assumes "fletcher_ok (a, b)" "\<forall>ds \<in> set cs. length ds \<le> 360"
  shows "\<exists>f. foldM do_chunk cs (a, b) = Some f \<and> fletcher_ok f \<and> congruent f (sums (unat a) (unat b) (map unat (concat cs)))"
  using assms
proof (induction cs arbitrary: a b)
  case Nil
  then show ?case by (simp add: congruent_def)
next
  case (Cons ds cs)
  from Cons.prems do_chunk_ok [of a b ds] obtain a1 b1 where
    ab: "do_chunk ds (a, b) = Some (a1, b1)" "fletcher_ok (a1, b1)" "congruent (a1, b1) (sums (unat a) (unat b) (map unat ds))"
    by auto
  from Cons.IH [OF ab(2)] Cons.prems obtain f where
    f: "foldM do_chunk cs (a1, b1) = Some f" "fletcher_ok f" "congruent f (sums (unat a1) (unat b1) (map unat (concat cs)))" by auto
  obtain sa sb where s: "sums (unat a) (unat b) (map unat ds) = (sa, sb)" by fastforce
  have "congruent f (sums sa sb (map unat (concat cs)))"
    using f(3) ab(3) sums_cong [of "unat a1" 65535 sa "unat b1" sb "map unat (concat cs)"]
    by (auto simp: s congruent_def split: prod.splits)
  with f ab(1) s show ?case by (simp add: sums_append)
qed

lemma update_fletcher_chunks:
  assumes "usize_fits (length data + 360)"
  shows "update_fletcher f data = foldM do_chunk (chunks 360 data) f \<bind> reduce_pair"
proof -
  have "for_range 0 (length (chunks 360 data)) (\<lambda>i f. do {
       (chunk_len, chunk) \<leftarrow> seq_get_chunk data max_chunk_size i;
       f \<leftarrow> for_range 0 chunk_len (\<lambda>j f. do { c \<leftarrow> vec_get chunk j; fletcher_step c f }) f;
       reduce_pair f }) f
     = for_range 0 (length (chunks 360 data)) (\<lambda>i f. do { ch \<leftarrow> vec_get (chunks 360 data) i; do_chunk ch f }) f"
  proof (rule for_range_cong)
    fix i f assume i: "i < length (chunks 360 data)"
    define ch where "ch = chunks 360 data ! i"
    have "seq_get_chunk data max_chunk_size i = Some (length ch, ch)"
      using nth_chunks_bound [OF i]
      by (simp add: seq_get_chunk_eq [OF assms] max_chunk_size_def ch_def nth_chunks [OF i] del: length_take length_drop)
    with i show "(do { (chunk_len, chunk) \<leftarrow> seq_get_chunk data max_chunk_size i;
       f \<leftarrow> for_range 0 chunk_len (\<lambda>j f. do { c \<leftarrow> vec_get chunk j; fletcher_step c f }) f;
       reduce_pair f }) = (do { ch \<leftarrow> vec_get (chunks 360 data) i; do_chunk ch f })"
      by (simp add: for_range_elements do_chunk_def ch_def [symmetric])
  qed
  then show ?thesis
    using seq_num_chunks_eq [of 360 data] assms by (simp add: update_fletcher_def max_chunk_size_def for_range_elements)
qed

text \<open>The number between 1 and 65535 with the residue of a positive sum.\<close>

definition ones_residue :: "nat \<Rightarrow> nat" where
  "ones_residue s = (if s mod 65535 = 0 then 65535 else s mod 65535)"

lemma ones_residue_unique: "0 < n \<Longrightarrow> n \<le> 65535 \<Longrightarrow> n mod 65535 = s mod 65535 \<Longrightarrow> n = ones_residue s"
  by (cases "n = 65535") (auto simp: ones_residue_def split: if_splits)

lemma red_le:
  assumes "n \<le> 131070"
  shows "red n \<le> 65535"
proof -
  have "n div 65536 \<le> 131070 div 65536" using assms by (rule div_le_mono)
  then have "n div 65536 \<le> 1" by simp
  moreover have "n mod 65536 \<le> 65535" using mod_less_divisor [of 65536 n] by linarith
  ultimately show ?thesis unfolding red_def using div_mult_mod_eq [of n 65536] assms by linarith
qed

lemma update_fletcher_sums:
  assumes "usize_fits (length data + 360)" "fletcher_ok (a, b)"
  shows "\<exists>a' b'. update_fletcher (a, b) data = Some (a', b') \<and>
    (unat a', unat b') = map_prod ones_residue ones_residue (sums (unat a) (unat b) (map unat data))"
proof -
  have "\<forall>ds \<in> set (chunks 360 data). length ds \<le> 360"
    by (auto simp: in_set_conv_nth nth_chunks)
  from do_chunks_ok [OF assms(2) this] obtain a1 b1 where
    ab: "foldM do_chunk (chunks 360 data) (a, b) = Some (a1, b1)" "fletcher_ok (a1, b1)"
      "congruent (a1, b1) (sums (unat a) (unat b) (map unat data))"
    by (auto simp: concat_chunks)
  obtain a2 b2 where r: "reduce_pair (a1, b1) = Some (a2, b2)" "unat a2 = red (unat a1)" "unat b2 = red (unat b1)"
    using reduce_pair_red by blast
  obtain sa sb where s: "sums (unat a) (unat b) (map unat data) = (sa, sb)" by fastforce
  have "unat a2 = ones_residue sa" "unat b2 = ones_residue sb"
    using ab(2,3) red_le [of "unat a1"] red_le [of "unat b1"] red_pos red_mod
    by (auto simp: fletcher_ok_def congruent_def s r intro!: ones_residue_unique)
  with ab(1) r(1) s show ?thesis by (simp add: update_fletcher_chunks [OF assms(1)])
qed

lemma combine_sum:
  assumes "unat a \<le> 65535" "unat b \<le> 65535"
  shows "unat (combine a b) = unat a + 65536 * unat b"
proof -
  have "push_bit 16 (unat b) < 2 ^ 32" using assms(2) by (simp add: push_bit_eq_mult)
  then have hi: "unat (push_bit 16 b) = push_bit 16 (unat b)"
    by (simp only: unsigned_push_bit_eq) (simp add: take_bit_nat_eq_self_iff)
  have "take_bit 16 (unat a) = unat a" using assms(1) by (simp add: take_bit_nat_eq_self_iff)
  then have "bit (unat a) n \<Longrightarrow> n < 16" for n by (metis bit_take_bit_iff)
  then have "unat a AND push_bit 16 (unat b) = 0"
    by (intro bit_eqI) (fastforce simp: bit_and_iff bit_push_bit_iff)
  then show ?thesis
    by (simp add: combine_def unsigned_or_eq hi disjunctive_add_eq_or [symmetric]) (simp add: push_bit_eq_mult)
qed

section \<open>Valid headers\<close>

definition lo16 :: "u32 \<Rightarrow> u16" where "lo16 x = ucast x"

definition hi16 :: "u32 \<Rightarrow> u16" where "hi16 x = ucast (drop_bit 16 x)"

lemma be_bytes_halves: "pub_to_be_bytes x = rev (le_split (hi16 x)) @ rev (le_split (lo16 x))"
proof -
  have "le_split x = le_split (lo16 x) @ le_split (hi16 x)"
  proof (rule nth_equalityI)
    fix i assume "i < length (le_split x)"
    then have i: "i < 4" by simp
    show "le_split x ! i = (le_split (lo16 x) @ le_split (hi16 x)) ! i"
    proof (rule bit_word_eqI)
      fix n assume "n < LENGTH(8)"
      then show "bit (le_split x ! i) n = bit ((le_split (lo16 x) @ le_split (hi16 x)) ! i) n"
        using i by (cases "i < 2") (auto simp: nth_append bit_le_split lo16_def hi16_def bit_simps algebra_simps)
    qed
  qed simp
  then show ?thesis by (simp add: pub_to_be_bytes_def)
qed

definition header_words :: "header \<Rightarrow> u16 list" where
  "header_words = (\<lambda>(m, s, a, _). [lo16 m, hi16 m, lo16 s, hi16 s, lo16 a, hi16 a])"

lemma from_be_half: "pub_from_be_bytes (rev (le_split (w :: u16))) = w"
  by (simp add: pub_from_be_bytes_def le_join_split)

lemma header_as_u16_slice_words: "header_as_u16_slice h = Some (header_words h)"
proof -
  obtain m n a c where h: "h = (m, n, a, c)" by (cases h)
  define bs where "bs = [rev (le_split (hi16 m)), rev (le_split (lo16 m)), rev (le_split (hi16 n)), rev (le_split (lo16 n)),
    rev (le_split (hi16 a)), rev (le_split (lo16 a))]"
  let ?all = "concat bs"
  have fits: "usize_fits k" if "k \<le> 12" for k using that by (simp add: usize_fits_def)
  have u: "do { u8_seq \<leftarrow> seq_update_slice (seq_new 12) 0 (pub_to_be_bytes m) 0 4;
       u8_seq \<leftarrow> seq_update_slice u8_seq 4 (pub_to_be_bytes n) 0 4;
       seq_update_slice u8_seq 8 (pub_to_be_bytes a) 0 4 } = Some ?all"
    by (simp add: seq_update_slice_eq fits be_bytes_halves bs_def)
  have slice: "seq_slice ?all (2 * i) 2 = Some (bs ! i)" if "i < 6" for i
  proof -
    have "i = 0 \<or> i = 1 \<or> i = 2 \<or> i = 3 \<or> i = 4 \<or> i = 5" using that by linarith
    then show ?thesis by (auto simp: seq_slice_eq fits bs_def)
  qed
  have sl: "seq_slice ?all 0 2 = Some (bs ! 0)" "seq_slice ?all 2 2 = Some (bs ! 1)" "seq_slice ?all 4 2 = Some (bs ! 2)"
    "seq_slice ?all 6 2 = Some (bs ! 3)" "seq_slice ?all 8 2 = Some (bs ! 4)" "seq_slice ?all 10 2 = Some (bs ! 5)"
    using slice [of 0] slice [of 1] slice [of 2] slice [of 3] slice [of 4] slice [of 5] by simp_all
  have sl1: "seq_slice ?all (Suc (Suc 0)) 2 = Some (bs ! 1)" using sl(2) by (simp only: numeral_2_eq_2)
  have new: "seq_new 6 = [0, 0, 0, 0, 0, 0 :: u16]" by code_simp
  have upt: "[0..<3] = [0, 1, 2 :: nat]" by code_simp
  have "for_range 0 3 (\<lambda>i u16_seq. do {
       s \<leftarrow> seq_slice ?all (i * 4) 2;
       u16_word \<leftarrow> array_from_seq 2 s;
       u16_seq \<leftarrow> vec_set u16_seq (2 * i + 1) (pub_from_be_bytes u16_word);
       s \<leftarrow> seq_slice ?all (i * 4 + 2) 2;
       u16_word \<leftarrow> array_from_seq 2 s;
       vec_set u16_seq (2 * i) (pub_from_be_bytes u16_word)
     }) (seq_new 6) = Some (header_words h)"
    by (simp add: for_range_def upt sl sl1 new array_from_seq_eq bs_def [symmetric])
      (simp add: bs_def from_be_half header_words_def h)
  then have "Some ?all \<bind> (\<lambda>u8_seq. for_range 0 3 (\<lambda>i u16_seq. do {
       s \<leftarrow> seq_slice u8_seq (i * 4) 2;
       u16_word \<leftarrow> array_from_seq 2 s;
       u16_seq \<leftarrow> vec_set u16_seq (2 * i + 1) (pub_from_be_bytes u16_word);
       s \<leftarrow> seq_slice u8_seq (i * 4 + 2) 2;
       u16_word \<leftarrow> array_from_seq 2 s;
       vec_set u16_seq (2 * i) (pub_from_be_bytes u16_word)
     }) (seq_new 6)) = Some (header_words h)" by simp
  then show ?thesis unfolding u [symmetric] by (simp add: header_as_u16_slice_def h bind_assoc)
qed

text \<open>The checksum of the definition: the two sums, started at 65535, modulo 65535.\<close>

definition fletcher32 :: "u16 list \<Rightarrow> nat" where
  "fletcher32 ds = (case sums 65535 65535 (map unat ds) of (a, b) \<Rightarrow> ones_residue a + 65536 * ones_residue b)"

lemma ones_residue_le: "ones_residue s \<le> 65535"
  using mod_less_divisor [of 65535 s] by (auto simp: ones_residue_def simp del: mod_less_divisor)

lemma fletcher_new_value:
  assumes "usize_fits (length data + 360)"
  shows "\<exists>f. update_fletcher new_fletcher data = Some f \<and> unat (fletcher_value f) = fletcher32 data"
proof -
  have ok: "fletcher_ok new_fletcher" by (simp add: fletcher_ok_def new_fletcher_def)
  obtain a b where ab: "update_fletcher new_fletcher data = Some (a, b)"
      "(unat a, unat b) = map_prod ones_residue ones_residue (sums 65535 65535 (map unat data))"
    using update_fletcher_sums [OF assms, of "0xffff" "0xffff"] ok by (auto simp: new_fletcher_def)
  obtain sa sb where s: "sums 65535 65535 (map unat data) = (sa, sb)" by fastforce
  have "unat (combine a b) = unat a + 65536 * unat b"
    using ab(2) ones_residue_le by (intro combine_sum) (auto simp: s)
  with ab s show ?thesis by (simp add: fletcher_value_def fletcher32_def)
qed

definition valid_header :: "header \<Rightarrow> bool" where
  "valid_header = (\<lambda>(m, s, a, c). m = RIOTBOOT_MAGIC \<and> unat c = fletcher32 (header_words (m, s, a, c)))"

lemma is_valid_header_eq: "is_valid_header h = Some (valid_header h)"
proof -
  obtain m s a c where h: "h = (m, s, a, c)" by (cases h)
  have "usize_fits (length (header_words h) + 360)" by (simp add: h header_words_def usize_fits_def)
  from fletcher_new_value [OF this] obtain f where
    "update_fletcher new_fletcher (header_words h) = Some f" "unat (fletcher_value f) = fletcher32 (header_words h)" by blast
  then show ?thesis by (auto simp: is_valid_header_def header_as_u16_slice_words valid_header_def h word_unat_eq_iff)
qed

lemma choose_image_fold: "choose_image images = foldM choose_step images (False, 0)"
  by (simp add: choose_image_def seq_len_def for_range_elements)

definition start_addrs :: "header list \<Rightarrow> u32 set" where
  "start_addrs hs = (\<lambda>(m, s, a, c). a) ` set (filter valid_header hs)"

lemma start_addrs_simps [simp]: "start_addrs [] = {}"
  "start_addrs ((m, s, a, c) # hs) = (if valid_header (m, s, a, c) then insert a (start_addrs hs) else start_addrs hs)"
  by (auto simp: start_addrs_def)

lemma choose_steps:
  "\<exists>img. foldM choose_step hs (f0, i0) = Some (f0 \<or> filter valid_header hs \<noteq> [], img) \<and>
    img \<in> insert i0 (start_addrs hs) \<and> (\<not> f0 \<and> filter valid_header hs \<noteq> [] \<longrightarrow> img \<in> start_addrs hs)"
proof (induction hs arbitrary: f0 i0)
  case (Cons h hs)
  obtain m s a c where h: "h = (m, s, a, c)" by (cases h)
  show ?case
  proof (cases "valid_header h \<and> \<not> (f0 \<and> s \<le> i0)")
    case True
    then have "choose_step h (f0, i0) = Some (True, a)" by (simp add: choose_step_def h is_valid_header_eq)
    with Cons [of True a] True show ?thesis by (auto simp: h)
  next
    case False
    then have "choose_step h (f0, i0) = Some (f0, i0)" by (auto simp: choose_step_def h is_valid_header_eq)
    with Cons [of f0 i0] False show ?thesis by (auto simp: h)
  qed
qed simp

section \<open>Properties\<close>

text \<open>
  C22: the Fletcher checksum never overflows. From the accumulators of a new checksum, or of an earlier update, an update with any data returns, without a panic in any of
  its additions, the two sums of the definition as numbers between 1 and 65535.
\<close>

theorem update_fletcher_correct:
  assumes "usize_fits (length data + 360)" "0 < unat a" "unat a \<le> 65896" "0 < unat b" "unat b \<le> 131070"
  shows "\<exists>a' b'. update_fletcher (a, b) data = Some (a', b') \<and>
    (unat a', unat b') = map_prod ones_residue ones_residue (sums (unat a) (unat b) (map unat data)) \<and>
    0 < unat a' \<and> unat a' \<le> 65535 \<and> 0 < unat b' \<and> unat b' \<le> 65535"
proof -
  have pos: "0 < ones_residue s" for s by (simp add: ones_residue_def)
  from update_fletcher_sums [OF assms(1), of a b] assms(2-) show ?thesis
    using ones_residue_le pos by (auto simp: fletcher_ok_def map_prod_def split: prod.splits)
qed

theorem update_fletcher_correct_witness:
  "\<exists>a b. update_fletcher (0xffff, 0xffff) [1, 2] = Some (a, b) \<and> unat a = 3 \<and> unat b = 4"
  using update_fletcher_correct [of "[1, 2]" "0xffff" "0xffff"] by (auto simp: usize_fits_def ones_residue_def)

text \<open>
  validity and choice. A header is valid exactly when it has the magic number and its checksum is that of the six half words of its other fields, low half
  first. \<open>choose_image\<close> never panics, finds an image exactly when some header is valid, and returns the start address of a valid header.
\<close>

theorem choose_image_correct:
  "is_valid_header h = Some (valid_header h)
    \<and> (\<exists>img. choose_image hs = Some (filter valid_header hs \<noteq> [], img) \<and>
        (filter valid_header hs \<noteq> [] \<longrightarrow> img \<in> start_addrs hs))"
  using choose_steps [of hs False 0] by (auto simp: is_valid_header_eq choose_image_fold)

definition make_header :: "u32 \<Rightarrow> u32 \<Rightarrow> header" where
  "make_header s a = (RIOTBOOT_MAGIC, s, a, word_of_nat (fletcher32 (header_words (RIOTBOOT_MAGIC, s, a, 0))))"

lemma make_header_valid: "valid_header (make_header s a)"
proof -
  have "fletcher32 ds < 2 ^ 32" for ds
  proof -
    obtain x y where "sums 65535 65535 (map unat ds) = (x, y)" by fastforce
    then show ?thesis using ones_residue_le [of x] ones_residue_le [of y] by (simp add: fletcher32_def)
  qed
  then show ?thesis by (simp add: valid_header_def make_header_def header_words_def unat_of_nat)
qed

theorem choose_image_correct_witness:
  "\<exists>img. choose_image [(0, 0, 0, 0), make_header 5 100] = Some (True, img)"
  using choose_image_correct [of "(0, 0, 0, 0)" "[(0, 0, 0, 0), make_header 5 100]"] make_header_valid [of 5 100] by (auto split: if_splits)

text \<open>
  C23: the choice compares a version with an address. Of two valid headers the second is taken exactly when its version is above the start
  address of the first, whatever the version of the first: the newer image is passed over when the address of the older one is larger.
\<close>

theorem choose_image_compares_address:
  assumes "valid_header (m1, s1, a1, c1)" "valid_header (m2, s2, a2, c2)"
  shows "choose_image [(m1, s1, a1, c1), (m2, s2, a2, c2)] = Some (True, if s2 \<le> a1 then a1 else a2)"
  using assms by (simp add: choose_image_fold choose_step_def is_valid_header_eq)

theorem choose_image_compares_address_witness:
  "choose_image [make_header 1 0x1000, make_header 2 0x2000] = Some (True, 0x1000)"
  using choose_image_compares_address make_header_valid [of 1 "0x1000"] make_header_valid [of 2 "0x2000"]
  by (simp add: make_header_def)

end
