(* ===== verification/Fstar_Backend.thy ===== *)
theory Fstar_Backend
  imports Var_Context Seq
begin

text \<open>
  \<open>language/src/rustspec_to_fstar.rs\<close>: the back end that prints a checked program for F*. A document of the crate \<open>pretty\<close> is the term of the calls that build it; laying it out is left to the
  crate. A document that is one \<open>as_string\<close> and is only compared or formatted again is its string. The functions of the crates \<open>regex\<close> and \<open>heck\<close> are the parameter \<open>lib\<close>.

  A panic is \<open>None\<close>. The table \<open>ID_MAP\<close> and the counter \<open>ID_COUNTER\<close> are passed as a state, in the order in which the code evaluates its calls; the flag of the state says whether an error has been
  reported. The recursion along the types of \<open>typ_dict\<close> has a bound \<open>n\<close>, and \<open>None\<close> is also the result when it is reached.
\<close>

section \<open>Documents\<close>

datatype doc =
    D_nil
  | D_string string
  | D_line
  | D_line0
  | D_hardline
  | D_append doc doc
  | D_group doc
  | D_nest nat doc

abbreviation D_space :: doc where
  "D_space \<equiv> D_string '' ''"

text \<open>\<open>d.append(d1).append(d2)...\<close>\<close>

fun cat :: "doc list \<Rightarrow> doc" where
  "cat [] = D_nil"
| "cat (d # ds) = foldl D_append d ds"

definition doc_concat :: "doc list \<Rightarrow> doc" where
  "doc_concat ds = foldl D_append D_nil ds"

fun intersperse :: "doc list \<Rightarrow> doc \<Rightarrow> doc" where
  "intersperse [] sep = D_nil"
| "intersperse (d # ds) sep = foldl (\<lambda>acc e. D_append (D_append acc sep) e) d ds"

text \<open>A \<open>map\<close> whose closure changes the state, run in order.\<close>

fun mapS :: "('a \<Rightarrow> 's \<Rightarrow> ('b \<times> 's) option) \<Rightarrow> 'a list \<Rightarrow> 's \<Rightarrow> ('b list \<times> 's) option" where
  "mapS f [] s = Some ([], s)"
| "mapS f (x # xs) s = do { (y, s) \<leftarrow> f x s; (ys, s) \<leftarrow> mapS f xs s; Some (y # ys, s) }"

declare Option.bind_option_cong [fundef_cong]

lemma mapS_cong [fundef_cong]:
  assumes "xs = ys" "s = t" "\<And>x s. x \<in> set ys \<Longrightarrow> f x s = g x s"
  shows "mapS f xs s = mapS g ys t"
  using assms(3) unfolding assms(1,2) by (induction ys arbitrary: t) (auto intro!: Option.bind_option_cong split: prod.split)

section \<open>Combinators\<close>

definition make_paren :: "doc \<Rightarrow> doc" where
  "make_paren e = D_group (cat [D_string ''('', D_nest 2 (D_group (cat [D_line0, e])), D_string '')''])"

definition make_begin_paren :: "doc \<Rightarrow> doc" where
  "make_begin_paren e = cat [D_string ''begin'', D_nest 2 (D_group (cat [D_line, e])), D_line, D_string ''end'']"

definition make_tuple :: "doc list \<Rightarrow> doc" where
  "make_tuple args = D_group (cat [D_string ''('',
     D_nest 2 (D_group (cat [D_line0, intersperse args (cat [D_string '','', D_line])])), D_line0, D_string '')''])"

definition make_list :: "doc list \<Rightarrow> doc" where
  "make_list args = D_group (cat [D_string ''['',
     D_nest 2 (D_group (cat [D_line0, intersperse args (cat [D_string '';'', D_line])])), D_line0, D_string '']''])"

definition make_typ_tuple :: "doc list \<Rightarrow> doc" where
  "make_typ_tuple args = D_group (cat [D_string ''('',
     D_nest 2 (D_group (cat [D_line0, intersperse args (cat [D_space, D_string ''&'', D_line])])), D_line0, D_string '')''])"

fun carrier_operator :: "early_return_type \<Rightarrow> string" where
  "carrier_operator R_Result = ''?''"
| "carrier_operator R_Option = ''*''"

definition typ_annotation :: "doc option \<Rightarrow> doc" where
  "typ_annotation typ = (case typ of None \<Rightarrow> D_nil | Some tau \<Rightarrow> cat [D_space, D_string '':'', D_space, tau])"

definition make_let_binding :: "doc \<Rightarrow> doc option \<Rightarrow> doc \<Rightarrow> bool \<Rightarrow> early_return_type option \<Rightarrow> doc" where
  "make_let_binding pat typ expr toplevel monadic = cat [
     D_nest 2 (D_append (D_group (cat [D_string ''let'',
         (case monadic of None \<Rightarrow> D_nil | Some c \<Rightarrow> D_string (carrier_operator c)),
         D_space, D_group (cat [pat, typ_annotation typ]), D_space, D_string ''='']))
       (cat [D_line, D_group expr])),
     (if toplevel then D_nil else cat [D_line, D_string ''in''])]"

definition make_error_returning_let_binding :: "doc \<Rightarrow> doc option \<Rightarrow> doc \<Rightarrow> doc \<Rightarrow> doc" where
  "make_error_returning_let_binding pat typ expr kont = cat [
     D_string ''begin'', D_space, D_string ''match'', D_space, make_paren (D_group expr), D_space, D_string ''with'', D_line,
     D_string ''| Err x -> Err x'', D_line,
     D_nest 2 (D_append (D_group (cat [D_string ''| Ok '', D_space, make_paren (D_group (cat [pat, typ_annotation typ])),
         D_space, D_string ''->''])) (cat [D_line, kont])),
     D_space, D_string ''end'']"

section \<open>Names\<close>

record text_lib =
  replace_all :: "string \<Rightarrow> string \<Rightarrow> string \<Rightarrow> string"
  to_snake_case :: "string \<Rightarrow> string"
  to_title_case :: "string \<Rightarrow> string"

record codegen =
  cg_id_map :: "usize \<rightharpoonup> usize"
  cg_id_counter :: usize
  cg_reported :: bool

definition fresh_codegen_id :: "codegen \<Rightarrow> usize \<times> codegen" where
  "fresh_codegen_id s = (cg_id_counter s, s\<lparr>cg_id_counter := cg_id_counter s + 1\<rparr>)"

definition translate_ident_str :: "text_lib \<Rightarrow> string \<Rightarrow> string" where
  "translate_ident_str lib ident_str =
     (let ident_str = replace_all lib (''(?P<prefix>(U|I))(?P<digits>'' @ [CHR 0x5c] @ ''d{1,3})'') ''${prefix}int${digits}'' ident_str;
          ident_str = replace_all lib ''iint'' ''int'' ident_str;
          snake_case_ident = to_snake_case lib ident_str
      in if snake_case_ident = ''new'' then ''new_'' else snake_case_ident)"

fun dec_digits :: "nat \<Rightarrow> string" where
  "dec_digits n = (if n < 10 then [char_of (48 + n)] else dec_digits (n div 10) @ [char_of (48 + n mod 10)])"

fun hex_digits :: "nat \<Rightarrow> string" where
  "hex_digits n = (if n < 16 then [hex_char n] else hex_digits (n div 16) @ [hex_char (n mod 16)])"

definition translate_toplevel_ident :: "text_lib \<Rightarrow> top_level_ident \<Rightarrow> string" where
  "translate_toplevel_ident lib x = (case tli_kind x of
     K_Type \<Rightarrow>
       (let s = translate_ident_str lib (tli_string x) in
        if s \<in> {''uint128'', ''uint64'', ''uint32'', ''uint16'', ''uint8'', ''int128'', ''int64'', ''int32'', ''int16'', ''int8'',
              ''byte_seq'', ''public_byte_seq'', ''option'', ''result''}
        then s else s @ ''_t'')
   | K_Constant \<Rightarrow> translate_ident_str lib (tli_string x @ ''_v'')
   | _ \<Rightarrow> translate_ident_str lib (tli_string x))"

definition codegen_id :: "usize \<Rightarrow> codegen \<Rightarrow> usize \<times> codegen" where
  "codegen_id i s = (case cg_id_map s i of
     Some c_id \<Rightarrow> (c_id, s)
   | None \<Rightarrow> (let (c_id, s) = fresh_codegen_id s in (c_id, s\<lparr>cg_id_map := (cg_id_map s)(i \<mapsto> c_id)\<rparr>)))"

definition translate_ident :: "text_lib \<Rightarrow> ident \<Rightarrow> codegen \<Rightarrow> string \<times> codegen" where
  "translate_ident lib x s = (case x of
     Unresolved str \<Rightarrow> (translate_ident_str lib str, s)
   | TopLevel t \<Rightarrow> (translate_toplevel_ident lib t, s)
   | Local y \<Rightarrow> (let (c_id, s) = codegen_id (li_id y) s in (translate_ident_str lib (li_name y @ ''_'' @ dec_digits c_id), s)))"

definition uppercase_first_letter :: "string \<Rightarrow> string" where
  "uppercase_first_letter s = (case s of [] \<Rightarrow> [] | c # cs \<Rightarrow>
     (if 97 \<le> (of_char c :: nat) \<and> (of_char c :: nat) \<le> 122 then char_of ((of_char c :: nat) - 32) else c) # cs)"

definition translate_constructor :: "top_level_ident \<Rightarrow> string" where
  "translate_constructor enum_name = uppercase_first_letter (tli_string enum_name)"

definition translate_enum_name :: "text_lib \<Rightarrow> top_level_ident \<Rightarrow> string" where
  "translate_enum_name lib enum_name = translate_toplevel_ident lib enum_name"

definition translate_enum_case_name :: "text_lib \<Rightarrow> base_typ \<Rightarrow> top_level_ident \<Rightarrow> doc option" where
  "translate_enum_case_name lib enum_name case_name = (case enum_name of
     T_Named name args \<Rightarrow> Some (D_append (D_string (translate_constructor case_name))
       (if tli_string name = ''Option'' \<or> tli_string name = ''Result'' then D_nil
        else cat [D_string ''_'', D_string (translate_toplevel_ident lib name)]))
   | _ \<Rightarrow> None)"

section \<open>Types, literals and patterns\<close>

fun collect_docs :: "doc option list \<Rightarrow> doc list option" where
  "collect_docs [] = Some []"
| "collect_docs (x # xs) = do { y \<leftarrow> x; ys \<leftarrow> collect_docs xs; Some (y # ys) }"

fun translate_base_typ :: "text_lib \<Rightarrow> base_typ \<Rightarrow> doc option" where
  "translate_base_typ lib T_Bool = Some (D_string ''bool'')"
| "translate_base_typ lib T_UInt8 = Some (D_string ''pub_uint8'')"
| "translate_base_typ lib T_Int8 = Some (D_string ''pub_int8'')"
| "translate_base_typ lib T_UInt16 = Some (D_string ''pub_uint16'')"
| "translate_base_typ lib T_Int16 = Some (D_string ''pub_int16'')"
| "translate_base_typ lib T_UInt32 = Some (D_string ''pub_uint32'')"
| "translate_base_typ lib T_Int32 = Some (D_string ''pub_int32'')"
| "translate_base_typ lib T_UInt64 = Some (D_string ''pub_uint64'')"
| "translate_base_typ lib T_Int64 = Some (D_string ''pub_int64'')"
| "translate_base_typ lib T_UInt128 = Some (D_string ''pub_uint128'')"
| "translate_base_typ lib T_Int128 = Some (D_string ''pub_int128'')"
| "translate_base_typ lib T_Usize = Some (D_string ''uint_size'')"
| "translate_base_typ lib T_Isize = Some (D_string ''int_size'')"
| "translate_base_typ lib T_Str = Some (D_string ''string'')"
| "translate_base_typ lib (T_Seq tau) = do {
     d \<leftarrow> translate_base_typ lib tau;
     Some (D_group (cat [D_string ''seq'', D_space, d]))
   }"
| "translate_base_typ lib (T_Enum cases type_args) = None"
| "translate_base_typ lib (T_Array sz tau) = do {
     d \<leftarrow> translate_base_typ lib tau;
     Some (D_group (cat [D_string ''lseq'', D_space, d, D_space,
       D_string (case sz of Size_Ident x \<Rightarrow> tli_string x | Size_Integer i \<Rightarrow> dec_digits i)]))
   }"
| "translate_base_typ lib (T_Named ident None) = Some (D_string (translate_toplevel_ident lib ident))"
| "translate_base_typ lib (T_Named ident (Some args)) = do {
     ds \<leftarrow> collect_docs (map (translate_base_typ lib) args);
     Some (make_paren (cat [D_string (translate_toplevel_ident lib ident), D_space, intersperse ds D_space]))
   }"
| "translate_base_typ lib (T_Variable v) = Some (D_string ([CHR 0x27] @ ''t'' @ dec_digits v))"
| "translate_base_typ lib (T_Tuple args) =
     (if args = [] then Some (D_string ''unit'')
      else do { ds \<leftarrow> collect_docs (map (translate_base_typ lib) args); Some (make_typ_tuple ds) })"
| "translate_base_typ lib (T_NaturalInteger secrecy modulo_val bits) =
     Some (cat [D_string ''nat_mod'', D_space, D_string (''0x'' @ modulo_val)])"
| "translate_base_typ lib T_Placeholder = None"

definition translate_typ :: "text_lib \<Rightarrow> Typ \<Rightarrow> doc option" where
  "translate_typ lib t = translate_base_typ lib (snd t)"

text \<open>
  \<open>{:#x}\<close> of an unsigned integer and of a \<open>SignedInteger\<close>: the sign is written unless the number is positive, so also before zero, and \<open>abs\<close> of the
  least number panics.
\<close>

definition hex_unsigned :: "'a::len word \<Rightarrow> string" where
  "hex_unsigned x = ''0x'' @ hex_digits (unat x)"

definition hex_signed :: "'a::len word \<Rightarrow> string option" where
  "hex_signed x = (if sint x = - (2 ^ (LENGTH('a) - 1)) then None
     else Some ((if 0 < sint x then [] else ''-'') @ ''0x'' @ hex_digits (nat \<bar>sint x\<bar>)))"

definition dec_signed :: "'a::len word \<Rightarrow> string" where
  "dec_signed x = (if sint x < 0 then ''-'' else []) @ dec_digits (nat \<bar>sint x\<bar>)"

fun translate_literal :: "literal \<Rightarrow> bool \<Rightarrow> string option" where
  "translate_literal L_Unit pattern_matching = Some ''()''"
| "translate_literal (L_Bool b) pattern_matching = Some (if b then ''true'' else ''false'')"
| "translate_literal (L_Int128 x) pattern_matching = map_option (\<lambda>h. ''pub_i128 '' @ h) (hex_signed x)"
| "translate_literal (L_UInt128 x) pattern_matching = Some (''pub_u128 '' @ hex_unsigned x)"
| "translate_literal (L_Int64 x) pattern_matching = map_option (\<lambda>h. h @ ''L'') (hex_signed x)"
| "translate_literal (L_UInt64 x) pattern_matching = Some (hex_unsigned x @ ''uL'')"
| "translate_literal (L_Int32 x) pattern_matching = map_option (\<lambda>h. h @ ''l'') (hex_signed x)"
| "translate_literal (L_UInt32 x) pattern_matching = Some (hex_unsigned x @ ''ul'')"
| "translate_literal (L_Int16 x) pattern_matching = map_option (\<lambda>h. h @ ''s'') (hex_signed x)"
| "translate_literal (L_UInt16 x) pattern_matching = Some (hex_unsigned x @ ''us'')"
| "translate_literal (L_Int8 x) pattern_matching =
     map_option (\<lambda>h. if pattern_matching then h @ ''y'' else ''pub_i8 '' @ h) (hex_signed x)"
| "translate_literal (L_UInt8 x) pattern_matching =
     Some (if pattern_matching then hex_unsigned x @ ''uy'' else ''pub_u8 '' @ hex_unsigned x)"
| "translate_literal (L_Isize x) pattern_matching = Some (dec_signed x)"
| "translate_literal (L_Usize x) pattern_matching = Some (dec_digits (unat x))"
| "translate_literal (L_UnspecifiedInt x) pattern_matching = None"
| "translate_literal (L_Str msg) pattern_matching = Some ([CHR 0x22] @ msg @ [CHR 0x22])"

fun translate_pattern :: "text_lib \<Rightarrow> pattern \<Rightarrow> codegen \<Rightarrow> (doc \<times> codegen) option" where
  "translate_pattern lib (P_EnumCase ty_name name None) s = do {
     d \<leftarrow> translate_enum_case_name lib ty_name name;
     Some (d, s)
   }"
| "translate_pattern lib (P_EnumCase ty_name name (Some inner_pat)) s = do {
     d \<leftarrow> translate_enum_case_name lib ty_name name;
     (p, s) \<leftarrow> translate_pattern lib inner_pat s;
     Some (cat [d, D_space, make_paren p], s)
   }"
| "translate_pattern lib (P_IdentPat x m) s = (let (d, s) = translate_ident lib x s in Some (D_string d, s))"
| "translate_pattern lib P_WildCard s = Some (D_string ''_'', s)"
| "translate_pattern lib (P_LiteralPat l) s = do { d \<leftarrow> translate_literal l True; Some (D_string d, s) }"
| "translate_pattern lib (P_Tuple pats) s = do {
     (ds, s) \<leftarrow> mapS (translate_pattern lib) pats s;
     Some (make_tuple ds, s)
   }"

section \<open>Operators\<close>

text \<open>\<open>get_type_default\<close>: the zero of an integer type, public or secret.\<close>

definition secret_default :: "top_level_ident \<Rightarrow> literal \<Rightarrow> expression" where
  "secret_default name l = E_FuncCall None name [(E_Lit l, Consumed)] None"

definition get_type_default :: "base_typ \<Rightarrow> expression option" where
  "get_type_default t = (case t of
     T_UInt8 \<Rightarrow> Some (E_Lit (L_UInt8 0))
   | T_Int8 \<Rightarrow> Some (E_Lit (L_Int8 0))
   | T_UInt16 \<Rightarrow> Some (E_Lit (L_UInt16 0))
   | T_Int16 \<Rightarrow> Some (E_Lit (L_Int16 0))
   | T_UInt32 \<Rightarrow> Some (E_Lit (L_UInt32 0))
   | T_Int32 \<Rightarrow> Some (E_Lit (L_Int32 0))
   | T_UInt64 \<Rightarrow> Some (E_Lit (L_UInt64 0))
   | T_Int64 \<Rightarrow> Some (E_Lit (L_Int64 0))
   | T_UInt128 \<Rightarrow> Some (E_Lit (L_UInt128 0))
   | T_Int128 \<Rightarrow> Some (E_Lit (L_Int128 0))
   | T_Usize \<Rightarrow> Some (E_Lit (L_Usize 0))
   | T_Isize \<Rightarrow> Some (E_Lit (L_Isize 0))
   | T_Named name None \<Rightarrow> map_of [
       (''U8'', secret_default name (L_UInt8 0)), (''I8'', secret_default name (L_Int8 0)),
       (''U16'', secret_default name (L_UInt16 0)), (''I16'', secret_default name (L_Int16 0)),
       (''U32'', secret_default name (L_UInt32 0)), (''I32'', secret_default name (L_Int32 0)),
       (''U64'', secret_default name (L_UInt64 0)), (''I64'', secret_default name (L_Int64 0)),
       (''U128'', secret_default name (L_UInt128 0)), (''I128'', secret_default name (L_Int128 0))] (tli_string name)
   | _ \<Rightarrow> None)"

fun natmod_binop :: "bin_op_kind \<Rightarrow> string option" where
  "natmod_binop B_Sub = Some ''-%''"
| "natmod_binop B_Add = Some ''+%''"
| "natmod_binop B_Mul = Some ''*%''"
| "natmod_binop B_Div = Some ''/%''"
| "natmod_binop B_Eq = Some ''=%''"
| "natmod_binop op = None"

fun seq_binop :: "bin_op_kind \<Rightarrow> string option" where
  "seq_binop B_Sub = Some ''minus''"
| "seq_binop B_Add = Some ''add''"
| "seq_binop B_Mul = Some ''mul''"
| "seq_binop B_Div = Some ''div''"
| "seq_binop B_BitXor = Some ''xor''"
| "seq_binop B_BitOr = Some ''or''"
| "seq_binop B_BitAnd = Some ''and''"
| "seq_binop B_Eq = Some ''eq''"
| "seq_binop B_Ne = Some ''neq''"
| "seq_binop op = None"

fun size_binop :: "bin_op_kind \<Rightarrow> bool \<Rightarrow> string option" where
  "size_binop B_Sub u = Some ''-''"
| "size_binop B_Add u = Some ''+''"
| "size_binop B_Mul u = Some ''*''"
| "size_binop B_Div u = Some ''/''"
| "size_binop B_Rem u = Some ''%''"
| "size_binop B_Lt u = Some ''<''"
| "size_binop B_Le u = Some ''<=''"
| "size_binop B_Gt u = Some ''>''"
| "size_binop B_Ge u = Some ''>=''"
| "size_binop B_Shl True = Some ''`usize_shift_left`''"
| "size_binop B_Shr True = Some ''`usize_shift_right`''"
| "size_binop B_BitAnd True = Some ''`usize_bit_and`''"
| "size_binop B_BitOr True = Some ''`usize_bit_or`''"
| "size_binop B_BitXor True = Some ''`usize_bit_xor`''"
| "size_binop B_BitAnd False = Some ''`isize_bit_and`''"
| "size_binop B_BitOr False = Some ''`isize_bit_or`''"
| "size_binop B_BitXor False = Some ''`usize_bit_xor`''"
| "size_binop op u = None"

fun generic_binop :: "bin_op_kind \<Rightarrow> string" where
  "generic_binop B_Rem = ''%.''"
| "generic_binop B_Sub = ''-.''"
| "generic_binop B_Add = ''+.''"
| "generic_binop B_Mul = ''*.''"
| "generic_binop B_Div = ''/.''"
| "generic_binop B_BitXor = ''^.''"
| "generic_binop B_BitAnd = ''&.''"
| "generic_binop B_BitOr = ''|.''"
| "generic_binop B_Shl = ''`shift_left`''"
| "generic_binop B_Shr = ''`shift_right`''"
| "generic_binop B_Lt = ''<.''"
| "generic_binop B_Le = ''<=.''"
| "generic_binop B_Ge = ''>=.''"
| "generic_binop B_Gt = ''>.''"
| "generic_binop B_Ne = ''<>''"
| "generic_binop B_Eq = ''=''"
| "generic_binop B_And = ''&&''"
| "generic_binop B_Or = ''||''"

fun translate_binop :: "nat \<Rightarrow> top_level_context \<Rightarrow> bin_op_kind \<Rightarrow> base_typ \<Rightarrow> codegen \<Rightarrow> (string \<times> codegen) option" where
  "translate_binop 0 tlc op t s = None"
| "translate_binop (Suc n) tlc op t s = (case t of
     T_Named ident args \<Rightarrow> (case ctx_typ_dict tlc ident of
         Some (inner_ty, entry) \<Rightarrow>
           (if entry = D_NaturalInteger then map_option (\<lambda>d. (d, s)) (natmod_binop op)
            else translate_binop n tlc op (snd inner_ty) s)
       | None \<Rightarrow> Some (generic_binop op, s))
   | T_Seq inner_ty \<Rightarrow> do {
       (d, s) \<leftarrow> translate_binop n tlc op inner_ty s;
       op_str \<leftarrow> seq_binop op;
       Some (''`seq_'' @ op_str @ '' ('' @ d @ '')`'', s)
     }
   | T_Array sz inner_ty \<Rightarrow> do {
       (d, s) \<leftarrow> translate_binop n tlc op inner_ty s;
       op_str \<leftarrow> seq_binop op;
       Some (''`array_'' @ op_str @ '' ('' @ d @ '')`'', s)
     }
   | T_Usize \<Rightarrow> Some (case size_binop op True of Some d \<Rightarrow> d | None \<Rightarrow> generic_binop op, s)
   | T_Isize \<Rightarrow>
       (if op = B_Shl \<or> op = B_Shr then Some (''---ERROR---'', s\<lparr>cg_reported := True\<rparr>)
        else Some (case size_binop op False of Some d \<Rightarrow> d | None \<Rightarrow> generic_binop op, s))
   | _ \<Rightarrow> Some (generic_binop op, s))"

section \<open>Function names\<close>

datatype func_prefix = FP_Regular | FP_Array array_size base_typ | FP_Seq base_typ | FP_NatMod string usize

fun translate_prefix_for_func_name :: "nat \<Rightarrow> text_lib \<Rightarrow> top_level_context \<Rightarrow> base_typ \<Rightarrow> (string \<times> func_prefix) option" where
  "translate_prefix_for_func_name 0 lib tlc prefix = None"
| "translate_prefix_for_func_name (Suc n) lib tlc prefix = (case prefix of
     T_Bool \<Rightarrow> None
   | T_UInt8 \<Rightarrow> Some (''pub_uint8'', FP_Regular)
   | T_Int8 \<Rightarrow> Some (''pub_int8'', FP_Regular)
   | T_UInt16 \<Rightarrow> Some (''pub_uint16'', FP_Regular)
   | T_Int16 \<Rightarrow> Some (''pub_int16'', FP_Regular)
   | T_UInt32 \<Rightarrow> Some (''pub_uint32'', FP_Regular)
   | T_Int32 \<Rightarrow> Some (''pub_int32'', FP_Regular)
   | T_UInt64 \<Rightarrow> Some (''pub_uint64'', FP_Regular)
   | T_Int64 \<Rightarrow> Some (''pub_int64'', FP_Regular)
   | T_UInt128 \<Rightarrow> Some (''pub_uint128'', FP_Regular)
   | T_Int128 \<Rightarrow> Some (''pub_int128'', FP_Regular)
   | T_Usize \<Rightarrow> Some (''uint_size'', FP_Regular)
   | T_Isize \<Rightarrow> Some (''int_size'', FP_Regular)
   | T_Str \<Rightarrow> Some (''string'', FP_Regular)
   | T_Enum cases type_args \<Rightarrow> None
   | T_Seq inner_ty \<Rightarrow> Some (''seq'', FP_Seq inner_ty)
   | T_Array sz inner_ty \<Rightarrow> Some (''array'', FP_Array sz inner_ty)
   | T_Named name args \<Rightarrow> (case ctx_typ_dict tlc name of
         Some (alias_typ, entry) \<Rightarrow>
           (if entry = D_Enum then Some (translate_ident_str lib (tli_string name), FP_Regular)
            else translate_prefix_for_func_name n lib tlc (snd alias_typ))
       | None \<Rightarrow> Some (translate_ident_str lib (tli_string name), FP_Regular))
   | T_Variable v \<Rightarrow> None
   | T_Tuple args \<Rightarrow> None
   | T_NaturalInteger secrecy modulo_val bits \<Rightarrow> Some (''nat'', FP_NatMod modulo_val bits)
   | T_Placeholder \<Rightarrow> None)"

definition secret_int_names :: "string set" where
  "secret_int_names = {''uint128'', ''uint64'', ''uint32'', ''uint16'', ''uint8'', ''int128'', ''int64'', ''int32'', ''int16'', ''int8''}"

definition encoded_functions :: "string set" where
  "encoded_functions = {''to_public_byte_seq_le'', ''to_public_byte_seq_be'', ''to_byte_seq_le'', ''to_byte_seq_be'',
     ''from_public_byte_seq_le'', ''from_public_byte_seq_be'', ''from_byte_seq_le'', ''from_byte_seq_be''}"

text \<open>
  \<open>translate_expression(get_type_default(t))\<close>: a literal, or a secret constructor applied to one. Lemma \<open>translate_default_eq\<close> below shows that this is the translation of
  the expression.
\<close>

definition translate_func_name_none :: "text_lib \<Rightarrow> top_level_ident \<Rightarrow> string" where
  "translate_func_name_none lib name =
     (let name = translate_toplevel_ident lib name in if name \<in> secret_int_names then ''secret'' else name)"

definition translate_default :: "text_lib \<Rightarrow> base_typ \<Rightarrow> doc option" where
  "translate_default lib t = do {
     e \<leftarrow> get_type_default t;
     (case e of
        E_Lit l \<Rightarrow> map_option D_string (translate_literal l False)
      | E_FuncCall None name [(E_Lit l, b)] ts \<Rightarrow> do {
          d \<leftarrow> translate_literal l False;
          Some (cat [D_string (translate_func_name_none lib name), doc_concat [],
            doc_concat [cat [D_space, make_paren (D_string d)]], D_nil])
        }
      | _ \<Rightarrow> None)
   }"

definition modulo_args :: "string \<Rightarrow> func_prefix \<Rightarrow> doc list option" where
  "modulo_args module_name info =
     (if module_name = ''nat'' then (case info of FP_NatMod modulo_val bits \<Rightarrow> Some [D_string (''0x'' @ modulo_val)] | _ \<Rightarrow> None)
      else Some [])"

definition encoding_args :: "string \<Rightarrow> string \<Rightarrow> func_prefix \<Rightarrow> doc list option" where
  "encoding_args module_name func info =
     (if module_name = ''nat'' \<and> func \<in> encoded_functions then
        (case info of
           FP_NatMod modulo_val bits \<Rightarrow> do { b \<leftarrow> usize_add bits 7; Some [D_string (dec_digits (b div 8))] }
         | _ \<Rightarrow> None)
      else Some [])"

definition default_args :: "text_lib \<Rightarrow> string \<Rightarrow> string \<Rightarrow> func_prefix \<Rightarrow> doc list option" where
  "default_args lib module_name func info =
     (if module_name = ''array'' \<and> func \<in> {''new_'', ''from_slice'', ''from_slice_range''} \<or> module_name = ''seq'' \<and> func = ''new_'' then
        (case info of
           FP_Array sz inner_ty \<Rightarrow> do { d \<leftarrow> translate_default lib inner_ty; Some [d] }
         | FP_Seq inner_ty \<Rightarrow> do { d \<leftarrow> translate_default lib inner_ty; Some [d] }
         | _ \<Rightarrow> None)
      else Some [])"

definition size_args :: "text_lib \<Rightarrow> string \<Rightarrow> string \<Rightarrow> func_prefix \<Rightarrow> doc list option" where
  "size_args lib module_name func info =
     (if module_name = ''array'' \<and> func \<in> {''new_'', ''from_seq'', ''from_slice'', ''from_slice_range''} then
        (case info of
           FP_Array (Size_Ident x) inner_ty \<Rightarrow> Some [D_string (translate_toplevel_ident lib x)]
         | FP_Array (Size_Integer i) inner_ty \<Rightarrow> Some [D_string (dec_digits i)]
         | FP_Seq inner_ty \<Rightarrow> Some []
         | _ \<Rightarrow> None)
      else Some [])"

definition translate_func_name ::
  "nat \<Rightarrow> text_lib \<Rightarrow> top_level_context \<Rightarrow> base_typ option \<Rightarrow> top_level_ident \<Rightarrow> (doc \<times> doc list) option" where
  "translate_func_name n lib tlc prefix name = (case prefix of
     None \<Rightarrow> Some (D_string (translate_func_name_none lib name), [])
   | Some prefix \<Rightarrow> do {
       (module_name, info) \<leftarrow> translate_prefix_for_func_name n lib tlc prefix;
       let func = translate_toplevel_ident lib name;
       a1 \<leftarrow> modulo_args module_name info;
       a2 \<leftarrow> encoding_args module_name func info;
       a3 \<leftarrow> default_args lib module_name func info;
       a4 \<leftarrow> size_args lib module_name func info;
       Some (cat [D_string module_name, D_string ''_'', D_string func], a1 @ a2 @ a3 @ a4)
     })"

fun translate_unop :: "text_lib \<Rightarrow> un_op_kind \<Rightarrow> base_typ \<Rightarrow> doc option" where
  "translate_unop lib U_Not t = Some (D_string (case t of T_Bool \<Rightarrow> ''not'' | T_Usize \<Rightarrow> ''~'' | T_Isize \<Rightarrow> ''~'' | _ \<Rightarrow> ''~.''))"
| "translate_unop lib U_Neg t =
     (if t = T_Usize \<or> t = T_Isize then Some (D_string ''0 -'')
      else do { d \<leftarrow> translate_default lib t; Some (cat [make_paren d, D_space, D_string ''-.'']) })"

fun array_or_seq :: "nat \<Rightarrow> top_level_context \<Rightarrow> base_typ \<Rightarrow> string option" where
  "array_or_seq 0 tlc t = None"
| "array_or_seq (Suc n) tlc t = (case t of
     T_Seq inner \<Rightarrow> Some ''seq''
   | T_Named name None \<Rightarrow> (case ctx_typ_dict tlc name of
         Some (new_t, D_Alias) \<Rightarrow> array_or_seq n tlc (snd new_t)
       | Some (new_t, D_Array) \<Rightarrow> (case snd new_t of T_Array sz inner \<Rightarrow> Some ''array'' | _ \<Rightarrow> None)
       | _ \<Rightarrow> None)
   | T_Array sz inner \<Rightarrow> Some ''array''
   | _ \<Rightarrow> None)"

section \<open>Expressions\<close>

fun size_cast :: "base_typ \<Rightarrow> string option" where
  "size_cast T_UInt8 = Some ''pub_u8''"
| "size_cast T_UInt16 = Some ''pub_u16''"
| "size_cast T_UInt32 = Some ''pub_u32''"
| "size_cast T_UInt64 = Some ''pub_u64''"
| "size_cast T_UInt128 = Some ''pub_u128''"
| "size_cast T_Usize = Some ''usize''"
| "size_cast T_Int8 = Some ''pub_i8''"
| "size_cast T_Int16 = Some ''pub_i16''"
| "size_cast T_Int32 = Some ''pub_i32''"
| "size_cast T_Int64 = Some ''pub_i64''"
| "size_cast T_Int128 = Some ''pub_i28''"
| "size_cast T_Isize = Some ''isize''"
| "size_cast t = None"

fun int_cast :: "base_typ \<Rightarrow> string option" where
  "int_cast T_UInt8 = Some ''U8''"
| "int_cast T_UInt16 = Some ''U16''"
| "int_cast T_UInt32 = Some ''U32''"
| "int_cast T_UInt64 = Some ''U64''"
| "int_cast T_UInt128 = Some ''U128''"
| "int_cast T_Usize = Some ''U32''"
| "int_cast T_Int8 = Some ''I8''"
| "int_cast T_Int16 = Some ''I16''"
| "int_cast T_Int32 = Some ''I32''"
| "int_cast T_Int64 = Some ''I64''"
| "int_cast T_Int128 = Some ''I128''"
| "int_cast T_Isize = Some ''I32''"
| "int_cast (T_Named name None) = Some (tli_string name)"
| "int_cast t = None"

definition translate_casting :: "base_typ \<Rightarrow> base_typ \<Rightarrow> doc \<Rightarrow> doc option" where
  "translate_casting new_t old_t x =
     (if old_t = T_Usize \<or> old_t = T_Isize
      then do { c \<leftarrow> size_cast new_t; Some (cat [D_string c, D_space, make_paren x]) }
      else do {
        c \<leftarrow> int_cast new_t;
        let secret = (case new_t of T_Named name args \<Rightarrow> True | _ \<Rightarrow> False);
        let cast_doc = D_group (cat [D_string ''cast'', D_space, D_string c, D_space,
          D_string (if secret then ''SEC'' else ''PUB''), D_space, make_paren x]);
        Some (if new_t = T_Usize \<or> new_t = T_Isize then cat [D_string ''v'', D_space, make_paren cast_doc] else cast_doc)
      })"

text \<open>The document of \<open>EnumInject\<close> with a payload, from the document of the payload.\<close>

definition inject_doc :: "text_lib \<Rightarrow> base_typ \<Rightarrow> top_level_ident \<Rightarrow> doc \<Rightarrow> doc option" where
  "inject_doc lib enum_name case_name payload = do {
     d \<leftarrow> translate_enum_case_name lib enum_name case_name;
     Some (D_append d (cat [D_space, make_paren payload]))
   }"

text \<open>\<open>pure_carrier(carrier, body)\<close> printed, from the document of the body.\<close>

definition pure_carrier_doc :: "text_lib \<Rightarrow> carrier_typ \<Rightarrow> doc \<Rightarrow> doc option" where
  "pure_carrier_doc lib c body = inject_doc lib (carrier_into c)
     (TopLevelIdent (case c of C_Option t \<Rightarrow> ''Some'' | C_Result t e \<Rightarrow> ''Ok'') K_EnumConstructor) body"

definition paren_args :: "doc list \<Rightarrow> doc" where
  "paren_args ds = doc_concat (map (\<lambda>d. cat [D_space, make_paren d]) ds)"

function translate_expression :: "nat \<Rightarrow> text_lib \<Rightarrow> top_level_context \<Rightarrow> expression \<Rightarrow> codegen \<Rightarrow> (doc \<times> codegen) option" where
  "translate_expression n lib tlc (E_MonadicLet carrier bindings body wrap_return) s = do {
     (ds, s) \<leftarrow> mapS (\<lambda>b s. do {
       let (x, s) = translate_ident lib (fst b) s;
       (d, s) \<leftarrow> translate_expression n lib tlc (snd b) s;
       Some (D_group (cat [D_string ''let?'', D_space, D_string x, D_space, D_string ''='', D_space, d, D_space, D_string ''in'', D_space]), s)
     }) bindings s;
     (d, s) \<leftarrow> translate_expression n lib tlc body s;
     d \<leftarrow> (if wrap_return then pure_carrier_doc lib carrier d else Some d);
     Some (D_append (intersperse ds D_line) d, s)
   }"
| "translate_expression n lib tlc (E_QuestionMark e c) s = None"
| "translate_expression n lib tlc (E_Binary op e1 e2 op_typ) s = do {
     (d1, s) \<leftarrow> translate_expression n lib tlc e1 s;
     t \<leftarrow> op_typ;
     (opd, s) \<leftarrow> translate_binop n tlc op (snd t) s;
     (d2, s) \<leftarrow> translate_expression n lib tlc e2 s;
     Some (D_group (cat [make_paren d1, D_space, D_string opd, D_space, make_paren d2]), s)
   }"
| "translate_expression n lib tlc (E_MatchWith arg arms) s = do {
     (d, s) \<leftarrow> translate_expression n lib tlc arg s;
     (ds, s) \<leftarrow> mapS (\<lambda>a s. do {
       (p, s) \<leftarrow> translate_pattern lib (fst a) s;
       (d1, s) \<leftarrow> translate_expression n lib tlc (snd a) s;
       Some (cat [D_string ''|'', D_space, p, D_space, D_string ''->'', D_space, d1], s)
     }) arms s;
     Some (cat [D_string ''begin'', D_space, D_string ''match'', D_space, d, D_space, D_string ''with'', D_line,
       intersperse ds D_line, D_space, D_string ''end''], s)
   }"
| "translate_expression n lib tlc (E_FieldAccessor e1 field) s = do {
     (d, s) \<leftarrow> translate_expression n lib tlc e1 s;
     Some (D_append (make_paren d) (D_string (''._'' @ (if field < 0 then ''-'' else []) @ dec_digits (nat \<bar>field\<bar>))), s)
   }"
| "translate_expression n lib tlc (E_EnumInject enum_name case_name None) s = do {
     d \<leftarrow> translate_enum_case_name lib enum_name case_name;
     Some (D_append d D_nil, s)
   }"
| "translate_expression n lib tlc (E_EnumInject enum_name case_name (Some payload)) s = do {
     (p, s) \<leftarrow> translate_expression n lib tlc payload s;
     d \<leftarrow> inject_doc lib enum_name case_name p;
     Some (d, s)
   }"
| "translate_expression n lib tlc (E_InlineConditional cond e_t e_f) s = do {
     (c, s) \<leftarrow> translate_expression n lib tlc cond s;
     (t, s) \<leftarrow> translate_expression n lib tlc e_t s;
     (f, s) \<leftarrow> translate_expression n lib tlc e_f s;
     Some (D_group (cat [D_string ''if'', D_space, make_paren c, D_space, D_string ''then'', D_space, make_paren t,
       D_space, D_string ''else'', D_space, make_paren f]), s)
   }"
| "translate_expression n lib tlc (E_Unary op e1 op_typ) s = do {
     t \<leftarrow> op_typ;
     opd \<leftarrow> translate_unop lib op (snd t);
     (d, s) \<leftarrow> translate_expression n lib tlc e1 s;
     Some (D_group (cat [opd, D_space, make_paren d]), s)
   }"
| "translate_expression n lib tlc (E_Lit l) s = do { d \<leftarrow> translate_literal l False; Some (D_string d, s) }"
| "translate_expression n lib tlc (E_Tuple es) s = do {
     (ds, s) \<leftarrow> mapS (translate_expression n lib tlc) es s;
     Some (make_tuple ds, s)
   }"
| "translate_expression n lib tlc (E_Named p) s = (let (x, s) = translate_ident lib p s in Some (D_string x, s))"
| "translate_expression n lib tlc (E_FuncCall prefix name args arg_types) s = do {
     (func_name, additional_args) \<leftarrow> translate_func_name n lib tlc prefix name;
     (ds, s) \<leftarrow> mapS (\<lambda>a. translate_expression n lib tlc (fst a)) args s;
     Some (cat [func_name, paren_args additional_args, paren_args ds,
       (if length args + length additional_args = 0 then cat [D_space, D_string ''()''] else D_nil)], s)
   }"
| "translate_expression n lib tlc (E_MethodCall sel_arg sel_typ f args arg_types) s = do {
     (func_name, additional_args) \<leftarrow> translate_func_name n lib tlc (map_option snd sel_typ) f;
     (d, s) \<leftarrow> translate_expression n lib tlc (fst sel_arg) s;
     (ds, s) \<leftarrow> mapS (\<lambda>a. translate_expression n lib tlc (fst a)) args s;
     Some (cat [func_name, paren_args additional_args, cat [D_space, make_paren d], paren_args ds], s)
   }"
| "translate_expression n lib tlc (E_ArrayIndex x e2 typ') s = do {
     t \<leftarrow> typ';
     a \<leftarrow> array_or_seq n tlc (snd t);
     let (x, s) = translate_ident lib x s;
     (d, s) \<leftarrow> translate_expression n lib tlc e2 s;
     Some (cat [D_string a, D_string ''_index'', D_space, make_paren (D_string x), D_space, make_paren d], s)
   }"
| "translate_expression n lib tlc (E_NewArray a t args) s = do {
     (ds, s) \<leftarrow> mapS (translate_expression n lib tlc) args s;
     Some (cat [D_string ''array_from_list'', D_space, make_paren (cat [
       make_let_binding (D_string ''l'') None (make_list ds) False None, D_space,
       cat [D_string (''assert_norm (List.Tot.length l == '' @ dec_digits (length args) @ '');''), D_space, D_string ''l'']])], s)
   }"
| "translate_expression n lib tlc (E_IntegerCasting x new_t old_t) s = do {
     old_t \<leftarrow> old_t;
     (d, s) \<leftarrow> translate_expression n lib tlc x s;
     c \<leftarrow> translate_casting new_t old_t d;
     Some (c, s)
   }"
  by pat_completeness auto
termination
  by (relation "measure (\<lambda>(n, lib, tlc, e, s). size e)")
    (auto simp: less_Suc_eq_le intro: trans_le_add1 trans_le_add2 le_SucI dest!: size_member)

lemma translate_default_forms:
  assumes "get_type_default t = Some e"
  shows "(\<exists>l. e = E_Lit l) \<or> (\<exists>name l. e = secret_default name l)"
  using assms by (auto simp: get_type_default_def split: base_typ.splits option.splits if_splits)

lemma translate_default_eq:
  "do { e \<leftarrow> get_type_default t; translate_expression n lib tlc e s } = do { d \<leftarrow> translate_default lib t; Some (d, s) }"
proof (cases "get_type_default t")
  case (Some e)
  from translate_default_forms [OF Some] consider l where "e = E_Lit l" | name l where "e = secret_default name l" by blast
  then show ?thesis
  proof cases
    case 1
    with Some show ?thesis by (cases "translate_literal l False") (simp_all add: translate_default_def)
  next
    case 2
    with Some show ?thesis
      by (cases "translate_literal l False") (simp_all add: translate_default_def secret_default_def translate_func_name_def paren_args_def)
  qed
qed (simp add: translate_default_def)

section \<open>Statements\<close>

text \<open>\<open>mutated_info.vars.0.iter().sorted()\<close>, each translated: the tuple of the mutated variables.\<close>

definition mutated_tuple :: "text_lib \<Rightarrow> mutated_info \<Rightarrow> codegen \<Rightarrow> (doc \<times> codegen) option" where
  "mutated_tuple lib mi s = do {
     (xs, s) \<leftarrow> mapS (\<lambda>i s. Some (translate_ident lib (Local i) s)) (sorted_list_of_fset (mi_vars mi)) s;
     Some (make_tuple (map D_string xs), s)
   }"

text \<open>
  \<open>add_ok_if_result\<close>: the statement that is pushed to the end of a block.
\<close>

definition result_typ :: base_typ where
  "result_typ = T_Named (TopLevelIdent ''Result'' K_Type) None"

definition ok_ident :: top_level_ident where
  "ok_ident = TopLevelIdent ''Ok'' K_EnumConstructor"

fun add_ok_if_result :: "statement \<Rightarrow> bool \<Rightarrow> statement option" where
  "add_ok_if_result stmt False = Some stmt"
| "add_ok_if_result (S_ReturnExp e t) True = Some (S_ReturnExp (E_EnumInject result_typ ok_ident (Some e)) t)"
| "add_ok_if_result stmt True = None"

text \<open>
  The statement that \<open>add_ok_if_result\<close> gives and that the code pushes to the end of the statements is the argument \<open>p\<close>, with its flag. Lemma \<open>translate_pushed\<close> of
  \<open>Fstar_Semantics\<close> shows that the result is that of the longer list.
\<close>

definition returns_unit :: "block \<Rightarrow> bool" where
  "returns_unit b \<longleftrightarrow> b_return_typ b = Some (Consumed, T_Tuple [])"

definition upd_payload :: "string \<Rightarrow> string \<Rightarrow> doc \<Rightarrow> doc \<Rightarrow> doc" where
  "upd_payload a x d1 d2 = cat [D_string a, D_string ''_upd'', D_space, D_string x, D_space, make_paren d1, D_space, d2]"

definition loop_expr :: "bool \<Rightarrow> doc \<Rightarrow> doc \<Rightarrow> string \<Rightarrow> doc \<Rightarrow> doc \<Rightarrow> doc" where
  "loop_expr q d1 d2 x mut_tuple body = cat [D_nest 2 (D_group (cat [
       D_string ''foldi'', (if q then D_string ''_result'' else D_nil), D_space, make_paren d1, D_space, make_paren d2, D_space,
       D_string ''(fun'', D_space, D_string x, D_space, mut_tuple, D_space, D_string ''->'', D_line, body, D_string '')''])),
     D_line, mut_tuple]"

definition then_continue :: "bool \<Rightarrow> doc \<Rightarrow> doc option \<Rightarrow> doc \<Rightarrow> doc \<Rightarrow> doc" where
  "then_continue q pat typ' expr rest = D_group (if q then make_error_returning_let_binding pat typ' expr rest
     else cat [make_let_binding pat typ' expr False None, D_hardline, rest])"

definition translate_option_typ :: "text_lib \<Rightarrow> Typ option \<Rightarrow> doc option option" where
  "translate_option_typ lib t = (case t of None \<Rightarrow> Some None | Some t \<Rightarrow> map_option Some (translate_typ lib t))"

lemma size_mutated: "size (mi_stmt mi) + 1 \<le> size mi"
  by (cases mi) simp

lemma size_block_mutated:
  "size_list size (b_stmts b) + size_option size (b_mutated b) < size b"
  by (cases b) simp

lemma pushed_sizes:
  assumes "mi \<in> set_option m"
  shows "size_list size (b_stmts b1) + (size (mi_stmt mi) + 2) < size_list size (S_Conditional c b1 b2 m # ss) + k"
    "b2 = Some b \<Longrightarrow> size_list size (b_stmts b) + (size (mi_stmt mi) + 2) < size_list size (S_Conditional c b1 b2 m # ss) + k"
    "size_list size ([] :: statement list) + (size (mi_stmt mi) + 2) < size_list size (S_Conditional c b1 b2 m # ss) + k"
  using assms size_mutated [of mi] size_block_mutated [of b1] size_block_mutated [of b] by auto

lemma loop_sizes:
  "mi \<in> set_option (b_mutated b) \<Longrightarrow> size_list size (b_stmts b) + (size (mi_stmt mi) + 2) < size_list size (S_ForLoop x e1 e2 b # ss) + k"
  using size_mutated [of mi] size_block_mutated [of b] by auto

function (sequential) translate_statements ::
  "nat \<Rightarrow> text_lib \<Rightarrow> top_level_context \<Rightarrow> statement list \<Rightarrow> (statement \<times> bool) option \<Rightarrow> codegen \<Rightarrow> (doc \<times> codegen) option" where
  "translate_statements n lib tlc [] None s = Some (D_nil, s)"
| "translate_statements n lib tlc [] (Some (st, False)) s = translate_statements n lib tlc [st] None s"
| "translate_statements n lib tlc [] (Some (S_ReturnExp e t, True)) s = do {
     (d, s) \<leftarrow> translate_expression n lib tlc e s;
     d \<leftarrow> inject_doc lib result_typ ok_ident d;
     Some (D_group d, s)
   }"
| "translate_statements n lib tlc [] (Some (st, True)) s = None"
| "translate_statements n lib tlc (S_LetBinding pat typ' expr c question_mark # ss) p s = do {
     (pd, s) \<leftarrow> translate_pattern lib pat s;
     td \<leftarrow> translate_option_typ lib typ';
     (ed, s) \<leftarrow> translate_expression n lib tlc expr s;
     (rest, s) \<leftarrow> translate_statements n lib tlc ss p s;
     Some (then_continue (question_mark \<noteq> None) pd td ed rest, s)
   }"
| "translate_statements n lib tlc (S_Reassignment x x_typ e1 c question_mark # ss) p s = do {
     let (x, s) = translate_ident lib x s;
     (ed, s) \<leftarrow> translate_expression n lib tlc e1 s;
     (rest, s) \<leftarrow> translate_statements n lib tlc ss p s;
     Some (then_continue (question_mark \<noteq> None) (D_string x) None ed rest, s)
   }"
| "translate_statements n lib tlc (S_ArrayUpdate x e1 e2 c question_mark typ' # ss) p s = do {
     t \<leftarrow> typ';
     a \<leftarrow> array_or_seq n tlc (snd t);
     if question_mark \<noteq> None then do {
       let (k, s) = fresh_codegen_id s;
       let tmp_ident = Local (LocalIdent k ''tmp'' False);
       let (xd, s) = translate_ident lib x s;
       (d1, s) \<leftarrow> translate_expression n lib tlc e1 s;
       let (tmp, s) = translate_ident lib tmp_ident s;
       (d2, s) \<leftarrow> translate_expression n lib tlc e2 s;
       (rest, s) \<leftarrow> translate_statements n lib tlc ss p s;
       Some (D_group (make_error_returning_let_binding (D_string tmp) None d2
         (cat [make_let_binding (D_string xd) None (upd_payload a xd d1 (D_string tmp)) False None, D_hardline, rest])), s)
     } else do {
       let (xd, s) = translate_ident lib x s;
       (d1, s) \<leftarrow> translate_expression n lib tlc e1 s;
       (d2, s) \<leftarrow> translate_expression n lib tlc e2 s;
       (rest, s) \<leftarrow> translate_statements n lib tlc ss p s;
       Some (then_continue False (D_string xd) None (upd_payload a xd d1 (make_paren d2)) rest, s)
     }
   }"
| "translate_statements n lib tlc (S_ReturnExp e1 t # ss) p s = do {
     (d, s) \<leftarrow> translate_expression n lib tlc e1 s;
     Some (D_group d, s)
   }"
| "translate_statements n lib tlc (S_Conditional cond b1 b2 mutated # ss) p s = do {
     mi \<leftarrow> mutated;
     (pat, s) \<leftarrow> mutated_tuple lib mi s;
     q1 \<leftarrow> b_contains_question_mark b1;
     q2 \<leftarrow> (case b2 of None \<Rightarrow> Some False | Some b2 \<Rightarrow> b_contains_question_mark b2);
     rust_assert (add_ok_if_result (mi_stmt mi) (q1 \<or> q2) \<noteq> None);
     (cd, s) \<leftarrow> translate_expression n lib tlc cond s;
     rust_assert (b_return_typ b1 \<noteq> None);
     (d1, s) \<leftarrow> translate_statements n lib tlc (b_stmts b1) (Some (mi_stmt mi, q1 \<or> q2)) s;
     (d2, s) \<leftarrow> (case b2 of
         None \<Rightarrow> translate_statements n lib tlc [] (Some (mi_stmt mi, q1 \<or> q2)) s
       | Some b2 \<Rightarrow> do {
           rust_assert (b_return_typ b2 \<noteq> None);
           (d2, s) \<leftarrow> translate_statements n lib tlc (b_stmts b2) (Some (mi_stmt mi, q1 \<or> q2)) s;
           Some (D_group d2, s)
         });
     let expr = cat [D_string ''if'', D_space, cd, D_space, D_string ''then'', D_space, make_begin_paren (D_group d1),
       cat [D_space, D_string ''else'', D_space, make_begin_paren d2]];
     (rest, s) \<leftarrow> translate_statements n lib tlc ss p s;
     Some (then_continue (q1 \<or> q2) pat None expr rest, s)
   }"
| "translate_statements n lib tlc (S_ForLoop x e1 e2 b # ss) p s = do {
     mi \<leftarrow> b_mutated b;
     q \<leftarrow> b_contains_question_mark b;
     rust_assert (add_ok_if_result (mi_stmt mi) q \<noteq> None);
     (mut_tuple, s) \<leftarrow> mutated_tuple lib mi s;
     (d1, s) \<leftarrow> translate_expression n lib tlc e1 s;
     (d2, s) \<leftarrow> translate_expression n lib tlc e2 s;
     let (xd, s) = (case x of Some x \<Rightarrow> translate_ident lib x s | None \<Rightarrow> (''_'', s));
     rust_assert (b_return_typ b \<noteq> None);
     (body, s) \<leftarrow> translate_statements n lib tlc (b_stmts b) (Some (mi_stmt mi, q)) s;
     (rest, s) \<leftarrow> translate_statements n lib tlc ss p s;
     Some (then_continue q mut_tuple None (loop_expr q d1 d2 xd mut_tuple (D_group body)) rest, s)
   }"
  by pat_completeness auto
termination
  by (relation "measure (\<lambda>(n, lib, tlc, ss, p, s). size_list size ss + (case p of None \<Rightarrow> 0 | Some (st, q) \<Rightarrow> size st + 2))";
      (simp only: in_measure prod.case option.case)?; (rule wf_measure | (erule pushed_sizes; simp)+ | erule loop_sizes | simp))

section \<open>Blocks, items and programs\<close>

definition translate_block :: "nat \<Rightarrow> text_lib \<Rightarrow> top_level_context \<Rightarrow> block \<Rightarrow> bool \<Rightarrow> codegen \<Rightarrow> (doc \<times> codegen) option" where
  "translate_block n lib tlc b omit_extra_unit s = do {
     rust_assert (b_return_typ b \<noteq> None);
     (d, s) \<leftarrow> translate_statements n lib tlc (b_stmts b)
       (if \<not> omit_extra_unit \<and> returns_unit b then Some (S_ReturnExp (E_Lit L_Unit) None, False) else None) s;
     Some (D_group d, s)
   }"

definition translate_arg :: "text_lib \<Rightarrow> ident \<times> Typ \<Rightarrow> codegen \<Rightarrow> (doc \<times> codegen) option" where
  "translate_arg lib a s = do {
     let (x, s) = translate_ident lib (fst a) s;
     t \<leftarrow> translate_typ lib (snd a);
     Some (make_paren (cat [D_string x, D_space, D_string '':'', D_space, t]), s)
   }"

definition translate_case :: "text_lib \<Rightarrow> top_level_ident \<Rightarrow> top_level_ident \<times> base_typ option \<Rightarrow> doc option" where
  "translate_case lib name c = do {
     d \<leftarrow> translate_enum_case_name lib (T_Named name None) (fst c);
     t \<leftarrow> (case snd c of
         None \<Rightarrow> Some (cat [D_space, D_string '':'', D_space, D_string (translate_enum_name lib name)])
       | Some case_typ \<Rightarrow> do {
           t \<leftarrow> translate_base_typ lib case_typ;
           Some (cat [D_space, D_string '':'', D_space, t, D_space, D_string ''->'', D_space, D_string (translate_enum_name lib name)])
         });
     Some (cat [D_string ''|'', D_space, d, t])
   }"

text \<open>\<open>type x = ... \<close> with the right-hand side on the next line.\<close>

definition type_decl :: "string \<Rightarrow> doc \<Rightarrow> doc" where
  "type_decl x rhs = D_append (D_group (cat [D_string ''type'', D_space, D_string x, D_space, D_string ''='']))
     (D_nest 2 (D_group rhs))"

text \<open>\<open>str::replace(&kr.to_title_case(), " ", ".")\<close>\<close>

definition crate_module :: "text_lib \<Rightarrow> string \<Rightarrow> string" where
  "crate_module lib kr = map (\<lambda>c. if c = CHR '' '' then CHR ''.'' else c) (to_title_case lib kr)"

fun translate_item :: "nat \<Rightarrow> text_lib \<Rightarrow> top_level_context \<Rightarrow> item \<Rightarrow> codegen \<Rightarrow> (doc \<times> codegen) option" where
  "translate_item n lib tlc (I_FnDecl f sig b) s = do {
     (args, s) \<leftarrow> mapS (translate_arg lib) (sig_args_of sig) s;
     ret \<leftarrow> translate_base_typ lib (sig_ret_of sig);
     (body, s) \<leftarrow> translate_block n lib tlc b False s;
     Some (make_let_binding (cat [D_string (translate_toplevel_ident lib f), D_line,
         (if sig_args_of sig \<noteq> [] then intersperse args D_line else D_string ''()''), D_line,
         D_group (cat [D_string '':'', D_space, ret])])
       None body True None, s)
   }"
| "translate_item n lib tlc (I_EnumDecl name cases) s = do {
     ds \<leftarrow> collect_docs (map (translate_case lib name) cases);
     Some (cat [D_string ''noeq type'', D_space, D_string (translate_enum_name lib name), D_space, D_string ''='', D_line,
       intersperse ds D_line], s)
   }"
| "translate_item n lib tlc (I_ArrayDecl name sz cell_t index_typ) s = do {
     t \<leftarrow> translate_base_typ lib cell_t;
     (d, s) \<leftarrow> translate_expression n lib tlc sz s;
     (index, s) \<leftarrow> (case index_typ of
         None \<Rightarrow> Some (D_nil, s)
       | Some x \<Rightarrow> do {
           (d, s) \<leftarrow> translate_expression n lib tlc sz s;
           Some (cat [D_hardline, D_hardline, make_let_binding (D_string (translate_toplevel_ident lib x)) None
             (cat [D_string ''nat_mod'', D_space, make_paren d]) True None], s)
         });
     Some (D_append (type_decl (translate_toplevel_ident lib name)
       (cat [D_line, D_string ''lseq'', D_space, make_paren t, D_space, make_paren d])) index, s)
   }"
| "translate_item n lib tlc (I_ConstDecl name ty e) s = do {
     t \<leftarrow> translate_base_typ lib ty;
     (d, s) \<leftarrow> translate_expression n lib tlc e s;
     Some (make_let_binding (D_string (translate_toplevel_ident lib name)) (Some t) d True None, s)
   }"
| "translate_item n lib tlc (I_NaturalIntegerDecl nat_name secrecy canvas_size info) s = (case canvas_size of
     E_Lit (L_Usize sz) \<Rightarrow> do {
       b \<leftarrow> usize_add (unat sz) 7;
       let canvas = (case info of
           Some (canvas_name, modulo_val) \<Rightarrow> cat [type_decl (translate_toplevel_ident lib canvas_name)
             (cat [D_line, D_string ''lseq'', D_space, make_paren (D_string ''pub_uint8''), D_space, make_paren (D_string (dec_digits (b div 8)))]),
             D_hardline, D_hardline]
         | None \<Rightarrow> D_nil);
       Some (D_append canvas (type_decl (translate_toplevel_ident lib nat_name)
         (cat [D_line, D_string ''nat_mod'', D_space, D_string (case info of
            Some (canvas_name, modulo_val) \<Rightarrow> ''0x'' @ modulo_val | None \<Rightarrow> ''pow2 '' @ dec_digits (unat sz))])), s)
     }
   | _ \<Rightarrow> None)"
| "translate_item n lib tlc (I_ImportedCrate kr) s = Some (D_string (''open '' @ crate_module lib (tli_string kr)), s)"
| "translate_item n lib tlc (I_AliasDecl name ty) s = do {
     t \<leftarrow> translate_base_typ lib ty;
     Some (cat [D_string ''type'', D_space, D_string (translate_toplevel_ident lib name), D_space, D_string ''='', D_space, t], s)
   }"

definition translate_program :: "nat \<Rightarrow> text_lib \<Rightarrow> top_level_context \<Rightarrow> item list \<Rightarrow> codegen \<Rightarrow> (doc \<times> codegen) option" where
  "translate_program n lib tlc items s = do {
     (ds, s) \<leftarrow> mapS (\<lambda>i s. do { (d, s) \<leftarrow> translate_item n lib tlc i s; Some (cat [d, D_hardline, D_hardline], s) }) items s;
     Some (doc_concat ds, s)
   }"

end
