(* ===== verification/Fstar_Semantics.thy ===== *)
theory Fstar_Semantics
  imports Fstar_Backend
begin

text \<open>
  The meaning of the statements that \<open>Fstar_Backend\<close> prints. The back end turns assignments into bindings that shadow, a conditional into a binding of the tuple of the variables that its
  blocks assign, and a loop into a fold over that tuple.

  \<open>to_fterm\<close> is the functional program behind the printed text: \<open>print_fterm_eq\<close> shows that the text is its printed form. \<open>exec\<close> runs the statements on a store, \<open>feval\<close> evaluates the
  functional program in an environment, and \<open>translation_correct\<close> shows that the results agree when the annotations of the type checker are right. Expressions are evaluated by a
  parameter, the same on both sides.
\<close>

section \<open>The functional program\<close>

datatype fterm =
    FT_Nil
  | FT_Ret expression
  | FT_Ok expression
  | FT_Let bool pattern "Typ option" expression fterm
  | FT_Assign bool ident expression fterm
  | FT_Update bool string ident expression expression fterm
  | FT_If bool bool "local_ident list" expression fterm fterm fterm
  | FT_Fold bool "local_ident list" "ident option" expression expression fterm fterm

abbreviation vars_of :: "mutated_info \<Rightarrow> local_ident list" where
  "vars_of mi \<equiv> sorted_list_of_fset (mi_vars mi)"

function (sequential) to_fterm :: "nat \<Rightarrow> top_level_context \<Rightarrow> statement list \<Rightarrow> (statement \<times> bool) option \<Rightarrow> fterm option" where
  "to_fterm n tlc [] None = Some FT_Nil"
| "to_fterm n tlc [] (Some (st, False)) = to_fterm n tlc [st] None"
| "to_fterm n tlc [] (Some (S_ReturnExp e t, True)) = Some (FT_Ok e)"
| "to_fterm n tlc [] (Some (st, True)) = None"
| "to_fterm n tlc (S_LetBinding pat t e c q # ss) p = map_option (FT_Let (q \<noteq> None) pat t e) (to_fterm n tlc ss p)"
| "to_fterm n tlc (S_Reassignment x t e c q # ss) p = map_option (FT_Assign (q \<noteq> None) x e) (to_fterm n tlc ss p)"
| "to_fterm n tlc (S_ArrayUpdate x e1 e2 c q t # ss) p = do {
     t \<leftarrow> t;
     a \<leftarrow> array_or_seq n tlc (snd t);
     map_option (FT_Update (q \<noteq> None) a x e1 e2) (to_fterm n tlc ss p)
   }"
| "to_fterm n tlc (S_ReturnExp e t # ss) p = Some (FT_Ret e)"
| "to_fterm n tlc (S_Conditional c b1 b2 m # ss) p = do {
     mi \<leftarrow> m;
     q1 \<leftarrow> b_contains_question_mark b1;
     q2 \<leftarrow> (case b2 of None \<Rightarrow> Some False | Some b2 \<Rightarrow> b_contains_question_mark b2);
     rust_assert (add_ok_if_result (mi_stmt mi) (q1 \<or> q2) \<noteq> None);
     rust_assert (b_return_typ b1 \<noteq> None);
     t1 \<leftarrow> to_fterm n tlc (b_stmts b1) (Some (mi_stmt mi, q1 \<or> q2));
     t2 \<leftarrow> (case b2 of
         None \<Rightarrow> to_fterm n tlc [] (Some (mi_stmt mi, q1 \<or> q2))
       | Some b2 \<Rightarrow> do { rust_assert (b_return_typ b2 \<noteq> None); to_fterm n tlc (b_stmts b2) (Some (mi_stmt mi, q1 \<or> q2)) });
     map_option (FT_If (q1 \<or> q2) (b2 \<noteq> None) (vars_of mi) c t1 t2) (to_fterm n tlc ss p)
   }"
| "to_fterm n tlc (S_ForLoop x e1 e2 b # ss) p = do {
     mi \<leftarrow> b_mutated b;
     q \<leftarrow> b_contains_question_mark b;
     rust_assert (add_ok_if_result (mi_stmt mi) q \<noteq> None);
     rust_assert (b_return_typ b \<noteq> None);
     t \<leftarrow> to_fterm n tlc (b_stmts b) (Some (mi_stmt mi, q));
     map_option (FT_Fold q (vars_of mi) x e1 e2 t) (to_fterm n tlc ss p)
   }"
  by pat_completeness auto
termination
  by (relation "measure (\<lambda>(n, tlc, ss, p). size_list size ss + (case p of None \<Rightarrow> 0 | Some (st, q) \<Rightarrow> size st + 2))";
      (simp only: in_measure prod.case option.case)?; (rule wf_measure | (erule pushed_sizes; simp)+ | erule loop_sizes | simp))

text \<open>The text of a functional program. The second flag of \<open>FT_If\<close> says that the source has an \<open>else\<close>, which is only a matter of layout.\<close>

definition vars_doc :: "text_lib \<Rightarrow> local_ident list \<Rightarrow> codegen \<Rightarrow> (doc \<times> codegen) option" where
  "vars_doc lib xs s = do {
     (ds, s) \<leftarrow> mapS (\<lambda>i s. Some (translate_ident lib (Local i) s)) xs s;
     Some (make_tuple (map D_string ds), s)
   }"

primrec print_fterm :: "nat \<Rightarrow> text_lib \<Rightarrow> top_level_context \<Rightarrow> fterm \<Rightarrow> codegen \<Rightarrow> (doc \<times> codegen) option" where
  "print_fterm n lib tlc FT_Nil s = Some (D_nil, s)"
| "print_fterm n lib tlc (FT_Ret e) s = do { (d, s) \<leftarrow> translate_expression n lib tlc e s; Some (D_group d, s) }"
| "print_fterm n lib tlc (FT_Ok e) s = do {
     (d, s) \<leftarrow> translate_expression n lib tlc e s;
     d \<leftarrow> inject_doc lib result_typ ok_ident d;
     Some (D_group d, s)
   }"
| "print_fterm n lib tlc (FT_Let q pat t e r) s = do {
     (pd, s) \<leftarrow> translate_pattern lib pat s;
     td \<leftarrow> translate_option_typ lib t;
     (ed, s) \<leftarrow> translate_expression n lib tlc e s;
     (rest, s) \<leftarrow> print_fterm n lib tlc r s;
     Some (then_continue q pd td ed rest, s)
   }"
| "print_fterm n lib tlc (FT_Assign q x e r) s = do {
     let (xd, s) = translate_ident lib x s;
     (ed, s) \<leftarrow> translate_expression n lib tlc e s;
     (rest, s) \<leftarrow> print_fterm n lib tlc r s;
     Some (then_continue q (D_string xd) None ed rest, s)
   }"
| "print_fterm n lib tlc (FT_Update q a x e1 e2 r) s = do {
     let (k, s) = (if q then fresh_codegen_id s else (0, s));
     let (xd, s) = translate_ident lib x s;
     (d1, s) \<leftarrow> translate_expression n lib tlc e1 s;
     let (tmp, s) = (if q then translate_ident lib (Local (LocalIdent k ''tmp'' False)) s else ([], s));
     (d2, s) \<leftarrow> translate_expression n lib tlc e2 s;
     (rest, s) \<leftarrow> print_fterm n lib tlc r s;
     Some (if q
       then D_group (make_error_returning_let_binding (D_string tmp) None d2
         (cat [make_let_binding (D_string xd) None (upd_payload a xd d1 (D_string tmp)) False None, D_hardline, rest]))
       else then_continue False (D_string xd) None (upd_payload a xd d1 (make_paren d2)) rest, s)
   }"
| "print_fterm n lib tlc (FT_If q els xs c t1 t2 r) s = do {
     (pat, s) \<leftarrow> vars_doc lib xs s;
     (cd, s) \<leftarrow> translate_expression n lib tlc c s;
     (d1, s) \<leftarrow> print_fterm n lib tlc t1 s;
     (d2, s) \<leftarrow> print_fterm n lib tlc t2 s;
     (rest, s) \<leftarrow> print_fterm n lib tlc r s;
     Some (then_continue q pat None (cat [D_string ''if'', D_space, cd, D_space, D_string ''then'', D_space, make_begin_paren (D_group d1),
       cat [D_space, D_string ''else'', D_space, make_begin_paren (if els then D_group d2 else d2)]]) rest, s)
   }"
| "print_fterm n lib tlc (FT_Fold q xs x e1 e2 t r) s = do {
     (pat, s) \<leftarrow> vars_doc lib xs s;
     (d1, s) \<leftarrow> translate_expression n lib tlc e1 s;
     (d2, s) \<leftarrow> translate_expression n lib tlc e2 s;
     let (xd, s) = (case x of Some x \<Rightarrow> translate_ident lib x s | None \<Rightarrow> (''_'', s));
     (body, s) \<leftarrow> print_fterm n lib tlc t s;
     (rest, s) \<leftarrow> print_fterm n lib tlc r s;
     Some (then_continue q pat None (loop_expr q d1 d2 xd pat (D_group body)) rest, s)
   }"

lemma mutated_tuple_doc: "mutated_tuple lib mi s = vars_doc lib (vars_of mi) s"
  by (simp add: mutated_tuple_def vars_doc_def)

lemma bind_None: "x \<bind> (\<lambda>y. None) = None"
  by (cases x) simp_all

lemma case_prod_None: "(\<lambda>(x, y). None) = (\<lambda>z. None)"
  by (simp add: fun_eq_iff)

lemma bind_case_prod: "Option.bind (case z of (x, y) \<Rightarrow> f x y) g = (case z of (x, y) \<Rightarrow> Option.bind (f x y) g)"
  by (simp split: prod.split)

lemmas print_simps = bind_case_prod bind_None case_prod_None mutated_tuple_doc Let_def if_distrib [of "\<lambda>z. case z of (x, y) \<Rightarrow> f x y" for f]

text \<open>The text that the back end prints is the printed form of the functional program, in the same states of the name table; the back end panics exactly when there is none or its printing panics.\<close>

theorem print_fterm_eq:
  "translate_statements n lib tlc ss p s = (case to_fterm n tlc ss p of None \<Rightarrow> None | Some t \<Rightarrow> print_fterm n lib tlc t s)"
proof (induction n tlc ss p arbitrary: s rule: to_fterm.induct)
  case (5 n tlc pat t e c q ss p)
  then show ?case by (cases "to_fterm n tlc ss p") (simp_all add: print_simps)
next
  case (6 n tlc x t e c q ss p)
  then show ?case by (cases "to_fterm n tlc ss p") (simp_all add: print_simps)
next
  case (7 n tlc x e1 e2 c q t ss p)
  show ?case
  proof (cases "t \<bind> (\<lambda>t. array_or_seq n tlc (snd t))")
    case None
    then show ?thesis by (cases t) (simp_all add: print_simps)
  next
    case (Some a)
    then obtain t' where t: "t = Some t'" "array_or_seq n tlc (snd t') = Some a" by (cases t) auto
    then show ?thesis using 7 [of t' a]
      by (cases "to_fterm n tlc ss p") (simp_all add: print_simps)
  qed
next
  case (9 n tlc c b1 b2 m ss p)
  show ?case
  proof (cases "m = None \<or> b_contains_question_mark b1 = None \<or> (\<exists>b. b2 = Some b \<and> b_contains_question_mark b = None)")
    case True
    then show ?thesis by (auto simp: print_simps split: option.splits)
  next
    case False
    then obtain mi q1 q2 where m: "m = Some mi" "b_contains_question_mark b1 = Some q1"
      "(case b2 of None \<Rightarrow> Some False | Some b2 \<Rightarrow> b_contains_question_mark b2) = Some q2" by (cases b2) auto
    show ?thesis
    proof (cases "add_ok_if_result (mi_stmt mi) (q1 \<or> q2) \<noteq> None \<and> b_return_typ b1 \<noteq> None \<and> (\<forall>b. b2 = Some b \<longrightarrow> b_return_typ b \<noteq> None)")
      case False
      with m show ?thesis by (cases b2) (auto simp: print_simps)
    next
      case ok: True
      show ?thesis
      proof (cases b2)
        case None
        then show ?thesis using m ok 9(1) [of mi q1 q2 "()" "()"] 9(2) [of mi q1 q2 "()" "()"] 9(4) [of mi q1 q2 "()" "()"]
          by (cases "to_fterm n tlc (b_stmts b1) (Some (mi_stmt mi, q1))"; cases "to_fterm n tlc [] (Some (mi_stmt mi, q1))"; cases "to_fterm n tlc ss p")
            (simp_all add: print_simps)
      next
        case (Some b)
        then show ?thesis using m ok 9(1) [of mi q1 q2 "()" "()"] 9(3) [of mi q1 q2 "()" "()" _ b "()"] 9(4) [of mi q1 q2 "()" "()"]
          by (cases "to_fterm n tlc (b_stmts b1) (Some (mi_stmt mi, q1 \<or> q2))"; cases "to_fterm n tlc (b_stmts b) (Some (mi_stmt mi, q1 \<or> q2))";
              cases "to_fterm n tlc ss p") (simp_all add: print_simps)
      qed
    qed
  qed
next
  case (10 n tlc x e1 e2 b ss p)
  show ?case
  proof (cases "b_mutated b = None \<or> b_contains_question_mark b = None")
    case True
    then show ?thesis by (auto simp: print_simps)
  next
    case False
    then obtain mi q where b: "b_mutated b = Some mi" "b_contains_question_mark b = Some q" by auto
    show ?thesis
    proof (cases "add_ok_if_result (mi_stmt mi) q \<noteq> None \<and> b_return_typ b \<noteq> None")
      case False
      with b show ?thesis by (auto simp: print_simps)
    next
      case True
      with b show ?thesis using 10
        by (cases "to_fterm n tlc (b_stmts b) (Some (mi_stmt mi, q))"; cases "to_fterm n tlc ss p") (simp_all add: print_simps)
    qed
  qed
qed simp_all


section \<open>Meaning\<close>

type_synonym 'v env = "usize \<rightharpoonup> 'v"

text \<open>
  What the values are: evaluation of expressions, matching of patterns, results, truth values, numbers, updates of arrays and tuples. \<open>s_res v\<close> is \<open>Some None\<close> for an error
  and \<open>Some (Some w)\<close> for \<open>Ok(w)\<close>.
\<close>

record 'v sem =
  s_ev :: "expression \<Rightarrow> 'v env \<Rightarrow> 'v option"
  s_match :: "pattern \<Rightarrow> 'v \<Rightarrow> 'v env option"
  s_res :: "'v \<Rightarrow> 'v option option"
  s_ok :: "'v \<Rightarrow> 'v"
  s_bool :: "'v \<Rightarrow> bool option"
  s_nat :: "'v \<Rightarrow> nat option"
  s_of_nat :: "nat \<Rightarrow> 'v"
  s_upd :: "'v \<Rightarrow> 'v \<Rightarrow> 'v \<Rightarrow> 'v option"
  s_tup :: "'v list \<Rightarrow> 'v"
  s_untup :: "nat \<Rightarrow> 'v \<Rightarrow> 'v list option"

definition vars_tuple :: "local_ident list \<Rightarrow> expression" where
  "vars_tuple xs = (if xs = [] then E_Lit L_Unit else E_Tuple (map (\<lambda>x. E_Named (Local x)) xs))"

definition sem_ok :: "'v sem \<Rightarrow> bool" where
  "sem_ok S \<longleftrightarrow>
     (\<forall>xs env. (\<forall>x \<in> set xs. li_id x \<in> dom env) \<longrightarrow>
        s_ev S (vars_tuple xs) env = Some (s_tup S (map (\<lambda>x. the (env (li_id x))) xs))) \<and>
     (\<forall>vs. s_untup S (length vs) (s_tup S vs) = Some vs) \<and>
     (\<forall>v. s_res S (s_ok S v) = Some (Some v)) \<and>
     (\<forall>p v m. s_match S p v = Some m \<longrightarrow> dom m = set (pattern_ids p))"

text \<open>The value of an expression that may carry a question mark: \<open>Inl\<close> is an early return.\<close>

definition ev_q :: "'v sem \<Rightarrow> bool \<Rightarrow> expression \<Rightarrow> 'v env \<Rightarrow> ('v + 'v) option" where
  "ev_q S q e env = do {
     v \<leftarrow> s_ev S e env;
     if q then do { r \<leftarrow> s_res S v; Some (case r of None \<Rightarrow> Inl v | Some w \<Rightarrow> Inr w) } else Some (Inr v)
   }"

subsection \<open>Statements\<close>

datatype 'v outcome = Stuck | Normal "'v env" | Return 'v | Early 'v

fun after :: "'v outcome \<Rightarrow> ('v env \<Rightarrow> 'v outcome) \<Rightarrow> 'v outcome" where
  "after (Normal env) k = k env"
| "after r k = r"

fun run_q :: "('v + 'v) option \<Rightarrow> ('v \<Rightarrow> 'v outcome) \<Rightarrow> 'v outcome" where
  "run_q None k = Stuck"
| "run_q (Some (Inl v)) k = Early v"
| "run_q (Some (Inr v)) k = k v"

text \<open>A block leaves the variables of the store that were there before.\<close>

fun leave :: "'v env \<Rightarrow> 'v outcome \<Rightarrow> 'v outcome" where
  "leave env (Normal env') = Normal (env' |` dom env)"
| "leave env r = r"

fun run_loop :: "(nat \<Rightarrow> 'v env \<Rightarrow> 'v outcome) \<Rightarrow> nat list \<Rightarrow> 'v env \<Rightarrow> 'v outcome" where
  "run_loop f [] env = Normal env"
| "run_loop f (i # is) env = after (f i env) (run_loop f is)"

lemma after_cong [fundef_cong]: "r = r' \<Longrightarrow> (\<And>env. r' = Normal env \<Longrightarrow> k env = k' env) \<Longrightarrow> after r k = after r' k'"
  by (cases r') auto

lemma run_q_cong [fundef_cong]: "r = r' \<Longrightarrow> (\<And>v. r' = Some (Inr v) \<Longrightarrow> k v = k' v) \<Longrightarrow> run_q r k = run_q r' k'"
  by (cases r' rule: run_q.cases [of "(r', k)" for r']) auto

lemma run_loop_cong [fundef_cong]:
  assumes "is = js" "env = env'" "\<And>i env. i \<in> set js \<Longrightarrow> f i env = g i env"
  shows "run_loop f is env = run_loop g js env'"
  using assms(3) unfolding assms(1,2) by (induction js arbitrary: env') (auto intro!: after_cong)

definition bind_loop_var :: "'v sem \<Rightarrow> ident option \<Rightarrow> nat \<Rightarrow> 'v env \<Rightarrow> 'v env" where
  "bind_loop_var S x i env = (case x of Some (Local y) \<Rightarrow> env(li_id y \<mapsto> s_of_nat S i) | _ \<Rightarrow> env)"

fun assign :: "ident \<Rightarrow> 'v \<Rightarrow> 'v env \<Rightarrow> 'v env" where
  "assign (Local y) v env = env(li_id y \<mapsto> v)"
| "assign x v env = env"

definition update_elem :: "'v sem \<Rightarrow> ident \<Rightarrow> expression \<Rightarrow> 'v \<Rightarrow> 'v env \<Rightarrow> 'v option" where
  "update_elem S x e1 v env = do { a \<leftarrow> s_ev S (E_Named x) env; i \<leftarrow> s_ev S e1 env; s_upd S a i v }"

fun run_opt :: "'a option \<Rightarrow> ('a \<Rightarrow> 'v outcome) \<Rightarrow> 'v outcome" where
  "run_opt None k = Stuck"
| "run_opt (Some v) k = k v"

lemma run_opt_cong [fundef_cong]: "r = r' \<Longrightarrow> (\<And>v. r' = Some v \<Longrightarrow> k v = k' v) \<Longrightarrow> run_opt r k = run_opt r' k'"
  by (cases r') auto

function (sequential) exec :: "'v sem \<Rightarrow> statement list \<Rightarrow> 'v env \<Rightarrow> 'v outcome" where
  "exec S [] env = Normal env"
| "exec S (S_LetBinding pat t e c q # ss) env =
     run_q (ev_q S (q \<noteq> None) e env) (\<lambda>v. run_opt (s_match S pat v) (\<lambda>m. exec S ss (env ++ m)))"
| "exec S (S_Reassignment x t e c q # ss) env =
     run_q (ev_q S (q \<noteq> None) e env) (\<lambda>v. exec S ss (assign x v env))"
| "exec S (S_ArrayUpdate x e1 e2 c q t # ss) env =
     run_q (ev_q S (q \<noteq> None) e2 env) (\<lambda>v. run_opt (update_elem S x e1 v env) (\<lambda>a. exec S ss (assign x a env)))"
| "exec S (S_ReturnExp e t # ss) env = run_opt (s_ev S e env) Return"
| "exec S (S_Conditional c b1 b2 m # ss) env =
     run_opt (s_ev S c env \<bind> s_bool S) (\<lambda>b.
       after (if b then leave env (exec S (b_stmts b1) env)
              else (case b2 of None \<Rightarrow> Normal env | Some b2 \<Rightarrow> leave env (exec S (b_stmts b2) env)))
         (exec S ss))"
| "exec S (S_ForLoop x e1 e2 b # ss) env =
     run_opt (s_ev S e1 env \<bind> s_nat S) (\<lambda>lo. run_opt (s_ev S e2 env \<bind> s_nat S) (\<lambda>hi.
       after (run_loop (\<lambda>i env'. leave env (exec S (b_stmts b) (bind_loop_var S x i env'))) [lo..<hi] env) (exec S ss)))"
  by pat_completeness auto
termination
  by (relation "measure (\<lambda>(S, ss, env). size_list size ss)")
    (auto intro: less_le_trans [OF size_block_stmts])

subsection \<open>The functional program\<close>

definition bind_vars :: "local_ident list \<Rightarrow> 'v list \<Rightarrow> 'v env \<Rightarrow> 'v env" where
  "bind_vars xs vs env = env ++ map_of (zip (map li_id xs) vs)"

text \<open>\<open>let (..) = e in\<close>, or \<open>match e with | Err x -> Err x | Ok (..) ->\<close>.\<close>

definition with_result :: "'v sem \<Rightarrow> bool \<Rightarrow> 'v \<Rightarrow> ('v \<Rightarrow> 'v option) \<Rightarrow> 'v option" where
  "with_result S q v k = (if q then do { r \<leftarrow> s_res S v; (case r of None \<Rightarrow> Some v | Some w \<Rightarrow> k w) } else k v)"

text \<open>\<open>foldi\<close> and \<open>foldi_result\<close>.\<close>

fun fold_range :: "'v sem \<Rightarrow> bool \<Rightarrow> (nat \<Rightarrow> 'v \<Rightarrow> 'v option) \<Rightarrow> nat list \<Rightarrow> 'v \<Rightarrow> 'v option" where
  "fold_range S q f [] acc = Some (if q then s_ok S acc else acc)"
| "fold_range S q f (i # is) acc = do { v \<leftarrow> f i acc; with_result S q v (fold_range S q f is) }"

primrec feval :: "'v sem \<Rightarrow> fterm \<Rightarrow> 'v env \<Rightarrow> 'v option" where
  "feval S FT_Nil env = None"
| "feval S (FT_Ret e) env = s_ev S e env"
| "feval S (FT_Ok e) env = map_option (s_ok S) (s_ev S e env)"
| "feval S (FT_Let q pat t e r) env = do {
     v \<leftarrow> s_ev S e env;
     with_result S q v (\<lambda>w. do { m \<leftarrow> s_match S pat w; feval S r (env ++ m) })
   }"
| "feval S (FT_Assign q x e r) env = do {
     v \<leftarrow> s_ev S e env;
     with_result S q v (\<lambda>w. feval S r (assign x w env))
   }"
| "feval S (FT_Update q a x e1 e2 r) env = do {
     v \<leftarrow> s_ev S e2 env;
     with_result S q v (\<lambda>w. do { a \<leftarrow> update_elem S x e1 w env; feval S r (assign x a env) })
   }"
| "feval S (FT_If q els xs c t1 t2 r) env = do {
     b \<leftarrow> s_ev S c env \<bind> s_bool S;
     v \<leftarrow> (if b then feval S t1 env else feval S t2 env);
     with_result S q v (\<lambda>w. do { vs \<leftarrow> s_untup S (length xs) w; feval S r (bind_vars xs vs env) })
   }"
| "feval S (FT_Fold q xs x e1 e2 t r) env = do {
     lo \<leftarrow> s_ev S e1 env \<bind> s_nat S;
     hi \<leftarrow> s_ev S e2 env \<bind> s_nat S;
     acc \<leftarrow> s_ev S (vars_tuple xs) env;
     v \<leftarrow> fold_range S q (\<lambda>i acc. do {
         vs \<leftarrow> s_untup S (length xs) acc;
         feval S t (bind_vars xs vs (bind_loop_var S x i env))
       }) [lo..<hi] acc;
     with_result S q v (\<lambda>w. do { vs \<leftarrow> s_untup S (length xs) w; feval S r (bind_vars xs vs env) })
   }"

section \<open>The annotations of the type checker\<close>

text \<open>The variables that the statements assign, and whether a statement carries a question mark.\<close>

function (sequential) assigned :: "statement list \<Rightarrow> usize set" where
  "assigned [] = {}"
| "assigned (S_Reassignment (Local y) t e c q # ss) = insert (li_id y) (assigned ss)"
| "assigned (S_ArrayUpdate (Local y) e1 e2 c q t # ss) = insert (li_id y) (assigned ss)"
| "assigned (S_Conditional c b1 b2 m # ss) =
     assigned (b_stmts b1) \<union> (case b2 of None \<Rightarrow> {} | Some b2 \<Rightarrow> assigned (b_stmts b2)) \<union> assigned ss"
| "assigned (S_ForLoop x e1 e2 b # ss) = assigned (b_stmts b) \<union> assigned ss"
| "assigned (st # ss) = assigned ss"
  by pat_completeness auto
termination
  by (relation "measure (size_list size)") (auto intro: less_le_trans [OF size_block_stmts])

function (sequential) has_question_mark :: "statement list \<Rightarrow> bool" where
  "has_question_mark [] = False"
| "has_question_mark (S_LetBinding pat t e c q # ss) \<longleftrightarrow> q \<noteq> None \<or> has_question_mark ss"
| "has_question_mark (S_Reassignment x t e c q # ss) \<longleftrightarrow> q \<noteq> None \<or> has_question_mark ss"
| "has_question_mark (S_ArrayUpdate x e1 e2 c q t # ss) \<longleftrightarrow> q \<noteq> None \<or> has_question_mark ss"
| "has_question_mark (S_ReturnExp e t # ss) \<longleftrightarrow> has_question_mark ss"
| "has_question_mark (S_Conditional c b1 b2 m # ss) \<longleftrightarrow>
     has_question_mark (b_stmts b1) \<or> (case b2 of None \<Rightarrow> False | Some b2 \<Rightarrow> has_question_mark (b_stmts b2)) \<or> has_question_mark ss"
| "has_question_mark (S_ForLoop x e1 e2 b # ss) \<longleftrightarrow> has_question_mark (b_stmts b) \<or> has_question_mark ss"
  by pat_completeness auto
termination
  by (relation "measure (size_list size)") (auto intro: less_le_trans [OF size_block_stmts])

definition is_return :: "statement \<Rightarrow> bool" where
  "is_return st \<longleftrightarrow> (case st of S_ReturnExp e t \<Rightarrow> True | _ \<Rightarrow> False)"

definition is_local_of :: "usize set \<Rightarrow> ident \<Rightarrow> bool" where
  "is_local_of X x \<longleftrightarrow> (case x of Local y \<Rightarrow> li_id y \<in> X | _ \<Rightarrow> False)"

definition mutated_ok :: "usize set \<Rightarrow> mutated_info \<Rightarrow> bool" where
  "mutated_ok X mi \<longleftrightarrow> (case mi_stmt mi of S_ReturnExp e t \<Rightarrow> e = vars_tuple (vars_of mi) | _ \<Rightarrow> False) \<and>
     li_id ` set (vars_of mi) \<subseteq> X"

definition block_ok :: "usize set \<Rightarrow> mutated_info \<Rightarrow> block \<Rightarrow> bool" where
  "block_ok X mi b \<longleftrightarrow> \<not> list_ex is_return (b_stmts b) \<and>
     (has_question_mark (b_stmts b) \<longrightarrow> b_contains_question_mark b = Some True) \<and>
     assigned (b_stmts b) \<inter> X \<subseteq> li_id ` set (vars_of mi)"

text \<open>
  \<open>annotated X ss\<close>: in a scope with the variables \<open>X\<close>, every binding has new variables, every assignment is to a variable of the scope, and the annotation of every inner block is right: it
  names variables of the scope, among them those that the block assigns, and ends with their tuple; a block with a question mark is marked; an inner block has no value of its own.
\<close>

function (sequential) annotated :: "usize set \<Rightarrow> statement list \<Rightarrow> bool" where
  "annotated X [] \<longleftrightarrow> True"
| "annotated X (S_LetBinding pat t e c q # ss) \<longleftrightarrow> set (pattern_ids pat) \<inter> X = {} \<and> annotated (X \<union> set (pattern_ids pat)) ss"
| "annotated X (S_Reassignment x t e c q # ss) \<longleftrightarrow> is_local_of X x \<and> annotated X ss"
| "annotated X (S_ArrayUpdate x e1 e2 c q t # ss) \<longleftrightarrow> is_local_of X x \<and> annotated X ss"
| "annotated X (S_ReturnExp e t # ss) \<longleftrightarrow> True"
| "annotated X (S_Conditional c b1 b2 m # ss) \<longleftrightarrow>
     (case m of None \<Rightarrow> False | Some mi \<Rightarrow> mutated_ok X mi \<and> block_ok X mi b1 \<and> (case b2 of None \<Rightarrow> True | Some b2 \<Rightarrow> block_ok X mi b2)) \<and>
     annotated X (b_stmts b1) \<and> (case b2 of None \<Rightarrow> True | Some b2 \<Rightarrow> annotated X (b_stmts b2)) \<and> annotated X ss"
| "annotated X (S_ForLoop x e1 e2 b # ss) \<longleftrightarrow>
     (case b_mutated b of None \<Rightarrow> False | Some mi \<Rightarrow> mutated_ok X mi \<and> block_ok X mi b) \<and>
     (case x of None \<Rightarrow> annotated X (b_stmts b)
      | Some (Local y) \<Rightarrow> li_id y \<notin> X \<and> annotated (insert (li_id y) X) (b_stmts b)
      | Some _ \<Rightarrow> False) \<and> annotated X ss"
  by pat_completeness auto
termination
  by (relation "measure (\<lambda>(X, ss). size_list size ss)") (auto intro: less_le_trans [OF size_block_stmts])

section \<open>Correctness\<close>

fun finish :: "'v sem \<Rightarrow> (statement \<times> bool) option \<Rightarrow> 'v outcome \<Rightarrow> 'v option" where
  "finish S p Stuck = None"
| "finish S p (Return v) = Some v"
| "finish S p (Early v) = Some v"
| "finish S (Some (S_ReturnExp e t, q)) (Normal env) = map_option (if q then s_ok S else (\<lambda>v. v)) (s_ev S e env)"
| "finish S p (Normal env) = None"

abbreviation var_values :: "local_ident list \<Rightarrow> 'v env \<Rightarrow> 'v list" where
  "var_values xs env \<equiv> map (\<lambda>x. the (env (li_id x))) xs"

lemma sem_okD:
  assumes "sem_ok S"
  shows "li_id ` set xs \<subseteq> dom env \<Longrightarrow> s_ev S (vars_tuple xs) env = Some (s_tup S (var_values xs env))"
    and "length vs = n \<Longrightarrow> s_untup S n (s_tup S vs) = Some vs"
    and "s_res S (s_ok S v) = Some (Some v)"
    and "s_match S pat v = Some m \<Longrightarrow> dom m = set (pattern_ids pat)"
  using assms unfolding sem_ok_def by blast+

subsection \<open>Frames\<close>

lemma leave_simps:
  "leave env r = Normal env' \<longleftrightarrow> (\<exists>e. r = Normal e \<and> env' = e |` dom env)"
  "leave env r = Early v \<longleftrightarrow> r = Early v" "leave env r = Return v \<longleftrightarrow> r = Return v" "leave env r = Stuck \<longleftrightarrow> r = Stuck"
  by (cases r; auto)+

lemma after_simps:
  "after r k = Normal env' \<longleftrightarrow> (\<exists>e. r = Normal e \<and> k e = Normal env')"
  "after r k = Early v \<longleftrightarrow> r = Early v \<or> (\<exists>e. r = Normal e \<and> k e = Early v)"
  "after r k = Return v \<longleftrightarrow> r = Return v \<or> (\<exists>e. r = Normal e \<and> k e = Return v)"
  by (cases r; auto)+

lemma run_opt_simps:
  "run_opt x k = Normal env' \<longleftrightarrow> (\<exists>v. x = Some v \<and> k v = Normal env')"
  "run_opt x k = Early w \<longleftrightarrow> (\<exists>v. x = Some v \<and> k v = Early w)"
  "run_opt x k = Return w \<longleftrightarrow> (\<exists>v. x = Some v \<and> k v = Return w)"
  by (cases x; auto)+

lemma run_q_simps:
  "run_q x k = Normal env' \<longleftrightarrow> (\<exists>v. x = Some (Inr v) \<and> k v = Normal env')"
  "run_q x k = Early w \<longleftrightarrow> x = Some (Inl w) \<or> (\<exists>v. x = Some (Inr v) \<and> k v = Early w)"
  "run_q x k = Return w \<longleftrightarrow> (\<exists>v. x = Some (Inr v) \<and> k v = Return w)"
  by (cases x rule: run_q.cases [of "(x, k)" for x]; auto)+

lemmas outcome_simps = leave_simps after_simps run_opt_simps run_q_simps

lemma run_loop_Early: "run_loop f is env = Early v \<Longrightarrow> \<exists>i \<in> set is. \<exists>e. f i e = Early v"
  by (induction "is" arbitrary: env) (auto simp: outcome_simps)

lemma run_loop_Return: "run_loop f is env = Return v \<Longrightarrow> \<exists>i \<in> set is. \<exists>e. f i e = Return v"
  by (induction "is" arbitrary: env) (auto simp: outcome_simps)

lemma ev_q_Inl: "ev_q S q e env = Some (Inl v) \<Longrightarrow> q \<and> s_res S v = Some None"
  by (auto simp: ev_q_def split: if_splits option.splits Option.bind_splits)

text \<open>An early return has an error as its value and comes from a question mark.\<close>

lemmas stmts_induct = has_question_mark.induct

lemma exec_Early: "exec S ss env = Early v \<Longrightarrow> has_question_mark ss \<and> s_res S v = Some None"
proof (induction ss arbitrary: env v rule: stmts_induct)
  case (6 c b1 b2 m ss)
  show ?case using 6(4) by (auto simp: outcome_simps split: if_splits option.splits dest: 6(1-3))
next
  case (7 x e1 e2 b ss)
  show ?case using 7(3) by (auto simp: outcome_simps dest!: run_loop_Early dest: 7(1,2))
qed (auto simp: outcome_simps dest: ev_q_Inl)

lemma exec_Return: "exec S ss env = Return v \<Longrightarrow> annotated X ss \<Longrightarrow> list_ex is_return ss"
proof (induction ss arbitrary: X env v rule: stmts_induct)
  case (6 c b1 b2 m ss)
  show ?case using 6(4,5) by (auto simp: outcome_simps block_ok_def split: if_splits option.splits dest: 6(1-3))
next
  case (7 x e1 e2 b ss)
  then obtain Y where "\<not> list_ex is_return (b_stmts b)" "annotated Y (b_stmts b)" "annotated X ss"
    by (auto simp: block_ok_def split: option.splits ident.splits)
  then show ?case using 7(3) by (auto simp: outcome_simps dest!: run_loop_Return dest: 7(1,2))
qed (auto simp: outcome_simps is_return_def)

definition keeps :: "usize set \<Rightarrow> 'v env \<Rightarrow> 'v env \<Rightarrow> bool" where
  "keeps A env env' \<longleftrightarrow> (\<forall>y v. env y = Some v \<longrightarrow> (if y \<in> A then env' y \<noteq> None else env' y = Some v))"

lemma keeps_refl: "keeps A env env"
  by (simp add: keeps_def)

lemma keeps_trans: "keeps A env env1 \<Longrightarrow> keeps B env1 env2 \<Longrightarrow> keeps (A \<union> B) env env2"
  unfolding keeps_def by (metis UnCI UnE not_Some_eq)

lemma keeps_mono: "keeps A env env' \<Longrightarrow> A \<subseteq> B \<Longrightarrow> keeps B env env'"
  unfolding keeps_def by (metis in_mono option.distinct(1))

lemma keeps_leave: "keeps A env0 env' \<Longrightarrow> keeps {} env env0 \<Longrightarrow> keeps A env (env' |` dom env) \<and> dom (env' |` dom env) = dom env"
  unfolding keeps_def by (auto simp: restrict_map_def split: if_splits) (metis option.distinct(1))+

lemma keeps_new: "dom m \<inter> dom env = {} \<Longrightarrow> keeps {} env (env ++ m)"
  unfolding keeps_def by (auto simp: map_add_def split: option.splits)

lemma keeps_loop_var: "(\<And>y. x = Some (Local y) \<Longrightarrow> li_id y \<notin> dom env) \<Longrightarrow> keeps {} env (bind_loop_var S x i env)"
  unfolding keeps_def bind_loop_var_def by (auto split: option.splits ident.splits)

lemma run_loop_frame:
  assumes "run_loop f is env = Normal env'"
    and "\<And>i e e'. i \<in> set is \<Longrightarrow> dom e = dom env \<Longrightarrow> f i e = Normal e' \<Longrightarrow> dom e' = dom env \<and> keeps A e e'"
  shows "dom env' = dom env \<and> keeps A env env'"
  using assms
proof (induction "is" arbitrary: env)
  case (Cons i "is")
  then obtain e where e: "f i env = Normal e" "run_loop f is e = Normal env'" by (auto simp: outcome_simps)
  have k: "dom e = dom env \<and> keeps A env e" using Cons.prems(2) [of i env e] e by simp
  then have "dom e'' = dom e \<and> keeps A e' e''" if "j \<in> set is" "dom e' = dom e" "f j e' = Normal e''" for j e' e''
    using Cons.prems(2) [of j e' e''] that by simp
  then have "dom env' = dom e \<and> keeps A e env'" by (rule Cons.IH [OF e(2)])
  then show ?case using k keeps_trans [of A env e A env'] by simp
qed (simp add: keeps_refl)

lemma keeps_assign: "is_local_of (dom env) x \<Longrightarrow> x = Local y \<Longrightarrow> keeps {li_id y} env (assign x v env) \<and> dom (assign x v env) = dom env"
  by (auto simp: is_local_of_def keeps_def)

lemma exec_frame: "exec S ss env = Normal env' \<Longrightarrow> annotated (dom env) ss \<Longrightarrow> sem_ok S \<Longrightarrow> keeps (assigned ss) env env'"
proof (induction ss arbitrary: env env' rule: stmts_induct)
  case 1
  then show ?case by (simp add: keeps_refl)
next
  case (2 pat t e c q ss)
  from 2(2) obtain v m where v: "s_match S pat v = Some m" "exec S ss (env ++ m) = Normal env'"
    by (auto simp: outcome_simps)
  have d: "dom m = set (pattern_ids pat)" by (rule sem_okD(4) [OF 2(4) v(1)])
  have "keeps (assigned ss) (env ++ m) env'"
    by (rule 2(1) [OF v(2) _ 2(4)]) (use 2(3) d in \<open>simp add: Un_commute\<close>)
  moreover have "keeps {} env (env ++ m)" by (rule keeps_new) (use 2(3) d in simp)
  ultimately show ?case using keeps_trans [of "{}" env "env ++ m"] by simp
next
  case (3 x t e c q ss)
  from 3(3) obtain y where x: "x = Local y" "li_id y \<in> dom env" by (cases x) (auto simp: is_local_of_def)
  from 3(2) obtain v where e: "exec S ss (assign x v env) = Normal env'" by (auto simp: outcome_simps)
  have k: "keeps {li_id y} env (assign x v env) \<and> dom (assign x v env) = dom env"
    using keeps_assign [of env x y v] x by (simp add: is_local_of_def)
  then have "keeps (assigned ss) (assign x v env) env'" using 3(1) [OF e _ 3(4)] 3(3) by simp
  then show ?case using k x keeps_trans [of "{li_id y}" env "assign x v env"] by simp
next
  case (4 x e1 e2 c q t ss)
  from 4(3) obtain y where x: "x = Local y" "li_id y \<in> dom env" by (cases x) (auto simp: is_local_of_def)
  from 4(2) obtain v where e: "exec S ss (assign x v env) = Normal env'" by (auto simp: outcome_simps)
  have k: "keeps {li_id y} env (assign x v env) \<and> dom (assign x v env) = dom env"
    using keeps_assign [of env x y v] x by (simp add: is_local_of_def)
  then have "keeps (assigned ss) (assign x v env) env'" using 4(1) [OF e _ 4(4)] 4(3) by simp
  then show ?case using k x keeps_trans [of "{li_id y}" env "assign x v env"] by simp
next
  case (6 c b1 b2 m ss)
  let ?A = "assigned (b_stmts b1) \<union> (case b2 of None \<Rightarrow> {} | Some b2 \<Rightarrow> assigned (b_stmts b2))"
  have b: "keeps ?A env (e |` dom env) \<and> dom (e |` dom env) = dom env"
    if "exec S (b_stmts b) env = Normal e" "b = b1 \<or> b2 = Some b" for b e
  proof -
    have "keeps (assigned (b_stmts b)) env e" using that 6(1,2,5,6) by auto
    then have "keeps ?A env e" by (rule keeps_mono) (use that in auto)
    then show ?thesis by (rule keeps_leave) (rule keeps_refl)
  qed
  from 6(4) obtain e where e: "exec S ss e = Normal env'"
    and "e = env \<or> (\<exists>b f. exec S (b_stmts b) env = Normal f \<and> (b = b1 \<or> b2 = Some b) \<and> e = f |` dom env)"
    by (fastforce simp: outcome_simps split: if_splits option.splits)
  then have "keeps ?A env e \<and> dom e = dom env" using b keeps_refl by blast
  then show ?case using e 6(3,5,6) keeps_trans [of ?A env e] by simp
next
  case (7 x e1 e2 b ss)
  have b: "dom e' = dom env \<and> keeps (assigned (b_stmts b)) e e'"
    if e: "leave env (exec S (b_stmts b) (bind_loop_var S x i e)) = Normal e'" "dom e = dom env" for i e e'
  proof -
    from 7(4) e have x: "annotated (dom (bind_loop_var S x i e)) (b_stmts b)" "keeps {} e (bind_loop_var S x i e)"
      by (auto simp: bind_loop_var_def keeps_refl keeps_def split: option.splits ident.splits)
    from e(1) obtain f where f: "exec S (b_stmts b) (bind_loop_var S x i e) = Normal f" "e' = f |` dom env" by (auto simp: outcome_simps)
    show ?thesis using keeps_leave [OF 7(1) [OF f(1) x(1) 7(5)] x(2)] f(2) e(2) by simp
  qed
  from 7(3) obtain lo hi e
    where l: "run_loop (\<lambda>i env'. leave env (exec S (b_stmts b) (bind_loop_var S x i env'))) [lo..<hi] env = Normal e" and e: "exec S ss e = Normal env'"
    by (auto simp: outcome_simps)
  have "dom e = dom env \<and> keeps (assigned (b_stmts b)) env e"
    by (rule run_loop_frame [OF l]) (use b in blast)
  then show ?case using 7(2) [OF e] 7(4,5) keeps_trans [of "assigned (b_stmts b)" env e] by simp
qed (simp add: outcome_simps)

subsection \<open>Results\<close>

text \<open>What a binding of the variables of a block does with the outcome of the block.\<close>

fun continue :: "'v outcome \<Rightarrow> ('v env \<Rightarrow> 'v option) \<Rightarrow> 'v option" where
  "continue Stuck k = None"
| "continue (Normal env) k = k env"
| "continue (Return v) k = Some v"
| "continue (Early v) k = Some v"

lemma finish_after: "finish S p (after r k) = continue r (\<lambda>env. finish S p (k env))"
  by (cases r) auto

lemma finish_run_opt: "finish S p (run_opt x k) = x \<bind> (\<lambda>v. finish S p (k v))"
  by (cases x) auto

lemma finish_run_q: "finish S p (run_q (ev_q S q e env) k) = s_ev S e env \<bind> (\<lambda>v. with_result S q v (\<lambda>w. finish S p (k w)))"
  by (cases "s_ev S e env"; cases "s_res S (the (s_ev S e env))"; cases "the (s_res S (the (s_ev S e env)))")
    (auto simp: ev_q_def with_result_def)

lemmas finish_simps = finish_after finish_run_opt finish_run_q

lemma with_result_bind:
  "with_result S q v g \<bind> (\<lambda>v. with_result S q v k) = with_result S q v (\<lambda>w. g w \<bind> (\<lambda>v. with_result S q v k))"
  by (cases "s_res S v") (auto simp: with_result_def split: option.splits)

lemma with_result_ok: "sem_ok S \<Longrightarrow> with_result S q (if q then s_ok S v else v) k = k v"
  by (simp add: with_result_def sem_okD(3))

lemma bind_vars_twice:
  assumes "length vs = length xs" "length ws = length xs"
  shows "bind_vars xs vs (bind_vars xs ws env) = bind_vars xs vs env"
proof
  fix y
  have "map_of (zip (map li_id xs) vs) y = None \<longleftrightarrow> map_of (zip (map li_id xs) ws) y = None" using assms by (simp add: map_of_zip_is_None)
  then show "bind_vars xs vs (bind_vars xs ws env) y = bind_vars xs vs env y"
    by (cases "map_of (zip (map li_id xs) vs) y") (auto simp: bind_vars_def map_add_def)
qed

lemma bind_var_values_app: "bind_vars xs (var_values xs env') env y = (if y \<in> li_id ` set xs then Some (the (env' y)) else env y)"
proof -
  have "map_of (zip (map li_id xs) (var_values xs env')) y = (if y \<in> li_id ` set xs then Some (the (env' y)) else None)"
    by (induction xs) auto
  then show ?thesis by (simp add: bind_vars_def map_add_def)
qed

lemma bind_vars_values:
  assumes "li_id ` set xs \<subseteq> dom env" "dom env' = dom env" "keeps (li_id ` set xs) env env'"
  shows "bind_vars xs (var_values xs env') env = env'"
proof
  fix y
  show "bind_vars xs (var_values xs env') env y = env' y"
  proof (cases "y \<in> dom env")
    case True
    then show ?thesis using assms(2,3) by (auto simp: bind_var_values_app keeps_def)
  next
    case False
    then have "y \<notin> dom env'" "y \<notin> li_id ` set xs" using assms(1,2) by auto
    then show ?thesis using False by (simp add: bind_var_values_app domIff)
  qed
qed

lemma block_sim:
  assumes S: "sem_ok S" and mi: "mutated_ok (dom env) mi" and b: "\<not> list_ex is_return bs" "has_question_mark bs \<Longrightarrow> q" "assigned bs \<inter> dom env \<subseteq> li_id ` set (vars_of mi)"
    and env0: "keeps {} env env0" "annotated (dom env0) bs"
    and t: "feval S t env0 = finish S (Some (mi_stmt mi, q)) (exec S bs env0)"
  shows "feval S t env0 \<bind> (\<lambda>v. with_result S q v k) =
      continue (leave env (exec S bs env0)) (\<lambda>env'. k (s_tup S (var_values (vars_of mi) env')))"
    and "leave env (exec S bs env0) = Normal env' \<Longrightarrow>
      dom env' = dom env \<and> bind_vars (vars_of mi) (var_values (vars_of mi) env') env = env'"
proof -
  let ?xs = "vars_of mi"
  have xs: "li_id ` set ?xs \<subseteq> dom env" using mi by (simp add: mutated_ok_def)
  obtain u where st: "mi_stmt mi = S_ReturnExp (vars_tuple ?xs) u" using mi by (cases "mi_stmt mi") (auto simp: mutated_ok_def)
  have frame: "keeps (assigned bs) env0 e" if "exec S bs env0 = Normal e" for e
    by (rule exec_frame [OF that env0(2) S])
  show "feval S t env0 \<bind> (\<lambda>v. with_result S q v k) =
      continue (leave env (exec S bs env0)) (\<lambda>env'. k (s_tup S (var_values ?xs env')))"
  proof (cases "exec S bs env0")
    case (Normal e)
    have d: "dom env \<subseteq> dom e" using frame [OF Normal] env0(1) by (fastforce simp: keeps_def split: if_splits)
    then have veq: "var_values ?xs (e |` dom env) = var_values ?xs e" using xs by (auto simp: restrict_map_def)
    have "feval S t env0 = Some (if q then s_ok S (s_tup S (var_values ?xs e)) else s_tup S (var_values ?xs e))"
      using xs d sem_okD(1) [OF S, of ?xs e] t by (simp add: Normal st)
    then show ?thesis by (simp only: veq Normal leave.simps continue.simps Option.bind.bind_lunit with_result_ok [OF S])
  next
    case (Return v)
    show ?thesis using exec_Return [OF Return env0(2)] b(1) by simp
  next
    case (Early v)
    then show ?thesis using exec_Early [OF Early] b(2) t by (simp add: with_result_def)
  qed (simp add: t)
  assume "leave env (exec S bs env0) = Normal env'"
  then obtain e where e: "exec S bs env0 = Normal e" "env' = e |` dom env" by (auto simp: outcome_simps)
  have "keeps (assigned bs) env env'" and d: "dom env' = dom env"
    using keeps_leave [OF frame [OF e(1)] env0(1)] e(2) by simp_all
  then have "keeps (li_id ` set ?xs) env env'" using b(3) by (fastforce simp: keeps_def split: if_splits)
  then show "dom env' = dom env \<and> bind_vars ?xs (var_values ?xs env') env = env'"
    using bind_vars_values [OF xs d] d by blast
qed

text \<open>A loop: the accumulator of the fold is the tuple \<open>h e\<close> of the variables in the store \<open>e\<close> of the loop.\<close>

lemma loop_keep:
  "run_loop f is e = Normal e' \<Longrightarrow> (\<And>i e e'. i \<in> set is \<Longrightarrow> P e \<Longrightarrow> f i e = Normal e' \<Longrightarrow> P e') \<Longrightarrow> P e \<Longrightarrow> P e'"
proof (induction "is" arbitrary: e)
  case (Cons i "is")
  from Cons.prems(1) obtain e1 where e1: "f i e = Normal e1" "run_loop f is e1 = Normal e'" by (auto simp: outcome_simps)
  show ?case
    by (rule Cons.IH [OF e1(2)]) (use Cons.prems(2,3) e1(1) in \<open>auto intro: Cons.prems(2)\<close>)
qed simp

lemma loop_sim:
  assumes S: "sem_ok S"
    and "\<And>i e k. i \<in> set is \<Longrightarrow> P e \<Longrightarrow> g i (h e) \<bind> (\<lambda>v. with_result S q v k) = continue (f i e) (\<lambda>e'. k (h e'))"
    and "\<And>i e e'. i \<in> set is \<Longrightarrow> P e \<Longrightarrow> f i e = Normal e' \<Longrightarrow> P e'"
    and "P e"
  shows "fold_range S q g is (h e) \<bind> (\<lambda>v. with_result S q v k) = continue (run_loop f is e) (\<lambda>e'. k (h e'))"
  using assms(2-)
proof (induction "is" arbitrary: e)
  case Nil
  then show ?case by (simp only: fold_range.simps Option.bind.bind_lunit with_result_ok [OF S] run_loop.simps continue.simps)
next
  case (Cons i "is")
  have "fold_range S q g (i # is) (h e) \<bind> (\<lambda>v. with_result S q v k) =
      continue (f i e) (\<lambda>e'. fold_range S q g is (h e') \<bind> (\<lambda>v. with_result S q v k))"
    using Cons.prems(1) [of i e "\<lambda>w. fold_range S q g is w \<bind> (\<lambda>v. with_result S q v k)"] Cons.prems(3)
    by (simp add: with_result_bind Option.bind_assoc)
  also have "\<dots> = continue (run_loop f (i # is) e) (\<lambda>e'. k (h e'))"
  proof (cases "f i e")
    case (Normal e1)
    have "fold_range S q g is (h e1) \<bind> (\<lambda>v. with_result S q v k) = continue (run_loop f is e1) (\<lambda>e'. k (h e'))"
      by (rule Cons.IH) (use Cons.prems Normal in \<open>auto intro: Cons.prems(2)\<close>)
    then show ?thesis using Normal by simp
  qed auto
  finally show ?case .
qed

definition pushes_return :: "(statement \<times> bool) option \<Rightarrow> bool" where
  "pushes_return p \<longleftrightarrow> (case p of None \<Rightarrow> True | Some (st, q) \<Rightarrow> is_return st)"

lemma to_fterm_Nil: "pushes_return p \<Longrightarrow> to_fterm n tlc [] p = Some t \<Longrightarrow> feval S t env = finish S p (Normal env)"
  by (cases p; cases "fst (the p)"; cases "snd (the p)") (auto simp: pushes_return_def is_return_def option.map_ident)

lemma bind_with_vars:
  assumes "sem_ok S" "v = s_tup S (var_values xs env')" "bind_vars xs (var_values xs env') env = env'"
  shows "s_untup S (length xs) v \<bind> (\<lambda>vs. feval S r (bind_vars xs vs env)) = feval S r env'"
  using assms by (simp add: sem_okD(2))

lemma continue_cong: "(\<And>env. r = Normal env \<Longrightarrow> k env = k' env) \<Longrightarrow> continue r k = continue r k'"
  by (cases r) auto

lemma dom_assign: "is_local_of (dom env) x \<Longrightarrow> dom (assign x v env) = dom env"
  by (cases x) (auto simp: is_local_of_def)

lemma restrict_own_dom: "env |` dom env = env"
  by (auto simp: restrict_map_def fun_eq_iff domIff)

lemma loop_var_facts:
  assumes "case x of None \<Rightarrow> annotated (dom env) bs
      | Some (Local y) \<Rightarrow> li_id y \<notin> dom env \<and> annotated (insert (li_id y) (dom env)) bs | Some _ \<Rightarrow> False"
    and e: "dom e = dom env \<and> bind_vars xs (var_values xs e) env = e" and "li_id ` set xs \<subseteq> dom env"
  shows "annotated (dom (bind_loop_var S x i e)) bs" "keeps {} e (bind_loop_var S x i e)"
    "bind_vars xs (var_values xs e) (bind_loop_var S x i env) = bind_loop_var S x i e"
proof -
  show "annotated (dom (bind_loop_var S x i e)) bs" "keeps {} e (bind_loop_var S x i e)"
    using assms by (auto simp: bind_loop_var_def keeps_def split: option.splits ident.splits)
  show "bind_vars xs (var_values xs e) (bind_loop_var S x i env) = bind_loop_var S x i e"
  proof
    fix y
    have "bind_vars xs (var_values xs e) env y = e y" using e by simp
    then show "bind_vars xs (var_values xs e) (bind_loop_var S x i env) y = bind_loop_var S x i e y"
      using assms(1,3) unfolding bind_var_values_app by (auto simp: bind_loop_var_def split: option.splits ident.splits if_splits)
  qed
qed

lemma conditional_correct:
  assumes S: "sem_ok S"
    and ih: "\<And>p t env. to_fterm n tlc (b_stmts b1) p = Some t \<Longrightarrow> annotated (dom env) (b_stmts b1) \<Longrightarrow> pushes_return p \<Longrightarrow>
        feval S t env = finish S p (exec S (b_stmts b1) env)"
      "\<And>b p t env. b2 = Some b \<Longrightarrow> to_fterm n tlc (b_stmts b) p = Some t \<Longrightarrow> annotated (dom env) (b_stmts b) \<Longrightarrow> pushes_return p \<Longrightarrow>
        feval S t env = finish S p (exec S (b_stmts b) env)"
      "\<And>p t env. to_fterm n tlc ss p = Some t \<Longrightarrow> annotated (dom env) ss \<Longrightarrow> pushes_return p \<Longrightarrow> feval S t env = finish S p (exec S ss env)"
    and t: "to_fterm n tlc (S_Conditional c b1 b2 m # ss) p = Some t" and ann: "annotated (dom env) (S_Conditional c b1 b2 m # ss)"
    and p: "pushes_return p"
  shows "feval S t env = finish S p (exec S (S_Conditional c b1 b2 m # ss) env)"
proof -
  from t obtain mi q1 q2 t1 t2 r
    where m: "m = Some mi" "b_contains_question_mark b1 = Some q1" "(case b2 of None \<Rightarrow> Some False | Some b2 \<Rightarrow> b_contains_question_mark b2) = Some q2"
      and r: "to_fterm n tlc ss p = Some r" "t = FT_If (q1 \<or> q2) (b2 \<noteq> None) (vars_of mi) c t1 t2 r"
      and t1: "to_fterm n tlc (b_stmts b1) (Some (mi_stmt mi, q1 \<or> q2)) = Some t1"
      and t2: "b2 = None \<Longrightarrow> to_fterm n tlc [] (Some (mi_stmt mi, q1 \<or> q2)) = Some t2"
        "\<And>b. b2 = Some b \<Longrightarrow> to_fterm n tlc (b_stmts b) (Some (mi_stmt mi, q1 \<or> q2)) = Some t2"
    by (auto simp: bind_eq_Some_conv split: option.splits if_splits)
  have ok: "mutated_ok (dom env) mi" "pushes_return (Some (mi_stmt mi, q1 \<or> q2))" "annotated (dom env) ss"
    using ann m by (auto simp: pushes_return_def is_return_def mutated_ok_def split: statement.splits)
  define bs where "bs b = (if b then b_stmts b1 else case b2 of None \<Rightarrow> [] | Some b2 \<Rightarrow> b_stmts b2)" for b
  define ts where "ts b = (if b then t1 else t2)" for b
  have bs: "\<not> list_ex is_return (bs b)" "has_question_mark (bs b) \<Longrightarrow> q1 \<or> q2" "assigned (bs b) \<inter> dom env \<subseteq> li_id ` set (vars_of mi)"
    "annotated (dom env) (bs b)" for b
    using ann m by (auto simp: bs_def block_ok_def split: option.splits if_splits)
  have ts: "feval S (ts b) env = finish S (Some (mi_stmt mi, q1 \<or> q2)) (exec S (bs b) env)" for b
    using ih(1) [OF t1 _ ok(2)] ih(2) [OF _ t2(2) _ ok(2)] to_fterm_Nil [OF ok(2) t2(1)] bs(4) [of b]
    by (auto simp: ts_def bs_def split: option.splits)
  have sim: "feval S (ts b) env \<bind> (\<lambda>v. with_result S (q1 \<or> q2) v k) =
      continue (leave env (exec S (bs b) env)) (\<lambda>env'. k (s_tup S (var_values (vars_of mi) env')))" for b k
    by (rule block_sim(1) [OF S ok(1) bs(1) _ bs(3) keeps_refl bs(4) ts]) (rule bs(2))
  have keep: "dom env' = dom env \<and> bind_vars (vars_of mi) (var_values (vars_of mi) env') env = env'"
    if "leave env (exec S (bs b) env) = Normal env'" for b env'
    by (rule block_sim(2) [OF S ok(1) bs(1) _ bs(3) keeps_refl bs(4) ts that]) (rule bs(2))
  have "feval S t env = do { b \<leftarrow> s_ev S c env \<bind> s_bool S; feval S (ts b) env \<bind> (\<lambda>v. with_result S (q1 \<or> q2) v
      (\<lambda>w. do { vs \<leftarrow> s_untup S (length (vars_of mi)) w; feval S r (bind_vars (vars_of mi) vs env) })) }"
    by (simp add: r(2) ts_def if_distrib [where f = "\<lambda>t. feval S t env"])
  also have "\<dots> = do { b \<leftarrow> s_ev S c env \<bind> s_bool S; continue (leave env (exec S (bs b) env)) (\<lambda>env'. finish S p (exec S ss env')) }"
    unfolding sim
    by (intro Option.bind_option_cong refl continue_cong) (use keep ih(3) [OF r(1) _ p] ok(3) in \<open>simp add: bind_with_vars [OF S]\<close>)
  also have "\<dots> = finish S p (exec S (S_Conditional c b1 b2 m # ss) env)"
    by (auto simp: finish_simps bs_def restrict_own_dom intro!: Option.bind_option_cong split: option.split)
  finally show ?thesis .
qed

lemma loop_correct:
  assumes S: "sem_ok S"
    and ih: "\<And>p t env. to_fterm n tlc (b_stmts b) p = Some t \<Longrightarrow> annotated (dom env) (b_stmts b) \<Longrightarrow> pushes_return p \<Longrightarrow>
        feval S t env = finish S p (exec S (b_stmts b) env)"
      "\<And>p t env. to_fterm n tlc ss p = Some t \<Longrightarrow> annotated (dom env) ss \<Longrightarrow> pushes_return p \<Longrightarrow> feval S t env = finish S p (exec S ss env)"
    and t: "to_fterm n tlc (S_ForLoop x e1 e2 b # ss) p = Some t" and ann: "annotated (dom env) (S_ForLoop x e1 e2 b # ss)"
    and p: "pushes_return p"
  shows "feval S t env = finish S p (exec S (S_ForLoop x e1 e2 b # ss) env)"
proof -
  from t obtain mi q u r
    where m: "b_mutated b = Some mi" "b_contains_question_mark b = Some q"
      and r: "to_fterm n tlc ss p = Some r" "t = FT_Fold q (vars_of mi) x e1 e2 u r"
      and u: "to_fterm n tlc (b_stmts b) (Some (mi_stmt mi, q)) = Some u"
    by (auto simp: bind_eq_Some_conv split: if_splits)
  let ?xs = "vars_of mi" and ?h = "\<lambda>e. s_tup S (var_values (vars_of mi) e)"
  let ?P = "\<lambda>e. dom e = dom env \<and> bind_vars ?xs (var_values ?xs e) env = e"
  let ?f = "\<lambda>i e. leave env (exec S (b_stmts b) (bind_loop_var S x i e))"
  let ?g = "\<lambda>i acc. do { vs \<leftarrow> s_untup S (length ?xs) acc; feval S u (bind_vars ?xs vs (bind_loop_var S x i env)) }"
  have ok: "mutated_ok (dom env) mi" "pushes_return (Some (mi_stmt mi, q))" "annotated (dom env) ss"
    "\<not> list_ex is_return (b_stmts b)" "has_question_mark (b_stmts b) \<Longrightarrow> q" "assigned (b_stmts b) \<inter> dom env \<subseteq> li_id ` set ?xs"
    using ann m by (auto simp: pushes_return_def is_return_def mutated_ok_def block_ok_def split: statement.splits)
  have P: "?P env" using bind_vars_values [of ?xs env env] ok(1) keeps_refl by (auto simp: mutated_ok_def)
  have body: "?g i (?h e) \<bind> (\<lambda>v. with_result S q v k) = continue (?f i e) (\<lambda>e'. k (?h e'))"
    and keep: "?f i e = Normal e' \<Longrightarrow> ?P e'" if e: "?P e" for i e e' k
  proof -
    have x: "annotated (dom (bind_loop_var S x i e)) (b_stmts b)" "keeps {} e (bind_loop_var S x i e)"
      "bind_vars ?xs (var_values ?xs e) (bind_loop_var S x i env) = bind_loop_var S x i e"
      using loop_var_facts [OF _ e] ann ok(1) by (auto simp: mutated_ok_def)
    have u: "feval S u (bind_loop_var S x i e) = finish S (Some (mi_stmt mi, q)) (exec S (b_stmts b) (bind_loop_var S x i e))"
      by (rule ih(1) [OF u x(1) ok(2)])
    have l: "leave env = leave e" using e by (intro ext, rename_tac r, case_tac r) auto
    note sim = block_sim [where env = e, OF S _ ok(4,5) _ x(2,1) u]
    show "?g i (?h e) \<bind> (\<lambda>v. with_result S q v k) = continue (?f i e) (\<lambda>e'. k (?h e'))"
      using sim(1) [of k] e ok(1,6) x(3) by (simp add: sem_okD(2) [OF S] l)
    assume "?f i e = Normal e'"
    then have "dom e' = dom e \<and> bind_vars ?xs (var_values ?xs e') e = e'"
      using sim(2) [of e'] e ok(1,6) by (simp add: l)
    then show "?P e'" using e bind_vars_twice [of "var_values ?xs e'" ?xs "var_values ?xs e" env] by simp
  qed
  have rest: "feval S r e = finish S p (exec S ss e)" if "?P e" for e
    by (rule ih(2) [OF r(1) _ p]) (use that ok(3) in simp)
  let ?k = "\<lambda>w. do { vs \<leftarrow> s_untup S (length ?xs) w; feval S r (bind_vars ?xs vs env) }"
  have loop: "fold_range S q ?g [lo..<hi] (?h env) \<bind> (\<lambda>v. with_result S q v ?k) =
      continue (run_loop ?f [lo..<hi] env) (\<lambda>e. finish S p (exec S ss e))" for lo hi
  proof -
    have "fold_range S q ?g [lo..<hi] (?h env) \<bind> (\<lambda>v. with_result S q v ?k) = continue (run_loop ?f [lo..<hi] env) (\<lambda>e. ?k (?h e))"
      by (rule loop_sim [where P = ?P, OF S _ _ P]) (rule body, assumption, rule keep)
    also have "\<dots> = continue (run_loop ?f [lo..<hi] env) (\<lambda>e. finish S p (exec S ss e))"
    proof (rule continue_cong)
      fix e assume e: "run_loop ?f [lo..<hi] env = Normal e"
      have "?P e" by (rule loop_keep [where P = ?P, OF e _ P]) (rule keep)
      then show "?k (?h e) = finish S p (exec S ss e)" using bind_with_vars [OF S refl, of ?xs e env r] rest [of e] by simp
    qed
    finally show ?thesis .
  qed
  have "s_ev S (vars_tuple ?xs) env = Some (?h env)" using sem_okD(1) [OF S, of ?xs env] ok(1) by (simp add: mutated_ok_def)
  then show ?thesis by (simp add: r(2) finish_simps loop)
qed

lemma to_fterm_correct:
  assumes S: "sem_ok S"
  shows "to_fterm n tlc ss p = Some t \<Longrightarrow> annotated (dom env) ss \<Longrightarrow> pushes_return p \<Longrightarrow> feval S t env = finish S p (exec S ss env)"
proof (induction ss arbitrary: p t env rule: stmts_induct)
  case 1
  then show ?case by (simp add: to_fterm_Nil)
next
  case (2 pat u e c q ss)
  from 2(2) obtain r where r: "to_fterm n tlc ss p = Some r" "t = FT_Let (q \<noteq> None) pat u e r" by auto
  have "feval S r (env ++ m) = finish S p (exec S ss (env ++ m))" if "s_match S pat w = Some m" for w m
    by (rule 2(1) [OF r(1) _ 2(4)]) (use 2(3) sem_okD(4) [OF S that] in \<open>simp add: Un_commute\<close>)
  then show ?case by (auto simp: r(2) finish_simps cong: Option.bind_option_cong intro!: Option.bind_option_cong arg_cong [where f = "with_result S q v" for q v])
next
  case (3 x u e c q ss)
  from 3(2) obtain r where r: "to_fterm n tlc ss p = Some r" "t = FT_Assign (q \<noteq> None) x e r" by auto
  have "feval S r (assign x w env) = finish S p (exec S ss (assign x w env))" for w
    by (rule 3(1) [OF r(1) _ 3(4)]) (use 3(3) in \<open>simp add: dom_assign\<close>)
  then show ?case by (simp add: r(2) finish_simps)
next
  case (4 x e1 e2 c q u ss)
  from 4(2) obtain r a where r: "to_fterm n tlc ss p = Some r" "t = FT_Update (q \<noteq> None) a x e1 e2 r" by (auto simp: bind_eq_Some_conv)
  have "feval S r (assign x w env) = finish S p (exec S ss (assign x w env))" for w
    by (rule 4(1) [OF r(1) _ 4(4)]) (use 4(3) in \<open>simp add: dom_assign\<close>)
  then show ?case by (simp add: r(2) finish_simps)
next
  case (5 e u ss)
  from 5(2) show ?case by (auto simp: finish_run_opt)
next
  case (6 c b1 b2 m ss)
  then show ?case using conditional_correct [OF S] by blast
next
  case (7 x e1 e2 b ss)
  then show ?case using loop_correct [OF S] by blast
qed

lemma sorted_list_of_fset_Nil: "sorted_list_of_fset vs = [] \<longleftrightarrow> vs = {||}"
  by (metis bot_fset.rep_eq fset_inject list.set(1) set_empty sorted_list_of_fset_simps(1))

lemma var_set_to_tuple_ok: "li_id ` fset vs \<subseteq> X \<Longrightarrow> mutated_ok X (MutatedInfo e vs (var_set_to_tuple vs vc))"
  by (auto simp: mutated_ok_def var_set_to_tuple_def vars_tuple_def Let_def sorted_list_of_fset_Nil)

section \<open>The printed text\<close>

text \<open>The pushed statement of \<open>translate_statements\<close> is the last statement of the longer list that the code builds.\<close>

lemma translate_pushed:
  assumes "add_ok_if_result (S_ReturnExp e u) q = Some st"
  shows "translate_statements n lib tlc ss (Some (S_ReturnExp e u, q)) s = translate_statements n lib tlc (ss @ [st]) None s"
proof (induction ss arbitrary: s rule: stmts_induct)
  case 1
  then show ?case using assms by (cases q) (auto split: option.splits intro!: Option.bind_option_cong)
qed (simp_all cong: if_cong)

definition unit_pushed :: "block \<Rightarrow> (statement \<times> bool) option" where
  "unit_pushed b = (if returns_unit b then Some (S_ReturnExp (E_Lit L_Unit) None, False) else None)"


section \<open>A small meaning\<close>

text \<open>Values for examples: numbers, truth values, tuples and results; expressions are variables, literals and tuples.\<close>

datatype small_value = SV_Nat nat | SV_Bool bool | SV_Tuple "small_value list" | SV_Ok small_value | SV_Err

fun those_values :: "'a option list \<Rightarrow> 'a list option" where
  "those_values [] = Some []"
| "those_values (x # xs) = do { v \<leftarrow> x; vs \<leftarrow> those_values xs; Some (v # vs) }"

fun small_ev :: "expression \<Rightarrow> small_value env \<Rightarrow> small_value option" where
  "small_ev (E_Named (Local x)) env = env (li_id x)"
| "small_ev (E_Lit L_Unit) env = Some (SV_Tuple [])"
| "small_ev (E_Lit (L_Bool b)) env = Some (SV_Bool b)"
| "small_ev (E_Lit (L_Usize k)) env = Some (SV_Nat (unat k))"
| "small_ev (E_Tuple es) env = map_option SV_Tuple (those_values (map (\<lambda>e. small_ev e env) es))"
| "small_ev e env = None"

fun small_match :: "pattern \<Rightarrow> small_value \<Rightarrow> small_value env option" where
  "small_match (P_IdentPat (Local x) m) v = Some [li_id x \<mapsto> v]"
| "small_match P_WildCard v = Some Map.empty"
| "small_match p v = None"

definition small_sem :: "small_value sem" where
  "small_sem = \<lparr>s_ev = small_ev, s_match = small_match,
     s_res = (\<lambda>v. case v of SV_Ok w \<Rightarrow> Some (Some w) | SV_Err \<Rightarrow> Some None | _ \<Rightarrow> None), s_ok = SV_Ok,
     s_bool = (\<lambda>v. case v of SV_Bool b \<Rightarrow> Some b | _ \<Rightarrow> None), s_nat = (\<lambda>v. case v of SV_Nat k \<Rightarrow> Some k | _ \<Rightarrow> None), s_of_nat = SV_Nat,
     s_upd = (\<lambda>a i v. case (a, i) of (SV_Tuple vs, SV_Nat k) \<Rightarrow> if k < length vs then Some (SV_Tuple (vs[k := v])) else None | _ \<Rightarrow> None),
     s_tup = SV_Tuple, s_untup = (\<lambda>n v. case v of SV_Tuple vs \<Rightarrow> if length vs = n then Some vs else None | _ \<Rightarrow> None)\<rparr>"

lemma small_ev_vars: "li_id ` set xs \<subseteq> dom env \<Longrightarrow> small_ev (vars_tuple xs) env = Some (SV_Tuple (var_values xs env))"
proof -
  assume "li_id ` set xs \<subseteq> dom env"
  then have "those_values (map (\<lambda>x. env (li_id x)) xs) = Some (var_values xs env)" by (induction xs) auto
  then show ?thesis by (simp add: vars_tuple_def o_def)
qed

lemma small_sem_ok: "sem_ok small_sem"
proof -
  have "dom m = set (pattern_ids p)" if "small_match p v = Some m" for p v m
    using that by (cases p rule: small_match.cases [of "(p, v)" for p]) (auto split: if_splits)
  then show ?thesis by (simp add: sem_ok_def small_sem_def small_ev_vars image_subset_iff)
qed

definition plain_lib :: text_lib where
  "plain_lib = \<lparr>replace_all = (\<lambda>r by s. s), to_snake_case = (\<lambda>s. s), to_title_case = (\<lambda>s. s)\<rparr>"

definition fresh_codegen :: codegen where
  "fresh_codegen = \<lparr>cg_id_map = Map.empty, cg_id_counter = 0, cg_reported = False\<rparr>"

text \<open>\<open>let mut x = 7; for i in 0..3 { x = i; } x\<close>\<close>

abbreviation local_x :: local_ident where
  "local_x \<equiv> LocalIdent 0 ''x'' True"

definition loop_block :: block where
  "loop_block = Block
     [S_LetBinding (P_IdentPat (Local local_x) True) None (E_Lit (L_Usize 7)) None None,
      S_ForLoop (Some (Local (LocalIdent 1 ''i'' False))) (E_Lit (L_Usize 0)) (E_Lit (L_Usize 3))
        (Block [S_Reassignment (Local local_x) None (E_Named (Local (LocalIdent 1 ''i'' False))) None None]
           (Some (MutatedInfo None {|local_x|} (S_ReturnExp (E_Tuple [E_Named (Local local_x)]) None)))
           (Some (Consumed, UnitTyp)) (Some False) smv_new {||}),
      S_ReturnExp (E_Named (Local local_x)) None]
     None (Some (Consumed, T_Usize)) (Some False) smv_new {||}"

lemma sorted_list_of_fset_single [simp]: "sorted_list_of_fset {|x|} = [x]"
  by (simp add: sorted_list_of_fset.rep_eq)


end
