(* ===== verification/Fstar_Names.thy ===== *)
theory Fstar_Names
  imports Fstar_Semantics
begin

text \<open>
  The names that \<open>Fstar_Backend\<close> prints for local variables. The table \<open>ID_MAP\<close> gives every identifier of the program a number of its own, which follows the name in the text. The invariant
  \<open>codegen_ok\<close> of the table and the counter is kept by every step of the back end, and entries are never changed, so that a variable is printed in the same way everywhere and different
  variables are printed differently. The temporary of an array update takes its key from the counter of the numbers: it is new when the identifiers printed so far are below the counter.
\<close>

section \<open>The invariant\<close>

definition codegen_ok :: "codegen \<Rightarrow> bool" where
  "codegen_ok s \<longleftrightarrow> inj_on (cg_id_map s) (dom (cg_id_map s)) \<and> ran (cg_id_map s) \<subseteq> {..<cg_id_counter s}"

definition extends :: "codegen \<Rightarrow> codegen \<Rightarrow> bool" where
  "extends s s' \<longleftrightarrow> (codegen_ok s \<longrightarrow> codegen_ok s') \<and> cg_id_map s \<subseteq>\<^sub>m cg_id_map s' \<and> cg_id_counter s \<le> cg_id_counter s'"

text \<open>Every state that a computation ends in extends the state \<open>s\<close>.\<close>

definition grows :: "codegen \<Rightarrow> ('a \<times> codegen) option \<Rightarrow> bool" where
  "grows s r \<longleftrightarrow> (\<forall>y s'. r = Some (y, s') \<longrightarrow> extends s s')"

lemma extends_refl [simp]: "extends s s"
  by (simp add: extends_def)

lemma extends_trans: "extends s s1 \<Longrightarrow> extends s1 s2 \<Longrightarrow> extends s s2"
  unfolding extends_def using map_le_trans by fastforce

lemma extends_reported [simp]: "extends s (s'\<lparr>cg_reported := b\<rparr>) \<longleftrightarrow> extends s s'"
  by (simp add: extends_def codegen_ok_def)

lemma grows_Some: "extends s s' \<Longrightarrow> grows s (Some (y, s'))"
  by (simp add: grows_def)

lemma grows_None: "grows s None"
  by (simp add: grows_def)

lemma grows_bind: "grows s r \<Longrightarrow> (\<And>y s'. extends s s' \<Longrightarrow> grows s (g y s')) \<Longrightarrow> grows s (r \<bind> (\<lambda>(y, s'). g y s'))"
  by (cases r) (auto simp: grows_def)

lemma grows_bind_pure: "(\<And>y. grows s (g y)) \<Longrightarrow> grows s (x \<bind> g)"
  by (cases x) (auto simp: grows_def)

lemma grows_if: "(b \<Longrightarrow> grows s r) \<Longrightarrow> (\<not> b \<Longrightarrow> grows s r') \<Longrightarrow> grows s (if b then r else r')"
  by simp

lemma grows_prod: "(\<And>x y. z = (x, y) \<Longrightarrow> grows s (g x y)) \<Longrightarrow> grows s (case z of (x, y) \<Rightarrow> g x y)"
  by (cases z) simp

lemma grows_option: "grows s r \<Longrightarrow> (\<And>x. z = Some x \<Longrightarrow> grows s (g x)) \<Longrightarrow> grows s (case z of None \<Rightarrow> r | Some x \<Rightarrow> g x)"
  by (cases z) simp_all

lemma grows_trans: "extends s s1 \<Longrightarrow> grows s1 r \<Longrightarrow> grows s r"
  unfolding grows_def using extends_trans by blast

lemma extends_fresh: "extends s (s\<lparr>cg_id_counter := cg_id_counter s + 1\<rparr>)"
  by (auto simp: extends_def codegen_ok_def)

lemma extends_codegen_id: "extends s (snd (codegen_id i s))"
proof (cases "cg_id_map s i")
  case None
  have "codegen_ok (s\<lparr>cg_id_counter := cg_id_counter s + 1, cg_id_map := (cg_id_map s)(i \<mapsto> cg_id_counter s)\<rparr>)" if s: "codegen_ok s"
  proof -
    have "cg_id_map s j \<noteq> Some (cg_id_counter s)" for j using s by (force simp: codegen_ok_def ran_def)
    moreover have "c < cg_id_counter s" if "cg_id_map s j = Some c" for j c using s that by (auto simp: codegen_ok_def ran_def)
    ultimately show ?thesis using s None
      by (auto simp: codegen_ok_def inj_on_def ran_def dom_def split: if_splits intro: less_SucI)
  qed
  with None show ?thesis by (auto simp: extends_def codegen_id_def fresh_codegen_id_def map_le_def)
qed (simp add: codegen_id_def)

lemma extends_ident: "extends s (snd (translate_ident lib x s))"
  using extends_codegen_id by (cases x) (auto simp: translate_ident_def split_beta Let_def)

lemma grows_ident:
  "extends s s1 \<Longrightarrow> (\<And>x s'. extends s s' \<Longrightarrow> grows s (g x s')) \<Longrightarrow> grows s (let (x, s') = translate_ident lib i s1 in g x s')"
  using extends_trans [OF _ extends_ident] by (simp add: split_beta Let_def)

lemma grows_fresh:
  "extends s s1 \<Longrightarrow> (\<And>x s'. extends s s' \<Longrightarrow> grows s (g x s')) \<Longrightarrow> grows s (let (x, s') = fresh_codegen_id s1 in g x s')"
  using extends_trans [OF _ extends_fresh] by (simp add: fresh_codegen_id_def)

lemma grows_let: "grows s (g x) \<Longrightarrow> grows s (let y = x in g y)"
  by simp

lemmas grows_intros = grows_Some grows_None grows_bind grows_bind_pure grows_if grows_ident grows_fresh grows_let grows_prod grows_option extends_refl

lemma grows_mapS: "(\<And>x s. x \<in> set xs \<Longrightarrow> grows s (f x s)) \<Longrightarrow> grows s (mapS f xs s)"
proof (induction xs arbitrary: s)
  case (Cons x xs)
  note ih = Cons.prems [OF list.set_intros(1)] Cons.IH [OF Cons.prems [OF list.set_intros(2)]]
  show ?case unfolding mapS.simps by (rule grows_intros ih grows_trans [OF _ ih(2)] | assumption)+
qed (simp add: grows_Some)

section \<open>Every step keeps it\<close>

lemma grows_pattern: "grows s (translate_pattern lib p s)"
proof (induction p arbitrary: s)
  case (P_Tuple pats)
  show ?case unfolding translate_pattern.simps by (rule grows_intros grows_mapS P_Tuple | assumption)+
next
  case (P_EnumCase ty_name name q)
  show ?case
  proof (cases q)
    case (Some p)
    show ?thesis unfolding Some translate_pattern.simps by (rule grows_intros P_EnumCase | assumption | simp add: Some)+
  qed (simp, (rule grows_intros)+)
qed (unfold translate_pattern.simps, (rule grows_intros | assumption)+)

lemma grows_map_option: "grows s (map_option (\<lambda>d. (d, s)) x)"
  by (cases x) (auto simp: grows_def)

lemma grows_binop: "grows s (translate_binop n tlc op t s)"
proof (induction n arbitrary: t)
  case (Suc n)
  show ?case
    unfolding translate_binop.simps
    by (cases t; simp only: base_typ.case; (rule grows_intros grows_map_option Suc | assumption | simp only: extends_reported)+)
qed (simp add: grows_None)

lemma grows_expression: "grows s (translate_expression n lib tlc e s)"
proof (induction e arbitrary: s)
  case (E_Unary op e t)
  show ?case unfolding translate_expression.simps by (rule grows_intros E_Unary | assumption)+
next
  case (E_Binary op e1 e2 t)
  show ?case unfolding translate_expression.simps
    by (rule grows_intros E_Binary grows_trans [OF _ grows_binop] grows_trans [OF _ E_Binary(2)] | assumption)+
next
  case (E_InlineConditional c e1 e2)
  show ?case unfolding translate_expression.simps
    by (rule grows_intros E_InlineConditional grows_trans [OF _ E_InlineConditional(2)] grows_trans [OF _ E_InlineConditional(3)] | assumption)+
next
  case (E_MonadicLet c bs e w)
  note ih = E_MonadicLet(1) [OF _ snds.intros] E_MonadicLet(2)
  show ?case unfolding translate_expression.simps
    by (rule grows_intros grows_mapS grows_trans [OF _ ih(1)] grows_trans [OF _ ih(2)] | assumption)+
next
  case (E_FuncCall t f args ts)
  note ih = E_FuncCall [OF _ fsts.intros]
  show ?case unfolding translate_expression.simps by (rule grows_intros grows_mapS ih | assumption)+
next
  case (E_MethodCall sel t f args ts)
  note ih = E_MethodCall(1) [OF fsts.intros] E_MethodCall(2) [OF _ fsts.intros]
  have args: "grows s (mapS (\<lambda>a. translate_expression n lib tlc (fst a)) args s)" for s by (rule grows_mapS ih | assumption)+
  show ?case unfolding translate_expression.simps by (rule grows_intros ih grows_trans [OF _ args] | assumption)+
next
  case (E_EnumInject t c p)
  show ?case
  proof (cases p)
    case (Some e)
    show ?thesis unfolding Some translate_expression.simps by (rule grows_intros E_EnumInject | assumption | simp add: Some)+
  qed (simp only: translate_expression.simps, (rule grows_intros)+)
next
  case (E_MatchWith e arms)
  note ih = E_MatchWith(1) E_MatchWith(2) [OF _ snds.intros]
  have arms: "grows s (mapS (\<lambda>a s. do { (p, s) \<leftarrow> translate_pattern lib (fst a) s; (d, s) \<leftarrow> translate_expression n lib tlc (snd a) s; Some (g p d, s) }) arms s)" for g s
    by (rule grows_intros grows_mapS grows_pattern grows_trans [OF _ ih(2)] | assumption)+
  show ?case unfolding translate_expression.simps by (rule grows_intros ih(1) grows_trans [OF _ arms] | assumption)+
next
  case (E_ArrayIndex x e t)
  show ?case unfolding translate_expression.simps by (rule grows_intros grows_trans [OF _ E_ArrayIndex] | assumption)+
next
  case (E_NewArray a t es)
  show ?case unfolding translate_expression.simps by (rule grows_intros grows_mapS E_NewArray | assumption)+
next
  case (E_Tuple es)
  show ?case unfolding translate_expression.simps by (rule grows_intros grows_mapS E_Tuple | assumption)+
next
  case (E_FieldAccessor e f)
  show ?case unfolding translate_expression.simps by (rule grows_intros E_FieldAccessor | assumption)+
next
  case (E_IntegerCasting e t u)
  show ?case unfolding translate_expression.simps by (rule grows_intros E_IntegerCasting | assumption)+
qed (unfold translate_expression.simps, (rule grows_intros | assumption)+)

lemmas grows_steps = grows_trans [OF _ grows_expression] grows_trans [OF _ grows_pattern]

lemma grows_vars: "grows s (vars_doc lib xs s)"
proof -
  have "grows s (Some (translate_ident lib (Local i) s))" for i s
    using extends_ident [of s lib "Local i"] by (cases "translate_ident lib (Local i) s") (simp add: grows_Some)
  then show ?thesis unfolding vars_doc_def by (intro grows_bind grows_mapS grows_Some)
qed

lemma grows_loop_var:
  "extends s s1 \<Longrightarrow> (\<And>x s'. extends s s' \<Longrightarrow> grows s (g x s')) \<Longrightarrow>
    grows s (let (x, s') = (case i of Some i \<Rightarrow> translate_ident lib i s1 | None \<Rightarrow> (d, s1)) in g x s')"
  by (cases i) (simp_all add: grows_ident [unfolded Let_def])

lemma grows_if_fresh:
  "extends s s1 \<Longrightarrow> (\<And>x s'. extends s s' \<Longrightarrow> grows s (g x s')) \<Longrightarrow>
    grows s (let (x, s') = (if q then fresh_codegen_id s1 else (d, s1)) in g x s')"
  by (cases q) (simp_all add: grows_fresh [unfolded Let_def])

lemma grows_if_ident:
  "extends s s1 \<Longrightarrow> (\<And>x s'. extends s s' \<Longrightarrow> grows s (g x s')) \<Longrightarrow>
    grows s (let (x, s') = (if q then translate_ident lib i s1 else (d, s1)) in g x s')"
  by (cases q) (simp_all add: grows_ident [unfolded Let_def])

lemmas grows_stmt_intros = grows_loop_var grows_if_fresh grows_if_ident grows_intros grows_vars grows_steps

lemma grows_fterm: "grows s (print_fterm n lib tlc t s)"
proof (induction t arbitrary: s)
  case (FT_If q els xs c t1 t2 r)
  show ?case unfolding print_fterm.simps
    by (rule grows_stmt_intros grows_trans [OF _ FT_If(1)] grows_trans [OF _ FT_If(2)] grows_trans [OF _ FT_If(3)] | assumption)+
next
  case (FT_Fold q xs x e1 e2 t r)
  show ?case unfolding print_fterm.simps
    by (rule grows_stmt_intros grows_trans [OF _ FT_Fold(1)] grows_trans [OF _ FT_Fold(2)] | assumption)+
next
  case (FT_Let q pat t e r)
  show ?case unfolding print_fterm.simps by (rule grows_stmt_intros grows_trans [OF _ FT_Let] | assumption)+
next
  case (FT_Assign q x e r)
  show ?case unfolding print_fterm.simps by (rule grows_stmt_intros grows_trans [OF _ FT_Assign] | assumption)+
next
  case (FT_Update q a x e1 e2 r)
  show ?case unfolding print_fterm.simps by (rule grows_stmt_intros grows_trans [OF _ FT_Update] | assumption)+
qed (unfold print_fterm.simps, (rule grows_stmt_intros | assumption)+)

lemma grows_statements: "grows s (translate_statements n lib tlc ss p s)"
  unfolding print_fterm_eq by (rule grows_intros grows_fterm)+

lemma grows_block: "grows s (translate_block n lib tlc b u s)"
  unfolding translate_block_def by (rule grows_intros grows_statements | assumption)+

lemma grows_arg: "grows s (translate_arg lib a s)"
  unfolding translate_arg_def by (rule grows_intros | assumption)+

lemma grows_item: "grows s (translate_item n lib tlc i s)"
proof (cases i)
  case (I_FnDecl f sig b)
  show ?thesis unfolding I_FnDecl translate_item.simps
    by (rule grows_intros grows_mapS grows_arg grows_trans [OF _ grows_block] | assumption)+
next
  case (I_NaturalIntegerDecl x y e u)
  show ?thesis unfolding I_NaturalIntegerDecl translate_item.simps
    by (cases e; simp only: expression.case literal.case; (rule grows_intros)?)
      (split literal.split, intro conjI allI impI; (rule grows_intros)+)
qed (simp_all only: translate_item.simps, (rule grows_stmt_intros | assumption)+)

lemma grows_program: "grows s (translate_program n lib tlc is s)"
  unfolding translate_program_def by (rule grows_intros grows_mapS grows_item | assumption)+

section \<open>Names\<close>

declare dec_digits.simps [simp del]

text \<open>The name of a local variable before it is put into the style of F*.\<close>

definition numbered_name :: "local_ident \<Rightarrow> codegen \<Rightarrow> string" where
  "numbered_name y s = li_name y @ ''_'' @ dec_digits (the (cg_id_map s (li_id y)))"

lemma translate_local: "li_id y \<in> dom (cg_id_map s) \<Longrightarrow> translate_ident lib (Local y) s = (translate_ident_str lib (numbered_name y s), s)"
  by (auto simp: translate_ident_def codegen_id_def numbered_name_def)

fun dec_value :: "string \<Rightarrow> nat" where
  "dec_value ds = foldl (\<lambda>acc d. 10 * acc + (of_char d - 48)) 0 ds"

lemma dec_digits_value: "dec_value (dec_digits n) = n"
proof (induction n rule: dec_digits.induct)
  case (1 n)
  then show ?case by (simp add: dec_digits.simps [of n] of_char_of)
qed

lemma dec_digits_chars: "c \<in> set (dec_digits n) \<Longrightarrow> c \<noteq> CHR ''_''"
proof (induction n rule: dec_digits.induct)
  case (1 n)
  have "char_of (48 + m) \<noteq> CHR ''_''" if "m < 10" for m :: nat
  proof
    assume "char_of (48 + m) = CHR ''_''"
    then have "of_char (char_of (48 + m) :: char) = (95 :: nat)" by simp
    then show False using that by (simp add: of_char_of)
  qed
  from this [of n] this [of "n mod 10"] 1 show ?case by (auto simp: dec_digits.simps [of n] split: if_splits)
qed

lemma numbered_inj:
  assumes "a @ ''_'' @ dec_digits m = b @ ''_'' @ dec_digits n"
  shows "m = n"
proof -
  have "takeWhile (\<lambda>c. c \<noteq> CHR ''_'') (rev (a @ ''_'' @ dec_digits m)) = rev (dec_digits m)" for a m
    using dec_digits_chars [of _ m] by (simp, subst takeWhile_append2) auto
  from this [of a m] this [of b n] assms have "dec_digits m = dec_digits n" by (metis rev_rev_ident)
  then show ?thesis by (metis dec_digits_value)
qed

lemma numbered_name_inj:
  assumes "codegen_ok s" "li_id y \<in> dom (cg_id_map s)" "li_id z \<in> dom (cg_id_map s)" "numbered_name y s = numbered_name z s"
  shows "li_id y = li_id z"
proof -
  have "the (cg_id_map s (li_id y)) = the (cg_id_map s (li_id z))" using assms(4) unfolding numbered_name_def by (rule numbered_inj)
  then have "cg_id_map s (li_id y) = cg_id_map s (li_id z)" using assms(2,3) by auto
  then show ?thesis using assms(1-3) by (auto simp: codegen_ok_def dest: inj_onD)
qed

lemma numbered_name_stable: "extends s s' \<Longrightarrow> li_id y \<in> dom (cg_id_map s) \<Longrightarrow> li_id y \<in> dom (cg_id_map s') \<and> numbered_name y s' = numbered_name y s"
  unfolding extends_def numbered_name_def map_le_def by (metis domIff)



lemma tmp_fresh:
  assumes "\<forall>i \<in> dom (cg_id_map s). i < cg_id_counter s"
  shows "cg_id_map (snd (fresh_codegen_id s)) (fst (fresh_codegen_id s)) = None"
  using assms by (auto simp: fresh_codegen_id_def domIff)

end
