(* ===== verification/Spec2Isabelle.thy ===== *)
theory Spec2Isabelle
  imports Hacspec_Prelude Secret_Integers Machine_Integers Seq Arrays Byte_Buffer
    Rustspec Name_Resolution Function_Dependencies Typ_Unification Var_Context Elab_Monadic_Lets
    Typecheck_Expression Linear_Use Typecheck_Statement Elab_Readback Abstract_Integers Nat_Mod Math_Integers Signed_Integers Polynomials
    Stream_Cipher Aes Aes_Cipher Chacha20 Poly1305 Chacha20_Poly1305 Sha256 Hmac Hkdf Riot_Runqueue Riot_Bootloader
    Fstar_Backend Fstar_Semantics Fstar_Names
begin

text \<open>
  Verification of hacspec, a subset of Rust for specifications of cryptographic algorithms: its
  library of secret integers, machine integers, sequences, arrays and buffers (\<open>src/lib\<close>, \<open>src/utils/secret-integers\<close>), and its
  compiler from Rust to proof assistants (\<open>src/language\<close>).

  \<^bold>\<open>The parts of the program.\<close> A hacspec program computes with the library: secret integers on which only
  constant-time operations exist, public machine integers, and sequences, arrays and byte buffers of
  both. The compiler reads the same program from the syntax trees of rustc into the abstract syntax of
  \<open>rustspec.rs\<close>, resolves names, computes the dependencies of functions, checks types and linearity,
  eliminates question marks, and prints the result for Coq, F* or EasyCrypt. \<open>main.rs\<close> runs the phases
  one after the other and stops at the first that fails.

  \<^bold>\<open>The theories.\<close>
  \<^item> \<open>Hacspec_Prelude\<close>: \<open>usize\<close> arithmetic with its overflow panics, vectors, counted loops, and the lemmas
    on lists and words that the library components share.
  \<^item> \<open>Secret_Integers\<close>: \<open>utils/secret-integers/src/lib.rs\<close>. Operators, masks of comparisons, casts and
    conversions to bytes. The lemmas show that the constant-time comparisons return the masks of the
    comparison they are named after, and that the conversions to bytes are inverse to each other.
  \<^item> \<open>Machine_Integers\<close>: \<open>lib/src/machine_integers.rs\<close>, \<open>traits.rs\<close> and \<open>math_util/ct_util.rs\<close>. The trait \<open>Numeric\<close> is a
    record of operations with three instances; the locale \<open>ct_integer\<close> states what constant-time division
    relies on and is interpreted on the secret and public unsigned integers of every width.
  \<^item> \<open>Seq\<close>, \<open>Arrays\<close>, \<open>Byte_Buffer\<close>: \<open>seq.rs\<close>, \<open>util.rs\<close>, \<open>array.rs\<close>, \<open>transmute.rs\<close>, \<open>vec_integers.rs\<close>, \<open>buf.rs\<close>. Slices and chunks, hexadecimal
    strings, words and bytes, the chunked buffer as a refinement of a flat list of bytes. The locale \<open>seq_trait\<close> is the
    trait \<open>SeqTrait\<close>, interpreted on sequences and arrays; \<open>byte_queue\<close> is the abstract buffer.
  \<^item> \<open>Abstract_Integers\<close>, \<open>Nat_Mod\<close>, \<open>Math_Integers\<close>: \<open>utils/abstract-integers\<close> and \<open>lib/src/math_integers.rs\<close>. Integers of a fixed number of bits and residues
    over the crate \<open>num_bigint\<close>, which is a parameter with its documented behaviour as hypothesis. The lemmas show checked
    arithmetic, the round trips through bytes, the ring of residues and, for a prime modulus, inverses; and where
    the traits of \<open>math_integers.rs\<close> depart from what they are named after.
  \<^item> \<open>Signed_Integers\<close>, \<open>Polynomials\<close>: the signed public integers of \<open>machine_integers.rs\<close>, \<open>math_util/mod.rs\<close>, \<open>poly.rs\<close>, \<open>ct_poly.rs\<close> and \<open>vec_util.rs\<close>. The locale \<open>modular_integer\<close> is what the generic
    code expects of an integer type and is interpreted on signed and unsigned integers; \<open>modular_field\<close> adds the powers that invert modulo a prime. The lemmas show the inverse, the product and the
    division of polynomials; the constant-time inversion of \<open>ct_poly.rs\<close> is modelled without a proof of its result.
  \<^item> \<open>Rustspec\<close>: the syntax of \<open>rustspec.rs\<close>, the top-level context, and the result type of the phases.
  \<^item> \<open>Name_Resolution\<close>: \<open>name_resolution.rs\<close>. Resolution keeps the names, gives every use the innermost binding in scope, numbers the
    bindings freshly, and succeeds on closed blocks.
  \<^item> \<open>Function_Dependencies\<close>: \<open>function_dependency_resolution.rs\<close>.
  \<^item> \<open>Typ_Unification\<close>, \<open>Var_Context\<close>, \<open>Typecheck_Expression\<close>, \<open>Typecheck_Statement\<close>: \<open>typechecker.rs\<close>, from the predicates on types and
    unification to expressions, statements, blocks, items and programs. \<open>Linear_Use\<close> holds the semantics of moves on
    paths and the proof that accepted expressions respect it; \<open>Typecheck_Statement\<close> extends the proof to blocks and loops.
  \<^item> \<open>Elab_Monadic_Lets\<close>: \<open>elab_monadic_lets.rs\<close>, the elimination of question marks. \<open>Elab_Readback\<close> shows that the elaborated expression read back,
    with question marks for its monadic variables, is the original one.
  \<^item> \<open>Fstar_Backend\<close>: \<open>rustspec_to_fstar.rs\<close>, from the documents of the crate \<open>pretty\<close>, which are terms, to whole programs. \<open>Fstar_Semantics\<close> gives the statements
    and the printed program a meaning and shows that they agree; \<open>Fstar_Names\<close> shows that the table of names stays injective.
  \<^item> \<open>Stream_Cipher\<close>: the loop that encrypts a message with a key stream block by block, shared by the ciphers. \<open>Aes\<close>, \<open>Aes_Cipher\<close>: the block cipher and the counter mode of \<open>examples/aes\<close>,
    equal to FIPS 197 with the S-box computed from the field of the standard.
  \<^item> \<open>Chacha20\<close>, \<open>Poly1305\<close>, \<open>Chacha20_Poly1305\<close>: the programs of that name under \<open>examples\<close>, over the models of the library. The cipher is the exclusive or with
    its key stream, the authenticator is the polynomial of RFC 8439, and decryption inverts encryption and refuses every other tag.
  \<^item> \<open>Sha256\<close>, \<open>Hmac\<close>, \<open>Hkdf\<close>: the programs of that name under \<open>examples\<close>, equal to the functions of FIPS 180-4, RFC 2104 and RFC 5869. The locale
    \<open>byte_function\<close> is the interface between them.
  \<^item> \<open>Riot_Runqueue\<close>, \<open>Riot_Bootloader\<close>: the scheduler and the boot loader of \<open>examples/riot-runqueue\<close> and \<open>examples/riot-bootloader\<close>. The circular lists in two arrays refine
    lists of threads in every reachable state; the checksum never overflows and is the one of the definition.
  \<^item> This theory: the composition of the phases as in \<open>handle_crate\<close> of \<open>main.rs\<close>, and the properties that need
    several of them, above all the linearity of the parameters of accepted functions.

  \<^bold>\<open>Conventions.\<close> In the library a computation that can panic returns an option, \<open>None\<close> for the panic. In the compiler a
  phase returns a value of \<open>tc\<close>: a result with a flag for errors that were reported on the way, an error, a panic, or \<open>Diverge\<close>.
  The recursion of the type predicates follows aliases and may not end; these functions have a bound \<open>n\<close> on the depth, and
  \<open>Diverge\<close> says that the bound was reached. For unification, \<open>Typ_Unification\<close> shows that the sum of the depths of the two types,
  aliases expanded, is enough whenever the aliases have no cycle, and that a larger bound gives the same result. Widths of machine integers are kept: secret and machine integers are words of every width, \<open>usize\<close> is a natural number
  below \<open>2 ^ 64\<close> with the bound checked at every operation.

  \<^bold>\<open>Not modelled.\<close> The front ends \<open>ast_to_rustspec.rs\<close> and \<open>hir_to_rustspec.rs\<close> translate data types of rustc that are not
  part of the repository; the data they deliver on external crates is a parameter. The back ends to Coq, SSProve and EasyCrypt
  repeat the scheme of the F* back end with other texts. Source positions and messages are erased, contracts (\<open>requires\<close> and \<open>ensures\<close>) and item tags are left out of the syntax. In the library
  the secret integers of \<open>math_integers.rs\<close>, whose traits are
  mostly unimplemented, and some element-wise operators of \<open>vec_integers.rs\<close> are left for later, as are the other examples.
\<close>

section \<open>The phases of the compiler\<close>

text \<open>
  The body of the loop of \<open>handle_crate\<close> in \<open>language/src/main.rs\<close> that checks one module: names, dependencies
  and types. \<open>k\<close>, \<open>kd\<close> and \<open>ke\<close> are the three counters of fresh numbers.
\<close>

definition check_module :: "nat \<Rightarrow> (string list \<Rightarrow> external_data) \<Rightarrow> item list \<Rightarrow> top_level_context \<Rightarrow> nat \<Rightarrow> nat \<Rightarrow> nat \<Rightarrow>
    (item list \<times> top_level_context \<times> nat \<times> nat \<times> nat) tc" where
  "check_module n external_data krate new_top_ctx k kd ke =
     tc_bind (resolve_crate external_data krate new_top_ctx k) (\<lambda>(krate, new_top_ctx, k).
     tc_bind (dep_crate new_top_ctx krate kd) (\<lambda>(krate, kd).
     tc_bind (typecheck_program n krate new_top_ctx ke) (\<lambda>(krate, new_top_ctx, ke).
     tc_return (krate, new_top_ctx, k, kd, ke))))"

section \<open>Resolved functions\<close>

text \<open>The parameters of a function and the variables of its body have distinct numbers.\<close>

fun fn_resolved :: "item \<Rightarrow> bool" where
  "fn_resolved (I_FnDecl f sig b) =
     (\<exists>xs. map fst (sig_args_of sig) = map Local xs \<and> distinct (map li_id xs @ block_bound b))"
| "fn_resolved i = True"

lemma resolve_args_ok:
  assumes "resolve_args args (lookup_name \<Gamma>) k = Ok (args', nc', k') rep"
  shows "\<exists>xs. map fst args' = map Local xs \<and> nc' = lookup_name (rev xs @ \<Gamma>) \<and> fresh k k' (map li_id xs)"
  using assms
proof (induction args arbitrary: \<Gamma> k args' rep)
  case (Cons a args)
  obtain x t where a: "a = (x, t)" by (cases a)
  with Cons.prems obtain s where s: "x = Unresolved s" by (cases x) auto
  let ?x = "LocalIdent k s False"
  from Cons.prems a s obtain args1 r where "resolve_args args (lookup_name (?x # \<Gamma>)) (Suc k) = Ok (args1, nc', k') r"
      and args': "args' = (Local ?x, t) # args1"
    by (auto simp: to_fresh_ident_def lookup_name_Cons elim!: tc_bind_someE split: prod.split_asm)
  from Cons.IH [OF this(1)] obtain xs where "map fst args1 = map Local xs" "nc' = lookup_name (rev xs @ ?x # \<Gamma>)"
      "fresh (Suc k) k' (map li_id xs)" by blast
  then show ?case by (intro exI [of _ "?x # xs"]) (fastforce simp: args' fresh_def)
qed simp

lemma resolve_item_fn_resolved:
  assumes "resolve_item tlc i k = Ok (i', k') rep"
  shows "fn_resolved i'"
proof (cases i)
  case (I_FnDecl f sig b)
  with assms obtain args nc k1 r1 b' r2 where
      args: "resolve_args (sig_args_of sig) (lookup_name []) k = Ok (args, nc, k1) r1"
      and b: "resolve_block tlc b nc k1 = Ok (b', k') r2"
      and i': "i' = I_FnDecl f (sig\<lparr>sig_args_of := args, sig_function_dependencies := b_function_dependencies b'\<rparr>) b'"
    by (auto simp: resolve_item_def elim!: tc_bind_someE split: prod.split_asm)
  from resolve_args_ok [OF args] obtain xs where xs: "map fst args = map Local xs" "nc = lookup_name (rev xs @ [])"
      "fresh k k1 (map li_id xs)" by blast
  have "fresh k1 k' (block_bound b')" using resolve_statement_ok(2) [OF b xs(2)] by blast
  with xs(3) have "fresh k k' (map li_id xs @ block_bound b')" by blast
  with xs(1) show ?thesis by (auto simp: i' fresh_def)
qed (use assms in \<open>auto simp: resolve_item_def elim!: tc_bind_someE split: prod.split_asm\<close>)

lemma dep_args_resolved: "map fst args = map Local xs \<Longrightarrow> dep_args args k = (args, k)"
  by (induction args arbitrary: xs) (auto split: prod.splits)

lemma block_bound_stmts: "block_bound b = concat (map stmt_bound (b_stmts b))"
  by (cases b) simp

lemma dep_item_fn_resolved:
  assumes "dep_item tlc i k = Ok (i', k') rep" "fn_resolved i"
  shows "fn_resolved i'"
proof (cases i)
  case (I_FnDecl f sig b)
  with assms(2) obtain xs where xs: "map fst (sig_args_of sig) = map Local xs" "distinct (map li_id xs @ block_bound b)"
    by auto
  from assms(1) obtain b' r where b: "dep_block tlc b = Ok b' r"
      and i': "i' = I_FnDecl f (sig\<lparr>sig_function_dependencies := b_function_dependencies b'\<rparr>) b'"
    by (auto simp: dep_item_def I_FnDecl dep_args_resolved [OF xs(1)] elim!: tc_bind_someE)
  have "block_bound b' = block_bound b" by (simp add: block_bound_stmts dep_block_stmts [OF b])
  with xs show ?thesis unfolding i' by auto
qed (use assms in \<open>auto simp: dep_item_def\<close>)

section \<open>Contexts of the type checker\<close>

lemma add_args_other:
  assumes "add_args args vc = Ok vc' rep" "map fst args = map Local xs" "z \<notin> li_id ` set xs"
  shows "fmlookup (vc_vars vc') z = fmlookup (vc_vars vc) z"
  using assms by (induction args vc arbitrary: xs rep rule: add_args.induct) (fastforce elim!: tc_bind_someE)+

lemma add_args_lookup:
  assumes "add_args args vc = Ok vc' rep" "map fst args = map Local xs" "distinct (map li_id xs)" "(Local x, t) \<in> set args"
  shows "fmlookup (vc_vars vc') (li_id x) = Some (t, li_name x, li_mutable x)"
  using assms
proof (induction args arbitrary: vc xs rep)
  case (Cons a args)
  obtain y u where a: "a = (Local y, u)" using Cons.prems(2) by (cases a; cases xs) auto
  with Cons.prems(2) obtain ys where xs: "xs = y # ys" and ys: "map fst args = map Local ys" by (cases xs) auto
  from Cons.prems(1) a obtain vc1 where vc1: "add_var (Local y) u vc = Ok vc1 False" and rest: "add_args args vc1 = Ok vc' rep"
    by auto
  from vc1 have y: "fmlookup (vc_vars vc1) (li_id y) = Some (u, li_name y, li_mutable y)" by auto
  show ?case
  proof (cases "(Local x, t) \<in> set args")
    case True
    with Cons.IH [OF rest ys] Cons.prems(3) show ?thesis by (simp add: xs)
  next
    case False
    with Cons.prems(4) a have "x = y" "t = u" by auto
    with add_args_other [OF rest ys, of "li_id y"] Cons.prems(3) y show ?thesis by (simp add: xs)
  qed
qed simp

lemma typecheck_item_typ_dict: "typecheck_item n i tlc k = Ok (i', tlc', k') rep \<Longrightarrow> ctx_typ_dict tlc' = ctx_typ_dict tlc"
  unfolding typecheck_item_def check_fn_decl_def
  by (auto split: item.split_asm prod.split_asm option.split_asm if_split_asm elim!: tc_bind_someE simp: Let_def)

lemma is_copy_typ_dict: "ctx_typ_dict tlc = ctx_typ_dict tlc' \<Longrightarrow> is_copy n tlc t = is_copy n tlc' t"
proof (induction n arbitrary: t)
  case (Suc n)
  then have eq: "is_copy n tlc = is_copy n tlc'" by (auto simp: fun_eq_iff)
  show ?case by (simp only: is_copy.simps Suc.prems eq)
qed simp

lemma check_program_item_clean:
  "check_program_item n i (tlc, k) = (Ok i' False, s) \<longleftrightarrow>
     (\<exists>tlc' k'. typecheck_item n i tlc k = Ok (i', tlc', k') False \<and> s = (tlc', k'))"
  by (auto simp: check_program_item_def closure_bind_clean)

lemma typecheck_program_item:
  assumes "typecheck_program n items tlc k = Ok (items', tlc', k') False" "i \<in> set items"
  shows "\<exists>tlc1 k1 r. ctx_typ_dict tlc1 = ctx_typ_dict tlc \<and> typecheck_item n i tlc1 k1 = Ok r False"
  using assms unfolding typecheck_program_def
proof (induction items arbitrary: tlc k items')
  case (Cons j items)
  then obtain j' tlc1 k1 js where j: "typecheck_item n j tlc k = Ok (j', tlc1, k1) False"
      and js: "check_vec (check_program_item n) items (tlc1, k1) = Ok (js, tlc', k') False"
    by (auto simp: check_vec_Cons_clean check_program_item_clean simp del: check_vec.simps)
  show ?case
  proof (cases "i = j")
    case True
    with j show ?thesis by blast
  next
    case False
    with Cons.IH [OF js] Cons.prems(2) typecheck_item_typ_dict [OF j] show ?thesis by auto
  qed
qed simp


section \<open>Properties that span the phases\<close>

lemma crate_fn_resolved:
  assumes "resolve_crate ext krate tlc k = Ok (items, tlc1, k1) r1" "dep_crate tlc1 items kd = Ok (items2, kd1) r2"
  shows "\<forall>i \<in> set items2. fn_resolved i"
proof -
  obtain tlc0 r where "check_vec (\<lambda>i k. counted (resolve_item tlc0 i k) k) krate k = Ok (items, k1) r"
    using assms(1) by (auto simp: resolve_crate_def resolve_items_def elim!: tc_bind_someE split: prod.split_asm)
  then have "\<forall>i \<in> set items. fn_resolved i"
    by (rule check_vec_Ok_all) (auto dest: resolve_item_fn_resolved)
  with assms(2) show ?thesis unfolding dep_crate_def
    by (elim check_vec_Ok_all) (auto elim!: closure_bind_someE split: prod.split_asm dest: dep_item_fn_resolved)
qed

lemma parameter_linear:
  assumes "typecheck_item n (I_FnDecl f sig b) tlc k = Ok r False" "fn_resolved (I_FnDecl f sig b)"
    and "(Local x, (Consumed, t)) \<in> set (sig_args_of sig)" "is_copy n tlc t = Ok False c" "block_path (li_id x) b p"
  shows "\<exists>a. run p True = Some a"
proof -
  from assms(1) obtain vc r1 where args: "add_args (sig_args_of sig) vc_new = Ok vc False"
      and b: "typecheck_block n tlc (sig_ret_of sig) b vc k = Ok r1 False"
    by (auto simp: typecheck_item_def check_fn_decl_def tc_bind_clean)
  from assms(2) obtain xs where xs: "map fst (sig_args_of sig) = map Local xs" "distinct (map li_id xs @ block_bound b)"
    by auto
  then have "li_id x \<in> li_id ` set xs" using assms(3) by (metis (no_types, lifting) fst_conv ident.inject(2) image_eqI image_iff image_set)
  with xs(2) have "li_id x \<notin> set (block_bound b)" by auto
  moreover have l: "fmlookup (vc_vars vc) (li_id x) = Some ((Consumed, t), li_name x, li_mutable x)"
    using add_args_lookup [OF args xs(1) _ assms(3)] xs(2) by simp
  moreover have "linear_in n tlc (li_id x) vc" using l assms(4) by (simp add: linear_in_def)
  moreover obtain b' vc' k' where "r1 = (b', vc', k')" by (cases r1)
  ultimately show ?thesis
    using block_path_linear [of n tlc "sig_ret_of sig" b vc k b' vc' k' "li_id x" p] b assms(5) by (auto simp: in_vars_def)
qed




definition seq_fn :: "ident \<Rightarrow> function_dependencies \<Rightarrow> item" where
  "seq_fn x d = I_FnDecl (TopLevelIdent ''f'' K_Function)
     \<lparr>sig_args_of = [(x, (Consumed, T_Seq T_UInt8))], sig_ret_of = T_Seq T_UInt8, sig_mutable_vars = smv_new,
       sig_function_dependencies = d\<rparr>
     (Block [S_ReturnExp (E_Named x) None] None None None smv_new d)"

lemma seq_fn_resolves:
  "\<exists>tlc1. resolve_crate no_data [seq_fn (Unresolved ''s'') {||}] const_example 0 =
     Ok ([seq_fn (Local (LocalIdent 0 ''s'' False)) {||}], tlc1, 1) False \<and> ctx_typ_dict tlc1 = Map.empty"
  by (simp add: resolve_crate_def enrich_with_external_crates_symbols_def get_imported_crates_def no_data_def
      insert_external_typs_def seq_fn_def process_decl_item_def resolve_items_def resolve_item_def counted_def
      to_fresh_ident_def resolve_block.simps tc_return_def Let_def insert_fn_def const_example_def)

lemma seq_fn_depends:
  "dep_crate tlc [seq_fn (Local (LocalIdent 0 ''s'' False)) {||}] 0 = Ok ([seq_fn (Local (LocalIdent 0 ''s'' False)) {||}], 0) False"
  by (simp add: dep_crate_def dep_item_def seq_fn_def dep_block.simps set_dependencies_def tc_return_def)

lemma seq_fn_checks:
  assumes "ctx_typ_dict tlc = Map.empty"
  shows "\<exists>res. typecheck_program 2 [seq_fn (Local (LocalIdent 0 ''s'' False)) {||}] tlc 0 = Ok res False"
  using assms by (simp add: typecheck_program_def check_program_item_def typecheck_item_def check_fn_decl_def seq_fn_def
      check_defs eval_nat_numeral vc_defs Let_def)

lemma seq_fn_accepted: "\<exists>res. check_module 2 no_data [seq_fn (Unresolved ''s'') {||}] const_example 0 0 0 = Ok res False"
proof -
  obtain tlc1 where r: "resolve_crate no_data [seq_fn (Unresolved ''s'') {||}] const_example 0 =
      Ok ([seq_fn (Local (LocalIdent 0 ''s'' False)) {||}], tlc1, 1) False" and d: "ctx_typ_dict tlc1 = Map.empty"
    using seq_fn_resolves by blast
  from seq_fn_checks [OF d] r show ?thesis by (auto simp: check_module_def seq_fn_depends tc_return_def)
qed


section \<open>The variable of a loop\<close>

definition loop_example :: block where
  "loop_example = Block
     [S_ForLoop (Some (Unresolved ''i'')) (E_Lit (L_Usize 0)) (E_Lit (L_Usize 5)) (Block [] None None None smv_new {||}),
      S_ReturnExp (E_Named (Unresolved ''i'')) None] None None None smv_new {||}"

definition usize_context :: var_context where
  "usize_context = \<lparr>vc_vars = fmap_of_list [(0, ((Consumed, T_Usize), ''i'', False))], vc_mutable_vars = fmempty\<rparr>"


section \<open>The type checker and the F* back end\<close>

text \<open>\<open>if true { a[0] = e?; } a\<close>, annotated as the type checker does.\<close>

definition lost_mark_inner :: "statement list" where
  "lost_mark_inner = [S_ArrayUpdate (Local (LocalIdent 0 ''a'' True)) (E_Lit (L_Usize 0)) (E_Named (Local (LocalIdent 1 ''e'' False)))
     None (Some (smv_new, {||})) (Some (Consumed, T_Seq T_Usize))]"

definition lost_mark_stmts :: "bool \<Rightarrow> statement list" where
  "lost_mark_stmts q =
     (let mi = MutatedInfo None {|LocalIdent 0 ''a'' True|} (S_ReturnExp (E_Tuple [E_Named (Local (LocalIdent 0 ''a'' True))]) None) in
      [S_Conditional (E_Lit (L_Bool True)) (Block lost_mark_inner (Some mi) (Some (Consumed, UnitTyp)) (Some q) smv_new {||}) None (Some mi),
       S_ReturnExp (E_Named (Local (LocalIdent 0 ''a'' True))) None])"


end
